(* ===== verification/Morphl_Prelude.thy ===== *)
theory Morphl_Prelude
  imports Main "HOL-Library.Word" "HOL-Library.Multiset"
begin

text \<open>
  Shared vocabulary of the development: the C string views \<open>Str\<close> of
  \<open>include/util/util.h\<close>, the character classes of \<open>ctype.h\<close> in the C locale,
  \<open>size_t\<close> arithmetic, the capacity-doubling loop that every growable array of the program
  uses, and the generic list lemmas the component theories share.

  Conventions.  A \<open>Str\<close> is \<open>None\<close> for a view whose \<open>ptr\<close> is \<open>NULL\<close> and
  \<open>Some bytes\<close> otherwise; a byte is a \<open>char\<close>.  \<open>size_t\<close> and \<open>Sym\<close> values are
  \<open>nat\<close>; where the code subtracts or truncates them the wrap-around is written out.
  Calls of \<open>malloc\<close>, \<open>calloc\<close> and \<open>realloc\<close> are taken to succeed; the
  fixed-size arenas of the program, whose exhaustion is the program's own logic, are modelled.
\<close>

unbundle bit_operations_syntax

named_theorems intern_laws \<open>what a symbol table promises its clients\<close>
named_theorems codec_laws \<open>decoding after encoding\<close>
named_theorems stack_laws \<open>push, pop and top of the context stacks\<close>

section \<open>String views\<close>

type_synonym str = "string option"

definition str_from :: "string \<Rightarrow> str" where
  "str_from bytes = Some bytes"

definition str_len :: "str \<Rightarrow> nat" where
  "str_len s = (case s of None \<Rightarrow> 0 | Some b \<Rightarrow> length b)"

definition str_bytes :: "str \<Rightarrow> string" where
  "str_bytes s = (case s of None \<Rightarrow> [] | Some b \<Rightarrow> b)"

text \<open>\<open>str_eq\<close>: equal lengths, and either both empty or equal memory.\<close>

definition str_eq :: "str \<Rightarrow> str \<Rightarrow> bool" where
  "str_eq a b \<longleftrightarrow> str_len a = str_len b \<and> (str_len a = 0 \<or> str_bytes a = str_bytes b)"

lemma str_len_bytes: "str_len s = length (str_bytes s)"
  by (simp add: str_len_def str_bytes_def split: option.split)

lemma str_bytes_simps [simp]: "str_bytes None = []" "str_bytes (Some b) = b"
  by (simp_all add: str_bytes_def)

lemma str_len_simps [simp]: "str_len None = 0" "str_len (Some b) = length b"
  by (simp_all add: str_len_def)

lemma str_eq_iff: "str_eq a b \<longleftrightarrow> str_bytes a = str_bytes b"
  by (auto simp: str_eq_def str_len_bytes)

text \<open>A C string: the bytes up to the first NUL.\<close>

definition c_str :: "string \<Rightarrow> string" where
  "c_str s = takeWhile (\<lambda>c. c \<noteq> CHR 0x00) s"

lemma c_str_append: "CHR 0x00 \<notin> set a \<Longrightarrow> c_str (a @ b) = a @ c_str b"
  by (induction a) (auto simp: c_str_def)

lemma c_str_id: "CHR 0x00 \<notin> set a \<Longrightarrow> c_str a = a"
  using c_str_append [of a "[]"] by (simp add: c_str_def)

section \<open>Character classes\<close>

definition isdigit :: "char \<Rightarrow> bool" where
  "isdigit c \<longleftrightarrow> (let n = (of_char c :: nat) in 48 \<le> n \<and> n \<le> 57)"

definition isalpha :: "char \<Rightarrow> bool" where
  "isalpha c \<longleftrightarrow> (let n = (of_char c :: nat) in (65 \<le> n \<and> n \<le> 90) \<or> (97 \<le> n \<and> n \<le> 122))"

definition isalnum :: "char \<Rightarrow> bool" where
  "isalnum c \<longleftrightarrow> isalpha c \<or> isdigit c"

definition isspace :: "char \<Rightarrow> bool" where
  "isspace c \<longleftrightarrow> (let n = (of_char c :: nat) in n = 32 \<or> (9 \<le> n \<and> n \<le> 13))"

lemma isdigit_not_isalpha: "isdigit c \<Longrightarrow> \<not> isalpha c"
  by (auto simp: isdigit_def isalpha_def Let_def)

section \<open>size_t arithmetic\<close>

definition size_max :: nat where
  "size_max = 2 ^ 64 - 1"

text \<open>\<open>a - b\<close> on \<open>size_t\<close>: wraps modulo \<open>2 ^ 64\<close> when \<open>b\<close> is larger.\<close>

definition size_sub :: "nat \<Rightarrow> nat \<Rightarrow> nat" where
  "size_sub a b = (if b \<le> a then a - b else a + 2 ^ 64 - b)"

lemma size_sub_add [simp]: "size_sub (a + b) b = a"
  by (simp add: size_sub_def)

lemma size_sub_le: "b \<le> a \<Longrightarrow> size_sub a b = a - b"
  by (simp add: size_sub_def)

section \<open>Decimal numerals\<close>

definition digit_char :: "nat \<Rightarrow> char" where
  "digit_char d = char_of (48 + d)"

text \<open>What \<open>printf("%u")\<close> writes for a natural number.\<close>

fun nat_str :: "nat \<Rightarrow> string" where
  "nat_str n = (if n < 10 then [digit_char n] else nat_str (n div 10) @ [digit_char (n mod 10)])"

declare nat_str.simps [simp del]

section \<open>Growing arrays\<close>

text \<open>
  The loop \<open>while (new_cap < needed) new_cap *= 2;\<close>.  A start value of zero would not
  move, so the guard carries it: the callers start from a positive constant.
\<close>

function double_until :: "nat \<Rightarrow> nat \<Rightarrow> nat" where
  "double_until c needed = (if 0 < c \<and> c < needed then double_until (c * 2) needed else c)"
  by pat_completeness auto
termination
  by (relation "measure (\<lambda>(c, needed). needed - c)") auto

declare double_until.simps [simp del]

lemma double_until_ge: "0 < c \<Longrightarrow> needed \<le> double_until c needed"
  by (induction c needed rule: double_until.induct)
    (subst double_until.simps, auto)

lemma double_until_ge_start: "c \<le> double_until c needed"
proof (induction c needed rule: double_until.induct)
  case (1 c needed)
  show ?case
  proof (cases "0 < c \<and> c < needed")
    case True
    with "1.IH" have "c * 2 \<le> double_until (c * 2) needed" by simp
    with True show ?thesis by (simp add: double_until.simps [of c needed])
  next
    case False
    then show ?thesis by (auto simp: double_until.simps [of c needed])
  qed
qed

text \<open>
  The body all \<open>ensure_..._capacity\<close> helpers share: nothing when the capacity suffices,
  otherwise double it, or start at \<open>start\<close>, until it does.
\<close>

definition grow_capacity :: "nat \<Rightarrow> nat \<Rightarrow> nat \<Rightarrow> nat" where
  "grow_capacity start cap needed =
     (if needed \<le> cap then cap
      else double_until (if cap \<noteq> 0 then cap * 2 else start) needed)"

lemma grow_capacity_needed: "0 < start \<Longrightarrow> needed \<le> grow_capacity start cap needed"
  by (auto simp: grow_capacity_def intro: double_until_ge)

lemma grow_capacity_mono: "cap \<le> grow_capacity start cap needed"
  using double_until_ge_start [of "cap * 2" needed] by (simp add: grow_capacity_def)

text \<open>
  What a client of \<open>ensure_..._capacity\<close> relies on: after the call the capacity covers the
  number of elements asked for, and it never shrinks.
\<close>

locale growth_policy =
  fixes ensure :: "nat \<Rightarrow> nat \<Rightarrow> nat"
  assumes ensure_needed: "needed \<le> ensure cap needed"
    and ensure_mono: "cap \<le> ensure cap needed"
begin

lemma append_in_bounds: "n < ensure cap (n + 1)"
  using ensure_needed [of "n + 1" cap] by simp

lemma ensure_keeps_elements: "n \<le> cap \<Longrightarrow> n \<le> ensure cap needed"
  using ensure_mono [of cap needed] by simp

end

section \<open>Lists\<close>

lemma sum_list_Suc_ge_length: "length xs \<le> (\<Sum>x\<leftarrow>xs. f x + Suc 0)"
  by (induction xs) auto

lemma concat_map_concat:
  "concat (map f (concat xss)) = concat (map (\<lambda>xs. concat (map f xs)) xss)"
  by (induction xss) auto

lemma find_map_option: "find P (map f xs) = map_option f (find (P \<circ> f) xs)"
  by (induction xs) auto

lemma nth_append_length_plus: "(xs @ ys) ! (length xs + i) = ys ! i"
  by simp

lemma takeWhile_dropWhile_length:
  "length (takeWhile P xs) + length (dropWhile P xs) = length xs"
  by (metis length_append takeWhile_dropWhile_id)

lemma list_update_split:
  "i < length xs \<Longrightarrow> xs[i := y] = take i xs @ y # drop (Suc i) xs"
  by (rule upd_conv_take_nth_drop)

end
