(* ===== verification/Intern_Table.thy ===== *)
theory Intern_Table
  imports Morphl_Prelude
begin

text \<open>
  The bump arena and the intern table of \<open>src/util/util.c\<close>.

  The arena hands out offsets of one block of \<open>cap\<close> bytes and refuses a request that does not
  fit.  The intern table is an open-addressing hash set of strings (\<open>slots\<close>, linear probing,
  FNV-1a hash, power-of-two capacity) beside the array \<open>index\<close> that gives each string its
  1-based symbol.  \<open>table_inv\<close> is the table's invariant; the main results are that interning
  keeps it, never spins, and refines the obvious function on the list of interned strings.
\<close>

section \<open>The arena\<close>

record arena =
  a_cap :: nat
  a_off :: nat

definition arena_init :: "nat \<Rightarrow> arena" where
  "arena_init n = \<lparr>a_cap = n, a_off = 0\<rparr>"

definition arena_free :: "arena \<Rightarrow> arena" where
  "arena_free a = a\<lparr>a_cap := 0, a_off := 0\<rparr>"

text \<open>\<open>arena_push\<close>: the offset of the new chunk and the advanced arena, or \<open>None\<close>.\<close>

definition arena_push :: "arena \<Rightarrow> nat \<Rightarrow> (nat \<times> arena) option" where
  "arena_push a n =
     (if a_off a + n > a_cap a then None
      else Some (a_off a, a\<lparr>a_off := a_off a + n\<rparr>))"

definition str_concat :: "arena \<Rightarrow> str \<Rightarrow> str \<Rightarrow> str \<times> arena" where
  "str_concat a x y =
     (case arena_push a (str_len x + str_len y) of
        None \<Rightarrow> (None, a)
      | Some (_, a') \<Rightarrow> (Some (str_bytes x @ str_bytes y), a'))"

lemma arena_push_Some:
  "arena_push a n = Some (p, a') \<longleftrightarrow>
     a_off a + n \<le> a_cap a \<and> p = a_off a \<and> a' = a\<lparr>a_off := a_off a + n\<rparr>"
  by (auto simp: arena_push_def)

section \<open>The hash\<close>

definition hash_step :: "64 word \<Rightarrow> char \<Rightarrow> 64 word" where
  "hash_step h c = (h XOR of_nat (of_char c :: nat)) * 1099511628211"

definition hash_str :: "string \<Rightarrow> 64 word" where
  "hash_str s = foldl hash_step 1469598103934665603 s"

section \<open>The table and its probe loops\<close>

record intern_table =
  slots :: "string option list"
  t_index :: "string list"
  t_index_cap :: nat
  t_arena :: arena

abbreviation t_cap :: "intern_table \<Rightarrow> nat" where
  "t_cap t \<equiv> length (slots t)"

abbreviation t_len :: "intern_table \<Rightarrow> nat" where
  "t_len t \<equiv> length (t_index t)"

datatype probe_result = Found nat | Free nat | Spin

definition home :: "string option list \<Rightarrow> string \<Rightarrow> nat" where
  "home sl s = unat (hash_str s AND of_nat (length sl - 1))"

definition next_slot :: "string option list \<Rightarrow> nat \<Rightarrow> nat" where
  "next_slot sl i = (i + 1) AND (length sl - 1)"

text \<open>
  The \<open>while (true)\<close> loop of \<open>interns_intern\<close>.  Its index cycles through the capacity, so a
  walk of \<open>length sl\<close> steps has seen every slot; \<open>Spin\<close> is the full table in which the C loop
  would never stop (\<open>probe_not_Spin\<close> shows it is never met).
\<close>

fun probe :: "nat \<Rightarrow> string option list \<Rightarrow> string \<Rightarrow> nat \<Rightarrow> probe_result" where
  "probe 0 sl s i = Spin"
| "probe (Suc n) sl s i =
     (case sl ! i of
        None \<Rightarrow> Free i
      | Some u \<Rightarrow> if u = s then Found i else probe n sl s (next_slot sl i))"

text \<open>The inner loop of \<open>intern_table_grow\<close>: the first empty slot from the home position.\<close>

fun probe_empty :: "nat \<Rightarrow> string option list \<Rightarrow> nat \<Rightarrow> nat option" where
  "probe_empty 0 sl i = None"
| "probe_empty (Suc n) sl i =
     (case sl ! i of None \<Rightarrow> Some i | Some _ \<Rightarrow> probe_empty n sl (next_slot sl i))"

definition rehash_into :: "string option list \<Rightarrow> string \<Rightarrow> string option list" where
  "rehash_into sl s =
     (case probe_empty (length sl) sl (home sl s) of
        None \<Rightarrow> sl
      | Some i \<Rightarrow> sl[i := Some s])"

fun rehash :: "string option list \<Rightarrow> string option list \<Rightarrow> string option list" where
  "rehash [] new_slots = new_slots"
| "rehash (None # old) new_slots = rehash old new_slots"
| "rehash (Some s # old) new_slots = rehash old (rehash_into new_slots s)"

definition intern_table_grow :: "intern_table \<Rightarrow> intern_table" where
  "intern_table_grow t =
     (let new_cap = (if t_cap t \<noteq> 0 then t_cap t * 2 else 64)
      in t\<lparr>slots := rehash (slots t) (replicate new_cap None)\<rparr>)"

definition interns_new :: intern_table where
  "interns_new =
     intern_table_grow \<lparr>slots = [], t_index = [], t_index_cap = 0, t_arena = arena_init 65536\<rparr>"

definition ensure_index_capacity :: "nat \<Rightarrow> nat \<Rightarrow> nat" where
  "ensure_index_capacity = grow_capacity 64"

text \<open>The scan of \<open>index\<close> for the stable id of a string, 0 when it is absent.\<close>

fun scan_index :: "string list \<Rightarrow> string \<Rightarrow> nat \<Rightarrow> nat" where
  "scan_index [] s i = 0"
| "scan_index (u # us) s i = (if u = s then i + 1 else scan_index us s (i + 1))"

definition interns_intern :: "intern_table \<Rightarrow> str \<Rightarrow> nat \<times> intern_table" where
  "interns_intern t0 str = (case str of
     None \<Rightarrow> (0, t0)
   | Some s \<Rightarrow>
      (let t = (if t_len t0 * 2 \<ge> t_cap t0 then intern_table_grow t0 else t0) in
       case probe (t_cap t) (slots t) s (home (slots t) s) of
         Spin \<Rightarrow> (0, t)
       | Found i \<Rightarrow> (scan_index (t_index t) s 0 mod 2 ^ 32, t)
       | Free i \<Rightarrow>
          (case arena_push (t_arena t) (length s + 1) of
             None \<Rightarrow> (0, t)
           | Some (_, a) \<Rightarrow>
              (let t' = t\<lparr>slots := (slots t)[i := Some s],
                          t_index := t_index t @ [s],
                          t_index_cap := ensure_index_capacity (t_index_cap t) (t_len t + 1),
                          t_arena := a\<rparr>
               in (t_len t' mod 2 ^ 32, t')))))"

definition interns_lookup :: "intern_table \<Rightarrow> nat \<Rightarrow> str" where
  "interns_lookup t sy =
     (if sy = 0 then None
      else let id = sy - 1 in if id \<ge> t_len t then None else Some (t_index t ! id))"

interpretation index_growth: growth_policy ensure_index_capacity
  by unfold_locales
    (simp_all add: ensure_index_capacity_def grow_capacity_needed grow_capacity_mono)

section \<open>Masks are remainders\<close>

lemma and_pow2_mask: "(n::nat) AND (2 ^ k - 1) = n mod 2 ^ k"
proof -
  have "n AND mask k = n mod 2 ^ k"
    by (simp add: take_bit_eq_mask [symmetric] take_bit_eq_mod)
  then show ?thesis by (simp only: mask_eq_exp_minus_1)
qed

lemma unat_and_pow2_mask: "unat ((w :: 64 word) AND of_nat (2 ^ k - 1)) = unat w mod 2 ^ k"
proof -
  have "(of_nat (2 ^ k - 1) :: 64 word) = mask k"
    by (simp add: mask_eq_exp_minus_1 of_nat_diff)
  then show ?thesis
    by (simp only: take_bit_eq_mask [symmetric] unsigned_take_bit_eq) (simp only: take_bit_eq_mod)
qed

section \<open>Probing\<close>

text \<open>The strings held by a slot array, in slot order.\<close>

fun stored :: "string option list \<Rightarrow> string list" where
  "stored [] = []"
| "stored (None # sl) = stored sl"
| "stored (Some s # sl) = s # stored sl"

definition fetch :: "string option list \<Rightarrow> string \<Rightarrow> probe_result" where
  "fetch sl s = probe (length sl) sl s (home sl s)"

definition pow2_length :: "'a list \<Rightarrow> bool" where
  "pow2_length sl \<longleftrightarrow> (\<exists>k. length sl = 2 ^ k)"

lemma pow2_length_pos: "pow2_length sl \<Longrightarrow> 0 < length sl"
  by (auto simp: pow2_length_def)

lemma pow2_length_update [simp]: "pow2_length (sl[i := x]) = pow2_length sl"
  by (simp add: pow2_length_def)

lemma next_slot_mod: "pow2_length sl \<Longrightarrow> next_slot sl i = (i + 1) mod length sl"
  by (auto simp: pow2_length_def next_slot_def and_pow2_mask simp del: One_nat_def)

lemma next_slot_less: "pow2_length sl \<Longrightarrow> next_slot sl i < length sl"
  using pow2_length_pos [of sl] by (simp add: next_slot_mod)

lemma home_less: "pow2_length sl \<Longrightarrow> home sl s < length sl"
  by (auto simp: pow2_length_def home_def unat_and_pow2_mask simp del: One_nat_def of_nat_diff)

lemma home_update [simp]: "home (sl[i := x]) s = home sl s"
  by (simp add: home_def)

lemma next_slot_update [simp]: "next_slot (sl[i := x]) j = next_slot sl j"
  by (simp add: next_slot_def)

lemma stored_iff: "s \<in> set (stored sl) \<longleftrightarrow> Some s \<in> set sl"
  by (induction sl rule: stored.induct) auto

lemma stored_append: "stored (xs @ ys) = stored xs @ stored ys"
  by (induction xs rule: stored.induct) auto

lemma stored_replicate_None [simp]: "stored (replicate n None) = []"
  by (induction n) auto

lemma mset_stored_update:
  assumes "i < length sl" and "sl ! i = None"
  shows "mset (stored (sl[i := Some s])) = add_mset s (mset (stored sl))"
proof -
  have "sl = take i sl @ None # drop (Suc i) sl"
    using assms by (metis id_take_nth_drop)
  then have "stored sl = stored (take i sl) @ stored (drop (Suc i) sl)"
    by (metis stored.simps(2) stored_append)
  then show ?thesis
    using assms(1) by (simp add: upd_conv_take_nth_drop stored_append)
qed

lemma length_stored_full: "\<forall>x\<in>set sl. x \<noteq> None \<Longrightarrow> length (stored sl) = length sl"
  by (induction sl rule: stored.induct) auto

lemma probe_Found:
  "probe n sl s i = Found j \<Longrightarrow> pow2_length sl \<Longrightarrow> i < length sl \<Longrightarrow>
     j < length sl \<and> sl ! j = Some s"
  by (induction n arbitrary: i) (auto simp: next_slot_less split: option.splits if_splits)

lemma probe_Free:
  "probe n sl s i = Free j \<Longrightarrow> pow2_length sl \<Longrightarrow> i < length sl \<Longrightarrow>
     j < length sl \<and> sl ! j = None"
  by (induction n arbitrary: i) (auto simp: next_slot_less split: option.splits if_splits)

lemma probe_Spin:
  assumes "probe n sl s i = Spin" and "pow2_length sl" and "i < length sl" and "d < n"
  shows "sl ! ((i + d) mod length sl) \<noteq> None"
  using assms(1,3,4)
proof (induction n arbitrary: i d)
  case 0
  then show ?case by simp
next
  case (Suc n)
  show ?case
  proof (cases d)
    case 0
    with Suc.prems show ?thesis by (auto split: option.splits)
  next
    case (Suc d')
    have "probe n sl s (next_slot sl i) = Spin"
      using Suc.prems(1) by (auto split: option.splits if_splits)
    then have "sl ! ((next_slot sl i + d') mod length sl) \<noteq> None"
      using Suc.IH Suc.prems(3) \<open>d = Suc d'\<close> assms(2) by (simp add: next_slot_less)
    then show ?thesis
      using \<open>d = Suc d'\<close> assms(2) by (simp add: next_slot_mod mod_simps)
  qed
qed

lemma probe_not_Spin:
  assumes "pow2_length sl" and "i < length sl" and "length (stored sl) < length sl"
  shows "probe (length sl) sl s i \<noteq> Spin"
proof
  assume spin: "probe (length sl) sl s i = Spin"
  have "sl ! j \<noteq> None" if j: "j < length sl" for j
  proof -
    define d where "d = (j + length sl - i) mod length sl"
    have "(i + d) mod length sl = (i + (j + length sl - i)) mod length sl"
      by (simp add: d_def mod_simps)
    also have "\<dots> = j" using j assms(2) by simp
    finally have "(i + d) mod length sl = j" .
    moreover have "d < length sl"
      using pow2_length_pos [OF assms(1)] by (simp add: d_def)
    ultimately show ?thesis
      using probe_Spin [OF spin assms(1,2), of d] by simp
  qed
  then have "\<forall>x\<in>set sl. x \<noteq> None" by (auto simp: in_set_conv_nth)
  then show False using assms(3) by (simp add: length_stored_full)
qed

lemma update_other: "sl ! f = None \<Longrightarrow> sl ! i = Some u \<Longrightarrow> sl[f := x] ! i = Some u"
  by (cases "i = f") auto

lemma probe_update_other:
  "probe n sl s i = Found j \<Longrightarrow> sl ! f = None \<Longrightarrow> probe n (sl[f := Some u]) s i = Found j"
proof (induction n arbitrary: i)
  case (Suc n)
  then show ?case by (cases "sl ! i") (auto simp: update_other split: if_splits)
qed simp

lemma probe_update_self:
  assumes "pow2_length sl"
  shows "probe n sl s i = Free j \<Longrightarrow> i < length sl \<Longrightarrow> probe n (sl[j := Some s]) s i = Found j"
proof (induction n arbitrary: i)
  case (Suc n)
  have "sl ! j = None"
    using Suc.prems assms by (blast dest: probe_Free)
  with Suc assms show ?case
    by (cases "sl ! i") (auto simp: update_other next_slot_less split: if_splits)
qed simp

lemma probe_empty_Free:
  "probe_empty n sl i = Some j \<Longrightarrow> Some s \<notin> set sl \<Longrightarrow> pow2_length sl \<Longrightarrow> i < length sl \<Longrightarrow>
     probe n sl s i = Free j"
  by (induction n arbitrary: i) (auto simp: next_slot_less split: option.splits dest: nth_mem)

lemma probe_empty_None:
  "probe_empty n sl i = None \<Longrightarrow> Some s \<notin> set sl \<Longrightarrow> pow2_length sl \<Longrightarrow> i < length sl \<Longrightarrow>
     probe n sl s i = Spin"
  by (induction n arbitrary: i) (auto simp: next_slot_less split: option.splits dest: nth_mem)

section \<open>The slot array represents the index\<close>

definition hash_ok :: "string option list \<Rightarrow> string list \<Rightarrow> bool" where
  "hash_ok sl xs \<longleftrightarrow>
     pow2_length sl \<and> mset (stored sl) = mset xs \<and> distinct xs \<and>
     (\<forall>s\<in>set xs. \<exists>j. fetch sl s = Found j)"

lemma hash_ok_mem: "hash_ok sl xs \<Longrightarrow> Some s \<in> set sl \<longleftrightarrow> s \<in> set xs"
  by (metis hash_ok_def set_mset_mset stored_iff)

lemma hash_ok_length: "hash_ok sl xs \<Longrightarrow> length (stored sl) = length xs"
  by (metis hash_ok_def size_mset)

lemma hash_ok_pow2: "hash_ok sl xs \<Longrightarrow> pow2_length sl"
  by (simp add: hash_ok_def)

lemma fetch_Found:
  assumes ok: "hash_ok sl xs" and "fetch sl s = Found j"
  shows "s \<in> set xs"
proof -
  note pow = hash_ok_pow2 [OF ok]
  have "j < length sl \<and> sl ! j = Some s"
    using assms(2) pow home_less [OF pow] unfolding fetch_def by (rule probe_Found)
  then have "Some s \<in> set sl" by (metis nth_mem)
  with ok show ?thesis by (simp only: hash_ok_mem)
qed

lemma fetch_not_Spin: "hash_ok sl xs \<Longrightarrow> length xs < length sl \<Longrightarrow> fetch sl s \<noteq> Spin"
  unfolding fetch_def
  by (rule probe_not_Spin) (simp_all add: hash_ok_pow2 home_less hash_ok_length)

lemma fetch_absent:
  assumes "hash_ok sl xs" and "s \<notin> set xs" and "length xs < length sl"
  obtains j where "fetch sl s = Free j"
  using assms fetch_not_Spin [OF assms(1,3), of s]
  by (cases "fetch sl s") (auto dest: fetch_Found)

lemma hash_ok_insert:
  assumes ok: "hash_ok sl xs" and free: "fetch sl s = Free j"
  shows "hash_ok (sl[j := Some s]) (xs @ [s])"
proof -
  have pow: "pow2_length sl" using ok by (simp add: hash_ok_def)
  have j: "j < length sl" "sl ! j = None"
    using free pow by (auto simp: fetch_def home_less dest: probe_Free)
  have new: "fetch (sl[j := Some s]) s = Found j"
    using free pow by (simp add: fetch_def probe_update_self home_less)
  have old: "\<exists>i. fetch (sl[j := Some s]) u = Found i" if "u \<in> set xs" for u
    using ok that j by (fastforce simp: fetch_def hash_ok_def intro: probe_update_other)
  have "s \<notin> set xs"
    using ok free by (auto simp: hash_ok_def)
  then show ?thesis
    using ok j new old by (auto simp: hash_ok_def mset_stored_update)
qed

lemma rehash_into_eq:
  assumes "hash_ok sl xs" and "s \<notin> set xs" and "length xs < length sl"
  shows "\<exists>j. fetch sl s = Free j \<and> rehash_into sl s = sl[j := Some s]"
proof -
  obtain j where j: "fetch sl s = Free j"
    using assms by (rule fetch_absent)
  have "Some s \<notin> set sl" and pow: "pow2_length sl"
    using assms by (simp_all only: hash_ok_mem hash_ok_pow2 not_False_eq_True)
  then have "probe_empty (length sl) sl (home sl s) = Some j"
    using j home_less [OF pow, of s]
    by (cases "probe_empty (length sl) sl (home sl s)")
      (auto simp: fetch_def dest: probe_empty_Free probe_empty_None)
  with j show ?thesis by (simp add: rehash_into_def)
qed

lemma hash_ok_rehash:
  "hash_ok new xs \<Longrightarrow> distinct (xs @ stored old) \<Longrightarrow>
   length xs + length (stored old) < length new \<Longrightarrow>
     hash_ok (rehash old new) (xs @ stored old) \<and> length (rehash old new) = length new"
proof (induction old new arbitrary: xs rule: rehash.induct)
  case (3 s old new)
  then obtain j where j: "fetch new s = Free j" "rehash_into new s = new[j := Some s]"
    using rehash_into_eq [of new xs s] by auto
  have "hash_ok (rehash_into new s) (xs @ [s])"
    using "3.prems"(1) j by (simp add: hash_ok_insert)
  with "3.IH" [of "xs @ [s]"] "3.prems" j show ?case by simp
qed auto

lemma hash_ok_mset:
  assumes "hash_ok sl xs" and "mset ys = mset xs"
  shows "hash_ok sl ys"
  using assms mset_eq_setD [OF assms(2)] mset_eq_imp_distinct_iff [OF assms(2)]
  by (simp add: hash_ok_def)

lemma hash_ok_replicate: "hash_ok (replicate (2 ^ k) None) []"
  by (simp add: hash_ok_def pow2_length_def)

section \<open>The table invariant\<close>

text \<open>The bytes \<open>interns_intern\<close> has copied for the strings \<open>xs\<close>, terminators included.\<close>

definition bytes_used :: "string list \<Rightarrow> nat" where
  "bytes_used xs = (\<Sum>s\<leftarrow>xs. length s + 1)"

definition table_inv :: "intern_table \<Rightarrow> bool" where
  "table_inv t \<longleftrightarrow>
     hash_ok (slots t) (t_index t) \<and> 64 \<le> t_cap t \<and> 2 * t_len t \<le> t_cap t \<and>
     t_len t \<le> t_index_cap t \<and>
     a_cap (t_arena t) = 65536 \<and> a_off (t_arena t) = bytes_used (t_index t) \<and>
     bytes_used (t_index t) \<le> 65536"

lemma bytes_used_ge: "length xs \<le> bytes_used xs"
  using sum_list_Suc_ge_length [of xs length] by (simp add: bytes_used_def)

lemma table_inv_len: "table_inv t \<Longrightarrow> t_len t \<le> 65536"
  using bytes_used_ge [of "t_index t"] by (simp add: table_inv_def)

lemma table_inv_distinct: "table_inv t \<Longrightarrow> distinct (t_index t)"
  by (simp add: table_inv_def hash_ok_def)

lemma grow_inv:
  assumes inv: "table_inv t"
  shows "table_inv (intern_table_grow t)" "t_index (intern_table_grow t) = t_index t"
    "t_arena (intern_table_grow t) = t_arena t"
    "2 * t_len t < t_cap (intern_table_grow t)"
proof -
  let ?new = "replicate (2 * t_cap t) None :: string option list"
  have ok: "hash_ok (slots t) (t_index t)" and cap: "64 \<le> t_cap t" "2 * t_len t \<le> t_cap t"
    using inv by (simp_all add: table_inv_def)
  obtain k where "t_cap t = 2 ^ k" using ok by (auto simp: hash_ok_def pow2_length_def)
  then have new: "hash_ok ?new []" using hash_ok_replicate [of "Suc k"] by simp
  have "distinct (stored (slots t))" and len: "length (stored (slots t)) = t_len t"
    using ok mset_eq_imp_distinct_iff [of "stored (slots t)" "t_index t"]
    by (simp_all add: hash_ok_def hash_ok_length)
  then have re: "hash_ok (rehash (slots t) ?new) (stored (slots t))"
    and re_len: "length (rehash (slots t) ?new) = 2 * t_cap t"
    using hash_ok_rehash [OF new, of "slots t"] cap by auto
  have eq: "slots (intern_table_grow t) = rehash (slots t) ?new"
    using cap(1) by (auto simp: intern_table_grow_def Let_def mult.commute)
  have "hash_ok (slots (intern_table_grow t)) (t_index t)"
    unfolding eq using ok by (intro hash_ok_mset [OF re]) (simp add: hash_ok_def)
  then show "table_inv (intern_table_grow t)"
    using inv re_len eq by (simp add: table_inv_def) (simp add: intern_table_grow_def Let_def)
  show "2 * t_len t < t_cap (intern_table_grow t)"
    using cap re_len eq by simp
qed (simp_all add: intern_table_grow_def Let_def)

lemma interns_new_eq:
  "interns_new = \<lparr>slots = replicate 64 None, t_index = [], t_index_cap = 0,
     t_arena = \<lparr>a_cap = 65536, a_off = 0\<rparr>\<rparr>"
  by (simp add: interns_new_def intern_table_grow_def arena_init_def)

lemma interns_new_inv: "table_inv interns_new"
  using hash_ok_replicate [of 6]
  by (simp add: table_inv_def interns_new_eq bytes_used_def)

section \<open>Interning refines a list of names\<close>

text \<open>
  The abstract table is the list of distinct names in interning order; a name's symbol is its
  1-based position.  A new name is refused, with symbol 0, when the 64 KiB arena is full.
\<close>

definition intern_spec :: "string list \<Rightarrow> string \<Rightarrow> nat \<times> string list" where
  "intern_spec xs s =
     (if s \<in> set xs then (scan_index xs s 0, xs)
      else if bytes_used (xs @ [s]) \<le> 65536 then (length xs + 1, xs @ [s])
      else (0, xs))"

lemma scan_index_absent: "s \<notin> set xs \<Longrightarrow> scan_index xs s i = 0"
  by (induction xs arbitrary: i) auto

lemma scan_index_nth:
  "distinct xs \<Longrightarrow> k < length xs \<Longrightarrow> scan_index xs (xs ! k) i = i + k + 1"
proof (induction xs arbitrary: i k)
  case (Cons x xs)
  then show ?case by (cases k) auto
qed simp

lemma scan_index_bounds:
  "s \<in> set xs \<Longrightarrow> i < scan_index xs s i \<and> scan_index xs s i \<le> i + length xs"
proof (induction xs arbitrary: i)
  case (Cons x xs)
  then show ?case using Cons.IH [of "i + 1"] by (auto intro: Suc_lessD)
qed simp

lemma scan_index_lookup: "s \<in> set xs \<Longrightarrow> xs ! (scan_index xs s i - i - 1) = s"
proof (induction xs arbitrary: i)
  case (Cons x xs)
  show ?case
  proof (cases "x = s")
    case False
    with Cons.prems have s: "s \<in> set xs" by simp
    then have "scan_index xs s (i + 1) - i - 1 = Suc (scan_index xs s (i + 1) - (i + 1) - 1)"
      using scan_index_bounds [OF s, of "i + 1"] by arith
    with Cons.IH [OF s, of "i + 1"] False show ?thesis by simp
  qed simp
qed simp

lemma intern_refines_loaded:
  assumes inv: "table_inv t" and room: "2 * t_len t < t_cap t"
  shows "\<exists>sy t'.
    (case probe (t_cap t) (slots t) s (home (slots t) s) of
       Spin \<Rightarrow> (0, t)
     | Found i \<Rightarrow> (scan_index (t_index t) s 0 mod 2 ^ 32, t)
     | Free i \<Rightarrow>
        (case arena_push (t_arena t) (length s + 1) of
           None \<Rightarrow> (0, t)
         | Some (_, a) \<Rightarrow>
            (let t' = t\<lparr>slots := (slots t)[i := Some s],
                        t_index := t_index t @ [s],
                        t_index_cap := ensure_index_capacity (t_index_cap t) (t_len t + 1),
                        t_arena := a\<rparr>
             in (t_len t' mod 2 ^ 32, t')))) = (sy, t') \<and>
    table_inv t' \<and> (sy, t_index t') = intern_spec (t_index t) s"
proof -
  have ok: "hash_ok (slots t) (t_index t)" using inv by (simp add: table_inv_def)
  note len = table_inv_len [OF inv]
  have half: "length (t_index t) < length (slots t)" using room by simp
  show ?thesis
  proof (cases "fetch (slots t) s")
    case (Found i)
    then have "s \<in> set (t_index t)" using ok by (rule fetch_Found [rotated])
    with Found inv len scan_index_bounds [of s "t_index t" 0] show ?thesis
      by (simp add: fetch_def intern_spec_def)
  next
    case (Free i)
    have new: "s \<notin> set (t_index t)" using Free ok by (auto simp: hash_ok_def)
    have ok': "hash_ok ((slots t)[i := Some s]) (t_index t @ [s])"
      using ok Free by (rule hash_ok_insert)
    have "even (t_cap t)"
      using ok inv by (auto simp: hash_ok_def pow2_length_def table_inv_def)
        (metis dvd_refl even_power nat_power_eq_Suc_0_iff not_gr0 numeral_le_one_iff power_0 semiring_norm(69))
    then have "2 * t_len t + 2 \<le> t_cap t" using room by presburger
    with Free new inv len ok' show ?thesis
      using index_growth.ensure_needed [of "t_len t + 1" "t_index_cap t"]
      by (auto simp: fetch_def intern_spec_def table_inv_def arena_push_def bytes_used_def Let_def)
  next
    case Spin
    with fetch_not_Spin [OF ok half] show ?thesis by blast
  qed
qed

lemma interns_intern_refines:
  assumes inv: "table_inv t"
  shows "table_inv (snd (interns_intern t (Some s)))"
    and "(fst (interns_intern t (Some s)), t_index (snd (interns_intern t (Some s))))
           = intern_spec (t_index t) s"
proof -
  define u where "u = (if t_len t * 2 \<ge> t_cap t then intern_table_grow t else t)"
  have u: "table_inv u" "t_index u = t_index t" "2 * t_len u < t_cap u"
    using inv grow_inv [OF inv] by (auto simp: u_def)
  from intern_refines_loaded [OF u(1,3), of s] u(2)
  show "table_inv (snd (interns_intern t (Some s)))"
    and "(fst (interns_intern t (Some s)), t_index (snd (interns_intern t (Some s))))
           = intern_spec (t_index t) s"
    by (auto simp: interns_intern_def u_def [symmetric] Let_def simp del: arena_push_def)
qed

lemma interns_intern_None [simp]: "interns_intern t None = (0, t)"
  by (simp add: interns_intern_def)

section \<open>The symbol table as an interface\<close>

text \<open>
  What the lexer, the operator registry, the parsers and the type checker rely on: a symbol is
  stable, it looks up to the interned bytes, and equal symbols mean equal names.
\<close>

locale symbol_table =
  fixes tinv :: "'t \<Rightarrow> bool"
    and names :: "'t \<Rightarrow> string list"
    and intern :: "'t \<Rightarrow> str \<Rightarrow> nat \<times> 't"
    and lookup :: "'t \<Rightarrow> nat \<Rightarrow> str"
  assumes names_distinct: "tinv t \<Longrightarrow> distinct (names t)"
    and intern_inv: "tinv t \<Longrightarrow> tinv (snd (intern t s))"
    and intern_extends: "tinv t \<Longrightarrow> \<exists>ys. names (snd (intern t s)) = names t @ ys"
    and intern_null: "fst (intern t None) = 0"
    and intern_sound: "tinv t \<Longrightarrow> fst (intern t (Some b)) \<noteq> 0 \<Longrightarrow>
           fst (intern t (Some b)) \<le> length (names (snd (intern t (Some b)))) \<and>
           names (snd (intern t (Some b))) ! (fst (intern t (Some b)) - 1) = b"
    and intern_known: "tinv t \<Longrightarrow> b \<in> set (names t) \<Longrightarrow>
           fst (intern t (Some b)) \<noteq> 0 \<and> names (snd (intern t (Some b))) = names t"
    and lookup_names: "lookup t sy =
           (if sy = 0 \<or> length (names t) < sy then None else Some (names t ! (sy - 1)))"
begin

lemma lookup_intern:
  assumes "tinv t" and "fst (intern t s) \<noteq> 0"
  shows "lookup (snd (intern t s)) (fst (intern t s)) = s"
  using assms intern_sound [of t] intern_null by (cases s) (auto simp: lookup_names not_less)

lemma lookup_extends:
  "names u = names t @ ys \<Longrightarrow> lookup t sy = Some b \<Longrightarrow> lookup u sy = Some b"
  by (auto simp: lookup_names nth_append split: if_splits)

lemma lookup_stable:
  assumes "tinv t" and "lookup t sy = Some b"
  shows "lookup (snd (intern t s)) sy = Some b"
  using intern_extends [OF assms(1), of s] assms(2) lookup_extends by blast

lemma lookup_inj:
  assumes "tinv t" and "lookup t x = Some b" and "lookup t y = Some b"
  shows "x = y"
proof -
  have "x \<noteq> 0" "y \<noteq> 0" "x \<le> length (names t)" "y \<le> length (names t)"
    "names t ! (x - 1) = names t ! (y - 1)"
    using assms(2,3) by (auto simp: lookup_names split: if_splits)
  moreover have "x - 1 < length (names t)" "y - 1 < length (names t)"
    using calculation by auto
  ultimately have "x - 1 = y - 1"
    using nth_eq_iff_index_eq [OF names_distinct [OF assms(1)]] by blast
  with \<open>x \<noteq> 0\<close> \<open>y \<noteq> 0\<close> show ?thesis by simp
qed

lemma lookup_mem: "lookup t sy = Some b \<Longrightarrow> b \<in> set (names t)"
  by (auto simp: lookup_names split: if_splits)

lemma intern_again:
  assumes "tinv t" and "lookup t sy = Some b"
  shows "fst (intern t (Some b)) = sy" and "names (snd (intern t (Some b))) = names t"
proof -
  have nz: "fst (intern t (Some b)) \<noteq> 0" and same: "names (snd (intern t (Some b))) = names t"
    using intern_known [OF assms(1)] lookup_mem [OF assms(2)] by simp_all
  show "names (snd (intern t (Some b))) = names t" by (rule same)
  have "lookup (snd (intern t (Some b))) (fst (intern t (Some b))) = Some b"
    using assms(1) nz by (rule lookup_intern)
  then have "lookup t (fst (intern t (Some b))) = Some b"
    by (simp only: lookup_names same)
  then show "fst (intern t (Some b)) = sy"
    using assms lookup_inj by blast
qed

lemma intern_eq_iff:
  assumes "tinv t" and "lookup t sy = Some b" and "fst (intern t (Some c)) \<noteq> 0"
  shows "fst (intern t (Some c)) = sy \<longleftrightarrow> c = b"
proof
  assume "fst (intern t (Some c)) = sy"
  then have "lookup (snd (intern t (Some c))) sy = Some c"
    using lookup_intern [OF assms(1,3)] by simp
  with lookup_stable [OF assms(1,2)] show "c = b" by (metis option.inject)
next
  assume "c = b"
  with assms show "fst (intern t (Some c)) = sy" by (simp add: intern_again)
qed

end

lemma intern_spec_cases:
  assumes "table_inv t" and "interns_intern t (Some b) = (sy, t')"
  shows "table_inv t'"
    and "(b \<in> set (t_index t) \<and> t_index t' = t_index t \<and> sy = scan_index (t_index t) b 0) \<or>
         (b \<notin> set (t_index t) \<and> t_index t' = t_index t @ [b] \<and> sy = t_len t + 1) \<or>
         (b \<notin> set (t_index t) \<and> t_index t' = t_index t \<and> sy = 0)"
  using interns_intern_refines [OF assms(1), of b] assms(2)
  by (auto simp: intern_spec_def split: if_splits)

interpretation st: symbol_table table_inv t_index interns_intern interns_lookup
proof
  fix t s b sy
  show "interns_lookup t sy =
      (if sy = 0 \<or> t_len t < sy then None else Some (t_index t ! (sy - 1)))"
    by (auto simp: interns_lookup_def Let_def)
  show "fst (interns_intern t None) = 0" by simp
  assume inv: "table_inv t"
  show "distinct (t_index t)" using inv by (rule table_inv_distinct)
  show "table_inv (snd (interns_intern t s))"
    using inv interns_intern_refines(1) by (cases s) simp_all
  show "\<exists>ys. t_index (snd (interns_intern t s)) = t_index t @ ys"
    using intern_spec_cases [OF inv] by (cases s) (fastforce simp: prod_eq_iff)+
  show "fst (interns_intern t (Some b)) \<le> t_len (snd (interns_intern t (Some b))) \<and>
      t_index (snd (interns_intern t (Some b))) ! (fst (interns_intern t (Some b)) - 1) = b"
    if "fst (interns_intern t (Some b)) \<noteq> 0"
    using intern_spec_cases(2) [OF inv, of b "fst (interns_intern t (Some b))"
        "snd (interns_intern t (Some b))"] that
      scan_index_bounds [of b "t_index t" 0] scan_index_lookup [of b "t_index t" 0] by auto
  show "fst (interns_intern t (Some b)) \<noteq> 0 \<and> t_index (snd (interns_intern t (Some b))) = t_index t"
    if "b \<in> set (t_index t)"
    using intern_spec_cases(2) [OF inv, of b "fst (interns_intern t (Some b))"
        "snd (interns_intern t (Some b))"] that scan_index_bounds [of b "t_index t" 0] by auto
qed

section \<open>Tables a program can reach\<close>

inductive reachable_table :: "intern_table \<Rightarrow> bool" where
  rt_new: "reachable_table interns_new"
| rt_intern: "reachable_table t \<Longrightarrow> reachable_table (snd (interns_intern t s))"

lemma reachable_table_inv: "reachable_table t \<Longrightarrow> table_inv t"
  by (induction rule: reachable_table.induct) (simp_all add: interns_new_inv st.intern_inv)

text \<open>Later tables keep the names of earlier ones.\<close>

definition table_le :: "intern_table \<Rightarrow> intern_table \<Rightarrow> bool" where
  "table_le t u \<longleftrightarrow> (\<exists>ys. t_index u = t_index t @ ys)"

lemma table_le_refl [simp]: "table_le t t"
  by (simp add: table_le_def)

lemma table_le_trans: "table_le t u \<Longrightarrow> table_le u v \<Longrightarrow> table_le t v"
  by (auto simp: table_le_def)

lemma table_le_intern: "table_inv t \<Longrightarrow> table_le t (snd (interns_intern t s))"
  by (simp add: table_le_def st.intern_extends)

lemma table_le_lookup: "table_le t u \<Longrightarrow> interns_lookup t sy = Some b \<Longrightarrow> interns_lookup u sy = Some b"
  by (auto simp: table_le_def intro: st.lookup_extends)

text \<open>A table with the same names, whose slots may have been rebuilt.\<close>

definition same_names :: "intern_table \<Rightarrow> intern_table \<Rightarrow> bool" where
  "same_names t t' \<longleftrightarrow> table_inv t' \<and> t_index t' = t_index t"

lemma same_names_lookup: "same_names t t' \<Longrightarrow> interns_lookup t' = interns_lookup t"
  by (simp add: interns_lookup_def fun_eq_iff same_names_def Let_def)

lemma same_names_refl: "table_inv t \<Longrightarrow> same_names t t"
  by (simp add: same_names_def)

lemma same_names_trans: "same_names t t1 \<Longrightarrow> same_names t1 t2 \<Longrightarrow> same_names t t2"
  by (simp add: same_names_def)

lemma same_names_inv: "same_names t t' \<Longrightarrow> table_inv t'" "same_names t t' \<Longrightarrow> t_index t' = t_index t"
  by (simp_all add: same_names_def)

section \<open>Properties\<close>

text \<open>C10: interning implements the list of names.  On every table the program can reach, the
  returned symbol and the new name list are those of \<open>intern_spec\<close>: a known name gets its
  1-based position, a new one is appended, and a name that does not fit the 64 KiB arena is
  refused with symbol 0; the table the call leaves is again well formed.\<close>

theorem interns_intern_implements_spec:
  assumes "reachable_table t"
  shows "(fst (interns_intern t (Some s)), t_index (snd (interns_intern t (Some s))))
           = intern_spec (t_index t) s \<and> table_inv (snd (interns_intern t (Some s)))"
  using interns_intern_refines [OF reachable_table_inv [OF assms]] by simp

theorem interns_intern_implements_spec_witness:
  "(fst (interns_intern interns_new (Some ''$add'')),
    t_index (snd (interns_intern interns_new (Some ''$add'')))) = (1, [''$add''])"
  using interns_intern_implements_spec [OF rt_new, of "''$add''"]
  by (simp add: intern_spec_def interns_new_eq bytes_used_def)

text \<open>C21: symbols are stable and injective.  Once \<open>a\<close> has a symbol, every later table of the
  program still looks it up to \<open>a\<close>, interning \<open>a\<close> again returns the same symbol without adding a
  name, and another string never gets that symbol.\<close>

theorem symbols_stable_and_injective:
  assumes "reachable_table t" and "interns_intern t (Some a) = (x, t')" and "x \<noteq> 0"
    and "reachable_table u" and "table_le t' u"
    and "interns_intern u (Some b) = (y, u')" and "y \<noteq> 0"
  shows "interns_lookup u x = Some a \<and> (y = x \<longleftrightarrow> b = a) \<and> (b = a \<longrightarrow> t_index u' = t_index u)"
proof (intro conjI impI)
  note inv = reachable_table_inv [OF assms(1)] reachable_table_inv [OF assms(4)]
  have "interns_lookup t' x = Some a"
    using st.lookup_intern [OF inv(1), of "Some a"] assms(2,3) by simp
  then show x: "interns_lookup u x = Some a"
    using assms(5) by (rule table_le_lookup [rotated])
  show "y = x \<longleftrightarrow> b = a"
    using st.intern_eq_iff [OF inv(2) x, of b] assms(6,7) by simp
  show "t_index u' = t_index u" if "b = a"
    using st.intern_again(2) [OF inv(2) x] assms(6) that by simp
qed

theorem symbols_stable_and_injective_witness:
  "interns_lookup (snd (interns_intern interns_new (Some ''x''))) 1 = Some ''x'' \<and>
   fst (interns_intern (snd (interns_intern interns_new (Some ''x''))) (Some ''y'')) = 2"
proof -
  define t1 where "t1 = snd (interns_intern interns_new (Some ''x''))"
  let ?a = "interns_intern interns_new (Some ''x'')" and ?b = "interns_intern t1 (Some ''y'')"
  have a: "fst ?a = 1" "t_index t1 = [''x'']"
    using interns_intern_refines(2) [OF interns_new_inv, of "''x''"]
    by (simp_all add: t1_def intern_spec_def interns_new_eq bytes_used_def)
  have r: "reachable_table t1" unfolding t1_def by (intro rt_intern rt_new)
  have b: "fst ?b = 2"
    using interns_intern_refines(2) [OF reachable_table_inv [OF r], of "''y''"]
    by (simp add: a intern_spec_def bytes_used_def)
  have "?a = (1, t1)" "?b = (2, snd ?b)" using a b by (simp_all add: prod_eq_iff t1_def)
  then show ?thesis
    using symbols_stable_and_injective [OF rt_new, of "''x''" 1 t1 t1 "''y''" 2 "snd ?b"] r b
    by (simp add: t1_def)
qed

text \<open>The \<open>while (true)\<close> probe loops stop.  On every table the program can reach, and on the
  table the load check of \<open>interns_intern\<close> leaves, a probe finds the string or a free slot within
  one turn around the slot array, so the loop never spins.\<close>

theorem probe_terminates:
  assumes "reachable_table t"
  shows "let u = (if t_len t * 2 \<ge> t_cap t then intern_table_grow t else t)
         in probe (t_cap u) (slots u) s (home (slots u) s) \<noteq> Spin \<and> 2 * t_len u < t_cap u"
proof -
  define u where "u = (if t_len t * 2 \<ge> t_cap t then intern_table_grow t else t)"
  have inv: "table_inv t" using assms by (rule reachable_table_inv)
  have u: "table_inv u" "2 * t_len u < t_cap u"
    using inv grow_inv [OF inv] by (auto simp: u_def)
  then have "hash_ok (slots u) (t_index u)" "t_len u < t_cap u"
    by (simp_all add: table_inv_def)
  then show ?thesis
    using u(2) fetch_not_Spin [of "slots u" "t_index u" s]
    unfolding u_def [symmetric] by (simp add: fetch_def)
qed

theorem probe_terminates_witness:
  "probe 64 (replicate 64 None) ''x'' (home (replicate 64 None) ''x'') \<noteq> Spin"
  using probe_terminates [OF rt_new, of "''x''"] by (simp add: interns_new_eq)

end
