(* ===== verification/Lexer.thy ===== *)
theory Lexer
  imports Intern_Table
begin

text \<open>
  The lexer of \<open>src/lexer/lexer.c\<close> and the token type of \<open>include/tokens/tokens.h\<close>.

  The scanning loop is modelled on the rest of the source buffer (\<open>source.ptr + offset\<close>), with
  the row and column the code keeps; the token array is the returned list.  The relation
  \<open>lexed\<close> says, independently of the loop, what a token stream of a source is: gaps of
  white space, lexemes of each class with maximal munch, and positions; \<open>lex_loop_iff_lexed\<close>
  proves that the loop computes exactly it.
\<close>

section \<open>Tokens and kinds\<close>

record token =
  tk_kind :: nat
  tk_lexeme :: str
  tk_filename :: string
  tk_row :: nat
  tk_col :: nat

definition LEXER_KIND_IDENT :: string where "LEXER_KIND_IDENT = ''IDENT''"
definition LEXER_KIND_NUMBER :: string where "LEXER_KIND_NUMBER = ''NUMBER''"
definition LEXER_KIND_FLOAT :: string where "LEXER_KIND_FLOAT = ''FLOAT''"
definition LEXER_KIND_STRING :: string where "LEXER_KIND_STRING = ''STRING''"
definition LEXER_KIND_SYMBOL :: string where "LEXER_KIND_SYMBOL = ''SYMBOL''"
definition LEXER_KIND_EOF :: string where "LEXER_KIND_EOF = ''EOF''"

lemmas kind_names = LEXER_KIND_IDENT_def LEXER_KIND_NUMBER_def LEXER_KIND_FLOAT_def
  LEXER_KIND_STRING_def LEXER_KIND_SYMBOL_def LEXER_KIND_EOF_def

record kinds =
  k_ident :: nat
  k_number :: nat
  k_float :: nat
  k_string :: nat
  k_symbol :: nat
  k_eof :: nat

definition ensure_token_capacity :: "nat \<Rightarrow> nat \<Rightarrow> nat" where
  "ensure_token_capacity = grow_capacity 16"

interpretation token_growth: growth_policy ensure_token_capacity
  by unfold_locales
    (simp_all add: ensure_token_capacity_def grow_capacity_needed grow_capacity_mono)

text \<open>All six kinds are interned, in this order, before the test of the results.\<close>

definition intern_kinds :: "intern_table \<Rightarrow> kinds option \<times> intern_table" where
  "intern_kinds t =
     (let (ident, t) = interns_intern t (str_from LEXER_KIND_IDENT);
          (number, t) = interns_intern t (str_from LEXER_KIND_NUMBER);
          (float, t) = interns_intern t (str_from LEXER_KIND_FLOAT);
          (string, t) = interns_intern t (str_from LEXER_KIND_STRING);
          (symbol, t) = interns_intern t (str_from LEXER_KIND_SYMBOL);
          (eof, t) = interns_intern t (str_from LEXER_KIND_EOF)
      in (if ident \<noteq> 0 \<and> number \<noteq> 0 \<and> float \<noteq> 0 \<and> string \<noteq> 0 \<and> symbol \<noteq> 0 \<and> eof \<noteq> 0
          then Some \<lparr>k_ident = ident, k_number = number, k_float = float,
                     k_string = string, k_symbol = symbol, k_eof = eof\<rparr>
          else None, t))"

section \<open>The scanning loop\<close>

abbreviation newline_char :: char where "newline_char \<equiv> CHR 0x0A"
abbreviation quote_char :: char where "quote_char \<equiv> CHR 0x22"

definition is_word_start :: "char \<Rightarrow> bool" where
  "is_word_start c \<longleftrightarrow> isalpha c \<or> c = CHR ''_''"

definition is_word :: "char \<Rightarrow> bool" where
  "is_word c \<longleftrightarrow> isalnum c \<or> c = CHR ''_''"

text \<open>The digits, and the fraction when a dot and a digit follow: lexeme, is-float, rest.\<close>

definition lex_number :: "string \<Rightarrow> string \<times> bool \<times> string" where
  "lex_number s =
     (let ds = takeWhile isdigit s; r = dropWhile isdigit s in
      case r of
        dot # d # r' \<Rightarrow>
          if dot = CHR ''.'' \<and> isdigit d
          then (ds @ dot # takeWhile isdigit (d # r'), True, dropWhile isdigit (d # r'))
          else (ds, False, r)
      | _ \<Rightarrow> (ds, False, r))"

text \<open>The body of a string literal up to the closing quote, \<open>None\<close> when it is missing.\<close>

fun lex_string :: "string \<Rightarrow> nat \<Rightarrow> nat \<Rightarrow> (string \<times> string \<times> nat \<times> nat) option" where
  "lex_string [] row col = None"
| "lex_string (c # cs) row col =
     (if c = quote_char then Some ([], cs, row, col + 1)
      else (case (if c = newline_char then lex_string cs (row + 1) 1
                  else lex_string cs row (col + 1)) of
              None \<Rightarrow> None
            | Some (body, rest, row', col') \<Rightarrow> Some (c # body, rest, row', col')))"

definition mk_token :: "nat \<Rightarrow> string \<Rightarrow> string \<Rightarrow> nat \<Rightarrow> nat \<Rightarrow> token" where
  "mk_token kind lexeme fn row col =
     \<lparr>tk_kind = kind, tk_lexeme = Some lexeme, tk_filename = fn, tk_row = row,
      tk_col = size_sub col (length lexeme)\<rparr>"

lemma lex_string_shorter:
  "lex_string s row col = Some (body, rest, row', col') \<Longrightarrow> length rest < length s"
  by (induction s row col arbitrary: body rest row' col' rule: lex_string.induct)
    (fastforce split: if_splits option.splits)+

lemma lex_number_shorter:
  "isdigit c \<Longrightarrow> lex_number (c # cs) = (w, f, rest) \<Longrightarrow> length rest < Suc (length cs)"
  using length_dropWhile_le [of isdigit cs]
  by (auto simp: lex_number_def Let_def split: list.splits if_splits
      intro: le_less_trans [OF length_dropWhile_le])

lemma lex_number_shorter':
  "isdigit c \<Longrightarrow> (w, f, rest) = lex_number (c # cs) \<Longrightarrow> length rest < Suc (length cs)"
  using lex_number_shorter [of c cs w f rest] by simp

function lex_loop :: "kinds \<Rightarrow> string \<Rightarrow> string \<Rightarrow> nat \<Rightarrow> nat \<Rightarrow> token list option" where
  "lex_loop ks fn [] row col =
     Some [\<lparr>tk_kind = k_eof ks, tk_lexeme = None, tk_filename = fn, tk_row = row, tk_col = col\<rparr>]"
| "lex_loop ks fn (c # cs) row col =
     (if c = newline_char then lex_loop ks fn cs (row + 1) 1
      else if c = CHR '' '' \<or> c = CHR 0x09 \<or> c = CHR 0x0D then lex_loop ks fn cs row (col + 1)
      else if c = CHR ''$'' \<and> cs \<noteq> [] \<and> is_word_start (hd cs) then
        (let w = c # takeWhile is_word cs; col' = col + length w in
         map_option ((#) (mk_token (k_ident ks) w fn row col'))
           (lex_loop ks fn (dropWhile is_word cs) row col'))
      else if is_word_start c then
        (let w = takeWhile is_word (c # cs); col' = col + length w in
         map_option ((#) (mk_token (k_ident ks) w fn row col'))
           (lex_loop ks fn (dropWhile is_word (c # cs)) row col'))
      else if isdigit c then
        (case lex_number (c # cs) of (w, is_float, rest) \<Rightarrow>
         (let col' = col + length w in
          map_option ((#) (mk_token (if is_float then k_float ks else k_number ks) w fn row col'))
            (lex_loop ks fn rest row col')))
      else if c = quote_char then
        (case lex_string cs row (col + 1) of
           None \<Rightarrow> None
         | Some (body, rest, row', col') \<Rightarrow>
            map_option ((#) (mk_token (k_string ks) (c # body @ [quote_char]) fn row' col'))
              (lex_loop ks fn rest row' col'))
      else map_option ((#) (mk_token (k_symbol ks) [c] fn row (col + 1)))
             (lex_loop ks fn cs row (col + 1)))"
  by pat_completeness auto
termination
proof (relation "measure (\<lambda>(ks, fn, s, row, col). length s)", goal_cases)
  case (5 ks fn c cs row col x xa)
  then have "is_word c" by (auto simp: is_word_start_def is_word_def isalnum_def)
  then show ?case using length_dropWhile_le [of is_word cs] by (simp add: le_imp_less_Suc)
qed (auto simp: le_imp_less_Suc length_dropWhile_le dest: lex_string_shorter lex_number_shorter')

definition lexer_tokenize :: "string \<Rightarrow> string \<Rightarrow> intern_table \<Rightarrow> token list option \<times> intern_table" where
  "lexer_tokenize filename source t =
     (case intern_kinds t of
        (None, t) \<Rightarrow> (None, t)
      | (Some ks, t) \<Rightarrow> (lex_loop ks filename source 1 1, t))"

declare lex_loop.simps(2) [simp del]

section \<open>What a token stream is\<close>

text \<open>Positions as a reader counts them: 1-based rows, columns restarting after a newline.\<close>

definition pos_step :: "nat \<times> nat \<Rightarrow> char \<Rightarrow> nat \<times> nat" where
  "pos_step p c = (if c = newline_char then (fst p + 1, 1) else (fst p, snd p + 1))"

definition pos_after :: "string \<Rightarrow> nat \<times> nat \<Rightarrow> nat \<times> nat" where
  "pos_after w p = foldl pos_step p w"

definition is_gap :: "char \<Rightarrow> bool" where
  "is_gap c \<longleftrightarrow> c = newline_char \<or> c = CHR '' '' \<or> c = CHR 0x09 \<or> c = CHR 0x0D"

text \<open>The five classes of lexemes \<open>w\<close>, with the text \<open>r\<close> that follows (maximal munch).\<close>

definition word_lexeme :: "string \<Rightarrow> string \<Rightarrow> bool" where
  "word_lexeme w r \<longleftrightarrow>
     w \<noteq> [] \<and> is_word_start (hd w) \<and> (\<forall>c\<in>set w. is_word c) \<and> (r = [] \<or> \<not> is_word (hd r))"

definition operator_lexeme :: "string \<Rightarrow> string \<Rightarrow> bool" where
  "operator_lexeme w r \<longleftrightarrow> (\<exists>u. w = CHR ''$'' # u \<and> word_lexeme u r)"

definition number_lexeme :: "string \<Rightarrow> string \<Rightarrow> bool" where
  "number_lexeme w r \<longleftrightarrow>
     w \<noteq> [] \<and> (\<forall>c\<in>set w. isdigit c) \<and> (r = [] \<or> \<not> isdigit (hd r)) \<and>
     \<not> (\<exists>d r'. r = CHR ''.'' # d # r' \<and> isdigit d)"

definition float_lexeme :: "string \<Rightarrow> string \<Rightarrow> bool" where
  "float_lexeme w r \<longleftrightarrow>
     (\<exists>ds fs. w = ds @ CHR ''.'' # fs \<and> ds \<noteq> [] \<and> fs \<noteq> [] \<and>
        (\<forall>c\<in>set ds. isdigit c) \<and> (\<forall>c\<in>set fs. isdigit c)) \<and> (r = [] \<or> \<not> isdigit (hd r))"

definition string_lexeme :: "string \<Rightarrow> bool" where
  "string_lexeme w \<longleftrightarrow> (\<exists>b. w = quote_char # b @ [quote_char] \<and> quote_char \<notin> set b)"

definition symbol_lexeme :: "string \<Rightarrow> string \<Rightarrow> bool" where
  "symbol_lexeme w r \<longleftrightarrow>
     (\<exists>c. w = [c] \<and> \<not> is_gap c \<and> \<not> is_word_start c \<and> \<not> isdigit c \<and> c \<noteq> quote_char \<and>
        \<not> (c = CHR ''$'' \<and> r \<noteq> [] \<and> is_word_start (hd r)))"

definition lexeme_ok :: "kinds \<Rightarrow> nat \<Rightarrow> string \<Rightarrow> string \<Rightarrow> bool" where
  "lexeme_ok ks k w r \<longleftrightarrow>
     (k = k_ident ks \<and> (word_lexeme w r \<or> operator_lexeme w r)) \<or>
     (k = k_number ks \<and> number_lexeme w r) \<or>
     (k = k_float ks \<and> float_lexeme w r) \<or>
     (k = k_string ks \<and> string_lexeme w) \<or>
     (k = k_symbol ks \<and> symbol_lexeme w r)"

text \<open>
  \<open>lexed ks fn p s ts\<close>: the tokens \<open>ts\<close> are the source text \<open>s\<close>, which starts at position
  \<open>p\<close>, cut into lexemes separated by white space, ended by one EOF token.  A token carries
  the row reached at its end, and the column reached there less its length.
\<close>

inductive lexed :: "kinds \<Rightarrow> string \<Rightarrow> nat \<times> nat \<Rightarrow> string \<Rightarrow> token list \<Rightarrow> bool" where
  lexed_eof: "\<forall>c\<in>set g. is_gap c \<Longrightarrow> (row, col) = pos_after g p \<Longrightarrow>
     lexed ks fn p g
       [\<lparr>tk_kind = k_eof ks, tk_lexeme = None, tk_filename = fn, tk_row = row, tk_col = col\<rparr>]"
| lexed_tok: "\<forall>c\<in>set g. is_gap c \<Longrightarrow> lexeme_ok ks k w r \<Longrightarrow>
     (row, col) = pos_after (g @ w) p \<Longrightarrow> lexed ks fn (row, col) r ts \<Longrightarrow>
     lexed ks fn p (g @ w @ r) (mk_token k w fn row col # ts)"

section \<open>The loop computes the token stream\<close>

lemma pos_after_Nil [simp]: "pos_after [] p = p"
  by (simp add: pos_after_def)

lemma pos_after_append: "pos_after (u @ w) p = pos_after w (pos_after u p)"
  by (simp add: pos_after_def)

lemma pos_after_Cons: "pos_after (c # w) p = pos_after w (pos_step p c)"
  by (simp add: pos_after_def)

lemma pos_after_plain: "newline_char \<notin> set w \<Longrightarrow> pos_after w (row, col) = (row, col + length w)"
  by (induction w arbitrary: col) (auto simp: pos_after_Cons pos_step_def)

lemma not_word_newline: "\<not> is_word newline_char" "\<not> isdigit newline_char" "\<not> is_word_start newline_char"
  by (simp_all add: is_word_def is_word_start_def isalnum_def isalpha_def isdigit_def)

lemma word_no_newline: "\<forall>c\<in>set w. is_word c \<Longrightarrow> newline_char \<notin> set w"
  using not_word_newline by blast

lemma digits_no_newline: "\<forall>c\<in>set w. isdigit c \<Longrightarrow> newline_char \<notin> set w"
  using not_word_newline by blast

lemma lex_string_closed:
  "quote_char \<notin> set b \<Longrightarrow>
   lex_string (b @ quote_char # rest) row col = Some (b, rest, pos_after (b @ [quote_char]) (row, col))"
  by (induction b arbitrary: row col) (auto simp: pos_after_Cons pos_step_def)

lemma lex_string_None: "lex_string s row col = None \<longleftrightarrow> quote_char \<notin> set s"
  by (induction s row col rule: lex_string.induct) (auto split: option.splits)

lemma takeWhile_all_append:
  "\<forall>c\<in>set w. P c \<Longrightarrow> r = [] \<or> \<not> P (hd r) \<Longrightarrow> takeWhile P (w @ r) = w \<and> dropWhile P (w @ r) = r"
  by (induction w) (cases r, auto)+

lemma dropWhile_stop: "dropWhile P s = [] \<or> \<not> P (hd (dropWhile P s))"
  using hd_dropWhile [of P s] by auto

lemma takeWhile_all: "\<forall>c\<in>set (takeWhile P s). P c"
  by (auto dest: set_takeWhileD)

lemma word_start_facts:
  "is_word_start c \<Longrightarrow> is_word c" "is_word_start c \<Longrightarrow> \<not> isdigit c" "is_word_start c \<Longrightarrow> \<not> is_gap c"
  "is_word_start c \<Longrightarrow> c \<noteq> CHR ''$''" "is_word_start c \<Longrightarrow> c \<noteq> quote_char"
  by (auto simp: is_word_start_def is_word_def isalnum_def isalpha_def isdigit_def is_gap_def Let_def)

lemma digit_facts:
  "isdigit c \<Longrightarrow> \<not> is_gap c" "isdigit c \<Longrightarrow> c \<noteq> CHR ''$''" "isdigit c \<Longrightarrow> c \<noteq> quote_char"
  "isdigit c \<Longrightarrow> \<not> is_word_start c"
  by (auto simp: is_word_start_def is_gap_def isalpha_def isdigit_def Let_def)

lemma special_facts: "\<not> is_gap (CHR ''$'')" "\<not> is_gap quote_char" "\<not> is_word_start (CHR ''$'')"
  "\<not> is_word_start quote_char" "\<not> isdigit quote_char" "\<not> isdigit (CHR ''$'')" "\<not> isdigit (CHR ''.'')"
  by (simp_all add: is_gap_def is_word_start_def isalpha_def isdigit_def)

text \<open>The scanner with the tests of the code named by character class.\<close>

lemma lex_loop_class:
  "lex_loop ks fn (c # cs) row col =
     (if is_gap c then (case pos_step (row, col) c of (row', col') \<Rightarrow> lex_loop ks fn cs row' col')
      else if c = CHR ''$'' \<and> cs \<noteq> [] \<and> is_word_start (hd cs) then
        (let w = c # takeWhile is_word cs; col' = col + length w in
         map_option ((#) (mk_token (k_ident ks) w fn row col'))
           (lex_loop ks fn (dropWhile is_word cs) row col'))
      else if is_word_start c then
        (let w = takeWhile is_word (c # cs); col' = col + length w in
         map_option ((#) (mk_token (k_ident ks) w fn row col'))
           (lex_loop ks fn (dropWhile is_word (c # cs)) row col'))
      else if isdigit c then
        (case lex_number (c # cs) of (w, is_float, rest) \<Rightarrow>
         (let col' = col + length w in
          map_option ((#) (mk_token (if is_float then k_float ks else k_number ks) w fn row col'))
            (lex_loop ks fn rest row col')))
      else if c = quote_char then
        (case lex_string cs row (col + 1) of
           None \<Rightarrow> None
         | Some (body, rest, row', col') \<Rightarrow>
            map_option ((#) (mk_token (k_string ks) (c # body @ [quote_char]) fn row' col'))
              (lex_loop ks fn rest row' col'))
      else map_option ((#) (mk_token (k_symbol ks) [c] fn row (col + 1)))
             (lex_loop ks fn cs row (col + 1)))"
proof -
  consider "is_gap c" "c = newline_char"
    | "is_gap c" "c \<noteq> newline_char" "c = CHR '' '' \<or> c = CHR 0x09 \<or> c = CHR 0x0D"
    | "\<not> is_gap c" "c \<noteq> newline_char" "\<not> (c = CHR '' '' \<or> c = CHR 0x09 \<or> c = CHR 0x0D)"
    unfolding is_gap_def by blast
  then show ?thesis
  proof cases
    case 1
    show ?thesis unfolding lex_loop.simps(2) if_P [OF 1(1)] if_P [OF 1(2)] pos_step_def by simp
  next
    case 2
    show ?thesis
      unfolding lex_loop.simps(2) if_P [OF 2(1)] if_not_P [OF 2(2)] if_P [OF 2(3)] pos_step_def
      by simp
  next
    case 3
    show ?thesis
      unfolding lex_loop.simps(2) if_not_P [OF 3(1)] if_not_P [OF 3(2)] if_not_P [OF 3(3)] ..
  qed
qed

lemma lex_loop_gap:
  "\<forall>c\<in>set g. is_gap c \<Longrightarrow> (row', col') = pos_after g (row, col) \<Longrightarrow>
   lex_loop ks fn (g @ s) row col = lex_loop ks fn s row' col'"
proof (induction g arbitrary: row col)
  case (Cons c g)
  obtain r1 c1 where p: "pos_step (row, col) c = (r1, c1)" by force
  with Cons.prems have "(row', col') = pos_after g (r1, c1)" by (simp add: pos_after_Cons)
  with Cons.IH [of r1 c1] Cons.prems p show ?case by (simp add: lex_loop_class)
qed simp

definition emits :: "kinds \<Rightarrow> string \<Rightarrow> nat \<Rightarrow> string \<Rightarrow> string \<Rightarrow> nat \<times> nat \<Rightarrow> bool" where
  "emits ks fn k w r p \<longleftrightarrow>
     (case p of (row, col) \<Rightarrow> case pos_after w (row, col) of (row', col') \<Rightarrow>
       lex_loop ks fn (w @ r) row col =
       map_option ((#) (mk_token k w fn row' col')) (lex_loop ks fn r row' col'))"

lemma emits_word: "word_lexeme w r \<Longrightarrow> emits ks fn (k_ident ks) w r (row, col)"
proof -
  assume w: "word_lexeme w r"
  then obtain c u where c: "w = c # u" "is_word_start c" by (cases w) (auto simp: word_lexeme_def)
  have "takeWhile is_word (w @ r) = w \<and> dropWhile is_word (w @ r) = r"
    using w by (intro takeWhile_all_append) (auto simp: word_lexeme_def)
  moreover have "newline_char \<notin> set w" using w by (intro word_no_newline) (simp add: word_lexeme_def)
  ultimately show ?thesis
    using c word_start_facts [OF c(2)] pos_after_plain [of w row col]
    by (simp add: emits_def lex_loop_class Let_def)
qed

lemma emits_operator: "operator_lexeme w r \<Longrightarrow> emits ks fn (k_ident ks) w r (row, col)"
proof -
  assume "operator_lexeme w r"
  then obtain u where w: "w = CHR ''$'' # u" "word_lexeme u r" by (auto simp: operator_lexeme_def)
  then obtain c v where c: "u = c # v" "is_word_start c" by (cases u) (auto simp: word_lexeme_def)
  have "takeWhile is_word (u @ r) = u \<and> dropWhile is_word (u @ r) = r"
    using w by (intro takeWhile_all_append) (auto simp: word_lexeme_def)
  moreover have "newline_char \<notin> set w"
    using w word_no_newline [of u] by (auto simp: word_lexeme_def)
  ultimately show ?thesis
    using c w pos_after_plain [of w row col]
    by (simp add: emits_def lex_loop_class Let_def special_facts)
qed

lemma lex_number_plain: "number_lexeme w r \<Longrightarrow> lex_number (w @ r) = (w, False, r)"
proof -
  assume w: "number_lexeme w r"
  then have "takeWhile isdigit (w @ r) = w \<and> dropWhile isdigit (w @ r) = r"
    by (intro takeWhile_all_append) (auto simp: number_lexeme_def)
  with w show ?thesis
    by (auto simp: lex_number_def Let_def number_lexeme_def split: list.split)
qed

lemma lex_number_fraction: "float_lexeme w r \<Longrightarrow> lex_number (w @ r) = (w, True, r)"
proof -
  assume "float_lexeme w r"
  then obtain ds fs where w: "w = ds @ CHR ''.'' # fs" "ds \<noteq> []" "fs \<noteq> []"
    "\<forall>c\<in>set ds. isdigit c" "\<forall>c\<in>set fs. isdigit c" "r = [] \<or> \<not> isdigit (hd r)"
    by (auto simp: float_lexeme_def)
  have 1: "takeWhile isdigit (ds @ CHR ''.'' # fs @ r) = ds \<and>
           dropWhile isdigit (ds @ CHR ''.'' # fs @ r) = CHR ''.'' # fs @ r"
    using w by (intro takeWhile_all_append) (auto simp: special_facts)
  have 2: "takeWhile isdigit (fs @ r) = fs \<and> dropWhile isdigit (fs @ r) = r"
    using w by (intro takeWhile_all_append) auto
  from w obtain d f where "fs = d # f" "isdigit d" by (cases fs) auto
  with 1 2 w(1) show ?thesis by (simp add: lex_number_def Let_def)
qed

lemma emits_digits:
  assumes "lex_number (w @ r) = (w, f, r)" "w \<noteq> []" "isdigit (hd w)" "newline_char \<notin> set w"
  shows "emits ks fn (if f then k_float ks else k_number ks) w r (row, col)"
proof -
  obtain c u where c: "w = c # u" "isdigit c" using assms by (cases w) auto
  with assms show ?thesis
    using digit_facts [OF c(2)] pos_after_plain [of w row col]
    by (simp add: emits_def lex_loop_class Let_def)
qed

lemma emits_number: "number_lexeme w r \<Longrightarrow> emits ks fn (k_number ks) w r (row, col)"
  using emits_digits [of w r False ks fn row col] lex_number_plain [of w r] digits_no_newline [of w]
  by (auto simp: number_lexeme_def)

lemma emits_float: "float_lexeme w r \<Longrightarrow> emits ks fn (k_float ks) w r (row, col)"
proof -
  assume w: "float_lexeme w r"
  then have "newline_char \<notin> set w" "w \<noteq> []" "isdigit (hd w)"
    using digits_no_newline by (auto simp: float_lexeme_def hd_append)
  with emits_digits [of w r True ks fn row col] lex_number_fraction [OF w] show ?thesis by simp
qed

lemma emits_string: "string_lexeme w \<Longrightarrow> emits ks fn (k_string ks) w r (row, col)"
proof -
  assume "string_lexeme w"
  then obtain b where w: "w = quote_char # b @ [quote_char]" "quote_char \<notin> set b"
    by (auto simp: string_lexeme_def)
  then have "pos_after w (row, col) = pos_after (b @ [quote_char]) (row, col + 1)"
    by (simp add: pos_after_Cons pos_step_def)
  with w show ?thesis
    by (simp add: emits_def lex_loop_class special_facts lex_string_closed split: prod.split)
qed

lemma emits_symbol: "symbol_lexeme w r \<Longrightarrow> emits ks fn (k_symbol ks) w r (row, col)"
proof -
  assume "symbol_lexeme w r"
  then obtain c where c: "w = [c]" "\<not> is_gap c" "\<not> is_word_start c" "\<not> isdigit c" "c \<noteq> quote_char"
    "\<not> (c = CHR ''$'' \<and> r \<noteq> [] \<and> is_word_start (hd r))" by (auto simp: symbol_lexeme_def)
  moreover from c(2) have "c \<noteq> newline_char" by (auto simp: is_gap_def)
  ultimately show ?thesis
    using pos_after_plain [of w row col] by (auto simp: emits_def lex_loop_class)
qed

lemma lexeme_emits: "lexeme_ok ks k w r \<Longrightarrow> emits ks fn k w r (row, col)"
  using emits_word emits_operator emits_number emits_float emits_string emits_symbol
  unfolding lexeme_ok_def by metis

text \<open>Every source that does not start with a gap starts with a lexeme, or an open string.\<close>

lemma munch_exists:
  assumes "P c"
  obtains w r where "c # cs = (c # w) @ r" "\<forall>x\<in>set (c # w). P x" "r = [] \<or> \<not> P (hd r)"
proof (rule that [of "takeWhile P cs" "dropWhile P cs"])
  show "\<forall>x\<in>set (c # takeWhile P cs). P x" using assms takeWhile_all [of P cs] by simp
qed (simp, rule dropWhile_stop)

lemma number_exists:
  assumes "isdigit c"
  shows "\<exists>w r. c # cs = w @ r \<and> w \<noteq> [] \<and> (number_lexeme w r \<or> float_lexeme w r)"
proof -
  obtain ds r where s: "c # cs = (c # ds) @ r" "\<forall>x\<in>set (c # ds). isdigit x"
    "r = [] \<or> \<not> isdigit (hd r)" using assms by (rule munch_exists [of isdigit c cs])
  show ?thesis
  proof (cases "\<exists>d r'. r = CHR ''.'' # d # r' \<and> isdigit d")
    case True
    then obtain d r' where r: "r = CHR ''.'' # d # r'" "isdigit d" by blast
    obtain fs q where f: "d # r' = (d # fs) @ q" "\<forall>x\<in>set (d # fs). isdigit x"
      "q = [] \<or> \<not> isdigit (hd q)" using r(2) by (rule munch_exists [of isdigit d r'])
    have "float_lexeme ((c # ds) @ CHR ''.'' # d # fs) q"
      unfolding float_lexeme_def using s(2) f(2,3) by blast
    moreover have "c # cs = ((c # ds) @ CHR ''.'' # d # fs) @ q" using s(1) r(1) f(1) by simp
    ultimately show ?thesis by blast
  next
    case False
    with s have "number_lexeme (c # ds) r" unfolding number_lexeme_def by blast
    with s(1) show ?thesis by blast
  qed
qed

lemma word_exists:
  assumes "is_word_start c"
  shows "\<exists>w r. c # cs = w @ r \<and> w \<noteq> [] \<and> word_lexeme w r"
proof -
  obtain w r where "c # cs = (c # w) @ r" "\<forall>x\<in>set (c # w). is_word x" "r = [] \<or> \<not> is_word (hd r)"
    using word_start_facts(1) [OF assms] by (rule munch_exists [of is_word c cs])
  with assms show ?thesis unfolding word_lexeme_def by (metis list.distinct(1) list.sel(1))
qed

lemma operator_exists:
  assumes "cs \<noteq> []" "is_word_start (hd cs)"
  shows "\<exists>w r. CHR ''$'' # cs = w @ r \<and> w \<noteq> [] \<and> operator_lexeme w r"
proof -
  obtain d v where "cs = d # v" "is_word_start d" using assms by (cases cs) auto
  with word_exists [of d v] obtain w r where "cs = w @ r" "word_lexeme w r" by blast
  then show ?thesis
    by (intro exI [of _ "CHR ''$'' # w"] exI [of _ r]) (auto simp: operator_lexeme_def)
qed

lemma string_exists:
  assumes "quote_char \<in> set cs"
  shows "\<exists>w r. quote_char # cs = w @ r \<and> w \<noteq> [] \<and> string_lexeme w"
proof -
  obtain b r where "cs = b @ quote_char # r" "quote_char \<notin> set b"
    using split_list_first [OF assms] by blast
  then show ?thesis
    by (intro exI [of _ "quote_char # b @ [quote_char]"] exI [of _ r])
      (auto simp: string_lexeme_def)
qed

lemma lexeme_exists:
  assumes "\<not> is_gap c" "\<not> (c = quote_char \<and> quote_char \<notin> set cs)"
  shows "\<exists>k w r. c # cs = w @ r \<and> w \<noteq> [] \<and> lexeme_ok ks k w r"
proof -
  consider "c = CHR ''$''" "cs \<noteq> []" "is_word_start (hd cs)" | "is_word_start c" | "isdigit c"
    | "c = quote_char" "quote_char \<in> set cs" | "symbol_lexeme [c] cs"
    using assms by (auto simp: symbol_lexeme_def)
  then show ?thesis
  proof cases
    case 1
    with operator_exists [of cs] show ?thesis unfolding lexeme_ok_def by blast
  next
    case 2
    with word_exists [of c cs] show ?thesis unfolding lexeme_ok_def by blast
  next
    case 3
    with number_exists [of c cs] show ?thesis unfolding lexeme_ok_def by blast
  next
    case 4
    with string_exists [of cs] show ?thesis unfolding lexeme_ok_def by blast
  next
    case 5
    then show ?thesis unfolding lexeme_ok_def by (metis append_Cons append_Nil list.distinct(1))
  qed
qed

lemma lexed_complete: "lexed ks fn p s ts \<Longrightarrow> lex_loop ks fn s (fst p) (snd p) = Some ts"
proof (induction rule: lexed.induct)
  case (lexed_eof g row col p ks fn)
  then show ?case using lex_loop_gap [of g row col "fst p" "snd p" ks fn "[]"] by simp
next
  case (lexed_tok g ks k w r row col p fn ts)
  obtain r1 c1 where 1: "pos_after g p = (r1, c1)" by force
  then have 2: "pos_after w (r1, c1) = (row, col)" using lexed_tok by (simp add: pos_after_append)
  have "lex_loop ks fn (g @ w @ r) (fst p) (snd p) = lex_loop ks fn (w @ r) r1 c1"
    using lexed_tok 1 by (intro lex_loop_gap) auto
  also have "\<dots> = Some (mk_token k w fn row col # ts)"
    using lexeme_emits [OF lexed_tok(2), of fn r1 c1] lexed_tok.IH 2
    by (simp add: emits_def split: prod.splits)
  finally show ?case .
qed

lemma lexed_sound: "lex_loop ks fn s row col = Some ts \<Longrightarrow> lexed ks fn (row, col) s ts"
proof (induction "length s" arbitrary: s row col ts rule: less_induct)
  case less
  define g where "g = takeWhile is_gap s"
  define s' where "s' = dropWhile is_gap s"
  have s: "s = g @ s'" and g: "\<forall>c\<in>set g. is_gap c" and stop: "s' = [] \<or> \<not> is_gap (hd s')"
    using takeWhile_all [of is_gap s] dropWhile_stop [of is_gap s] by (auto simp: g_def s'_def)
  obtain r1 c1 where p: "(r1, c1) = pos_after g (row, col)" by (cases "pos_after g (row, col)") simp
  have run: "lex_loop ks fn s' r1 c1 = Some ts"
    using less.prems s g p lex_loop_gap [of g r1 c1 row col ks fn s'] by simp
  show ?case
  proof (cases s')
    case Nil
    with run s g p show ?thesis by (auto intro: lexed_eof)
  next
    case (Cons c cs)
    with stop have "\<not> is_gap c" by simp
    moreover have "\<not> (c = quote_char \<and> quote_char \<notin> set cs)"
      using run Cons lex_string_None [of cs r1 "Suc c1"]
      by (auto simp: lex_loop_class special_facts)
    ultimately obtain k w r where w: "s' = w @ r" "w \<noteq> []" "lexeme_ok ks k w r"
      using lexeme_exists [of c cs ks] Cons by blast
    obtain r2 c2 where p2: "pos_after w (r1, c1) = (r2, c2)" by force
    obtain ts' where ts: "lex_loop ks fn r r2 c2 = Some ts'" "ts = mk_token k w fn r2 c2 # ts'"
      using lexeme_emits [OF w(3), of fn r1 c1] run w(1) p2 by (auto simp: emits_def)
    have "length r < length s" using s w by simp
    from less.hyps [OF this ts(1)] have "lexed ks fn (r2, c2) r ts'" .
    then have "lexed ks fn (row, col) (g @ w @ r) (mk_token k w fn r2 c2 # ts')"
      using g w p p2 by (intro lexed_tok) (auto simp: pos_after_append p [symmetric])
    with ts s w show ?thesis by simp
  qed
qed

lemma lex_loop_iff_lexed: "lex_loop ks fn s row col = Some ts \<longleftrightarrow> lexed ks fn (row, col) s ts"
  using lexed_sound [of ks fn s row col ts] lexed_complete [of ks fn "(row, col)" s ts] by auto

section \<open>Kinds\<close>

definition kinds_named :: "intern_table \<Rightarrow> kinds \<Rightarrow> bool" where
  "kinds_named t ks \<longleftrightarrow>
     interns_lookup t (k_ident ks) = Some LEXER_KIND_IDENT \<and>
     interns_lookup t (k_number ks) = Some LEXER_KIND_NUMBER \<and>
     interns_lookup t (k_float ks) = Some LEXER_KIND_FLOAT \<and>
     interns_lookup t (k_string ks) = Some LEXER_KIND_STRING \<and>
     interns_lookup t (k_symbol ks) = Some LEXER_KIND_SYMBOL \<and>
     interns_lookup t (k_eof ks) = Some LEXER_KIND_EOF"

definition kind_list :: "kinds \<Rightarrow> nat list" where
  "kind_list ks = [k_ident ks, k_number ks, k_float ks, k_string ks, k_symbol ks, k_eof ks]"

lemma kinds_named_distinct: "kinds_named t ks \<Longrightarrow> distinct (kind_list ks)"
  by (auto simp: kinds_named_def kind_list_def kind_names)

lemma kinds_named_le: "kinds_named t ks \<Longrightarrow> table_le t u \<Longrightarrow> kinds_named u ks"
  by (simp add: kinds_named_def table_le_lookup)

text \<open>One more name interned: the invariant, the names and the earlier lookups survive.\<close>

lemma intern_step:
  assumes "interns_intern t (Some b) = (sy, t')" and "table_inv t"
  shows "table_inv t'" "table_le t t'" "sy \<noteq> 0 \<Longrightarrow> interns_lookup t' sy = Some b"
  using st.intern_inv [OF assms(2), of "Some b"] table_le_intern [OF assms(2), of "Some b"]
    st.lookup_intern [OF assms(2), of "Some b"] assms(1) by simp_all

lemma intern_kinds_sound:
  assumes "intern_kinds t = (r, t')" and "table_inv t"
  shows "table_inv t' \<and> table_le t t' \<and> (\<forall>ks. r = Some ks \<longrightarrow> kinds_named t' ks)"
proof -
  obtain s1 t1 where 1: "interns_intern t (Some LEXER_KIND_IDENT) = (s1, t1)" by fastforce
  obtain s2 t2 where 2: "interns_intern t1 (Some LEXER_KIND_NUMBER) = (s2, t2)" by fastforce
  obtain s3 t3 where 3: "interns_intern t2 (Some LEXER_KIND_FLOAT) = (s3, t3)" by fastforce
  obtain s4 t4 where 4: "interns_intern t3 (Some LEXER_KIND_STRING) = (s4, t4)" by fastforce
  obtain s5 t5 where 5: "interns_intern t4 (Some LEXER_KIND_SYMBOL) = (s5, t5)" by fastforce
  obtain s6 t6 where 6: "interns_intern t5 (Some LEXER_KIND_EOF) = (s6, t6)" by fastforce
  note i1 = intern_step [OF 1 assms(2)] and e = 1 2 3 4 5 6
  note i2 = intern_step [OF 2 i1(1)]
  note i3 = intern_step [OF 3 i2(1)]
  note i4 = intern_step [OF 4 i3(1)]
  note i5 = intern_step [OF 5 i4(1)]
  note i6 = intern_step [OF 6 i5(1)]
  have le: "table_le t5 t6" "table_le t4 t6" "table_le t3 t6" "table_le t2 t6" "table_le t1 t6"
    "table_le t t6"
    using i1(2) i2(2) i3(2) i4(2) i5(2) i6(2) by (meson table_le_trans)+
  have t': "t' = t6" and r: "r = Some ks \<Longrightarrow>
      ks = \<lparr>k_ident = s1, k_number = s2, k_float = s3, k_string = s4, k_symbol = s5, k_eof = s6\<rparr>
      \<and> s1 \<noteq> 0 \<and> s2 \<noteq> 0 \<and> s3 \<noteq> 0 \<and> s4 \<noteq> 0 \<and> s5 \<noteq> 0 \<and> s6 \<noteq> 0" for ks
    using assms(1) by (auto simp: intern_kinds_def str_from_def e split: if_splits)
  have "kinds_named t6 ks" if "r = Some ks" for ks
    using r [OF that] le i1(3) i2(3) i3(3) i4(3) i5(3) i6(3)
    by (auto simp: kinds_named_def intro: table_le_lookup)
  with t' i6(1) le(6) show ?thesis by simp
qed

text \<open>Interning the kinds again finds the same symbols and adds no name.\<close>

lemma intern_same:
  assumes "table_inv t" and "interns_lookup t sy = Some b"
  obtains t' where "interns_intern t (Some b) = (sy, t')" "table_inv t'" "t_index t' = t_index t"
  using st.intern_again [OF assms] st.intern_inv [OF assms(1), of "Some b"] that
  by (cases "interns_intern t (Some b)") auto

lemma kinds_named_same: "kinds_named t ks \<Longrightarrow> t_index u = t_index t \<Longrightarrow> kinds_named u ks"
  by (erule kinds_named_le) (simp add: table_le_def)

lemma intern_kinds_again:
  assumes "table_inv t" and "kinds_named t ks"
  obtains t' where "intern_kinds t = (Some ks, t')" "table_inv t'" "t_index t' = t_index t"
proof -
  note k = assms(2) [unfolded kinds_named_def]
  obtain t1 where 1: "interns_intern t (Some LEXER_KIND_IDENT) = (k_ident ks, t1)" "table_inv t1"
    "t_index t1 = t_index t" using intern_same [OF assms(1)] k by metis
  obtain t2 where 2: "interns_intern t1 (Some LEXER_KIND_NUMBER) = (k_number ks, t2)" "table_inv t2"
    "t_index t2 = t_index t" using intern_same [OF 1(2)] k 1(3) st.lookup_names by metis
  obtain t3 where 3: "interns_intern t2 (Some LEXER_KIND_FLOAT) = (k_float ks, t3)" "table_inv t3"
    "t_index t3 = t_index t" using intern_same [OF 2(2)] k 2(3) st.lookup_names by metis
  obtain t4 where 4: "interns_intern t3 (Some LEXER_KIND_STRING) = (k_string ks, t4)" "table_inv t4"
    "t_index t4 = t_index t" using intern_same [OF 3(2)] k 3(3) st.lookup_names by metis
  obtain t5 where 5: "interns_intern t4 (Some LEXER_KIND_SYMBOL) = (k_symbol ks, t5)" "table_inv t5"
    "t_index t5 = t_index t" using intern_same [OF 4(2)] k 4(3) st.lookup_names by metis
  obtain t6 where 6: "interns_intern t5 (Some LEXER_KIND_EOF) = (k_eof ks, t6)" "table_inv t6"
    "t_index t6 = t_index t" using intern_same [OF 5(2)] k 5(3) st.lookup_names by metis
  have "k_ident ks \<noteq> 0" "k_number ks \<noteq> 0" "k_float ks \<noteq> 0" "k_string ks \<noteq> 0" "k_symbol ks \<noteq> 0"
    "k_eof ks \<noteq> 0" using k by (metis interns_lookup_def option.distinct(1))+
  then have "intern_kinds t = (Some ks, t6)"
    by (simp add: intern_kinds_def str_from_def 1(1) 2(1) 3(1) 4(1) 5(1) 6(1))
  with 6 show ?thesis by (intro that [of t6])
qed

lemma lexer_tokenize_cases:
  assumes "lexer_tokenize fn src t = (r, t')" and "table_inv t"
  shows "table_inv t' \<and> table_le t t' \<and>
    (\<forall>ts. r = Some ts \<longrightarrow> (\<exists>ks. kinds_named t' ks \<and> intern_kinds t = (Some ks, t') \<and>
       lexed ks fn (1, 1) src ts))"
proof -
  obtain r1 t1 where k: "intern_kinds t = (r1, t1)" by fastforce
  with assms(1) have "t' = t1" by (auto simp: lexer_tokenize_def split: option.splits)
  with intern_kinds_sound [OF k assms(2)] k assms(1) show ?thesis
    by (auto simp: lexer_tokenize_def lex_loop_iff_lexed split: option.splits)
qed

section \<open>Consequences of the token stream relation\<close>

text \<open>The source put back together from gaps and lexemes.\<close>

fun unlex :: "string list \<Rightarrow> token list \<Rightarrow> string" where
  "unlex (g # gs) (tk # ts) = g @ str_bytes (tk_lexeme tk) @ unlex gs ts"
| "unlex gs ts = []"

lemma mk_token_simps [simp]:
  "tk_kind (mk_token k w fn row col) = k" "tk_lexeme (mk_token k w fn row col) = Some w"
  "tk_filename (mk_token k w fn row col) = fn" "tk_row (mk_token k w fn row col) = row"
  "tk_col (mk_token k w fn row col) = size_sub col (length w)"
  by (simp_all add: mk_token_def)

lemma lexeme_ok_nonempty: "lexeme_ok ks k w r \<Longrightarrow> w \<noteq> []"
  by (auto simp: lexeme_ok_def word_lexeme_def operator_lexeme_def number_lexeme_def
      float_lexeme_def string_lexeme_def symbol_lexeme_def)

lemma lexeme_ok_kind: "lexeme_ok ks k w r \<Longrightarrow> distinct (kind_list ks) \<Longrightarrow> k \<noteq> k_eof ks"
  by (auto simp: lexeme_ok_def kind_list_def)

text \<open>One EOF token, at the end of the source and of the list.\<close>

definition eof_token :: "kinds \<Rightarrow> string \<Rightarrow> nat \<times> nat \<Rightarrow> token" where
  "eof_token ks fn p = \<lparr>tk_kind = k_eof ks, tk_lexeme = None, tk_filename = fn,
     tk_row = fst p, tk_col = snd p\<rparr>"

lemma lexed_lossless:
  "lexed ks fn p s ts \<Longrightarrow> distinct (kind_list ks) \<Longrightarrow>
   \<exists>gs body. ts = body @ [eof_token ks fn (pos_after s p)] \<and> length gs = length ts \<and>
     (\<forall>g\<in>set gs. \<forall>c\<in>set g. is_gap c) \<and> s = unlex gs ts \<and>
     (\<forall>tk\<in>set body. tk_kind tk \<noteq> k_eof ks \<and> str_len (tk_lexeme tk) > 0 \<and> tk_filename tk = fn)"
proof (induction rule: lexed.induct)
  case (lexed_eof g row col p ks fn)
  then show ?case
    by (intro exI [of _ "[g]"] exI [of _ "[]"]) (auto simp: eof_token_def dest: sym)
next
  case (lexed_tok g ks k w r row col p fn ts)
  then obtain gs body where b: "ts = body @ [eof_token ks fn (pos_after r (row, col))]"
    "length gs = length ts" "\<forall>g\<in>set gs. \<forall>c\<in>set g. is_gap c" "r = unlex gs ts"
    "\<forall>tk\<in>set body. tk_kind tk \<noteq> k_eof ks \<and> str_len (tk_lexeme tk) > 0 \<and> tk_filename tk = fn"
    by blast
  have "pos_after r (row, col) = pos_after (g @ w @ r) p"
    using lexed_tok.hyps(3) by (simp add: pos_after_append)
  with b lexed_tok.hyps lexed_tok.prems show ?case
    by (intro exI [of _ "g # gs"] exI [of _ "mk_token k w fn row col # body"])
      (auto simp: lexeme_ok_nonempty dest: lexeme_ok_kind)
qed

text \<open>Where a token says it is, against where it is.\<close>

definition position_ok :: "nat \<times> nat \<Rightarrow> string \<Rightarrow> token \<Rightarrow> bool" where
  "position_ok p s tk \<longleftrightarrow>
     (\<exists>pre post. s = pre @ str_bytes (tk_lexeme tk) @ post \<and>
        tk_row tk = fst (pos_after (pre @ str_bytes (tk_lexeme tk)) p) \<and>
        tk_col tk = size_sub (snd (pos_after (pre @ str_bytes (tk_lexeme tk)) p))
                      (str_len (tk_lexeme tk)) \<and>
        (newline_char \<notin> set (str_bytes (tk_lexeme tk)) \<longrightarrow>
           (tk_row tk, tk_col tk) = pos_after pre p))"

lemma position_ok_prefix: "position_ok (pos_after u p) s tk \<Longrightarrow> position_ok p (u @ s) tk"
  unfolding position_ok_def by (metis append.assoc pos_after_append)

lemma position_ok_token:
  assumes "(row, col) = pos_after (g @ w) p"
  shows "position_ok p (g @ w @ r) (mk_token k w fn row col)"
proof -
  obtain r1 c1 where g: "pos_after g p = (r1, c1)" by force
  have "pos_after g p = (row, size_sub col (length w))" if "newline_char \<notin> set w"
    using assms g pos_after_plain [OF that, of r1 c1] by (simp add: pos_after_append)
  then show ?thesis
    unfolding position_ok_def using assms [symmetric]
    by (intro exI [of _ g] exI [of _ r]) simp
qed

lemma lexed_positions: "lexed ks fn p s ts \<Longrightarrow> tk \<in> set ts \<Longrightarrow> position_ok p s tk"
proof (induction rule: lexed.induct)
  case (lexed_eof g row col p ks fn)
  then show ?case
    unfolding position_ok_def
    by (intro exI [of _ g] exI [of _ "[]"]) (auto simp: size_sub_def dest: sym)
next
  case (lexed_tok g ks k w r row col p fn ts)
  consider "tk = mk_token k w fn row col" | "tk \<in> set ts" using lexed_tok.prems by auto
  then show ?case
  proof cases
    case 1
    then show ?thesis using position_ok_token [OF lexed_tok.hyps(3)] by simp
  next
    case 2
    with lexed_tok.IH lexed_tok.hyps(3) show ?thesis
      using position_ok_prefix [of "g @ w" p r tk] by simp
  qed
qed

text \<open>There is no escape in a string and no comment: a source is lexable iff its quotes pair.\<close>

definition quotes :: "string \<Rightarrow> nat" where
  "quotes s = count_list s quote_char"

lemma quotes_append: "quotes (u @ w) = quotes u + quotes w"
  by (simp add: quotes_def)

lemma quotes_free: "\<forall>c\<in>set w. P c \<Longrightarrow> \<not> P quote_char \<Longrightarrow> quotes w = 0"
  unfolding quotes_def by (rule count_notin) blast

lemma not_word_quote: "\<not> is_word quote_char"
  by (simp add: is_word_def isalnum_def isalpha_def isdigit_def)

lemma lexeme_quotes_even: "lexeme_ok ks k w r \<Longrightarrow> even (quotes w)"
proof -
  assume "lexeme_ok ks k w r"
  then consider "word_lexeme w r" | "operator_lexeme w r" | "number_lexeme w r"
    | "float_lexeme w r" | "string_lexeme w" | "symbol_lexeme w r"
    unfolding lexeme_ok_def by blast
  then show ?thesis
  proof cases
    case 1
    then show ?thesis using quotes_free [of w is_word] not_word_quote by (simp add: word_lexeme_def)
  next
    case 2
    then obtain u where "w = CHR ''$'' # u" "\<forall>c\<in>set u. is_word c"
      by (auto simp: operator_lexeme_def word_lexeme_def)
    then show ?thesis using quotes_free [of u is_word] not_word_quote by (simp add: quotes_def)
  next
    case 3
    then show ?thesis
      using quotes_free [of w isdigit] special_facts by (simp add: number_lexeme_def)
  next
    case 4
    then obtain ds fs where "w = ds @ CHR ''.'' # fs" "\<forall>c\<in>set ds. isdigit c" "\<forall>c\<in>set fs. isdigit c"
      by (auto simp: float_lexeme_def)
    then show ?thesis
      using quotes_free [of ds isdigit] quotes_free [of fs isdigit] special_facts
      by (simp add: quotes_def)
  qed (auto simp: string_lexeme_def symbol_lexeme_def quotes_def count_notin)
qed

lemma gap_quotes: "\<forall>c\<in>set g. is_gap c \<Longrightarrow> quotes g = 0"
  using quotes_free [of g is_gap] special_facts by simp

lemma lexed_quotes: "lexed ks fn p s ts \<Longrightarrow> even (quotes s)"
  by (induction rule: lexed.induct) (auto simp: quotes_append gap_quotes lexeme_quotes_even)

lemma lex_loop_total: "even (quotes s) \<Longrightarrow> \<exists>ts. lex_loop ks fn s row col = Some ts"
proof (induction "length s" arbitrary: s row col rule: less_induct)
  case less
  show ?case
  proof (cases s)
    case Nil
    then show ?thesis by simp
  next
    case (Cons c cs)
    show ?thesis
    proof (cases "is_gap c")
      case True
      obtain r1 c1 where p: "pos_step (row, col) c = (r1, c1)" by force
      have "c \<noteq> quote_char" using True special_facts by blast
      then have "quotes cs = quotes s" using Cons by (simp add: quotes_def)
      with less Cons True p show ?thesis by (simp add: lex_loop_class)
    next
      case False
      have "\<not> (c = quote_char \<and> quote_char \<notin> set cs)"
      proof
        assume "c = quote_char \<and> quote_char \<notin> set cs"
        then have "quotes s = 1" using Cons by (simp add: quotes_def)
        with less.prems show False by simp
      qed
      then obtain k w r where w: "s = w @ r" "w \<noteq> []" "lexeme_ok ks k w r"
        using lexeme_exists [OF False, of cs ks] Cons by blast
      obtain r1 c1 where p: "pos_after w (row, col) = (r1, c1)" by force
      have "even (quotes r)"
        using less.prems w lexeme_quotes_even [OF w(3)] by (simp add: quotes_append)
      moreover have "length r < length s" using w by simp
      ultimately obtain ts where "lex_loop ks fn r r1 c1 = Some ts" using less.hyps by blast
      with lexeme_emits [OF w(3), of fn row col] w(1) p show ?thesis by (simp add: emits_def)
    qed
  qed
qed

lemma lex_loop_None_iff: "lex_loop ks fn s row col = None \<longleftrightarrow> odd (quotes s)"
proof
  show "odd (quotes s)" if "lex_loop ks fn s row col = None"
    using lex_loop_total [of s ks fn row col] that by auto
  show "lex_loop ks fn s row col = None" if "odd (quotes s)"
  proof (cases "lex_loop ks fn s row col")
    case (Some ts)
    with lexed_quotes [OF lexed_sound [OF Some]] that show ?thesis by simp
  qed
qed

text \<open>On a fresh table the six kinds are the symbols 1 to 6.\<close>

lemma intern_new_name:
  assumes "table_inv t" and "t_index t = xs" and "b \<notin> set xs"
    and "bytes_used (xs @ [b]) \<le> 65536"
  obtains t' where "interns_intern t (Some b) = (length xs + 1, t')" "table_inv t'"
    "t_index t' = xs @ [b]"
  using interns_intern_refines [OF assms(1), of b] assms that
  by (cases "interns_intern t (Some b)") (auto simp: intern_spec_def)

lemma intern_kinds_new:
  obtains t' where "intern_kinds interns_new = (Some \<lparr>k_ident = 1, k_number = 2, k_float = 3,
      k_string = 4, k_symbol = 5, k_eof = 6\<rparr>, t')" "table_inv t'"
    "t_index t' = [LEXER_KIND_IDENT, LEXER_KIND_NUMBER, LEXER_KIND_FLOAT, LEXER_KIND_STRING,
      LEXER_KIND_SYMBOL, LEXER_KIND_EOF]"
proof -
  have 0: "t_index interns_new = []" by (simp add: interns_new_eq)
  obtain t1 where 1: "interns_intern interns_new (Some LEXER_KIND_IDENT)
      = (length ([] :: string list) + 1, t1)" "table_inv t1"
    "t_index t1 = [] @ [LEXER_KIND_IDENT]"
    by (rule intern_new_name [OF interns_new_inv 0, of LEXER_KIND_IDENT])
      (assumption | simp add: kind_names bytes_used_def)+
  obtain t2 where 2: "interns_intern t1 (Some LEXER_KIND_NUMBER)
      = (length (([] @ [LEXER_KIND_IDENT]) :: string list) + 1, t2)" "table_inv t2"
    "t_index t2 = ([] @ [LEXER_KIND_IDENT]) @ [LEXER_KIND_NUMBER]"
    by (rule intern_new_name [OF 1(2,3), of LEXER_KIND_NUMBER])
      (assumption | simp add: kind_names bytes_used_def)+
  obtain t3 where 3: "interns_intern t2 (Some LEXER_KIND_FLOAT)
      = (length ((([] @ [LEXER_KIND_IDENT]) @ [LEXER_KIND_NUMBER]) :: string list) + 1, t3)" "table_inv t3"
    "t_index t3 = (([] @ [LEXER_KIND_IDENT]) @ [LEXER_KIND_NUMBER]) @ [LEXER_KIND_FLOAT]"
    by (rule intern_new_name [OF 2(2,3), of LEXER_KIND_FLOAT])
      (assumption | simp add: kind_names bytes_used_def)+
  obtain t4 where 4: "interns_intern t3 (Some LEXER_KIND_STRING)
      = (length (((([] @ [LEXER_KIND_IDENT]) @ [LEXER_KIND_NUMBER]) @ [LEXER_KIND_FLOAT]) :: string list) + 1, t4)" "table_inv t4"
    "t_index t4 = ((([] @ [LEXER_KIND_IDENT]) @ [LEXER_KIND_NUMBER]) @ [LEXER_KIND_FLOAT]) @ [LEXER_KIND_STRING]"
    by (rule intern_new_name [OF 3(2,3), of LEXER_KIND_STRING])
      (assumption | simp add: kind_names bytes_used_def)+
  obtain t5 where 5: "interns_intern t4 (Some LEXER_KIND_SYMBOL)
      = (length ((((([] @ [LEXER_KIND_IDENT]) @ [LEXER_KIND_NUMBER]) @ [LEXER_KIND_FLOAT]) @ [LEXER_KIND_STRING]) :: string list) + 1, t5)" "table_inv t5"
    "t_index t5 = (((([] @ [LEXER_KIND_IDENT]) @ [LEXER_KIND_NUMBER]) @ [LEXER_KIND_FLOAT]) @ [LEXER_KIND_STRING]) @ [LEXER_KIND_SYMBOL]"
    by (rule intern_new_name [OF 4(2,3), of LEXER_KIND_SYMBOL])
      (assumption | simp add: kind_names bytes_used_def)+
  obtain t6 where 6: "interns_intern t5 (Some LEXER_KIND_EOF)
      = (length (((((([] @ [LEXER_KIND_IDENT]) @ [LEXER_KIND_NUMBER]) @ [LEXER_KIND_FLOAT]) @ [LEXER_KIND_STRING]) @ [LEXER_KIND_SYMBOL]) :: string list) + 1, t6)" "table_inv t6"
    "t_index t6 = ((((([] @ [LEXER_KIND_IDENT]) @ [LEXER_KIND_NUMBER]) @ [LEXER_KIND_FLOAT]) @ [LEXER_KIND_STRING]) @ [LEXER_KIND_SYMBOL]) @ [LEXER_KIND_EOF]"
    by (rule intern_new_name [OF 5(2,3), of LEXER_KIND_EOF])
      (assumption | simp add: kind_names bytes_used_def)+
  have "intern_kinds interns_new = (Some \<lparr>k_ident = 1, k_number = 2, k_float = 3,
      k_string = 4, k_symbol = 5, k_eof = 6\<rparr>, t6)"
    using 1(1) 2(1) 3(1) 4(1) 5(1) 6(1) by (simp add: intern_kinds_def str_from_def)
  with 6 show ?thesis by (intro that [of t6]) simp_all
qed

text \<open>A two-token source, evaluated.\<close>

lemmas char_classes = is_word_start_def is_word_def isalnum_def isalpha_def isdigit_def Let_def

lemma lex_loop_sample:
  "lex_loop ks fn ''a b'' 1 1 =
     Some [mk_token (k_ident ks) ''a'' fn 1 2, mk_token (k_ident ks) ''b'' fn 1 4,
           eof_token ks fn (1, 4)]"
  by (simp add: lex_loop.simps(2) char_classes eof_token_def eval_nat_numeral)

lemma tokenize_sample:
  obtains t' ks where "lexer_tokenize fn ''a b'' interns_new =
     (Some [mk_token (k_ident ks) ''a'' fn 1 2, mk_token (k_ident ks) ''b'' fn 1 4,
            eof_token ks fn (1, 4)], t')"
proof -
  obtain ks t' where "intern_kinds interns_new = (Some ks, t')" using intern_kinds_new by blast
  then show ?thesis by (intro that) (simp add: lexer_tokenize_def lex_loop_sample del: One_nat_def)
qed

section \<open>Properties\<close>

text \<open>C3: the lexer computes the token stream of its source.  On a reachable intern table whose six
  kind names fit, \<open>lexer_tokenize\<close> returns exactly the list that cuts the source into lexemes by
  maximal munch, the six kinds are pairwise distinct symbols that look up to their names, and it
  fails on exactly the sources in which some double quote is left without a partner.\<close>

theorem lexer_tokenize_implements_spec:
  assumes "reachable_table t" and "intern_kinds t = (Some ks, t')"
  shows "snd (lexer_tokenize fn src t) = t' \<and> kinds_named t' ks \<and> distinct (kind_list ks) \<and>
    (\<forall>ts. fst (lexer_tokenize fn src t) = Some ts \<longleftrightarrow> lexed ks fn (1, 1) src ts) \<and>
    (fst (lexer_tokenize fn src t) = None \<longleftrightarrow> odd (count_list src quote_char))"
  using intern_kinds_sound [OF assms(2) reachable_table_inv [OF assms(1)]] assms(2)
    lex_loop_None_iff [of ks fn src 1 1]
    kinds_named_distinct [of t' ks]
  by (simp add: lexer_tokenize_def lex_loop_iff_lexed quotes_def)

theorem lexer_tokenize_implements_spec_witness:
  "fst (lexer_tokenize ''m.mpl'' (''a '' @ [quote_char]) interns_new) = None"
proof -
  obtain ks t' where k: "intern_kinds interns_new = (Some ks, t')" using intern_kinds_new by blast
  have "odd (count_list (''a '' @ [quote_char]) quote_char)" by simp
  with lexer_tokenize_implements_spec [OF rt_new k, of "''m.mpl''" "''a '' @ [quote_char]"]
  show ?thesis by blast
qed

text \<open>C20: tokenizing loses nothing but white space.  The token list ends with the one EOF token,
  which carries the position after the last byte; every other token has a non-empty lexeme and
  another kind; and the lexemes, with the gaps of blanks between them, are the source.\<close>

theorem lexer_tokenize_lossless:
  assumes "reachable_table t" and "lexer_tokenize fn src t = (Some ts, t')"
  shows "\<exists>ks gs body. intern_kinds t = (Some ks, t') \<and>
     ts = body @ [eof_token ks fn (pos_after src (1, 1))] \<and> length gs = length ts \<and>
     (\<forall>g\<in>set gs. \<forall>c\<in>set g. is_gap c) \<and> src = unlex gs ts \<and>
     (\<forall>tk\<in>set body. tk_kind tk \<noteq> k_eof ks \<and> str_len (tk_lexeme tk) > 0 \<and> tk_filename tk = fn)"
proof -
  obtain ks where "kinds_named t' ks" "intern_kinds t = (Some ks, t')" "lexed ks fn (1, 1) src ts"
    using lexer_tokenize_cases [OF assms(2) reachable_table_inv [OF assms(1)]] by blast
  with lexed_lossless [of ks fn "(1, 1)" src ts] kinds_named_distinct [of t' ks] show ?thesis
    by blast
qed

theorem lexer_tokenize_lossless_witness:
  "\<exists>ts. fst (lexer_tokenize ''m.mpl'' ''a b'' interns_new) = Some ts \<and>
     (\<exists>gs. length gs = 3 \<and> ''a b'' = unlex gs ts)"
proof -
  obtain t' ks where r: "lexer_tokenize ''m.mpl'' ''a b'' interns_new =
     (Some [mk_token (k_ident ks) ''a'' ''m.mpl'' 1 2, mk_token (k_ident ks) ''b'' ''m.mpl'' 1 4,
            eof_token ks ''m.mpl'' (1, 4)], t')" by (rule tokenize_sample)
  from lexer_tokenize_lossless [OF rt_new r] obtain gs where g: "length gs =
     length [mk_token (k_ident ks) ''a'' ''m.mpl'' 1 2,
       mk_token (k_ident ks) ''b'' ''m.mpl'' 1 4, eof_token ks ''m.mpl'' (1, 4)]"
    "''a b'' = unlex gs [mk_token (k_ident ks) ''a'' ''m.mpl'' 1 2,
       mk_token (k_ident ks) ''b'' ''m.mpl'' 1 4, eof_token ks ''m.mpl'' (1, 4)]"
    by blast
  then have "length gs = 3" by simp
  with g(2) show ?thesis unfolding r fst_conv by blast
qed

text \<open>C22: token positions.  Every token is found in the source at a place where its row is the row
  reached at its end and its column the column reached there less its length (on \<open>size_t\<close>); for
  a token without a newline these are the 1-based row and column of its first byte.\<close>

theorem lexer_tokenize_positions:
  assumes "reachable_table t" and "lexer_tokenize fn src t = (Some ts, t')" and "tk \<in> set ts"
  shows "position_ok (1, 1) src tk"
  using lexer_tokenize_cases [OF assms(2) reachable_table_inv [OF assms(1)]] assms(3)
    lexed_positions by blast

theorem lexer_tokenize_positions_witness:
  "\<exists>tk. tk_lexeme tk = Some ''b'' \<and> (tk_row tk, tk_col tk) = (1, 3) \<and> position_ok (1, 1) ''a b'' tk"
proof -
  obtain t' ks where r: "lexer_tokenize ''m.mpl'' ''a b'' interns_new =
     (Some [mk_token (k_ident ks) ''a'' ''m.mpl'' 1 2, mk_token (k_ident ks) ''b'' ''m.mpl'' 1 4,
            eof_token ks ''m.mpl'' (1, 4)], t')" by (rule tokenize_sample)
  have "position_ok (1, 1) ''a b'' (mk_token (k_ident ks) ''b'' ''m.mpl'' 1 4)"
    by (rule lexer_tokenize_positions [OF rt_new r]) simp
  then show ?thesis
    by (intro exI [of _ "mk_token (k_ident ks) ''b'' ''m.mpl'' 1 4"]) (simp add: size_sub_def)
qed

end
