(* ===== verification/Ast.thy ===== *)
theory Ast
  imports Intern_Table
begin

text \<open>
  The syntax tree of \<open>include/ast/ast.h\<close> and \<open>src/ast/ast.c\<close>: node kinds, construction,
  growth of the child array, and the tree printer (its output as a string).

  A node owns its children, so the tree is a datatype; a missing filename is \<open>None\<close>, a node
  that carries no source text has the value \<open>None\<close> (the zeroed \<open>Str\<close> of \<open>calloc\<close>).
\<close>

datatype ast_kind = AST_LITERAL | AST_IDENT | AST_CALL | AST_FUNC | AST_IF | AST_BLOCK
  | AST_GROUP | AST_DECL | AST_PROP | AST_SET | AST_BUILTIN | AST_OVERLOAD | AST_FILE | AST_UNKNOWN

datatype ast = AstNode (n_kind: ast_kind) (n_op: nat) (n_value: str) (n_children: "ast list")
  (n_child_capacity: nat) (n_filename: "string option") (n_row: nat) (n_col: nat)

definition ensure_child_capacity :: "nat \<Rightarrow> nat \<Rightarrow> nat" where
  "ensure_child_capacity = grow_capacity 4"

interpretation child_growth: growth_policy ensure_child_capacity
  by unfold_locales
    (simp_all add: ensure_child_capacity_def grow_capacity_needed grow_capacity_mono)

definition ast_new :: "ast_kind \<Rightarrow> ast" where
  "ast_new kind = AstNode kind 0 None [] 0 None 0 0"

definition ast_make_leaf :: "ast_kind \<Rightarrow> str \<Rightarrow> string option \<Rightarrow> nat \<Rightarrow> nat \<Rightarrow> ast" where
  "ast_make_leaf kind value filename row col = AstNode kind 0 value [] 0 filename row col"

fun ast_append_child :: "ast \<Rightarrow> ast \<Rightarrow> ast" where
  "ast_append_child (AstNode k op v cs cap fn row col) child =
     AstNode k op v (cs @ [child]) (ensure_child_capacity cap (length cs + 1)) fn row col"

fun kind_name :: "ast_kind \<Rightarrow> string" where
  "kind_name AST_LITERAL = ''literal''"
| "kind_name AST_IDENT = ''ident''"
| "kind_name AST_CALL = ''call''"
| "kind_name AST_FUNC = ''func''"
| "kind_name AST_IF = ''if''"
| "kind_name AST_BLOCK = ''block''"
| "kind_name AST_GROUP = ''group''"
| "kind_name AST_DECL = ''decl''"
| "kind_name AST_PROP = ''prop''"
| "kind_name AST_SET = ''set''"
| "kind_name AST_BUILTIN = ''builtin''"
| "kind_name AST_OVERLOAD = ''overload''"
| "kind_name AST_FILE = ''file''"
| "kind_name AST_UNKNOWN = ''unknown''"

definition print_indent :: "nat \<Rightarrow> string" where
  "print_indent depth = concat (replicate depth ''  '')"

text \<open>The text after the kind name, by node kind.\<close>

definition print_detail :: "intern_table \<Rightarrow> ast \<Rightarrow> string" where
  "print_detail interns n =
     (case n_kind n of
        AST_BUILTIN \<Rightarrow>
          (case (if n_op n \<noteq> 0 then interns_lookup interns (n_op n) else None) of
             Some name \<Rightarrow> '' ('' @ name @ '')''
           | None \<Rightarrow> '' (op='' @ nat_str (n_op n) @ '')'')
      | AST_LITERAL \<Rightarrow> '' '' @ str_bytes (n_value n)
      | AST_IDENT \<Rightarrow> '' '' @ str_bytes (n_value n)
      | AST_FILE \<Rightarrow> '' '' @ (case n_filename n of Some f \<Rightarrow> f | None \<Rightarrow> ''<unknown>'')
      | _ \<Rightarrow> '''')"

fun ast_print_impl :: "intern_table \<Rightarrow> nat \<Rightarrow> ast \<Rightarrow> string" where
  "ast_print_impl interns depth (AstNode k op v cs cap fn row col) =
     print_indent depth @ kind_name k @ print_detail interns (AstNode k op v cs cap fn row col) @
     [CHR 0x0A] @ concat (map (ast_print_impl interns (depth + 1)) cs)"

definition ast_print :: "intern_table \<Rightarrow> ast \<Rightarrow> string" where
  "ast_print interns n = ast_print_impl interns 0 n"

section \<open>Traversals\<close>

text \<open>The nodes of a tree in document order, each with its depth.\<close>

fun preorder :: "nat \<Rightarrow> ast \<Rightarrow> (nat \<times> ast) list" where
  "preorder d (AstNode k op v cs cap fn row col) =
     (d, AstNode k op v cs cap fn row col) # concat (map (preorder (d + 1)) cs)"

fun node_count :: "ast \<Rightarrow> nat" where
  "node_count (AstNode k op v cs cap fn row col) = 1 + (\<Sum>c\<leftarrow>cs. node_count c)"

fun height :: "ast \<Rightarrow> nat" where
  "height (AstNode k op v cs cap fn row col) = (case cs of [] \<Rightarrow> 0 | _ \<Rightarrow> 1 + Max (set (map height cs)))"

lemma length_preorder: "length (preorder d n) = node_count n"
  by (induction d n rule: preorder.induct) (simp add: length_concat comp_def cong: map_cong)

definition print_line :: "intern_table \<Rightarrow> nat \<times> ast \<Rightarrow> string" where
  "print_line interns dn =
     print_indent (fst dn) @ kind_name (n_kind (snd dn)) @ print_detail interns (snd dn) @ [CHR 0x0A]"

lemma print_preorder:
  "ast_print_impl interns d n = concat (map (print_line interns) (preorder d n))"
  by (induction d n rule: preorder.induct)
    (simp add: print_line_def concat_map_concat comp_def cong: map_cong)

lemma append_child_fields [simp]:
  "n_children (ast_append_child n c) = n_children n @ [c]"
  "n_kind (ast_append_child n c) = n_kind n" "n_op (ast_append_child n c) = n_op n"
  "n_value (ast_append_child n c) = n_value n" "n_filename (ast_append_child n c) = n_filename n"
  by (cases n; simp)+

lemma append_child_preorder:
  "preorder d (ast_append_child n c) =
     (d, ast_append_child n c) # tl (preorder d n) @ preorder (d + 1) c"
  by (cases n) simp

text \<open>The tree printer writes one line per node, in document order: the output is the
  concatenation of the nodes' own lines, indented by twice their depth, and appending a child
  appends exactly the child's lines, one level deeper.\<close>

theorem ast_print_lines:
  "ast_print interns n = concat (map (print_line interns) (preorder 0 n)) \<and>
   length (preorder 0 n) = node_count n \<and>
   ast_print interns (ast_append_child n c) = ast_print interns n @ ast_print_impl interns 1 c"
proof -
  have "print_detail interns (ast_append_child n c) = print_detail interns n"
    unfolding print_detail_def append_child_fields ..
  then have "ast_print interns (ast_append_child n c) = ast_print interns n @ ast_print_impl interns 1 c"
    by (cases n) (simp add: ast_print_def)
  then show ?thesis by (simp add: ast_print_def print_preorder length_preorder)
qed

end
