(* ===== verification/Operators.thy ===== *)
theory Operators
  imports Ast
begin

text \<open>
  The operator registry of \<open>src/parser/operators.c\<close>: the static table \<open>kBuiltinOps\<close>,
  its initialisation, which interns every operator name, and the lookups by symbol and by
  enumerator.  The table with its \<open>sym\<close> fields is explicit state (\<open>operator_row list\<close>); the
  preprocessor actions are named by the constructors of \<open>pp_action\<close>.
\<close>

section \<open>The table\<close>

datatype operator_pp_policy = OP_PP_KEEP_NODE | OP_PP_DROP_NODE

datatype (plugins only: code size) operator =
  OP_SYNTAX | OP_IMPORT | OP_PROP | OP_CALL | OP_FUNC | OP_IF | OP_WHILE | OP_SET | OP_DECL
  | OP_RET | OP_MEMBER | OP_MUT | OP_CONST | OP_INLINE | OP_THIS | OP_FILE | OP_GLOBAL
  | OP_IDTSTR | OP_STRTID | OP_FORWARD | OP_BREAK | OP_CONTINUE | OP_GROUP | OP_BLOCK | OP_ADD
  | OP_SUB | OP_MUL | OP_DIV | OP_MOD | OP_REM | OP_FADD | OP_FSUB | OP_FMUL | OP_FDIV | OP_EQ
  | OP_NEQ | OP_LT | OP_GT | OP_LTE | OP_GTE | OP_AND | OP_OR | OP_NOT | OP_BAND | OP_BOR
  | OP_BXOR | OP_BNOT | OP_LSHIFT | OP_RSHIFT

datatype pp_action = PP_ACTION_CALL | PP_ACTION_FUNC | PP_ACTION_IF | PP_ACTION_WHILE | PP_ACTION_SET
  | PP_ACTION_DECL | PP_ACTION_IMPORT | PP_ACTION_SYNTAX | PP_ACTION_PROP | PP_ACTION_RET | PP_ACTION_MEMBER | PP_ACTION_MUT | PP_ACTION_CONST

text \<open>The enumerators in declaration order; their position is their C value.\<close>

definition operators :: "operator list" where
  "operators =
     [OP_SYNTAX, OP_IMPORT, OP_PROP, OP_CALL, OP_FUNC, OP_IF, OP_WHILE, OP_SET, OP_DECL, OP_RET,
      OP_MEMBER, OP_MUT, OP_CONST, OP_INLINE, OP_THIS, OP_FILE, OP_GLOBAL, OP_IDTSTR, OP_STRTID,
      OP_FORWARD, OP_BREAK, OP_CONTINUE, OP_GROUP, OP_BLOCK, OP_ADD, OP_SUB, OP_MUL, OP_DIV,
      OP_MOD, OP_REM, OP_FADD, OP_FSUB, OP_FMUL, OP_FDIV, OP_EQ, OP_NEQ, OP_LT, OP_GT, OP_LTE,
      OP_GTE, OP_AND, OP_OR, OP_NOT, OP_BAND, OP_BOR, OP_BXOR, OP_BNOT, OP_LSHIFT, OP_RSHIFT]"

fun position :: "'a list \<Rightarrow> 'a \<Rightarrow> nat" where
  "position [] x = 0"
| "position (y # ys) x = (if y = x then 0 else position ys x + 1)"

definition op_value :: "operator \<Rightarrow> nat" where
  "op_value e = position operators e"

record operator_row =
  r_name :: string
  r_ast_kind :: ast_kind
  r_is_preprocessor :: bool
  r_min_args :: nat
  r_max_args :: nat
  r_func :: "pp_action option"
  r_sym :: nat
  r_policy :: operator_pp_policy
  r_op_enum :: operator

record operator_info =
  i_op_enum :: operator
  i_op :: nat
  i_ast_kind :: ast_kind
  i_func :: "pp_action option"
  i_min_args :: nat
  i_max_args :: nat
  i_is_preprocessor :: bool
  i_pp_policy :: operator_pp_policy

definition builtin_row :: "string \<Rightarrow> ast_kind \<Rightarrow> bool \<Rightarrow> nat \<Rightarrow> nat \<Rightarrow> pp_action option \<Rightarrow>
    operator_pp_policy \<Rightarrow> operator \<Rightarrow> operator_row" where
  "builtin_row name kind pre mn mx f pol e =
     \<lparr>r_name = name, r_ast_kind = kind, r_is_preprocessor = pre, r_min_args = mn,
      r_max_args = mx, r_func = f, r_sym = 0, r_policy = pol, r_op_enum = e\<rparr>"

definition kBuiltinOps :: "operator_row list" where
  "kBuiltinOps =
     [builtin_row ''$group'' AST_GROUP False 0 size_max None OP_PP_KEEP_NODE OP_GROUP,
      builtin_row ''$block'' AST_BLOCK False 0 size_max None OP_PP_KEEP_NODE OP_BLOCK,
      builtin_row ''$call'' AST_CALL False 2 2 (Some PP_ACTION_CALL) OP_PP_KEEP_NODE OP_CALL,
      builtin_row ''$func'' AST_FUNC False 2 2 (Some PP_ACTION_FUNC) OP_PP_KEEP_NODE OP_FUNC,
      builtin_row ''$if'' AST_IF False 2 2 (Some PP_ACTION_IF) OP_PP_KEEP_NODE OP_IF,
      builtin_row ''$while'' AST_BUILTIN False 2 2 (Some PP_ACTION_WHILE) OP_PP_KEEP_NODE OP_WHILE,
      builtin_row ''$set'' AST_SET False 2 2 (Some PP_ACTION_SET) OP_PP_KEEP_NODE OP_SET,
      builtin_row ''$decl'' AST_DECL True 2 2 (Some PP_ACTION_DECL) OP_PP_KEEP_NODE OP_DECL,
      builtin_row ''$import'' AST_BUILTIN True 1 1 (Some PP_ACTION_IMPORT) OP_PP_KEEP_NODE OP_IMPORT,
      builtin_row ''$syntax'' AST_BUILTIN True 1 1 (Some PP_ACTION_SYNTAX) OP_PP_DROP_NODE OP_SYNTAX,
      builtin_row ''$prop'' AST_PROP True 2 2 (Some PP_ACTION_PROP) OP_PP_KEEP_NODE OP_PROP,
      builtin_row ''$ret'' AST_BUILTIN False 1 1 (Some PP_ACTION_RET) OP_PP_KEEP_NODE OP_RET,
      builtin_row ''$member'' AST_BUILTIN False 2 2 (Some PP_ACTION_MEMBER) OP_PP_KEEP_NODE OP_MEMBER,
      builtin_row ''$mut'' AST_BUILTIN False 1 1 (Some PP_ACTION_MUT) OP_PP_KEEP_NODE OP_MUT,
      builtin_row ''$const'' AST_BUILTIN False 1 1 (Some PP_ACTION_CONST) OP_PP_KEEP_NODE OP_CONST,
      builtin_row ''$inline'' AST_BUILTIN False 1 1 None OP_PP_KEEP_NODE OP_INLINE,
      builtin_row ''$this'' AST_BUILTIN False 0 0 None OP_PP_KEEP_NODE OP_THIS,
      builtin_row ''$file'' AST_BUILTIN False 0 0 None OP_PP_KEEP_NODE OP_FILE,
      builtin_row ''$global'' AST_BUILTIN False 0 0 None OP_PP_KEEP_NODE OP_GLOBAL,
      builtin_row ''$idtstr'' AST_BUILTIN False 1 1 None OP_PP_KEEP_NODE OP_IDTSTR,
      builtin_row ''$strtid'' AST_BUILTIN False 1 1 None OP_PP_KEEP_NODE OP_STRTID,
      builtin_row ''$forward'' AST_BUILTIN False 1 1 None OP_PP_KEEP_NODE OP_FORWARD,
      builtin_row ''$break'' AST_BUILTIN False 0 0 None OP_PP_KEEP_NODE OP_BREAK,
      builtin_row ''$continue'' AST_BUILTIN False 0 0 None OP_PP_KEEP_NODE OP_CONTINUE,
      builtin_row ''$add'' AST_BUILTIN False 2 2 None OP_PP_KEEP_NODE OP_ADD,
      builtin_row ''$sub'' AST_BUILTIN False 2 2 None OP_PP_KEEP_NODE OP_SUB,
      builtin_row ''$mul'' AST_BUILTIN False 2 2 None OP_PP_KEEP_NODE OP_MUL,
      builtin_row ''$div'' AST_BUILTIN False 2 2 None OP_PP_KEEP_NODE OP_DIV,
      builtin_row ''$mod'' AST_BUILTIN False 2 2 None OP_PP_KEEP_NODE OP_MOD,
      builtin_row ''$rem'' AST_BUILTIN False 2 2 None OP_PP_KEEP_NODE OP_REM,
      builtin_row ''$fadd'' AST_BUILTIN False 2 2 None OP_PP_KEEP_NODE OP_FADD,
      builtin_row ''$fsub'' AST_BUILTIN False 2 2 None OP_PP_KEEP_NODE OP_FSUB,
      builtin_row ''$fmul'' AST_BUILTIN False 2 2 None OP_PP_KEEP_NODE OP_FMUL,
      builtin_row ''$fdiv'' AST_BUILTIN False 2 2 None OP_PP_KEEP_NODE OP_FDIV,
      builtin_row ''$eq'' AST_BUILTIN False 2 2 None OP_PP_KEEP_NODE OP_EQ,
      builtin_row ''$neq'' AST_BUILTIN False 2 2 None OP_PP_KEEP_NODE OP_NEQ,
      builtin_row ''$lt'' AST_BUILTIN False 2 2 None OP_PP_KEEP_NODE OP_LT,
      builtin_row ''$gt'' AST_BUILTIN False 2 2 None OP_PP_KEEP_NODE OP_GT,
      builtin_row ''$lte'' AST_BUILTIN False 2 2 None OP_PP_KEEP_NODE OP_LTE,
      builtin_row ''$gte'' AST_BUILTIN False 2 2 None OP_PP_KEEP_NODE OP_GTE,
      builtin_row ''$and'' AST_BUILTIN False 2 2 None OP_PP_KEEP_NODE OP_AND,
      builtin_row ''$or'' AST_BUILTIN False 2 2 None OP_PP_KEEP_NODE OP_OR,
      builtin_row ''$not'' AST_BUILTIN False 1 1 None OP_PP_KEEP_NODE OP_NOT,
      builtin_row ''$band'' AST_BUILTIN False 2 2 None OP_PP_KEEP_NODE OP_BAND,
      builtin_row ''$bor'' AST_BUILTIN False 2 2 None OP_PP_KEEP_NODE OP_BOR,
      builtin_row ''$bxor'' AST_BUILTIN False 2 2 None OP_PP_KEEP_NODE OP_BXOR,
      builtin_row ''$bnot'' AST_BUILTIN False 1 1 None OP_PP_KEEP_NODE OP_BNOT,
      builtin_row ''$lshift'' AST_BUILTIN False 2 2 None OP_PP_KEEP_NODE OP_LSHIFT,
      builtin_row ''$rshift'' AST_BUILTIN False 2 2 None OP_PP_KEEP_NODE OP_RSHIFT,
      builtin_row ''$syntax'' AST_BUILTIN True 1 1 (Some PP_ACTION_SYNTAX) OP_PP_DROP_NODE OP_SYNTAX,
      builtin_row ''$import'' AST_BUILTIN True 1 1 (Some PP_ACTION_IMPORT) OP_PP_KEEP_NODE OP_IMPORT]"

section \<open>Initialisation and lookup\<close>

fun init_rows :: "operator_row list \<Rightarrow> intern_table \<Rightarrow> bool \<times> operator_row list \<times> intern_table" where
  "init_rows [] t = (True, [], t)"
| "init_rows (r # rs) t =
     (case interns_intern t (str_from (r_name r)) of
        (sy, t1) \<Rightarrow>
          if sy = 0 then (False, r # rs, t1)
          else (case init_rows rs t1 of
                  (ok, rs', t2) \<Rightarrow> (ok, r\<lparr>r_sym := sy\<rparr> # rs', t2)))"

definition operator_registry_init ::
    "operator_row list \<Rightarrow> intern_table \<Rightarrow> bool \<times> operator_row list \<times> intern_table" where
  "operator_registry_init = init_rows"

text \<open>
  Both lookups fill a zero-initialised \<open>static OperatorInfo\<close> field by field and never assign
  \<open>op_enum\<close>, which stays at the zero enumerator.
\<close>

definition info_of_row :: "operator_row \<Rightarrow> operator_info" where
  "info_of_row r =
     \<lparr>i_op_enum = OP_SYNTAX, i_op = r_sym r, i_ast_kind = r_ast_kind r, i_func = r_func r,
      i_min_args = r_min_args r, i_max_args = r_max_args r,
      i_is_preprocessor = r_is_preprocessor r, i_pp_policy = r_policy r\<rparr>"

definition operator_info_lookup :: "operator_row list \<Rightarrow> nat \<Rightarrow> operator_info option" where
  "operator_info_lookup ops op =
     (if op = 0 then None else map_option info_of_row (find (\<lambda>r. r_sym r = op) ops))"

definition operator_info_from_enum :: "operator_row list \<Rightarrow> operator \<Rightarrow> operator_info option" where
  "operator_info_from_enum ops e =
     (if op_value e \<ge> length ops then None
      else map_option info_of_row (find (\<lambda>r. r_op_enum r = e) ops))"

definition operator_sym_from_enum :: "operator_row list \<Rightarrow> operator \<Rightarrow> nat" where
  "operator_sym_from_enum ops e =
     (case operator_info_from_enum ops e of None \<Rightarrow> 0 | Some info \<Rightarrow> i_op info)"

section \<open>What initialisation establishes\<close>

text \<open>A row without its symbol.\<close>

definition row_shape :: "operator_row \<Rightarrow> operator_row" where
  "row_shape r = r\<lparr>r_sym := 0\<rparr>"

text \<open>The registry invariant: the rows of the table, each with the symbol of its name.\<close>

definition registry_inv :: "operator_row list \<Rightarrow> intern_table \<Rightarrow> bool" where
  "registry_inv ops t \<longleftrightarrow>
     map row_shape ops = kBuiltinOps \<and>
     (\<forall>r\<in>set ops. r_sym r \<noteq> 0 \<and> interns_lookup t (r_sym r) = Some (r_name r))"

lemma row_shape_fields [simp]:
  "r_name (row_shape r) = r_name r" "r_ast_kind (row_shape r) = r_ast_kind r"
  "r_op_enum (row_shape r) = r_op_enum r" "row_shape (row_shape r) = row_shape r"
  "row_shape (r\<lparr>r_sym := sy\<rparr>) = row_shape r" "info_of_row (row_shape r) = (info_of_row r)\<lparr>i_op := 0\<rparr>"
  by (simp_all add: row_shape_def info_of_row_def)

lemma lookup_zero [simp]: "interns_lookup t 0 = None"
  by (simp add: interns_lookup_def)

lemma init_rows_sound:
  "init_rows rs t = (True, rs', t') \<Longrightarrow> table_inv t \<Longrightarrow>
     table_inv t' \<and> table_le t t' \<and> map row_shape rs' = map row_shape rs \<and>
     (\<forall>r\<in>set rs'. r_sym r \<noteq> 0 \<and> interns_lookup t' (r_sym r) = Some (r_name r))"
proof (induction rs arbitrary: t rs')
  case (Cons r rs)
  obtain sy t1 where 1: "interns_intern t (Some (r_name r)) = (sy, t1)" by fastforce
  obtain ok rs1 t2 where 2: "init_rows rs t1 = (ok, rs1, t2)" using prod_cases3 by blast
  have r: "sy \<noteq> 0" "ok = True" "t' = t2" "rs' = r\<lparr>r_sym := sy\<rparr> # rs1"
    using Cons.prems(1) 1 2 by (auto simp: str_from_def split: if_splits)
  have i: "table_inv t1" "table_le t t1" "interns_lookup t1 sy = Some (r_name r)"
    using st.intern_inv [OF Cons.prems(2), of "Some (r_name r)"] r(1)
      table_le_intern [OF Cons.prems(2), of "Some (r_name r)"]
      st.lookup_intern [OF Cons.prems(2), of "Some (r_name r)"] by (simp_all add: 1)
  have ih: "table_inv t2 \<and> table_le t1 t2 \<and> map row_shape rs1 = map row_shape rs \<and>
     (\<forall>r\<in>set rs1. r_sym r \<noteq> 0 \<and> interns_lookup t2 (r_sym r) = Some (r_name r))"
    using Cons.IH [of t1 rs1] 2 r i(1) by simp
  with i r table_le_trans [OF i(2)] table_le_lookup [of t1 t2 sy "r_name r"] show ?case by auto
qed auto

lemma init_rows_total:
  "table_inv t \<Longrightarrow> bytes_used (t_index t) + bytes_used (map r_name rs) \<le> 65536 \<Longrightarrow> fst (init_rows rs t)"
proof (induction rs arbitrary: t)
  case (Cons r rs)
  obtain sy t1 where 1: "interns_intern t (Some (r_name r)) = (sy, t1)" by fastforce
  have "table_inv t1" using st.intern_inv [OF Cons.prems(1), of "Some (r_name r)"] 1 by simp
  moreover have "sy \<noteq> 0 \<and> bytes_used (t_index t1) \<le> bytes_used (t_index t) + length (r_name r) + 1"
    using intern_spec_cases(2) [OF Cons.prems(1) 1] scan_index_bounds [of "r_name r" "t_index t" 0]
      interns_intern_refines(2) [OF Cons.prems(1), of "r_name r"] Cons.prems(2) 1
    by (auto simp: bytes_used_def intern_spec_def split: if_splits)
  ultimately show ?case
    using Cons.IH [of t1] Cons.prems(2) 1
    by (auto simp: bytes_used_def str_from_def split: prod.split)
qed simp

lemma shapes_builtin: "map row_shape kBuiltinOps = kBuiltinOps"
  by (simp add: kBuiltinOps_def builtin_row_def row_shape_def)

lemma registry_init_inv:
  assumes "operator_registry_init kBuiltinOps t = (True, ops, t')" and "table_inv t"
  shows "table_inv t' \<and> table_le t t' \<and> registry_inv ops t'"
  using init_rows_sound [of kBuiltinOps t ops t'] assms
  by (simp add: operator_registry_init_def registry_inv_def shapes_builtin)

lemma registry_inv_le: "registry_inv ops t \<Longrightarrow> table_le t u \<Longrightarrow> registry_inv ops u"
  by (auto simp: registry_inv_def intro: table_le_lookup)

text \<open>Every enumerator has a row, and rows of one name are rows of one enumerator.\<close>

definition row_of :: "operator \<Rightarrow> operator_row option" where
  "row_of e = find (\<lambda>r. r_op_enum r = e) kBuiltinOps"

lemma enum_column: "map r_op_enum kBuiltinOps =
     [OP_GROUP, OP_BLOCK, OP_CALL, OP_FUNC, OP_IF, OP_WHILE, OP_SET, OP_DECL, OP_IMPORT,
      OP_SYNTAX, OP_PROP, OP_RET, OP_MEMBER, OP_MUT, OP_CONST, OP_INLINE, OP_THIS, OP_FILE,
      OP_GLOBAL, OP_IDTSTR, OP_STRTID, OP_FORWARD, OP_BREAK, OP_CONTINUE, OP_ADD, OP_SUB,
      OP_MUL, OP_DIV, OP_MOD, OP_REM, OP_FADD, OP_FSUB, OP_FMUL, OP_FDIV, OP_EQ, OP_NEQ, OP_LT,
      OP_GT, OP_LTE, OP_GTE, OP_AND, OP_OR, OP_NOT, OP_BAND, OP_BOR, OP_BXOR, OP_BNOT,
      OP_LSHIFT, OP_RSHIFT, OP_SYNTAX, OP_IMPORT]"
  unfolding kBuiltinOps_def builtin_row_def by simp

lemma operators_all: "e \<in> set operators"
  by (cases e) (simp_all add: operators_def)

lemma position_less: "x \<in> set xs \<Longrightarrow> position xs x < length xs"
  by (induction xs) auto

lemma op_value_bound: "op_value e < length kBuiltinOps"
proof -
  have "length kBuiltinOps = 51" "length operators = 49"
    by (simp_all add: kBuiltinOps_def operators_def)
  then show ?thesis using position_less [OF operators_all, of e] by (simp add: op_value_def)
qed

lemma row_of_exists: "\<exists>r. row_of e = Some r \<and> r_op_enum r = e \<and> r \<in> set kBuiltinOps"
proof -
  have "e \<in> set (map r_op_enum kBuiltinOps)"
    unfolding enum_column by (cases e) simp_all
  then have "row_of e \<noteq> None" by (auto simp: row_of_def find_None_iff)
  then show ?thesis by (auto simp: row_of_def find_Some_iff)
qed

definition enum_of_name :: "string \<Rightarrow> operator option" where
  "enum_of_name = map_of (map (\<lambda>r. (r_name r, r_op_enum r)) kBuiltinOps)"

lemma names_determine_enum: "\<forall>r\<in>set kBuiltinOps. enum_of_name (r_name r) = Some (r_op_enum r)"
  unfolding enum_of_name_def kBuiltinOps_def builtin_row_def by simp

section \<open>Lookups\<close>

lemma registry_find:
  assumes "registry_inv ops t" and "\<And>r. r \<in> set ops \<Longrightarrow> P r = Q (row_shape r)"
  shows "map_option row_shape (find P ops) = find Q kBuiltinOps"
proof -
  have "find P ops = find (Q \<circ> row_shape) ops"
    using assms(2) by (intro find_cong) simp_all
  then show ?thesis
    using assms(1) find_map_option [of Q row_shape ops] by (simp add: registry_inv_def)
qed

lemma registry_row:
  assumes "registry_inv ops t" and "r \<in> set ops"
  shows "r_sym r \<noteq> 0" "interns_lookup t (r_sym r) = Some (r_name r)" "row_shape r \<in> set kBuiltinOps"
proof -
  have "row_shape r \<in> set (map row_shape ops)" using assms(2) by simp
  then show "row_shape r \<in> set kBuiltinOps" using assms(1) unfolding registry_inv_def by metis
qed (use assms in \<open>simp_all add: registry_inv_def\<close>)

lemma registry_info_lookup:
  assumes inv: "registry_inv ops t" "table_inv t" and sy: "interns_lookup t sy = Some b"
  shows "operator_info_lookup ops sy =
     map_option (\<lambda>r. info_of_row (r\<lparr>r_sym := sy\<rparr>)) (find (\<lambda>r. r_name r = b) kBuiltinOps)"
proof -
  have eq: "r_sym r = sy \<longleftrightarrow> r_name (row_shape r) = b" if "r \<in> set ops" for r
    using registry_row [OF inv(1) that] sy st.lookup_inj [OF inv(2), of "r_sym r" b sy] by auto
  have f: "find (\<lambda>r. r_name r = b) kBuiltinOps = map_option row_shape (find (\<lambda>r. r_sym r = sy) ops)"
    using registry_find [OF inv(1), of "\<lambda>r. r_sym r = sy" "\<lambda>r. r_name r = b"] eq by simp
  have same: "(row_shape r)\<lparr>r_sym := r_sym r\<rparr> = r" for r :: operator_row
    by (simp add: row_shape_def)
  have nz: "sy \<noteq> 0" using sy by (metis lookup_zero option.distinct(1))
  show ?thesis
  proof (cases "find (\<lambda>r. r_sym r = sy) ops")
    case (Some q)
    then have "r_sym q = sy" by (auto simp: find_Some_iff)
    then have "info_of_row ((row_shape q)\<lparr>r_sym := sy\<rparr>) = info_of_row q" using same [of q] by simp
    with Some f nz show ?thesis by (simp add: operator_info_lookup_def)
  qed (simp add: operator_info_lookup_def f)
qed

lemma sym_from_enum:
  assumes "registry_inv ops t"
  shows "\<exists>r. row_of e = Some r \<and> r_op_enum r = e \<and>
    operator_sym_from_enum ops e \<noteq> 0 \<and>
    interns_lookup t (operator_sym_from_enum ops e) = Some (r_name r) \<and>
    enum_of_name (r_name r) = Some e"
proof -
  obtain r where r: "row_of e = Some r" "r_op_enum r = e" "r \<in> set kBuiltinOps"
    using row_of_exists by blast
  have "map_option row_shape (find (\<lambda>r. r_op_enum r = e) ops) = Some r"
    using registry_find [OF assms, of "\<lambda>r. r_op_enum r = e" "\<lambda>r. r_op_enum r = e"] r(1)
    by (simp add: row_of_def)
  then obtain q where q: "find (\<lambda>r. r_op_enum r = e) ops = Some q" "row_shape q = r" by blast
  then have mem: "q \<in> set ops" by (auto simp: find_Some_iff)
  have "length ops = length kBuiltinOps" using assms unfolding registry_inv_def by (metis length_map)
  then have "operator_sym_from_enum ops e = r_sym q"
    using q op_value_bound [of e]
    by (simp add: operator_sym_from_enum_def operator_info_from_enum_def info_of_row_def)
  moreover have "r_name q = r_name r" using q(2) by auto
  ultimately show ?thesis
    using r registry_row [OF assms mem] names_determine_enum by auto
qed

section \<open>Properties\<close>

text \<open>C23: the registry answers by name.  After a successful initialisation, in every later intern
  table, looking up the symbol of a name returns the data of the first table row of that name with
  that symbol, and nothing for a name that is no operator.\<close>

theorem operator_lookup_by_name:
  assumes "reachable_table t" and "operator_registry_init kBuiltinOps t = (True, ops, t')"
    and "table_inv u" and "table_le t' u" and "interns_intern u (Some b) = (sy, u')" and "sy \<noteq> 0"
  shows "operator_info_lookup ops sy =
     map_option (\<lambda>r. info_of_row (r\<lparr>r_sym := sy\<rparr>)) (find (\<lambda>r. r_name r = b) kBuiltinOps)"
proof -
  have "registry_inv ops u"
    using registry_init_inv [OF assms(2) reachable_table_inv [OF assms(1)]] assms(4)
      registry_inv_le by blast
  then have "registry_inv ops u'"
    using table_le_intern [OF assms(3), of "Some b"] assms(5) registry_inv_le by simp
  moreover have "table_inv u'" "interns_lookup u' sy = Some b"
    using st.intern_inv [OF assms(3), of "Some b"] st.lookup_intern [OF assms(3), of "Some b"]
      assms(5,6) by simp_all
  ultimately show ?thesis by (rule registry_info_lookup)
qed

lemma bytes_builtin: "bytes_used (map r_name kBuiltinOps) \<le> 1000"
  by (simp add: bytes_used_def kBuiltinOps_def builtin_row_def)

lemma registry_init_new:
  obtains ops t' where "operator_registry_init kBuiltinOps interns_new = (True, ops, t')"
    "table_inv t'"
proof -
  obtain ok ops t' where e: "init_rows kBuiltinOps interns_new = (ok, ops, t')"
    using prod_cases3 by blast
  have "fst (init_rows kBuiltinOps interns_new)"
    using bytes_builtin by (intro init_rows_total [OF interns_new_inv]) (simp add: interns_new_eq bytes_used_def)
  with e have "ok = True" by simp
  with e that registry_init_inv [OF _ interns_new_inv] show ?thesis
    by (auto simp: operator_registry_init_def)
qed

theorem operator_lookup_by_name_witness:
  "\<exists>ops t' sy u'. operator_registry_init kBuiltinOps interns_new = (True, ops, t') \<and>
     interns_intern t' (Some ''$if'') = (sy, u') \<and>
     map_option i_ast_kind (operator_info_lookup ops sy) = Some AST_IF"
proof -
  obtain ops t' where r: "operator_registry_init kBuiltinOps interns_new = (True, ops, t')" and
    inv: "table_inv t'" by (rule registry_init_new)
  obtain sy u' where s: "interns_intern t' (Some ''$if'') = (sy, u')" by fastforce
  have reg: "registry_inv ops t'" using registry_init_inv [OF r interns_new_inv] by simp
  obtain q where q: "row_of OP_IF = Some q"
    "interns_lookup t' (operator_sym_from_enum ops OP_IF) = Some (r_name q)"
    using sym_from_enum [OF reg, of OP_IF] by blast
  have row: "find (\<lambda>r. r_name r = ''$if'') kBuiltinOps = row_of OP_IF \<and>
      map_option r_name (row_of OP_IF) = Some ''$if'' \<and>
      map_option r_ast_kind (row_of OP_IF) = Some AST_IF"
    unfolding row_of_def kBuiltinOps_def builtin_row_def by simp
  have "sy \<noteq> 0" using st.intern_again(1) [OF inv q(2)] sym_from_enum [OF reg, of OP_IF] row q s
    by (metis fst_conv option.inject option.simps(9))
  from operator_lookup_by_name [OF rt_new r inv table_le_refl s this] row q(1)
  have "map_option i_ast_kind (operator_info_lookup ops sy) = Some AST_IF"
    by (auto simp: info_of_row_def)
  with r s show ?thesis by blast
qed

text \<open>The registry answers by enumerator.  After a successful initialisation every enumerator
  of \<open>enum Operator\<close> has a symbol, that symbol looks up to the name of the enumerator's row, and
  distinct enumerators have distinct symbols.\<close>

theorem operator_symbols_distinct:
  assumes "reachable_table t" and "operator_registry_init kBuiltinOps t = (True, ops, t')"
  shows "operator_sym_from_enum ops e \<noteq> 0 \<and>
    interns_lookup t' (operator_sym_from_enum ops e) = map_option r_name (row_of e) \<and>
    (operator_sym_from_enum ops e = operator_sym_from_enum ops e' \<longleftrightarrow> e = e')"
proof -
  have reg: "registry_inv ops t'"
    using registry_init_inv [OF assms(2) reachable_table_inv [OF assms(1)]] by simp
  from sym_from_enum [OF reg, of e] sym_from_enum [OF reg, of e'] show ?thesis
    by (metis option.inject option.simps(9))
qed

theorem operator_symbols_distinct_witness:
  "\<exists>ops t'. operator_registry_init kBuiltinOps interns_new = (True, ops, t') \<and>
     operator_sym_from_enum ops OP_ADD \<noteq> operator_sym_from_enum ops OP_SUB"
proof -
  obtain ops t' where r: "operator_registry_init kBuiltinOps interns_new = (True, ops, t')"
    by (rule registry_init_new)
  from operator_symbols_distinct [OF rt_new r, of OP_ADD OP_SUB] r show ?thesis by auto
qed

end
