(* ===== verification/Builtin_Parser.thy ===== *)
theory Builtin_Parser
  imports Lexer Operators
begin

text \<open>
  The prefix parser of \<open>src/parser/builtin_parser.c\<close>, the fallback used when no grammar is
  loaded.

  The pair \<open>tokens, cursor\<close> of the code is the list of tokens from the cursor on; a failure
  returns the position it left the cursor at.  The intern table is threaded, since reading an
  operator interns its lexeme, and the operator registry \<open>ops\<close> is read.
\<close>

definition BUILTIN_MAX_DEPTH :: nat where
  "BUILTIN_MAX_DEPTH = 256"

definition is_builtin_op :: "kinds \<Rightarrow> token \<Rightarrow> bool" where
  "is_builtin_op ks tok \<longleftrightarrow>
     tk_kind tok = k_ident ks \<and> str_len (tk_lexeme tok) > 1 \<and>
     hd (str_bytes (tk_lexeme tok)) = CHR ''$''"

text \<open>The end of an argument list: EOF, or a closing delimiter or separator.\<close>

definition stops_args :: "kinds \<Rightarrow> token \<Rightarrow> bool" where
  "stops_args ks next \<longleftrightarrow>
     tk_kind next = k_eof ks \<or>
     (tk_kind next = k_symbol ks \<and> str_len (tk_lexeme next) = 1 \<and>
      hd (str_bytes (tk_lexeme next)) \<in> set '')}];,'')"

definition builtin_kind :: "operator_row list \<Rightarrow> nat \<Rightarrow> ast_kind" where
  "builtin_kind ops op_sym =
     (case operator_info_lookup ops op_sym of
        None \<Rightarrow> AST_BUILTIN
      | Some info \<Rightarrow> if i_ast_kind info \<noteq> AST_UNKNOWN then i_ast_kind info else AST_BUILTIN)"

text \<open>The kind of an operand token, \<open>None\<close> for an unexpected token.\<close>

definition operand_kind :: "kinds \<Rightarrow> token \<Rightarrow> ast_kind option" where
  "operand_kind ks tok =
     (if tk_kind tok = k_number ks \<or> tk_kind tok = k_float ks \<or> tk_kind tok = k_string ks
      then Some AST_LITERAL
      else if tk_kind tok = k_ident ks then Some AST_IDENT
      else None)"

definition operand_node :: "ast_kind \<Rightarrow> token \<Rightarrow> ast" where
  "operand_node kind tok =
     AstNode kind (if kind = AST_LITERAL then tk_kind tok else 0) (tk_lexeme tok) [] 0 None 0 0"

definition operator_node :: "operator_row list \<Rightarrow> nat \<Rightarrow> ast list \<Rightarrow> ast" where
  "operator_node ops op_sym cs = AstNode (builtin_kind ops op_sym) op_sym None cs 0 None 0 0"

type_synonym 'a parse_result = "'a option \<times> token list \<times> intern_table"

function (sequential, domintros) parse_builtin_expr ::
      "kinds \<Rightarrow> operator_row list \<Rightarrow> nat \<Rightarrow> token list \<Rightarrow> intern_table \<Rightarrow> ast parse_result"
  and parse_builtin_args ::
      "kinds \<Rightarrow> operator_row list \<Rightarrow> nat \<Rightarrow> token list \<Rightarrow> intern_table \<Rightarrow> ast list parse_result"
where
  "parse_builtin_expr ks ops depth [] t = (None, [], t)"
| "parse_builtin_expr ks ops depth (tok # rest) t =
     (if depth > BUILTIN_MAX_DEPTH then (None, tok # rest, t)
      else if tk_kind tok = k_eof ks then (None, tok # rest, t)
      else if is_builtin_op ks tok then
        (case interns_intern t (tk_lexeme tok) of (op_sym, t1) \<Rightarrow>
           if op_sym = 0 then (None, tok # rest, t1)
           else (case parse_builtin_args ks ops depth rest t1 of
                   (None, r, t2) \<Rightarrow> (None, r, t2)
                 | (Some cs, r, t2) \<Rightarrow> (Some (operator_node ops op_sym cs), r, t2)))
      else (case operand_kind ks tok of
              None \<Rightarrow> (None, tok # rest, t)
            | Some kind \<Rightarrow> (Some (operand_node kind tok), rest, t)))"
| "parse_builtin_args ks ops depth [] t = (Some [], [], t)"
| "parse_builtin_args ks ops depth (tok # rest) t =
     (if stops_args ks tok then (Some [], tok # rest, t)
      else (case parse_builtin_expr ks ops (depth + 1) (tok # rest) t of
              (None, r, t1) \<Rightarrow> (None, r, t1)
            | (Some c, r, t1) \<Rightarrow>
                (case parse_builtin_args ks ops depth r t1 of
                   (None, r', t2) \<Rightarrow> (None, r', t2)
                 | (Some cs, r', t2) \<Rightarrow> (Some (c # cs), r', t2))))"
  by pat_completeness auto

text \<open>Progress, by induction on the calls that return: an expression consumes a token.\<close>

lemma parse_builtin_progress:
  "parse_builtin_expr_parse_builtin_args_dom (Inl (ks, ops, depth, toks, t)) \<Longrightarrow>
     (\<forall>n r t'. parse_builtin_expr ks ops depth toks t = (Some n, r, t') \<longrightarrow> length r < length toks)"
  "parse_builtin_expr_parse_builtin_args_dom (Inr (ks, ops, depth, toks, t)) \<Longrightarrow>
     (\<forall>cs r t'. parse_builtin_args ks ops depth toks t = (Some cs, r, t') \<longrightarrow> length r \<le> length toks)"
proof (induction ks ops depth toks t and ks ops depth toks t
    rule: parse_builtin_expr_parse_builtin_args.pinduct)
  case (2 ks ops depth tok rest t)
  then show ?case
    by (fastforce simp: parse_builtin_expr.psimps split: if_splits option.splits prod.splits)
next
  case (4 ks ops depth tok rest t)
  then show ?case
    by (fastforce simp: parse_builtin_args.psimps split: if_splits option.splits prod.splits)
qed (auto simp: parse_builtin_expr.psimps parse_builtin_args.psimps)

termination parse_builtin_expr
proof (relation "measure (\<lambda>x. case x of
      Inl (ks, ops, depth, toks, t) \<Rightarrow> 2 * length toks
    | Inr (ks, ops, depth, toks, t) \<Rightarrow> 2 * length toks + 1)", goal_cases)
  case prems: (4 ks ops depth tok rest t)
  from prems show ?case using parse_builtin_progress(1) [of ks ops "depth + 1" "tok # rest" t]
    by (auto dest!: sym [of "(Some _, _, _)"])
qed auto

text \<open>\<open>builtin_parse_expr\<close>: the kinds are interned again, in the order of the lexer.\<close>

definition builtin_parse_expr ::
    "operator_row list \<Rightarrow> token list \<Rightarrow> intern_table \<Rightarrow> ast parse_result" where
  "builtin_parse_expr ops toks t =
     (case intern_kinds t of
        (None, t1) \<Rightarrow> (None, toks, t1)
      | (Some ks, t1) \<Rightarrow> parse_builtin_expr ks ops 0 toks t1)"

text \<open>The statement loop of \<open>builtin_parse_ast\<close>, with its optional semicolon.\<close>

definition is_semicolon :: "kinds \<Rightarrow> token \<Rightarrow> bool" where
  "is_semicolon ks tok \<longleftrightarrow>
     tk_kind tok = k_symbol ks \<and> str_len (tk_lexeme tok) = 1 \<and>
     hd (str_bytes (tk_lexeme tok)) = CHR '';''"

definition skip_semicolon :: "kinds \<Rightarrow> token list \<Rightarrow> token list" where
  "skip_semicolon ks toks =
     (case toks of [] \<Rightarrow> [] | tok # rest \<Rightarrow> if is_semicolon ks tok then rest else toks)"

lemma parse_builtin_shorter:
  "parse_builtin_expr ks ops depth toks t = (Some n, r, t') \<Longrightarrow> length r < length toks"
  "parse_builtin_args ks ops depth toks t = (Some cs, r, t') \<Longrightarrow> length r \<le> length toks"
proof (induction ks ops depth toks t and ks ops depth toks t arbitrary: n r t' and cs r t'
    rule: parse_builtin_expr_parse_builtin_args.induct)
  case (2 ks ops depth tok rest t)
  then show ?case by (fastforce split: if_splits option.splits prod.splits)
next
  case (4 ks ops depth tok rest t)
  then show ?case by (fastforce split: if_splits option.splits prod.splits)
qed auto

lemma skip_semicolon_le: "length (skip_semicolon ks toks) \<le> length toks"
  by (cases toks) (auto simp: skip_semicolon_def)

function (sequential) builtin_statements ::
    "kinds \<Rightarrow> operator_row list \<Rightarrow> token list \<Rightarrow> intern_table \<Rightarrow> ast list parse_result" where
  "builtin_statements ks ops [] t = (Some [], [], t)"
| "builtin_statements ks ops (tok # rest) t =
     (if tk_kind tok = k_eof ks then (Some [], tok # rest, t)
      else (case parse_builtin_expr ks ops 0 (tok # rest) t of
              (None, r, t1) \<Rightarrow> (None, r, t1)
            | (Some c, r, t1) \<Rightarrow>
                (case builtin_statements ks ops (skip_semicolon ks r) t1 of
                   (None, r', t2) \<Rightarrow> (None, r', t2)
                 | (Some cs, r', t2) \<Rightarrow> (Some (c # cs), r', t2))))"
  by pat_completeness auto
termination
proof (relation "measure (\<lambda>(ks, ops, toks, t). length toks)", goal_cases)
  case prems: (2 ks ops tok rest t)
  from prems show ?case
    using parse_builtin_shorter(1) [of ks ops 0 "tok # rest" t]
      le_less_trans [OF skip_semicolon_le [of ks]]
    by (fastforce dest!: sym [of "(Some _, _, _)"])
qed auto

definition builtin_parse_ast ::
    "operator_row list \<Rightarrow> token list \<Rightarrow> intern_table \<Rightarrow> ast option \<times> intern_table" where
  "builtin_parse_ast ops toks t =
     (case intern_kinds t of
        (None, t1) \<Rightarrow> (None, t1)
      | (Some ks, t1) \<Rightarrow>
          (case builtin_statements ks ops toks t1 of
             (None, r, t2) \<Rightarrow> (None, t2)
           | (Some cs, r, t2) \<Rightarrow>
               (Some (if length cs = 1 then hd cs else AstNode AST_BLOCK 0 None cs 0 None 0 0), t2)))"

section \<open>What a parse result is\<close>

text \<open>The source text of a tree, in document order: the lexeme of a leaf, the name of an operator.\<close>

fun node_lexemes :: "intern_table \<Rightarrow> ast \<Rightarrow> str list" where
  "node_lexemes t (AstNode k op v cs cap fn row col) =
     (case v of
        Some b \<Rightarrow> [Some b]
      | None \<Rightarrow> interns_lookup t op # concat (map (node_lexemes t) cs))"

text \<open>Only the last operand of an operator can itself have operands.\<close>

fun comb :: "ast \<Rightarrow> bool" where
  "comb (AstNode k op v cs cap fn row col) \<longleftrightarrow>
     (\<forall>c\<in>set (butlast cs). n_value c \<noteq> None) \<and> (\<forall>c\<in>set cs. comb c) \<and> (v \<noteq> None \<longrightarrow> cs = [])"

definition texts_ok :: "kinds \<Rightarrow> token list \<Rightarrow> bool" where
  "texts_ok ks toks \<longleftrightarrow> (\<forall>tok\<in>set toks. tk_kind tok \<noteq> k_eof ks \<longrightarrow> tk_lexeme tok \<noteq> None)"

definition at_stop :: "kinds \<Rightarrow> token list \<Rightarrow> bool" where
  "at_stop ks r \<longleftrightarrow> r = [] \<or> stops_args ks (hd r)"

lemma node_lexemes_le:
  "table_le t u \<Longrightarrow> None \<notin> set (node_lexemes t n) \<Longrightarrow> node_lexemes u n = node_lexemes t n"
proof (induction t n rule: node_lexemes.induct)
  case (1 t k op v cs cap fn row col)
  show ?case
  proof (cases v)
    case None
    then have m: "concat (map (node_lexemes u) cs) = concat (map (node_lexemes t) cs)"
      using 1 by (auto cong: map_cong)
    obtain b where "interns_lookup t op = Some b"
      using 1 None by (cases "interns_lookup t op") auto
    with None m 1(2) show ?thesis by (simp add: table_le_lookup)
  qed simp
qed

text \<open>What one successful call promises, for an expression and for an argument list.\<close>

definition expr_spec :: "kinds \<Rightarrow> nat \<Rightarrow> token list \<Rightarrow> intern_table \<Rightarrow> ast \<Rightarrow> token list \<Rightarrow> intern_table \<Rightarrow> bool"
  where
  "expr_spec ks depth toks t n r t' \<longleftrightarrow>
     table_inv t' \<and> table_le t t' \<and> comb n \<and> height n + depth \<le> BUILTIN_MAX_DEPTH \<and>
     (n_value n = None \<longrightarrow> at_stop ks r) \<and>
     (\<exists>used. used \<noteq> [] \<and> toks = used @ r \<and> map tk_lexeme used = node_lexemes t' n \<and>
        None \<notin> set (map tk_lexeme used) \<and>
        (\<forall>tok\<in>set used. tk_kind tok \<noteq> k_eof ks \<and> \<not> is_semicolon ks tok))"

definition args_spec ::
    "kinds \<Rightarrow> nat \<Rightarrow> token list \<Rightarrow> intern_table \<Rightarrow> ast list \<Rightarrow> token list \<Rightarrow> intern_table \<Rightarrow> bool" where
  "args_spec ks depth toks t cs r t' \<longleftrightarrow>
     table_inv t' \<and> table_le t t' \<and> (\<forall>c\<in>set cs. comb c) \<and>
     (\<forall>c\<in>set (butlast cs). n_value c \<noteq> None) \<and>
     (\<forall>c\<in>set cs. height c + depth + 1 \<le> BUILTIN_MAX_DEPTH) \<and> at_stop ks r \<and>
     (\<exists>used. toks = used @ r \<and> map tk_lexeme used = concat (map (node_lexemes t') cs) \<and>
        None \<notin> set (map tk_lexeme used) \<and>
        (\<forall>tok\<in>set used. tk_kind tok \<noteq> k_eof ks \<and> \<not> is_semicolon ks tok))"

lemma texts_ok_append: "texts_ok ks (us @ vs) \<longleftrightarrow> texts_ok ks us \<and> texts_ok ks vs"
  by (auto simp: texts_ok_def)

lemma expr_spec_rest: "expr_spec ks depth toks t n r t' \<Longrightarrow> texts_ok ks toks \<Longrightarrow> table_inv t' \<and> texts_ok ks r"
  by (auto simp: expr_spec_def texts_ok_append)

lemma height_node:
  "height (AstNode k op v cs cap fn row col) \<le> m \<longleftrightarrow> (\<forall>c\<in>set cs. height c + 1 \<le> m)"
  by (cases cs) (auto simp: Suc_le_eq)

lemma operand_spec:
  assumes "depth \<le> BUILTIN_MAX_DEPTH" and "operand_kind ks tok = Some kind" and "table_inv t"
    and "tk_lexeme tok \<noteq> None" and "tk_kind tok \<noteq> k_eof ks" and "distinct (kind_list ks)"
  shows "expr_spec ks depth (tok # rest) t (operand_node kind tok) rest t"
proof -
  obtain b where b: "tk_lexeme tok = Some b" using assms(4) by blast
  have "tk_kind tok \<noteq> k_symbol ks"
    using assms(2,6) by (auto simp: operand_kind_def kind_list_def split: if_splits)
  then have "\<not> is_semicolon ks tok" by (simp add: is_semicolon_def)
  with assms b show ?thesis
    unfolding expr_spec_def operand_node_def
    by (intro conjI exI [of _ "[tok]"]) simp_all
qed

lemma operator_spec:
  assumes "depth \<le> BUILTIN_MAX_DEPTH" and "tk_kind tok \<noteq> k_eof ks" and "is_builtin_op ks tok"
    and "interns_intern t (tk_lexeme tok) = (op_sym, t1)" and "op_sym \<noteq> 0" and "table_inv t"
    and "args_spec ks depth rest t1 cs r t'" and "distinct (kind_list ks)"
  shows "expr_spec ks depth (tok # rest) t (operator_node ops op_sym cs) r t'"
proof -
  obtain b where b: "tk_lexeme tok = Some b"
    using assms(4,5) by (cases "tk_lexeme tok") auto
  have "table_le t t1" "interns_lookup t1 op_sym = Some b"
    using table_le_intern [OF assms(6), of "Some b"] st.lookup_intern [OF assms(6), of "Some b"]
      assms(4,5) b by simp_all
  moreover obtain used where u: "rest = used @ r" "map tk_lexeme used = concat (map (node_lexemes t') cs)"
    "None \<notin> set (map tk_lexeme used)" "\<forall>tok\<in>set used. tk_kind tok \<noteq> k_eof ks \<and> \<not> is_semicolon ks tok"
    and a: "table_inv t'" "table_le t1 t'" "\<forall>c\<in>set cs. comb c" "at_stop ks r"
    "\<forall>c\<in>set (butlast cs). n_value c \<noteq> None" "\<forall>c\<in>set cs. height c + depth + 1 \<le> BUILTIN_MAX_DEPTH"
    using assms(7) unfolding args_spec_def by blast
  ultimately have lk: "interns_lookup t' op_sym = Some b" and le: "table_le t t'"
    using table_le_lookup table_le_trans by blast+
  have "tk_kind tok \<noteq> k_symbol ks"
    using assms(3,8) by (auto simp: is_builtin_op_def kind_list_def)
  then have "\<not> is_semicolon ks tok" by (simp add: is_semicolon_def)
  then have "\<exists>us. us \<noteq> [] \<and> tok # rest = us @ r \<and>
      map tk_lexeme us = node_lexemes t' (operator_node ops op_sym cs) \<and>
      None \<notin> set (map tk_lexeme us) \<and>
      (\<forall>tok\<in>set us. tk_kind tok \<noteq> k_eof ks \<and> \<not> is_semicolon ks tok)"
    using u b lk assms(2) by (intro exI [of _ "tok # used"]) (simp add: operator_node_def)
  moreover have "height (operator_node ops op_sym cs) \<le> BUILTIN_MAX_DEPTH - depth"
    using a(6) unfolding operator_node_def height_node by auto
  ultimately show ?thesis
    using a le assms(1) unfolding expr_spec_def by (simp add: operator_node_def)
qed

lemma args_nil: "table_inv t \<Longrightarrow> at_stop ks r \<Longrightarrow> args_spec ks depth r t [] r t"
  by (simp add: args_spec_def)

lemma args_cons:
  assumes "expr_spec ks (depth + 1) toks t c r1 t1" and "args_spec ks depth r1 t1 cs r t'"
    and "n_value c = None \<longrightarrow> cs = []"
  shows "args_spec ks depth toks t (c # cs) r t'"
proof -
  obtain us where us: "toks = us @ r1" "map tk_lexeme us = node_lexemes t1 c"
    "None \<notin> set (map tk_lexeme us)" "\<forall>tok\<in>set us. tk_kind tok \<noteq> k_eof ks \<and> \<not> is_semicolon ks tok"
    using assms(1) unfolding expr_spec_def by blast
  obtain vs where vs: "r1 = vs @ r" "map tk_lexeme vs = concat (map (node_lexemes t') cs)"
    "None \<notin> set (map tk_lexeme vs)" "\<forall>tok\<in>set vs. tk_kind tok \<noteq> k_eof ks \<and> \<not> is_semicolon ks tok"
    using assms(2) unfolding args_spec_def by blast
  have le: "table_le t1 t'" using assms(2) by (simp add: args_spec_def)
  have "None \<notin> set (node_lexemes t1 c)" using us(2,3) by simp
  then have "node_lexemes t' c = node_lexemes t1 c" using le by (intro node_lexemes_le)
  then have "\<exists>used. toks = used @ r \<and> map tk_lexeme used = concat (map (node_lexemes t') (c # cs)) \<and>
      None \<notin> set (map tk_lexeme used) \<and>
      (\<forall>tok\<in>set used. tk_kind tok \<noteq> k_eof ks \<and> \<not> is_semicolon ks tok)"
    using us vs by (intro exI [of _ "us @ vs"]) auto
  moreover have "table_le t t'"
    using assms(1) le table_le_trans unfolding expr_spec_def by blast
  moreover have "cs \<noteq> [] \<longrightarrow> n_value c \<noteq> None" using assms(3) by blast
  moreover have "height c + depth + 1 \<le> BUILTIN_MAX_DEPTH"
    using assms(1) by (simp add: expr_spec_def)
  ultimately show ?thesis
    using assms(1,2) unfolding args_spec_def expr_spec_def by auto
qed

text \<open>A nested operator leaves its caller at a stop, so no operand follows it.\<close>

lemma args_at_stop:
  "at_stop ks r \<Longrightarrow> parse_builtin_args ks ops depth r t = (Some cs, r', t') \<Longrightarrow> cs = []"
  by (cases r) (auto simp: at_stop_def)

lemma parse_builtin_sound:
  "distinct (kind_list ks) \<Longrightarrow> table_inv t \<Longrightarrow> texts_ok ks toks \<Longrightarrow>
     parse_builtin_expr ks ops depth toks t = (Some n, r, t') \<Longrightarrow> expr_spec ks depth toks t n r t'"
  "distinct (kind_list ks) \<Longrightarrow> table_inv t \<Longrightarrow> texts_ok ks toks \<Longrightarrow>
     parse_builtin_args ks ops depth toks t = (Some cs, r, t') \<Longrightarrow> args_spec ks depth toks t cs r t'"
proof (induction ks ops depth toks t and ks ops depth toks t arbitrary: n r t' and cs r t'
    rule: parse_builtin_expr_parse_builtin_args.induct)
  case (2 ks ops depth tok rest t)
  have d: "depth \<le> BUILTIN_MAX_DEPTH" and e: "tk_kind tok \<noteq> k_eof ks"
    using "2.prems"(4) by (auto split: if_splits)
  show ?case
  proof (cases "is_builtin_op ks tok")
    case True
    obtain op_sym t1 where 1: "interns_intern t (tk_lexeme tok) = (op_sym, t1)" by fastforce
    then have nz: "op_sym \<noteq> 0" using "2.prems"(4) True d e by (auto split: if_splits)
    obtain cs where a: "parse_builtin_args ks ops depth rest t1 = (Some cs, r, t')"
      "n = operator_node ops op_sym cs"
      using "2.prems"(4) True d e 1 nz by (auto split: option.splits prod.splits)
    have "table_inv t1" using st.intern_inv [OF "2.prems"(2), of "tk_lexeme tok"] 1 by simp
    then have "args_spec ks depth rest t1 cs r t'"
      using "2.IH" [OF _ e True 1 [symmetric] nz] d "2.prems"(1,3) a(1) by (simp add: texts_ok_def)
    then show ?thesis
      unfolding a(2) by (rule operator_spec [OF d e True 1 nz "2.prems"(2) _ "2.prems"(1)])
  next
    case False
    with "2.prems"(4) d e obtain kind where "operand_kind ks tok = Some kind"
      "n = operand_node kind tok" "r = rest" "t' = t"
      by (auto split: option.splits)
    with "2.prems" d e show ?thesis by (auto simp: texts_ok_def intro: operand_spec)
  qed
next
  case (4 ks ops depth tok rest t)
  show ?case
  proof (cases "stops_args ks tok")
    case True
    with "4.prems" show ?thesis by (auto intro!: args_nil simp: at_stop_def)
  next
    case False
    then obtain c r1 t1 cs1 where
      1: "parse_builtin_expr ks ops (depth + 1) (tok # rest) t = (Some c, r1, t1)" and
      2: "parse_builtin_args ks ops depth r1 t1 = (Some cs1, r, t')" "cs = c # cs1"
      using "4.prems"(4)
      by (auto simp del: parse_builtin_expr.simps split: option.splits prod.splits)
    have s1: "expr_spec ks (depth + 1) (tok # rest) t c r1 t1"
      using "4.IH"(1) [OF False "4.prems"(1-3) 1] .
    then have "table_inv t1" "texts_ok ks r1"
      using expr_spec_rest [OF _ "4.prems"(3)] by blast+
    then have "args_spec ks depth r1 t1 cs1 r t'"
      using "4.IH"(2) [OF False 1 [symmetric] refl refl] "4.prems"(1) 2(1) by simp
    moreover have "n_value c = None \<longrightarrow> cs1 = []"
      using s1 args_at_stop [OF _ 2(1)] by (simp add: expr_spec_def)
    ultimately show ?thesis unfolding 2(2) by (rule args_cons [OF s1])
  qed
qed (auto intro!: args_nil simp: at_stop_def)

text \<open>The statement loop: everything up to EOF, less the separators.\<close>

lemma skip_semicolon_cases:
  "\<exists>sep. r = sep @ skip_semicolon ks r \<and> (\<forall>tok\<in>set sep. is_semicolon ks tok)"
  by (cases r) (auto simp: skip_semicolon_def)

lemma filter_none: "\<forall>x\<in>set xs. \<not> P x \<Longrightarrow> filter P xs = []"
  by (induction xs) auto

lemma statements_sound:
  "distinct (kind_list ks) \<Longrightarrow> table_inv t \<Longrightarrow> texts_ok ks toks \<Longrightarrow>
     builtin_statements ks ops toks t = (Some cs, r, t') \<Longrightarrow>
     table_inv t' \<and> table_le t t' \<and> (\<forall>c\<in>set cs. comb c \<and> height c \<le> BUILTIN_MAX_DEPTH) \<and>
     (\<exists>used. toks = used @ r \<and> (r = [] \<or> tk_kind (hd r) = k_eof ks) \<and>
       (\<forall>tok\<in>set used. tk_kind tok \<noteq> k_eof ks) \<and>
       None \<notin> set (concat (map (node_lexemes t') cs)) \<and>
       map tk_lexeme (filter (\<lambda>tok. \<not> is_semicolon ks tok) used) = concat (map (node_lexemes t') cs))"
proof (induction ks ops toks t arbitrary: cs r t' rule: builtin_statements.induct)
  case (2 ks ops tok rest t)
  show ?case
  proof (cases "tk_kind tok = k_eof ks")
    case True
    with 2 show ?thesis by auto
  next
    case False
    then obtain c r1 t1 cs1 where
      1: "parse_builtin_expr ks ops 0 (tok # rest) t = (Some c, r1, t1)" and
      2: "builtin_statements ks ops (skip_semicolon ks r1) t1 = (Some cs1, r, t')" "cs = c # cs1"
      using "2.prems"(4)
      by (auto simp del: parse_builtin_expr.simps split: option.splits prod.splits)
    have e: "expr_spec ks 0 (tok # rest) t c r1 t1"
      by (rule parse_builtin_sound(1) [OF "2.prems"(1-3) 1])
    obtain sep where sep: "r1 = sep @ skip_semicolon ks r1" "\<forall>tok\<in>set sep. is_semicolon ks tok"
      using skip_semicolon_cases by blast
    have inv: "table_inv t1" "texts_ok ks (skip_semicolon ks r1)"
      using expr_spec_rest [OF e "2.prems"(3)] texts_ok_append sep(1) by metis+
    obtain us where us: "tok # rest = us @ r1" "map tk_lexeme us = node_lexemes t1 c"
      "None \<notin> set (map tk_lexeme us)" "\<forall>tok\<in>set us. tk_kind tok \<noteq> k_eof ks \<and> \<not> is_semicolon ks tok"
      using e unfolding expr_spec_def by blast
    from "2.IH" [OF False 1 [symmetric] refl refl "2.prems"(1) inv 2(1)]
    obtain vs where ih: "table_inv t'" "table_le t1 t'"
      "\<forall>c\<in>set cs1. comb c \<and> height c \<le> BUILTIN_MAX_DEPTH"
      and vs: "skip_semicolon ks r1 = vs @ r" "r = [] \<or> tk_kind (hd r) = k_eof ks"
      "\<forall>tok\<in>set vs. tk_kind tok \<noteq> k_eof ks" "None \<notin> set (concat (map (node_lexemes t') cs1))"
      "map tk_lexeme (filter (\<lambda>tok. \<not> is_semicolon ks tok) vs) = concat (map (node_lexemes t') cs1)"
      by blast
    have n: "None \<notin> set (node_lexemes t1 c)" using us(2,3) by simp
    then have same: "node_lexemes t' c = node_lexemes t1 c" by (rule node_lexemes_le [OF ih(2)])
    have "\<forall>tok\<in>set sep. tk_kind tok \<noteq> k_eof ks"
      using sep(2) "2.prems"(1) by (auto simp: is_semicolon_def kind_list_def)
    moreover have "filter (\<lambda>tok. \<not> is_semicolon ks tok) (us @ sep @ vs) =
        us @ filter (\<lambda>tok. \<not> is_semicolon ks tok) vs"
      using us(4) sep(2) by (simp add: filter_none)
    ultimately have "\<exists>used. tok # rest = used @ r \<and> (r = [] \<or> tk_kind (hd r) = k_eof ks) \<and>
       (\<forall>tok\<in>set used. tk_kind tok \<noteq> k_eof ks) \<and>
       None \<notin> set (concat (map (node_lexemes t') cs)) \<and>
       map tk_lexeme (filter (\<lambda>tok. \<not> is_semicolon ks tok) used) = concat (map (node_lexemes t') cs)"
      using us sep(1) vs n same 2(2) by (intro exI [of _ "us @ sep @ vs"]) auto
    moreover have "table_le t t'"
      using e ih(2) table_le_trans unfolding expr_spec_def by blast
    ultimately show ?thesis
      using ih(1,3) e 2(2) by (simp add: expr_spec_def)
  qed
qed auto

section \<open>When parsing succeeds\<close>

text \<open>The tokens up to the next stop are operands and operators whose names are interned.\<close>

definition segment :: "kinds \<Rightarrow> token list \<Rightarrow> token list" where
  "segment ks toks = takeWhile (\<lambda>tok. \<not> stops_args ks tok) toks"

definition ready :: "kinds \<Rightarrow> intern_table \<Rightarrow> token list \<Rightarrow> bool" where
  "ready ks t toks \<longleftrightarrow>
     table_inv t \<and>
     (\<forall>tok\<in>set (segment ks toks).
        (is_builtin_op ks tok \<and> (\<exists>b\<in>set (t_index t). tk_lexeme tok = Some b)) \<or>
        (\<not> is_builtin_op ks tok \<and> operand_kind ks tok \<noteq> None))"

definition op_count :: "kinds \<Rightarrow> token list \<Rightarrow> nat" where
  "op_count ks toks = length (filter (is_builtin_op ks) (segment ks toks))"

lemma segment_Cons: "\<not> stops_args ks tok \<Longrightarrow> segment ks (tok # rest) = tok # segment ks rest"
  by (simp add: segment_def)

lemma op_count_stop: "at_stop ks toks \<Longrightarrow> op_count ks toks = 0 \<and> segment ks toks = []"
  by (cases toks) (auto simp: at_stop_def op_count_def segment_def)

lemma ready_step:
  assumes "ready ks t (tok # rest)" and "\<not> stops_args ks tok" and "is_builtin_op ks tok"
    and "interns_intern t (tk_lexeme tok) = (sy, t1)"
  shows "sy \<noteq> 0 \<and> ready ks t1 rest"
proof -
  obtain b where b: "tk_lexeme tok = Some b" "b \<in> set (t_index t)" and inv: "table_inv t"
    using assms(1-3) by (auto simp: ready_def segment_Cons)
  have "table_inv t1" "sy \<noteq> 0" "t_index t1 = t_index t"
    using st.intern_inv [OF inv, of "Some b"] st.intern_known [OF inv b(2)] assms(4) b(1) by simp_all
  with assms(1,2) show ?thesis by (auto simp: ready_def segment_Cons)
qed

lemma parse_builtin_total:
  "ready ks t toks \<Longrightarrow> \<not> at_stop ks toks \<Longrightarrow> depth + op_count ks toks \<le> BUILTIN_MAX_DEPTH \<Longrightarrow>
     \<exists>n r t'. parse_builtin_expr ks ops depth toks t = (Some n, r, t') \<and> ready ks t' r \<and>
       op_count ks r \<le> op_count ks toks"
  "ready ks t toks \<Longrightarrow> depth + op_count ks toks < BUILTIN_MAX_DEPTH \<Longrightarrow>
     \<exists>cs r t'. parse_builtin_args ks ops depth toks t = (Some cs, r, t') \<and> ready ks t' r \<and>
       op_count ks r \<le> op_count ks toks \<and> at_stop ks r"
proof (induction ks ops depth toks t and ks ops depth toks t
    rule: parse_builtin_expr_parse_builtin_args.induct)
  case (2 ks ops depth tok rest t)
  have ns: "\<not> stops_args ks tok" using "2.prems"(2) by (simp add: at_stop_def)
  then have e: "tk_kind tok \<noteq> k_eof ks" by (simp add: stops_args_def)
  have d: "\<not> BUILTIN_MAX_DEPTH < depth" using "2.prems"(3) by simp
  show ?case
  proof (cases "is_builtin_op ks tok")
    case True
    obtain op_sym t1 where 1: "interns_intern t (tk_lexeme tok) = (op_sym, t1)" by fastforce
    have 2: "op_sym \<noteq> 0" "ready ks t1 rest" using ready_step [OF "2.prems"(1) ns True 1] by simp_all
    have c: "op_count ks (tok # rest) = op_count ks rest + 1"
      using ns True by (simp add: op_count_def segment_Cons)
    then obtain cs r t' where "parse_builtin_args ks ops depth rest t1 = (Some cs, r, t')"
      "ready ks t' r" "op_count ks r \<le> op_count ks rest"
      using "2.IH" [OF d e True 1 [symmetric] 2] "2.prems"(3) by auto
    with True d e 1 2 c show ?thesis by simp
  next
    case False
    then obtain kind where k: "operand_kind ks tok = Some kind"
      using "2.prems"(1) ns by (auto simp: ready_def segment_Cons)
    moreover have "ready ks t rest" "op_count ks rest \<le> op_count ks (tok # rest)"
      using "2.prems"(1) ns by (auto simp: ready_def op_count_def segment_Cons)
    ultimately show ?thesis using False d e by simp
  qed
next
  case (4 ks ops depth tok rest t)
  show ?case
  proof (cases "stops_args ks tok")
    case True
    with "4.prems" show ?thesis by (simp add: at_stop_def)
  next
    case False
    then have "\<not> at_stop ks (tok # rest)" by (simp add: at_stop_def)
    then obtain c r1 t1 where
      1: "parse_builtin_expr ks ops (depth + 1) (tok # rest) t = (Some c, r1, t1)" "ready ks t1 r1"
      "op_count ks r1 \<le> op_count ks (tok # rest)"
      using "4.IH"(1) [OF False "4.prems"(1)] "4.prems"(2) by auto
    then obtain cs r t' where
      "parse_builtin_args ks ops depth r1 t1 = (Some cs, r, t')" "ready ks t' r"
      "op_count ks r \<le> op_count ks r1" "at_stop ks r"
      using "4.IH"(2) [OF False 1(1) [symmetric] refl refl 1(2)] "4.prems"(2) by auto
    with 1 False show ?thesis by (simp del: parse_builtin_expr.simps)
  qed
qed (auto simp: at_stop_def)

section \<open>Properties\<close>

lemma lexed_texts_ok:
  assumes "kinds_named t ks" and "lexed ks fn p src toks"
  shows "texts_ok ks toks \<and> (\<exists>body e. toks = body @ [e] \<and> tk_kind e = k_eof ks \<and>
    (\<forall>tok\<in>set body. tk_kind tok \<noteq> k_eof ks))"
proof -
  obtain body where b: "toks = body @ [eof_token ks fn (pos_after src p)]"
    "\<forall>tk\<in>set body. tk_kind tk \<noteq> k_eof ks \<and> str_len (tk_lexeme tk) > 0"
    using lexed_lossless [OF assms(2) kinds_named_distinct [OF assms(1)]] by blast
  have "tk_lexeme tk \<noteq> None" if "tk \<in> set body" for tk
    using b(2) that by (cases "tk_lexeme tk") auto
  with b show ?thesis by (auto simp: texts_ok_def eof_token_def)
qed

text \<open>C11: the parser loses no operator and no operand.  When \<open>builtin_parse_ast\<close> accepts the
  tokens the lexer made of a source, the statements of its tree, written out in document order,
  are the lexemes of all tokens before EOF less the semicolons; in every tree only the last operand
  of an operator has operands of its own, and no tree is deeper than the depth limit.\<close>

theorem builtin_parse_ast_roundtrip:
  assumes "reachable_table t" and "lexer_tokenize fn src t = (Some toks, t1)"
    and "table_inv u" and "table_le t1 u" and "builtin_parse_ast ops toks u = (Some root, u')"
  shows "\<exists>ks cs. intern_kinds t = (Some ks, t1) \<and>
    root = (if length cs = 1 then hd cs else AstNode AST_BLOCK 0 None cs 0 None 0 0) \<and>
    concat (map (node_lexemes u') cs) =
      map tk_lexeme (filter (\<lambda>tok. \<not> is_semicolon ks tok) (butlast toks)) \<and>
    (\<forall>c\<in>set cs. comb c \<and> height c \<le> BUILTIN_MAX_DEPTH)"
proof -
  obtain ks where ks: "kinds_named t1 ks" "intern_kinds t = (Some ks, t1)" "lexed ks fn (1, 1) src toks"
    using lexer_tokenize_cases [OF assms(2) reachable_table_inv [OF assms(1)]] by blast
  obtain u1 where u1: "intern_kinds u = (Some ks, u1)" "table_inv u1"
    using intern_kinds_again [OF assms(3) kinds_named_le [OF ks(1) assms(4)]] by blast
  obtain body e where toks: "texts_ok ks toks" "toks = body @ [e]" "tk_kind e = k_eof ks"
    "\<forall>tok\<in>set body. tk_kind tok \<noteq> k_eof ks" using lexed_texts_ok [OF ks(1,3)] by blast
  obtain cs r where run: "builtin_statements ks ops toks u1 = (Some cs, r, u')"
    "root = (if length cs = 1 then hd cs else AstNode AST_BLOCK 0 None cs 0 None 0 0)"
    using assms(5) u1(1) by (auto simp: builtin_parse_ast_def split: option.splits prod.splits)
  obtain used where used: "toks = used @ r" "r = [] \<or> tk_kind (hd r) = k_eof ks"
    "\<forall>tok\<in>set used. tk_kind tok \<noteq> k_eof ks"
    "map tk_lexeme (filter (\<lambda>tok. \<not> is_semicolon ks tok) used) = concat (map (node_lexemes u') cs)"
    "\<forall>c\<in>set cs. comb c \<and> height c \<le> BUILTIN_MAX_DEPTH"
    using statements_sound [OF kinds_named_distinct [OF ks(1)] u1(2) toks(1) run(1)] by blast
  have "used = body"
  proof (cases r rule: rev_cases)
    case Nil
    with used(1,3) toks(2,3) show ?thesis by auto
  next
    case (snoc r' x)
    with used(1) toks(2) have "body = used @ r'" "x = e" by simp_all
    moreover have "r' = []"
      using used(2) toks(4) snoc calculation(1) by (cases r') auto
    ultimately show ?thesis by simp
  qed
  with ks(2) run(2) used(4,5) toks(2) show ?thesis
    by (intro exI [of _ ks] exI [of _ cs]) simp
qed

text \<open>Two statements, evaluated.\<close>

definition sample_kinds :: kinds where
  "sample_kinds = \<lparr>k_ident = 1, k_number = 2, k_float = 3, k_string = 4, k_symbol = 5, k_eof = 6\<rparr>"

definition sample_tokens :: "token list" where
  "sample_tokens = [mk_token 1 ''a'' ''m.mpl'' 1 2, mk_token 1 ''b'' ''m.mpl'' 1 4,
     eof_token sample_kinds ''m.mpl'' (1, 4)]"

lemma sample_intern:
  obtains t1 where "intern_kinds interns_new = (Some sample_kinds, t1)" "table_inv t1"
  unfolding sample_kinds_def using intern_kinds_new by blast

lemma parse_sample:
  obtains t1 u' root where
    "lexer_tokenize ''m.mpl'' ''a b'' interns_new = (Some sample_tokens, t1)" "table_inv t1"
    "builtin_parse_ast [] sample_tokens t1 = (Some root, u')"
proof -
  obtain t1 where t1: "intern_kinds interns_new = (Some sample_kinds, t1)" "table_inv t1"
    using sample_intern by blast
  have "kinds_named t1 sample_kinds" using intern_kinds_sound [OF t1(1) interns_new_inv] by simp
  then obtain u where u: "intern_kinds t1 = (Some sample_kinds, u)"
    using intern_kinds_again [OF t1(2)] by blast
  have "lexer_tokenize ''m.mpl'' ''a b'' interns_new = (Some sample_tokens, t1)"
    by (simp add: lexer_tokenize_def t1(1) lex_loop_sample sample_tokens_def sample_kinds_def
        del: One_nat_def)
  moreover have "\<exists>root u'. builtin_parse_ast [] sample_tokens t1 = (Some root, u')"
    by (simp add: builtin_parse_ast_def u sample_tokens_def sample_kinds_def eof_token_def
        BUILTIN_MAX_DEPTH_def is_builtin_op_def operand_kind_def skip_semicolon_def is_semicolon_def)
  ultimately show ?thesis using t1(2) that by blast
qed

theorem builtin_parse_ast_roundtrip_witness:
  "\<exists>t1 root u' ks cs. builtin_parse_ast [] sample_tokens t1 = (Some root, u') \<and>
     concat (map (node_lexemes u') cs) =
       map tk_lexeme (filter (\<lambda>tok. \<not> is_semicolon ks tok) (butlast sample_tokens))"
proof (rule parse_sample)
  fix t1 u' root
  assume 1: "lexer_tokenize ''m.mpl'' ''a b'' interns_new = (Some sample_tokens, t1)"
    "table_inv t1" "builtin_parse_ast [] sample_tokens t1 = (Some root, u')"
  from builtin_parse_ast_roundtrip [OF rt_new 1(1,2) table_le_refl 1(3)] 1(3) show ?thesis by blast
qed

text \<open>C24: parsing succeeds.  When the tokens up to the next delimiter or EOF are operands and
  operators with interned names, with no more operators than the depth limit, \<open>builtin_parse_expr\<close>
  returns a tree and leaves the cursor past it.\<close>

theorem builtin_parse_expr_succeeds:
  assumes "intern_kinds t = (Some ks, t1)" and "ready ks t1 toks" and "\<not> at_stop ks toks"
    and "op_count ks toks \<le> BUILTIN_MAX_DEPTH"
  shows "\<exists>n r t'. builtin_parse_expr ops toks t = (Some n, r, t') \<and> length r < length toks"
  using parse_builtin_total(1) [OF assms(2,3), of 0 ops] assms(1,4) parse_builtin_shorter(1)
  by (fastforce simp: builtin_parse_expr_def)

theorem builtin_parse_expr_succeeds_witness:
  "\<exists>n r t'. builtin_parse_expr [] sample_tokens interns_new = (Some n, r, t') \<and> length r < 3"
proof -
  obtain t1 where t1: "intern_kinds interns_new = (Some sample_kinds, t1)" "table_inv t1"
    by (rule sample_intern)
  have "ready sample_kinds t1 sample_tokens" "\<not> at_stop sample_kinds sample_tokens"
    "op_count sample_kinds sample_tokens \<le> BUILTIN_MAX_DEPTH"
    using t1(2) by (simp_all add: ready_def segment_def at_stop_def stops_args_def op_count_def
        sample_tokens_def sample_kinds_def eof_token_def is_builtin_op_def operand_kind_def
        BUILTIN_MAX_DEPTH_def)
  moreover have "length sample_tokens = 3" by (simp add: sample_tokens_def)
  ultimately show ?thesis
    using builtin_parse_expr_succeeds [OF t1(1), of sample_tokens "[]"] by simp
qed

end
