(* ===== verification/C_Double.thy ===== *)
theory C_Double
  imports Morphl_Prelude
begin

text \<open>
  The part of the C library that \<open>src/runtime/vm_runtime.c\<close> uses for numbers: IEEE binary64
  values, \<open>strtod\<close> with its end pointer and \<open>errno\<close>, addition, \<open>printf("%.17g")\<close>, the
  comparisons with 0 and 255 and the conversion to \<open>int\<close>, as on x86-64 with glibc (round to
  nearest even; \<open>ERANGE\<close> on overflow and on inexact subnormal results).

  A finite value is a sign, a mantissa and a binary exponent; mantissas are kept with no factor two
  to spare below exponent 0, so a double that is an integer has exponent 0 or above.
\<close>

datatype double = Fin (d_neg: bool) (d_man: nat) (d_exp: int) | Inf bool | NaN bool

section \<open>Rounding\<close>

fun bit_len :: "nat \<Rightarrow> nat" where
  "bit_len n = (if n = 0 then 0 else 1 + bit_len (n div 2))"

declare bit_len.simps [simp del]

function norm_man :: "nat \<Rightarrow> int \<Rightarrow> nat \<times> int" where
  "norm_man m e =
     (if m = 0 then (0, 0)
      else if e < 0 \<and> even m then norm_man (m div 2) (e + 1)
      else (m, e))"
  by pat_completeness auto
termination
  by (relation "measure (\<lambda>(m, e). nat (- e))") auto

declare norm_man.simps [simp del]

text \<open>\<open>num / den\<close> divided by \<open>2 powi e\<close>, as a fraction.\<close>

definition scale :: "nat \<Rightarrow> nat \<Rightarrow> int \<Rightarrow> nat \<times> nat" where
  "scale num den e = (if e \<ge> 0 then (num, den * 2 ^ nat e) else (num * 2 ^ nat (- e), den))"

definition div_half_even :: "nat \<Rightarrow> nat \<Rightarrow> nat" where
  "div_half_even n d =
     (let q = n div d; r = n mod d in
      if 2 * r < d then q else if 2 * r > d then q + 1 else if even q then q else q + 1)"

text \<open>The exponent of the last place of a 53-bit result, not below the subnormal one.\<close>

definition last_place :: "nat \<Rightarrow> nat \<Rightarrow> int" where
  "last_place num den =
     (let e = int (bit_len num) - int (bit_len den) - 53;
          (n, d) = scale num den e;
          e1 = (if 2 ^ 53 * d \<le> n then e + 1 else e)
      in max e1 (- 1074))"

text \<open>The double nearest to \<open>num / den\<close>, and whether \<open>errno\<close> becomes \<open>ERANGE\<close>.\<close>

definition round_ratio :: "bool \<Rightarrow> nat \<Rightarrow> nat \<Rightarrow> double \<times> bool" where
  "round_ratio neg num den =
     (if num = 0 then (Fin neg 0 0, False)
      else
        let e = last_place num den; (n, d) = scale num den e; m = div_half_even n d in
        if int (bit_len m) + e > 1024 then (Inf neg, True)
        else (case norm_man m e of (m', e') \<Rightarrow>
                (Fin neg m' e', n mod d \<noteq> 0 \<and> e = - 1074 \<and> m < 2 ^ 52)))"

section \<open>Addition\<close>

definition signed_man :: "bool \<Rightarrow> nat \<Rightarrow> int" where
  "signed_man neg m = (if neg then - int m else int m)"

fun double_add :: "double \<Rightarrow> double \<Rightarrow> double" where
  "double_add (NaN s) y = NaN s"
| "double_add x (NaN s) = NaN s"
| "double_add (Inf s) (Inf s') = (if s = s' then Inf s else NaN True)"
| "double_add (Inf s) (Fin _ _ _) = Inf s"
| "double_add (Fin _ _ _) (Inf s) = Inf s"
| "double_add (Fin s m e) (Fin s' m' e') =
     (let low = min e e';
          sum = signed_man s (m * 2 ^ nat (e - low)) + signed_man s' (m' * 2 ^ nat (e' - low))
      in if sum = 0 then Fin (s \<and> s') 0 0
         else (case scale (nat \<bar>sum\<bar>) 1 (- low) of (n, d) \<Rightarrow> fst (round_ratio (sum < 0) n d)))"

section \<open>Comparisons and conversion\<close>

fun double_lt_0 :: "double \<Rightarrow> bool" where
  "double_lt_0 (Fin s m e) = (s \<and> m \<noteq> 0)"
| "double_lt_0 (Inf s) = s"
| "double_lt_0 (NaN s) = False"

fun double_gt_255 :: "double \<Rightarrow> bool" where
  "double_gt_255 (Fin s m e) = (\<not> s \<and> (case scale m 1 (- e) of (n, d) \<Rightarrow> n > 255 * d))"
| "double_gt_255 (Inf s) = (\<not> s)"
| "double_gt_255 (NaN s) = False"

text \<open>The cast to \<open>int\<close> of a value between 0 and 255; no value for a NaN, where C has none.\<close>

fun double_to_int :: "double \<Rightarrow> int option" where
  "double_to_int (Fin s m e) =
     (case scale m 1 (- e) of (n, d) \<Rightarrow> Some (signed_man s (n div d)))"
| "double_to_int _ = None"

section \<open>Parsing: strtod\<close>

definition digit_value :: "char \<Rightarrow> nat" where
  "digit_value c =
     (let n = (of_char c :: nat) in
      if 48 \<le> n \<and> n \<le> 57 then n - 48
      else if 97 \<le> n \<and> n \<le> 102 then n - 87
      else n - 55)"

definition is_hex_digit :: "char \<Rightarrow> bool" where
  "is_hex_digit c \<longleftrightarrow>
     (let n = (of_char c :: nat) in isdigit c \<or> (65 \<le> n \<and> n \<le> 70) \<or> (97 \<le> n \<and> n \<le> 102))"

definition digits_value :: "nat \<Rightarrow> string \<Rightarrow> nat" where
  "digits_value base ds = foldl (\<lambda>acc c. acc * base + digit_value c) 0 ds"

text \<open>Sign, then the rest.\<close>

definition take_sign :: "string \<Rightarrow> bool \<times> string" where
  "take_sign s =
     (case s of
        c # cs \<Rightarrow> if c = CHR ''-'' then (True, cs) else if c = CHR ''+'' then (False, cs) else (False, s)
      | [] \<Rightarrow> (False, []))"

text \<open>An exponent part introduced by one of the letters \<open>ls\<close>; without digits there is none.\<close>

definition take_exponent :: "string \<Rightarrow> string \<Rightarrow> int \<times> string" where
  "take_exponent ls s =
     (case s of
        c # cs \<Rightarrow>
          (if c \<in> set ls then
             (case take_sign cs of (neg, r) \<Rightarrow>
                let ds = takeWhile isdigit r in
                if ds = [] then (0, s)
                else (signed_man neg (digits_value 10 ds), dropWhile isdigit r))
           else (0, s))
      | [] \<Rightarrow> (0, []))"

text \<open>Digits with an optional fraction: integer digits, fraction digits, rest.\<close>

definition take_mantissa :: "(char \<Rightarrow> bool) \<Rightarrow> string \<Rightarrow> string \<times> string \<times> string" where
  "take_mantissa isd s =
     (let ds = takeWhile isd s; r = dropWhile isd s in
      case r of
        c # cs \<Rightarrow>
          if c = CHR ''.'' \<and> (ds \<noteq> [] \<or> (cs \<noteq> [] \<and> isd (hd cs)))
          then (ds, takeWhile isd cs, dropWhile isd cs) else (ds, [], r)
      | [] \<Rightarrow> (ds, [], []))"

text \<open>\<open>man * base powi ex\<close>, rounded.\<close>

definition round_scaled :: "bool \<Rightarrow> nat \<Rightarrow> nat \<Rightarrow> int \<Rightarrow> double \<times> bool" where
  "round_scaled neg man base ex =
     (if ex \<ge> 0 then round_ratio neg (man * base ^ nat ex) 1
      else round_ratio neg man (base ^ nat (- ex)))"

definition lower_char :: "char \<Rightarrow> char" where
  "lower_char c =
     (let n = (of_char c :: nat) in if 65 \<le> n \<and> n \<le> 90 then char_of (n + 32) else c)"

definition starts_with :: "string \<Rightarrow> string \<Rightarrow> bool" where
  "starts_with s w \<longleftrightarrow> map lower_char (take (length w) s) = w"

text \<open>The optional \<open>(...)\<close> after \<open>nan\<close>.\<close>

definition skip_nan_payload :: "string \<Rightarrow> string" where
  "skip_nan_payload s =
     (case s of
        c # cs \<Rightarrow>
          (if c = CHR ''('' then
             (case dropWhile (\<lambda>x. isalnum x \<or> x = CHR ''_'') cs of
                d # r \<Rightarrow> if d = CHR '')'' then r else s
              | [] \<Rightarrow> s)
           else s)
      | [] \<Rightarrow> [])"

text \<open>Value, \<open>ERANGE\<close> flag and rest of the text; \<open>None\<close> when nothing is converted.\<close>

definition strtod :: "string \<Rightarrow> (double \<times> bool \<times> string) option" where
  "strtod text =
     (case take_sign (dropWhile isspace text) of (neg, s) \<Rightarrow>
        if starts_with s ''infinity'' then Some (Inf neg, False, drop 8 s)
        else if starts_with s ''inf'' then Some (Inf neg, False, drop 3 s)
        else if starts_with s ''nan'' then Some (NaN neg, False, skip_nan_payload (drop 3 s))
        else
          (case (if starts_with s ''0x'' then take_mantissa is_hex_digit (drop 2 s) else ([], [], [])) of
             (hs, hf, hr) \<Rightarrow>
               if hs @ hf \<noteq> [] then
                 (case take_exponent ''pP'' hr of (ex, r) \<Rightarrow>
                    case round_scaled neg (digits_value 16 (hs @ hf)) 2 (ex - 4 * int (length hf)) of
                      (d, erange) \<Rightarrow> Some (d, erange, r))
               else
                 (case take_mantissa isdigit s of
                    (ds, df, dr) \<Rightarrow>
                      if ds @ df = [] then None
                      else
                        (case take_exponent ''eE'' dr of (ex, r) \<Rightarrow>
                           case round_scaled neg (digits_value 10 (ds @ df)) 10 (ex - int (length df)) of
                             (d, erange) \<Rightarrow> Some (d, erange, r)))))"

section \<open>Printing: %.17g\<close>

text \<open>A positive value as an integer over a power of ten.\<close>

definition exact_decimal :: "nat \<Rightarrow> int \<Rightarrow> nat \<times> nat" where
  "exact_decimal m e =
     (if e \<ge> 0 then (m * 2 ^ nat e, 0) else (m * 5 ^ nat (- e), nat (- e)))"

text \<open>Seventeen significant digits and the decimal exponent of the first.\<close>

definition significant :: "nat \<Rightarrow> nat \<Rightarrow> string \<times> int" where
  "significant num k =
     (let n = length (nat_str num); x = int n - 1 - int k in
      if n \<le> 17 then (nat_str num @ replicate (17 - n) (CHR ''0''), x)
      else
        let r = div_half_even num (10 ^ (n - 17)) in
        if r = 10 ^ 17 then (nat_str (10 ^ 16), x + 1) else (nat_str r, x))"

definition strip_zeros :: "string \<Rightarrow> string" where
  "strip_zeros s = rev (dropWhile (\<lambda>c. c = CHR ''0'') (rev s))"

definition with_fraction :: "string \<Rightarrow> string \<Rightarrow> string" where
  "with_fraction i f = (let f' = strip_zeros f in if f' = [] then i else i @ CHR ''.'' # f')"

definition exponent_str :: "int \<Rightarrow> string" where
  "exponent_str x =
     (let ds = nat_str (nat \<bar>x\<bar>) in
      CHR ''e'' # (if x < 0 then CHR ''-'' else CHR ''+'') #
        (if length ds < 2 then CHR ''0'' # ds else ds))"

definition format_g17_pos :: "nat \<Rightarrow> int \<Rightarrow> string" where
  "format_g17_pos m e =
     (case exact_decimal m e of (num, k) \<Rightarrow> case significant num k of (s, x) \<Rightarrow>
        if - 4 \<le> x \<and> x < 17 then
          (if x \<ge> 0 then with_fraction (take (nat x + 1) s) (drop (nat x + 1) s)
           else with_fraction ''0'' (replicate (nat (- x) - 1) (CHR ''0'') @ s))
        else with_fraction (take 1 s) (drop 1 s) @ exponent_str x)"

fun format_g17 :: "double \<Rightarrow> string" where
  "format_g17 (Fin s m e) =
     (if s then ''-'' else '''') @ (if m = 0 then ''0'' else format_g17_pos m e)"
| "format_g17 (Inf s) = (if s then ''-inf'' else ''inf'')"
| "format_g17 (NaN s) = (if s then ''-nan'' else ''nan'')"

section \<open>Decimal numerals\<close>

lemma digit_char_facts:
  assumes "d < 10"
  shows "isdigit (digit_char d)" "digit_value (digit_char d) = d" "\<not> isspace (digit_char d)"
    "digit_char d \<noteq> CHR ''-''" "digit_char d \<noteq> CHR ''+''" "lower_char (digit_char d) = digit_char d"
    "digit_char d \<noteq> CHR ''i''" "digit_char d \<noteq> CHR ''n''" "digit_char d \<noteq> CHR ''x''"
    "digit_char d \<noteq> CHR ''0'' \<longleftrightarrow> d \<noteq> 0" "digit_char d \<noteq> CHR ''.''"
proof -
  have d: "(of_char (digit_char d) :: nat) = 48 + d" using assms by (simp add: digit_char_def)
  have ne: "digit_char d \<noteq> c" if "(of_char c :: nat) \<noteq> 48 + d" for c using d that by metis
  have iff: "digit_char d = c \<longleftrightarrow> 48 + d = (of_char c :: nat)" for c using d by (metis of_char_eq_iff)
  show "isdigit (digit_char d)" "digit_value (digit_char d) = d" "\<not> isspace (digit_char d)"
    "lower_char (digit_char d) = digit_char d"
    using d assms by (simp_all add: isdigit_def digit_value_def isspace_def lower_char_def)
  show "digit_char d \<noteq> CHR ''-''" "digit_char d \<noteq> CHR ''+''" "digit_char d \<noteq> CHR ''i''"
    "digit_char d \<noteq> CHR ''n''" "digit_char d \<noteq> CHR ''x''" "digit_char d \<noteq> CHR ''.''"
    using assms by (simp_all add: iff)
  show "digit_char d \<noteq> CHR ''0'' \<longleftrightarrow> d \<noteq> 0" by (simp add: iff)
qed

lemma nat_str_digits: "\<forall>c\<in>set (nat_str n). \<exists>d<10. c = digit_char d"
proof (induction n rule: nat_str.induct)
  case (1 n)
  show ?case
  proof (cases "n < 10")
    case False
    then have "nat_str n = nat_str (n div 10) @ [digit_char (n mod 10)]"
      by (simp add: nat_str.simps [of n])
    moreover have "n mod 10 < 10" by simp
    ultimately show ?thesis using 1 False by (auto intro!: exI [of _ "n mod 10"])
  qed (auto simp: nat_str.simps [of n])
qed

lemma nat_str_not_Nil [simp]: "nat_str n \<noteq> []"
  by (simp add: nat_str.simps [of n])

lemma nat_str_value: "digits_value 10 (nat_str n) = n"
proof (induction n rule: nat_str.induct)
  case (1 n)
  show ?case
  proof (cases "n < 10")
    case True
    then show ?thesis by (simp add: nat_str.simps [of n] digits_value_def digit_char_facts)
  next
    case False
    then have "digits_value 10 (nat_str n) = digits_value 10 (nat_str (n div 10)) * 10 + n mod 10"
      by (simp add: nat_str.simps [of n] digits_value_def digit_char_facts)
    then show ?thesis using 1 False by simp
  qed
qed

lemma nat_str_length: "n < 10 ^ Suc k \<Longrightarrow> length (nat_str n) \<le> Suc k"
proof (induction k arbitrary: n)
  case 0
  then show ?case by (simp add: nat_str.simps [of n])
next
  case (Suc k)
  show ?case
  proof (cases "n < 10")
    case True
    then show ?thesis by (simp add: nat_str.simps [of n])
  next
    case False
    have "n div 10 < 10 ^ Suc k" using Suc.prems by (intro less_mult_imp_div_less) simp
    with Suc.IH False show ?thesis by (simp add: nat_str.simps [of n])
  qed
qed

section \<open>Integers are exact\<close>

lemma bit_len_Suc: "n < 2 ^ k \<Longrightarrow> bit_len n \<le> k"
proof (induction k arbitrary: n)
  case 0
  then show ?case by (simp add: bit_len.simps)
next
  case (Suc k)
  have "n div 2 < 2 ^ k" using Suc.prems by (intro less_mult_imp_div_less) simp
  with Suc.IH show ?case by (subst bit_len.simps) auto
qed

lemma bit_len_lower: "0 < n \<Longrightarrow> 2 ^ (bit_len n - 1) \<le> n"
proof (induction n rule: bit_len.induct)
  case (1 n)
  show ?case
  proof (cases "n = 1")
    case True
    then show ?thesis by (simp add: bit_len.simps)
  next
    case False
    then have "0 < n div 2" using "1.prems" by auto
    with "1.IH" "1.prems" have "2 ^ (bit_len (n div 2) - 1) \<le> n div 2" by simp
    moreover have "bit_len n = 1 + bit_len (n div 2)" "bit_len (n div 2) \<noteq> 0"
      using "1.prems" \<open>0 < n div 2\<close> by (subst bit_len.simps, simp)+
    moreover have "2 ^ bit_len (n div 2) = 2 * (2::nat) ^ (bit_len (n div 2) - 1)"
      using calculation(3) by (metis power_minus_mult mult.commute neq0_conv)
    moreover have "2 * 2 ^ (bit_len (n div 2) - 1) \<le> n" using calculation(1) by linarith
    ultimately show ?thesis by simp
  qed
qed

lemma bit_len_shift: "0 < n \<Longrightarrow> bit_len (n * 2 ^ k) = bit_len n + k"
  by (induction k) (simp, subst bit_len.simps, simp)

lemma norm_man_shift: "0 < n \<Longrightarrow> norm_man (n * 2 ^ k) (- int k) = (n, 0)"
proof (induction k)
  case 0
  then show ?case by (simp add: norm_man.simps)
next
  case (Suc k)
  then show ?case by (subst norm_man.simps) simp
qed

lemma div_half_even_1 [simp]: "div_half_even n 1 = n"
  by (simp add: div_half_even_def)

lemma last_place_int:
  assumes "0 < n" and "n < 2 ^ 53"
  shows "last_place n 1 = int (bit_len n) - 53"
proof -
  let ?l = "bit_len n"
  have l: "?l \<le> 53" "0 < ?l" using bit_len_Suc [OF assms(2)] assms(1) by (simp_all add: bit_len.simps [of n])
  have one: "bit_len 1 = 1" by (simp add: bit_len.simps)
  have e: "int ?l - 1 - 53 = - int (54 - ?l)" using l by simp
  have "(2::nat) ^ 53 = 2 ^ (?l - 1) * 2 ^ (54 - ?l)"
    using l by (simp flip: power_add)
  also have "\<dots> \<le> n * 2 ^ (54 - ?l)" using bit_len_lower [OF assms(1)] by simp
  finally have "2 ^ 53 * 1 \<le> n * 2 ^ (54 - ?l)" by simp
  then show ?thesis
    using l unfolding last_place_def one Let_def
    by (simp only: of_nat_1 e scale_def) (simp add: Let_def del: of_nat_diff)
qed

lemma round_ratio_int:
  assumes "n < 2 ^ 53"
  shows "round_ratio neg n 1 = (Fin neg n 0, False)"
proof (cases "n = 0")
  case False
  let ?l = "bit_len n"
  have l: "?l \<le> 53" using bit_len_Suc [OF assms] .
  have e: "last_place n 1 = - int (53 - ?l)" using last_place_int [of n] False assms l by simp
  have s: "scale n 1 (last_place n 1) = (n * 2 ^ (53 - ?l), 1)"
    unfolding e scale_def by (cases "?l = 53") (simp_all del: of_nat_diff)
  have "norm_man (n * 2 ^ (53 - ?l)) (last_place n 1) = (n, 0)"
    unfolding e using False by (intro norm_man_shift) simp
  moreover have "int (bit_len (n * 2 ^ (53 - ?l))) + last_place n 1 \<le> 1024"
    unfolding e using False l by (simp add: bit_len_shift)
  ultimately show ?thesis using False s by (simp add: round_ratio_def Let_def del: One_nat_def)
qed (simp add: round_ratio_def)

lemma double_add_int:
  assumes "a + b < 2 ^ 53"
  shows "double_add (Fin False a 0) (Fin False b 0) = Fin False (a + b) 0"
proof -
  have "nat (int a + int b) = a + b" by simp
  then show ?thesis
    using round_ratio_int [OF assms, of False]
    by (auto simp: signed_man_def scale_def Let_def simp flip: of_nat_add)
qed

text \<open>A numeral without sign parses as its value.\<close>

lemma takeWhile_digits:
  "\<forall>c\<in>set s. \<exists>d<10. c = digit_char d \<Longrightarrow> takeWhile isdigit s = s \<and> dropWhile isdigit s = []"
  using digit_char_facts(1) by (induction s) auto

lemma strtod_nat_str:
  assumes "n < 2 ^ 53"
  shows "strtod (nat_str n) = Some (Fin False n 0, False, [])"
proof -
  obtain c cs where s: "nat_str n = c # cs" by (cases "nat_str n") auto
  have digits: "\<forall>x\<in>set (c # cs). \<exists>d<10. x = digit_char d" using nat_str_digits [of n] s by simp
  then obtain d where d: "d < 10" "c = digit_char d" by auto
  note f = digit_char_facts [OF d(1), folded d(2)]
  have rest: "x \<noteq> CHR ''x''" "lower_char x \<noteq> CHR ''x''" if "x \<in> set cs" for x
    using digits that digit_char_facts(6,9) by fastforce+
  have "take_sign (dropWhile isspace (c # cs)) = (False, c # cs)"
    using f by (simp add: take_sign_def)
  moreover have "\<not> starts_with (c # cs) ''infinity''" "\<not> starts_with (c # cs) ''inf''"
    "\<not> starts_with (c # cs) ''nan''"
    using f by (auto simp: starts_with_def)
  moreover have "\<not> starts_with (c # cs) ''0x''"
    using rest by (cases cs) (auto simp: starts_with_def)
  moreover have "take_mantissa isdigit (c # cs) = (c # cs, [], [])"
    using takeWhile_digits [OF digits] unfolding take_mantissa_def by simp
  moreover have "digits_value 10 (c # cs) = n" using nat_str_value [of n] s by simp
  ultimately show ?thesis
    using round_ratio_int [OF assms, of False]
    by (simp add: strtod_def s take_exponent_def round_scaled_def)
qed

lemma strip_zeros_replicate: "strip_zeros (replicate k (CHR ''0'')) = []"
  by (simp add: strip_zeros_def)

lemma format_nat:
  assumes "n < 2 ^ 53"
  shows "format_g17 (Fin False n 0) = nat_str n"
proof (cases "n = 0")
  case True
  then show ?thesis using digit_char_facts(10) [of 0] by (simp add: nat_str.simps)
next
  case False
  let ?l = "length (nat_str n)"
  have "n < 10 ^ Suc 15" using assms by simp
  then have l: "?l \<le> 16" using nat_str_length [of n 15] by simp
  have "0 < ?l" by simp
  then have x: "nat (int ?l - 1) + 1 = ?l" "0 \<le> int ?l - 1" by linarith+
  have "significant n 0 = (nat_str n @ replicate (17 - ?l) (CHR ''0''), int ?l - 1)"
    using l by (simp add: significant_def Let_def)
  then have "format_g17_pos n 0 = with_fraction (take ?l (nat_str n @ replicate (17 - ?l) (CHR ''0'')))
      (drop ?l (nat_str n @ replicate (17 - ?l) (CHR ''0'')))"
    using l x by (simp add: format_g17_pos_def exact_decimal_def)
  also have "\<dots> = nat_str n"
    by (simp add: with_fraction_def strip_zeros_replicate)
  finally show ?thesis using False by simp
qed

lemma double_255:
  "n < 2 ^ 53 \<Longrightarrow> double_gt_255 (Fin False n 0) \<longleftrightarrow> n > 255"
  "double_to_int (Fin False n 0) = Some (int n)"
  by (simp_all add: scale_def signed_man_def)

end
