(* ===== verification/Vm_Bytecode.thy ===== *)
theory Vm_Bytecode
  imports Ast "HOL-Library.Monad_Syntax"
begin

text \<open>
  The bytecode emitter of \<open>src/backend/vm.c\<close> with the opcodes and tables of
  \<open>include/backend/vm.h\<close>: growable buffers, little-endian encoders, the deduplicating string
  table, the lowering of the syntax tree (\<open>emit_node\<close>), the metadata and the file image.

  Every function that returns \<open>bool\<close> in C returns an option here: \<open>None\<close> is \<open>false\<close>, and,
  in the one place named at \<open>emit_node\<close>, a read outside an array.
\<close>

type_synonym byte = "8 word"

section \<open>Opcodes\<close>

definition VM_OP_HALT :: byte where "VM_OP_HALT = 0x00"
definition VM_OP_PUSH_NULL :: byte where "VM_OP_PUSH_NULL = 0x01"
definition VM_OP_PUSH_LITERAL :: byte where "VM_OP_PUSH_LITERAL = 0x02"
definition VM_OP_PUSH_IDENT :: byte where "VM_OP_PUSH_IDENT = 0x03"
definition VM_OP_MAKE_GROUP :: byte where "VM_OP_MAKE_GROUP = 0x04"
definition VM_OP_SET_SLOT :: byte where "VM_OP_SET_SLOT = 0x05"
definition VM_OP_OPERATOR :: byte where "VM_OP_OPERATOR = 0x06"
definition VM_OP_RET :: byte where "VM_OP_RET = 0x10"
definition VM_OP_CALL :: byte where "VM_OP_CALL = 0x11"
definition VM_OP_PUSH_SCOPE :: byte where "VM_OP_PUSH_SCOPE = 0x20"
definition VM_OP_POP_SCOPE :: byte where "VM_OP_POP_SCOPE = 0x21"
definition VM_OP_UNWIND_SCOPE :: byte where "VM_OP_UNWIND_SCOPE = 0x22"
definition VM_OP_NODE_META :: byte where "VM_OP_NODE_META = 0xE0"

lemmas opcodes = VM_OP_HALT_def VM_OP_PUSH_NULL_def VM_OP_PUSH_LITERAL_def VM_OP_PUSH_IDENT_def
  VM_OP_MAKE_GROUP_def VM_OP_SET_SLOT_def VM_OP_OPERATOR_def VM_OP_RET_def VM_OP_CALL_def
  VM_OP_PUSH_SCOPE_def VM_OP_POP_SCOPE_def VM_OP_UNWIND_SCOPE_def VM_OP_NODE_META_def

definition MORPHL_VM_MAGIC :: string where "MORPHL_VM_MAGIC = ''MVMB''"
definition MORPHL_VM_VERSION_MAJOR :: "16 word" where "MORPHL_VM_VERSION_MAJOR = 1"
definition MORPHL_VM_VERSION_MINOR :: "16 word" where "MORPHL_VM_VERSION_MINOR = 0"

definition bytes_of :: "string \<Rightarrow> byte list" where
  "bytes_of s = map of_char s"

definition chars_of :: "byte list \<Rightarrow> string" where
  "chars_of bs = map (\<lambda>b. char_of (unat b)) bs"

section \<open>Growing buffers\<close>

text \<open>The loop of \<open>vm_grow\<close>, which refuses to double past \<open>SIZE_MAX\<close>.\<close>

function vm_grow_loop :: "nat \<Rightarrow> nat \<Rightarrow> nat option" where
  "vm_grow_loop c min_count =
     (if 0 < c \<and> c < min_count
      then if c > size_max div 2 then None else vm_grow_loop (c * 2) min_count
      else Some c)"
  by pat_completeness auto
termination
  by (relation "measure (\<lambda>(c, min_count). min_count - c)") auto

declare vm_grow_loop.simps [simp del]

definition vm_grow :: "nat \<Rightarrow> nat \<Rightarrow> nat option" where
  "vm_grow cap min_count = vm_grow_loop (if cap = 0 then 16 else cap) min_count"

record vm_bytes =
  b_data :: "byte list"
  b_capacity :: nat

definition bytes_push :: "vm_bytes \<Rightarrow> byte list \<Rightarrow> vm_bytes option" where
  "bytes_push buf src =
     (if length src = 0 then Some buf
      else do {
        let required = length (b_data buf) + length src;
        cap \<leftarrow> (if required > b_capacity buf then vm_grow (b_capacity buf) required
               else Some (b_capacity buf));
        Some \<lparr>b_data = b_data buf @ src, b_capacity = cap\<rparr>
      })"

definition bytes_push_u8 :: "vm_bytes \<Rightarrow> byte \<Rightarrow> vm_bytes option" where
  "bytes_push_u8 buf v = bytes_push buf [v]"

definition u16_le :: "16 word \<Rightarrow> byte list" where
  "u16_le v = [ucast (v AND 0xFF), ucast (drop_bit 8 v AND 0xFF)]"

definition u32_le :: "32 word \<Rightarrow> byte list" where
  "u32_le v = [ucast (v AND 0xFF), ucast (drop_bit 8 v AND 0xFF),
               ucast (drop_bit 16 v AND 0xFF), ucast (drop_bit 24 v AND 0xFF)]"

definition bytes_push_u16_le :: "vm_bytes \<Rightarrow> 16 word \<Rightarrow> vm_bytes option" where
  "bytes_push_u16_le buf v = bytes_push buf (u16_le v)"

definition bytes_push_u32_le :: "vm_bytes \<Rightarrow> 32 word \<Rightarrow> vm_bytes option" where
  "bytes_push_u32_le buf v = bytes_push buf (u32_le v)"

section \<open>Tables\<close>

record vm_string =
  vs_ptr :: string
  vs_len :: "32 word"

record vm_string_table =
  st_items :: "vm_string list"
  st_capacity :: nat

record vm_metadata =
  md_key :: "32 word"
  md_value :: "32 word"

record vm_metadata_table =
  mt_items :: "vm_metadata list"
  mt_capacity :: nat

text \<open>The scan of \<open>string_table_add\<close>: stored length and that many bytes agree.\<close>

definition same_text :: "vm_string \<Rightarrow> string \<Rightarrow> bool" where
  "same_text item text \<longleftrightarrow>
     unat (vs_len item) = length text \<and> take (length text) (vs_ptr item) = text"

fun find_text :: "vm_string list \<Rightarrow> string \<Rightarrow> nat \<Rightarrow> nat option" where
  "find_text [] text i = None"
| "find_text (item # items) text i =
     (if same_text item text then Some i else find_text items text (i + 1))"

definition string_table_add :: "vm_string_table \<Rightarrow> string \<Rightarrow> (32 word \<times> vm_string_table) option" where
  "string_table_add table text =
     (case find_text (st_items table) text 0 of
        Some i \<Rightarrow> Some (of_nat i, table)
      | None \<Rightarrow> do {
          let count = length (st_items table);
          cap \<leftarrow> (if count = st_capacity table then vm_grow (st_capacity table) (count + 1)
                 else Some (st_capacity table));
          Some (of_nat count,
            \<lparr>st_items = st_items table @ [\<lparr>vs_ptr = text, vs_len = of_nat (length text)\<rparr>],
             st_capacity = cap\<rparr>)
        })"

definition metadata_add ::
    "vm_metadata_table \<Rightarrow> 32 word \<Rightarrow> 32 word \<Rightarrow> vm_metadata_table option" where
  "metadata_add table key_index value_index = do {
     let count = length (mt_items table);
     cap \<leftarrow> (if count = mt_capacity table then vm_grow (mt_capacity table) (count + 1)
            else Some (mt_capacity table));
     Some \<lparr>mt_items = mt_items table @ [\<lparr>md_key = key_index, md_value = value_index\<rparr>],
           mt_capacity = cap\<rparr>
   }"

section \<open>Lowering the syntax tree\<close>

record vm_emitter =
  e_strings :: vm_string_table
  e_metadata :: vm_metadata_table
  e_code :: vm_bytes
  e_interns :: "intern_table option"

definition op_name_from_node :: "vm_emitter \<Rightarrow> ast \<Rightarrow> str" where
  "op_name_from_node em node =
     (case e_interns em of
        None \<Rightarrow> Some ''<none>''
      | Some t \<Rightarrow> if n_op node = 0 then Some ''<none>'' else interns_lookup t (n_op node))"

definition compile_time_ops :: "string list" where
  "compile_time_ops = [''$syntax'', ''$import'', ''$prop'', ''$decl'', ''$forward'', ''$file'',
     ''$global'', ''$inline'', ''$this'']"

definition is_compile_time_operator :: "str \<Rightarrow> bool" where
  "is_compile_time_operator op_name \<longleftrightarrow> (\<exists>c\<in>set compile_time_ops. str_eq op_name (Some c))"

definition emit_opcode :: "vm_emitter \<Rightarrow> byte \<Rightarrow> vm_emitter option" where
  "emit_opcode em opcode = do {
     code \<leftarrow> bytes_push_u8 (e_code em) opcode;
     Some (em\<lparr>e_code := code\<rparr>)
   }"

definition emit_u32 :: "vm_emitter \<Rightarrow> 32 word \<Rightarrow> vm_emitter option" where
  "emit_u32 em v = do {
     code \<leftarrow> bytes_push_u32_le (e_code em) v;
     Some (em\<lparr>e_code := code\<rparr>)
   }"

definition emit_opcode_u32 :: "vm_emitter \<Rightarrow> byte \<Rightarrow> 32 word \<Rightarrow> vm_emitter option" where
  "emit_opcode_u32 em opcode imm = do { em1 \<leftarrow> emit_opcode em opcode; emit_u32 em1 imm }"

text \<open>A string table entry and an instruction that refers to it.\<close>

definition emit_named :: "vm_emitter \<Rightarrow> byte \<Rightarrow> str \<Rightarrow> vm_emitter option" where
  "emit_named em opcode text = do {
     (idx, strings) \<leftarrow> string_table_add (e_strings em) (str_bytes text);
     emit_opcode_u32 (em\<lparr>e_strings := strings\<rparr>) opcode idx
   }"

definition emit_set_slot :: "vm_emitter \<Rightarrow> str \<Rightarrow> vm_emitter option" where
  "emit_set_slot em name = emit_named em VM_OP_SET_SLOT name"

text \<open>The slot name of a declaration.\<close>

definition decl_name :: "ast list \<Rightarrow> str" where
  "decl_name cs =
     (case cs of
        c # _ \<Rightarrow> if n_kind c = AST_IDENT then n_value c else Some ''<anonymous>''
      | [] \<Rightarrow> Some ''<anonymous>'')"

text \<open>The value of an enumerator of \<open>AstKind\<close>, cast to \<open>uint8_t\<close>.\<close>

fun kind_value :: "ast_kind \<Rightarrow> byte" where
  "kind_value AST_LITERAL = 0"
| "kind_value AST_IDENT = 1"
| "kind_value AST_CALL = 2"
| "kind_value AST_FUNC = 3"
| "kind_value AST_IF = 4"
| "kind_value AST_BLOCK = 5"
| "kind_value AST_GROUP = 6"
| "kind_value AST_DECL = 7"
| "kind_value AST_PROP = 8"
| "kind_value AST_SET = 9"
| "kind_value AST_BUILTIN = 10"
| "kind_value AST_OVERLOAD = 11"
| "kind_value AST_FILE = 12"
| "kind_value AST_UNKNOWN = 13"

text \<open>
  \<open>emit_node\<close>.  A \<open>$ret\<close> without operand reads \<open>children[0]\<close> of an empty child array in C;
  the model has no value for that and returns \<open>None\<close>.
\<close>

fun emit_node :: "vm_emitter \<Rightarrow> ast \<Rightarrow> vm_emitter option"
  and emit_nodes :: "vm_emitter \<Rightarrow> ast list \<Rightarrow> vm_emitter option" where
  "emit_node em (AstNode kind op v cs cap fn row col) =
     (let node = AstNode kind op v cs cap fn row col in
      case kind of
        AST_LITERAL \<Rightarrow> emit_named em VM_OP_PUSH_LITERAL v
      | AST_IDENT \<Rightarrow> emit_named em VM_OP_PUSH_IDENT v
      | AST_GROUP \<Rightarrow>
          Option.bind (emit_nodes em cs) (\<lambda>em1.
            emit_opcode_u32 em1 VM_OP_MAKE_GROUP (of_nat (length cs)))
      | AST_CALL \<Rightarrow>
          Option.bind (emit_nodes em cs) (\<lambda>em1. emit_named em1 VM_OP_CALL (Some ''$call''))
      | AST_DECL \<Rightarrow>
          Option.bind (case cs of c # rhs # _ \<Rightarrow> emit_node em rhs | _ \<Rightarrow> emit_opcode em VM_OP_PUSH_NULL)
            (\<lambda>em1. emit_set_slot em1 (decl_name cs))
      | AST_SET \<Rightarrow>
          Option.bind (emit_nodes em cs) (\<lambda>em1. emit_named em1 VM_OP_OPERATOR (Some ''$set''))
      | AST_BUILTIN \<Rightarrow>
          (let op_name = op_name_from_node em node in
           if is_compile_time_operator op_name then
             if str_eq op_name (Some ''$decl'') then
               Option.bind
                 (case cs of c # rhs # _ \<Rightarrow> emit_node em rhs | _ \<Rightarrow> emit_opcode em VM_OP_PUSH_NULL)
                 (\<lambda>em1. emit_set_slot em1 (decl_name cs))
             else emit_nodes em cs
           else if str_eq op_name (Some ''$ret'') then
             (case cs of
                [] \<Rightarrow> None
              | c # _ \<Rightarrow> Option.bind (emit_node em c) (\<lambda>em1. emit_opcode em1 VM_OP_RET))
           else Option.bind (emit_nodes em cs) (\<lambda>em1. emit_named em1 VM_OP_OPERATOR op_name))
      | AST_FILE \<Rightarrow> emit_nodes em cs
      | AST_BLOCK \<Rightarrow> emit_nodes em cs
      | _ \<Rightarrow>
          Option.bind (string_table_add (e_strings em) (str_bytes (op_name_from_node em node)))
            (\<lambda>(op_idx, strings). Option.bind (emit_opcode (em\<lparr>e_strings := strings\<rparr>) VM_OP_NODE_META)
              (\<lambda>em1. Option.bind (emit_opcode em1 (kind_value kind))
                (\<lambda>em2. Option.bind (emit_u32 em2 op_idx)
                  (\<lambda>em3. Option.bind (emit_u32 em3 (of_nat (length cs)))
                    (\<lambda>em4. emit_nodes em4 cs))))))"
| "emit_nodes em [] = Some em"
| "emit_nodes em (c # cs) = Option.bind (emit_node em c) (\<lambda>em1. emit_nodes em1 cs)"

text \<open>The tree of the backend context may be \<open>NULL\<close>.\<close>

definition emit_tree :: "vm_emitter \<Rightarrow> ast option \<Rightarrow> vm_emitter option" where
  "emit_tree em tree =
     (case tree of None \<Rightarrow> emit_opcode em VM_OP_PUSH_NULL | Some n \<Rightarrow> emit_node em n)"

definition emit_meta_entry :: "vm_emitter \<Rightarrow> string \<Rightarrow> string \<Rightarrow> vm_emitter option" where
  "emit_meta_entry em key val = do {
     (k, s1) \<leftarrow> string_table_add (e_strings em) key;
     (v, s2) \<leftarrow> string_table_add s1 val;
     m \<leftarrow> metadata_add (e_metadata em) k v;
     Some (em\<lparr>e_strings := s2, e_metadata := m\<rparr>)
   }"

definition emit_metadata :: "vm_emitter \<Rightarrow> vm_emitter option" where
  "emit_metadata em = do {
     em1 \<leftarrow> emit_meta_entry em ''backend'' ''morphl-vm-bytecode'';
     em2 \<leftarrow> emit_meta_entry em1 ''format_version'' ''1.0'';
     emit_meta_entry em2 ''operators'' ''runtime-verbatim''
   }"

section \<open>The file\<close>

fun push_strings :: "vm_bytes \<Rightarrow> vm_string list \<Rightarrow> vm_bytes option" where
  "push_strings file [] = Some file"
| "push_strings file (item # items) = do {
     f1 \<leftarrow> bytes_push_u32_le file (vs_len item);
     f2 \<leftarrow> bytes_push f1 (bytes_of (take (unat (vs_len item)) (vs_ptr item)));
     push_strings f2 items
   }"

fun push_metadata :: "vm_bytes \<Rightarrow> vm_metadata list \<Rightarrow> vm_bytes option" where
  "push_metadata file [] = Some file"
| "push_metadata file (item # items) = do {
     f1 \<leftarrow> bytes_push_u32_le file (md_key item);
     f2 \<leftarrow> bytes_push_u32_le f1 (md_value item);
     push_metadata f2 items
   }"

definition empty_emitter :: "intern_table option \<Rightarrow> vm_emitter" where
  "empty_emitter interns =
     \<lparr>e_strings = \<lparr>st_items = [], st_capacity = 0\<rparr>, e_metadata = \<lparr>mt_items = [], mt_capacity = 0\<rparr>,
      e_code = \<lparr>b_data = [], b_capacity = 0\<rparr>, e_interns = interns\<rparr>"

definition vm_file :: "vm_emitter \<Rightarrow> vm_bytes option" where
  "vm_file em = do {
     f1 \<leftarrow> bytes_push \<lparr>b_data = [], b_capacity = 0\<rparr> (bytes_of MORPHL_VM_MAGIC);
     f2 \<leftarrow> bytes_push_u16_le f1 MORPHL_VM_VERSION_MAJOR;
     f3 \<leftarrow> bytes_push_u16_le f2 MORPHL_VM_VERSION_MINOR;
     f4 \<leftarrow> bytes_push_u32_le f3 0;
     f5 \<leftarrow> bytes_push_u32_le f4 (of_nat (length (st_items (e_strings em))));
     f6 \<leftarrow> push_strings f5 (st_items (e_strings em));
     f7 \<leftarrow> bytes_push_u32_le f6 (of_nat (length (mt_items (e_metadata em))));
     f8 \<leftarrow> push_metadata f7 (mt_items (e_metadata em));
     f9 \<leftarrow> bytes_push_u32_le f8 (of_nat (length (b_data (e_code em))));
     bytes_push f9 (b_data (e_code em))
   }"

text \<open>\<open>morphl_backend_func_vm\<close>: the bytes it writes to the output file.\<close>

definition morphl_backend_func_vm :: "ast option \<Rightarrow> intern_table option \<Rightarrow> byte list option" where
  "morphl_backend_func_vm tree interns = do {
     em1 \<leftarrow> emit_tree (empty_emitter interns) tree;
     em2 \<leftarrow> emit_opcode em1 VM_OP_HALT;
     em3 \<leftarrow> emit_metadata em2;
     file \<leftarrow> vm_file em3;
     Some (b_data file)
   }"

end
