(* ===== verification/Vm_Runtime.thy ===== *)
theory Vm_Runtime
  imports Vm_Bytecode C_Double
begin

text \<open>
  The virtual machine of \<open>src/runtime/vm_runtime.c\<close>: the program loader, values, the value stack,
  named slots, call frames, the two runtime operators and the fetch-execute loop.

  Stacks are lists with the top first; \<open>stack_count\<close>, \<open>slot_count\<close> and \<open>call_frame_count\<close> are
  their lengths.  The loaded strings are C strings: what \<open>strlen\<close>, \<open>strcmp\<close> and \<open>strtod\<close> see,
  up to the first NUL byte.  Messages written to the error stream are the string lists of the
  results.
\<close>

section \<open>Values\<close>

datatype vm_value_kind = VM_VALUE_NULL | VM_VALUE_LITERAL | VM_VALUE_IDENT | VM_VALUE_GROUP

datatype vm_value =
  VmValue (v_kind: vm_value_kind) (v_text: "string option") (v_items: "vm_value list")

fun vm_value_copy :: "vm_value \<Rightarrow> vm_value" where
  "vm_value_copy (VmValue kind text items) = VmValue kind text (map vm_value_copy items)"

lemma vm_value_copy_id [simp]: "vm_value_copy v = v"
  by (induction v rule: vm_value_copy.induct) (simp add: map_idI)

section \<open>State\<close>

record vm_program =
  p_version_major :: "16 word"
  p_version_minor :: "16 word"
  p_strings :: "string list"
  p_code :: "byte list"

record vm_call_frame =
  f_func_index :: "32 word"
  f_ip :: nat
  f_base :: nat
  f_local_base :: nat
  f_return_ip :: nat
  f_return_base :: nat
  f_return_local_base :: nat
  f_scope_depth :: "32 word"

record morphl_vm =
  vm_ip :: nat
  vm_stack :: "vm_value list"
  vm_slots :: "(string \<times> vm_value) list"
  vm_frames :: "vm_call_frame list"

definition report_error :: "string \<Rightarrow> string" where
  "report_error message = ''runtime error: '' @ message @ [CHR 0x0A]"

text \<open>How a run ends: the exit code and the messages, or a conversion that C leaves undefined.\<close>

datatype vm_outcome = Exit int "string list" | Undefined_conversion

datatype vm_result = Continue morphl_vm | Stop vm_outcome

abbreviation fail_with :: "string \<Rightarrow> vm_result" where
  "fail_with message \<equiv> Stop (Exit 1 [report_error message])"

section \<open>Reading bytes\<close>

definition read_u16 :: "byte list \<Rightarrow> nat \<Rightarrow> (16 word \<times> nat) option" where
  "read_u16 bytes off =
     (if off + 2 > length bytes then None
      else Some (ucast (bytes ! off) OR push_bit 8 (ucast (bytes ! (off + 1))), off + 2))"

definition read_u32 :: "byte list \<Rightarrow> nat \<Rightarrow> (32 word \<times> nat) option" where
  "read_u32 bytes off =
     (if off + 4 > length bytes then None
      else Some (ucast (bytes ! off) OR push_bit 8 (ucast (bytes ! (off + 1))) OR
                 push_bit 16 (ucast (bytes ! (off + 2))) OR push_bit 24 (ucast (bytes ! (off + 3))),
                 off + 4))"

section \<open>Loading a program\<close>

fun load_strings :: "byte list \<Rightarrow> nat \<Rightarrow> nat \<Rightarrow> (string list \<times> nat) option" where
  "load_strings bytes off 0 = Some ([], off)"
| "load_strings bytes off (Suc n) =
     (case read_u32 bytes off of
        None \<Rightarrow> None
      | Some (len, off) \<Rightarrow>
          if off + unat len > length bytes then None
          else (case load_strings bytes (off + unat len) n of
                  None \<Rightarrow> None
                | Some (rest, off') \<Rightarrow>
                    Some (c_str (chars_of (take (unat len) (drop off bytes))) # rest, off')))"

fun skip_metadata :: "byte list \<Rightarrow> nat \<Rightarrow> nat \<Rightarrow> nat option" where
  "skip_metadata bytes off 0 = Some off"
| "skip_metadata bytes off (Suc n) =
     (case read_u32 bytes off of
        None \<Rightarrow> None
      | Some (key, off) \<Rightarrow>
          (case read_u32 bytes off of None \<Rightarrow> None | Some (val, off) \<Rightarrow> skip_metadata bytes off n))"

text \<open>\<open>morphl_vm_program_load\<close> on the contents of the file, \<open>None\<close> when it cannot be read.\<close>

definition morphl_vm_program_load :: "byte list option \<Rightarrow> vm_program option" where
  "morphl_vm_program_load file = do {
     bytes \<leftarrow> file;
     _ \<leftarrow> (if length bytes < 4 \<or> take 4 bytes \<noteq> bytes_of MORPHL_VM_MAGIC then None else Some ());
     (major, off) \<leftarrow> read_u16 bytes 4;
     (minor, off) \<leftarrow> read_u16 bytes off;
     (reserved, off) \<leftarrow> read_u32 bytes off;
     (string_count, off) \<leftarrow> read_u32 bytes off;
     (strings, off) \<leftarrow> load_strings bytes off (unat string_count);
     (metadata_count, off) \<leftarrow> read_u32 bytes off;
     off \<leftarrow> skip_metadata bytes off (unat metadata_count);
     (code_len, off) \<leftarrow> read_u32 bytes off;
     if off + unat code_len > length bytes then None
     else Some \<lparr>p_version_major = major, p_version_minor = minor, p_strings = strings,
                p_code = take (unat code_len) (drop off bytes)\<rparr>
   }"

definition morphl_vm_new :: morphl_vm where
  "morphl_vm_new = \<lparr>vm_ip = 0, vm_stack = [], vm_slots = [], vm_frames = []\<rparr>"

section \<open>Stack and slots\<close>

definition vm_stack_push :: "morphl_vm \<Rightarrow> vm_value \<Rightarrow> morphl_vm" where
  "vm_stack_push vm v = vm\<lparr>vm_stack := vm_value_copy v # vm_stack vm\<rparr>"

definition vm_stack_pop :: "morphl_vm \<Rightarrow> (vm_value \<times> morphl_vm) option" where
  "vm_stack_pop vm =
     (case vm_stack vm of [] \<Rightarrow> None | v # vs \<Rightarrow> Some (v, vm\<lparr>vm_stack := vs\<rparr>))"

text \<open>The slot loop of \<open>vm_set_slot\<close>: the first slot of the name, or a new one at the end.\<close>

fun set_slot :: "(string \<times> vm_value) list \<Rightarrow> string \<Rightarrow> vm_value \<Rightarrow> (string \<times> vm_value) list" where
  "set_slot [] name v = [(name, vm_value_copy v)]"
| "set_slot ((n, u) # rest) name v =
     (if n = name then (n, vm_value_copy v) # rest else (n, u) # set_slot rest name v)"

definition vm_set_slot :: "morphl_vm \<Rightarrow> string \<Rightarrow> vm_value \<Rightarrow> morphl_vm" where
  "vm_set_slot vm name v = vm\<lparr>vm_slots := set_slot (vm_slots vm) name v\<rparr>"

definition vm_resolve_value :: "morphl_vm \<Rightarrow> vm_value \<Rightarrow> vm_value" where
  "vm_resolve_value vm v =
     (if v_kind v \<noteq> VM_VALUE_IDENT then v
      else (case v_text v of
              None \<Rightarrow> v
            | Some name \<Rightarrow> (case map_of (vm_slots vm) name of None \<Rightarrow> v | Some u \<Rightarrow> u)))"

section \<open>Operators\<close>

definition vm_value_to_number :: "vm_value \<Rightarrow> double option" where
  "vm_value_to_number v =
     (if v_kind v \<noteq> VM_VALUE_LITERAL then None
      else (case v_text v of
              None \<Rightarrow> None
            | Some text \<Rightarrow>
                (case strtod text of
                   None \<Rightarrow> None
                 | Some (d, erange, rest) \<Rightarrow> if erange \<or> rest \<noteq> [] then None else Some d)))"

definition vm_add :: "morphl_vm \<Rightarrow> string list + morphl_vm" where
  "vm_add vm =
     (case vm_stack_pop vm of
        None \<Rightarrow> Inl [report_error ''$add requires two operands'']
      | Some (rhs, vm1) \<Rightarrow>
          (case vm_stack_pop vm1 of
             None \<Rightarrow> Inl [report_error ''$add requires two operands'']
           | Some (lhs, vm2) \<Rightarrow>
               (case (vm_value_to_number (vm_resolve_value vm2 lhs),
                      vm_value_to_number (vm_resolve_value vm2 rhs)) of
                  (Some x, Some y) \<Rightarrow>
                    (let buffer = format_g17 (double_add x y) in
                     if length buffer = 0 \<or> length buffer \<ge> 64
                     then Inl [report_error ''failed to format $add result'']
                     else Inr (vm_stack_push vm2 (VmValue VM_VALUE_LITERAL (Some buffer) [])))
                | _ \<Rightarrow> Inl [report_error ''$add currently supports numeric literal operands only''])))"

definition vm_set :: "morphl_vm \<Rightarrow> string list + morphl_vm" where
  "vm_set vm =
     (case vm_stack_pop vm of
        None \<Rightarrow> Inl [report_error ''$set requires identifier and value operands'']
      | Some (rhs, vm1) \<Rightarrow>
          (case vm_stack_pop vm1 of
             None \<Rightarrow> Inl [report_error ''$set requires identifier and value operands'']
           | Some (lhs, vm2) \<Rightarrow>
               (case (if v_kind lhs = VM_VALUE_IDENT then v_text lhs else None) of
                  None \<Rightarrow> Inl [report_error ''$set lhs must be an identifier'']
                | Some name \<Rightarrow> Inr (vm_stack_push (vm_set_slot vm2 name rhs) rhs))))"

definition unsupported_message :: "string \<Rightarrow> string" where
  "unsupported_message op_name =
     ''runtime error: unsupported operator '' @ [CHR 0x27] @ op_name @ [CHR 0x27] @
     '' (supported in V0.1: $add, $set)'' @ [CHR 0x0A]"

definition vm_execute_operator :: "morphl_vm \<Rightarrow> string \<Rightarrow> string list + morphl_vm" where
  "vm_execute_operator vm op_name =
     (if op_name = ''$add'' then vm_add vm
      else if op_name = ''$set'' then vm_set vm
      else Inl [unsupported_message op_name])"

section \<open>Calls\<close>

text \<open>The slots above \<open>frame->base\<close> go, the frame is popped, the value goes back on the stack.\<close>

definition vm_return :: "morphl_vm \<Rightarrow> string list + morphl_vm" where
  "vm_return vm =
     (case vm_frames vm of
        [] \<Rightarrow> Inl [report_error ''attempted to return from top-level code'']
      | frame # frames \<Rightarrow>
          (case vm_stack_pop vm of
             None \<Rightarrow> Inl [report_error ''stack underflow while trying to return value'']
           | Some (return_value, vm1) \<Rightarrow>
               Inr (vm_stack_push
                 (vm1\<lparr>vm_slots := take (f_base frame) (vm_slots vm1), vm_frames := frames,
                      vm_ip := f_return_ip frame\<rparr>) return_value)))"

text \<open>The caller's frame exists: \<open>vm_init_call_frame\<close> has pushed the main frame before the loop.\<close>

definition vm_call :: "morphl_vm \<Rightarrow> 32 word \<Rightarrow> morphl_vm" where
  "vm_call vm func_index =
     vm\<lparr>vm_frames :=
       \<lparr>f_func_index = func_index, f_ip = 0,
        f_base = length (vm_stack vm), f_local_base = length (vm_slots vm),
        f_return_ip = vm_ip vm + 4, f_return_base = length (vm_stack vm),
        f_return_local_base = length (vm_slots vm),
        f_scope_depth = (case vm_frames vm of [] \<Rightarrow> 0 | f # _ \<Rightarrow> f_scope_depth f + 1)\<rparr> # vm_frames vm\<rparr>"

text \<open>The main frame; C leaves its two \<open>return_..base\<close> fields unset and never reads them.\<close>

definition vm_init_call_frame :: "morphl_vm \<Rightarrow> morphl_vm" where
  "vm_init_call_frame vm =
     vm\<lparr>vm_frames :=
       \<lparr>f_func_index = 0, f_ip = vm_ip vm, f_base = 0, f_local_base = 0, f_return_ip = 0,
        f_return_base = 0, f_return_local_base = 0, f_scope_depth = 0\<rparr> # vm_frames vm\<rparr>"

section \<open>The fetch-execute loop\<close>

text \<open>The four payload bytes at the instruction pointer, which then moves past them.\<close>

definition payload :: "vm_program \<Rightarrow> morphl_vm \<Rightarrow> (32 word \<times> morphl_vm) option" where
  "payload prog vm =
     (case read_u32 (p_code prog) (vm_ip vm) of
        None \<Rightarrow> None
      | Some (w, off) \<Rightarrow> Some (w, vm\<lparr>vm_ip := off\<rparr>))"

definition step_push :: "vm_program \<Rightarrow> vm_value_kind \<Rightarrow> morphl_vm \<Rightarrow> vm_result" where
  "step_push prog kind vm =
     (case payload prog vm of
        None \<Rightarrow> fail_with ''truncated PUSH payload''
      | Some (idx, vm1) \<Rightarrow>
          if unat idx \<ge> length (p_strings prog) then fail_with ''string index out of bounds''
          else Continue (vm_stack_push vm1 (VmValue kind (Some (p_strings prog ! unat idx)) [])))"

definition step_make_group :: "vm_program \<Rightarrow> morphl_vm \<Rightarrow> vm_result" where
  "step_make_group prog vm =
     (case payload prog vm of
        None \<Rightarrow> fail_with ''truncated MAKE_GROUP payload''
      | Some (arity, vm1) \<Rightarrow>
          if unat arity > length (vm_stack vm1) then fail_with ''MAKE_GROUP arity exceeds stack depth''
          else Continue (vm_stack_push (vm1\<lparr>vm_stack := drop (unat arity) (vm_stack vm1)\<rparr>)
                 (VmValue VM_VALUE_GROUP None (rev (take (unat arity) (vm_stack vm1))))))"

definition step_set_slot :: "vm_program \<Rightarrow> morphl_vm \<Rightarrow> vm_result" where
  "step_set_slot prog vm =
     (case payload prog vm of
        None \<Rightarrow> fail_with ''truncated SET_SLOT payload''
      | Some (idx, vm1) \<Rightarrow>
          if unat idx \<ge> length (p_strings prog) then fail_with ''SET_SLOT index out of bounds''
          else (case vm_stack_pop vm1 of
                  None \<Rightarrow> fail_with ''SET_SLOT requires a value on stack''
                | Some (v, vm2) \<Rightarrow>
                    Continue (vm_stack_push (vm_set_slot vm2 (p_strings prog ! unat idx) v) v)))"

definition step_operator :: "vm_program \<Rightarrow> morphl_vm \<Rightarrow> vm_result" where
  "step_operator prog vm =
     (case payload prog vm of
        None \<Rightarrow> fail_with ''truncated OPERATOR payload''
      | Some (idx, vm1) \<Rightarrow>
          if unat idx \<ge> length (p_strings prog) then fail_with ''OPERATOR index out of bounds''
          else (case vm_execute_operator vm1 (p_strings prog ! unat idx) of
                  Inl messages \<Rightarrow> Stop (Exit 1 messages)
                | Inr vm2 \<Rightarrow> Continue vm2))"

text \<open>
  \<open>RET\<close> in the main frame ends the run with the popped value as exit code.  In another frame
  \<open>vm_return\<close> runs and control then falls through the remaining tests to \<open>unknown opcode\<close>.
\<close>

definition step_ret :: "morphl_vm \<Rightarrow> vm_outcome" where
  "step_ret vm =
     (if length (vm_frames vm) = 1 then
        (case vm_stack_pop vm of
           None \<Rightarrow> Exit 1 [report_error ''stack underflow while trying to read exit code'']
         | Some (exit_value, vm1) \<Rightarrow>
             (case vm_value_to_number exit_value of
                None \<Rightarrow> Exit 1 [report_error ''invalid exit code (must be a number between 0 and 255)'']
              | Some d \<Rightarrow>
                  if double_lt_0 d \<or> double_gt_255 d
                  then Exit 1 [report_error ''invalid exit code (must be a number between 0 and 255)'']
                  else (case double_to_int d of None \<Rightarrow> Undefined_conversion | Some n \<Rightarrow> Exit n [])))
      else (case vm_return vm of
              Inl messages \<Rightarrow> Exit 1 (messages @ [report_error ''failed to return from function''])
            | Inr vm1 \<Rightarrow> Exit 1 [report_error ''unknown opcode'']))"

definition step_call :: "vm_program \<Rightarrow> morphl_vm \<Rightarrow> vm_result" where
  "step_call prog vm =
     (case payload prog vm of
        None \<Rightarrow> fail_with ''truncated CALL payload''
      | Some (func_index, vm1) \<Rightarrow> Continue (vm_call vm1 func_index))"

text \<open>One turn of the loop, at an instruction pointer inside the code.\<close>

definition vm_step :: "vm_program \<Rightarrow> morphl_vm \<Rightarrow> vm_result" where
  "vm_step prog vm0 =
     (let op = p_code prog ! vm_ip vm0; vm = vm0\<lparr>vm_ip := vm_ip vm0 + 1\<rparr> in
      if op = VM_OP_HALT then Stop (Exit 0 [])
      else if op = VM_OP_PUSH_NULL then Continue (vm_stack_push vm (VmValue VM_VALUE_NULL None []))
      else if op = VM_OP_PUSH_LITERAL \<or> op = VM_OP_PUSH_IDENT then
        step_push prog (if op = VM_OP_PUSH_LITERAL then VM_VALUE_LITERAL else VM_VALUE_IDENT) vm
      else if op = VM_OP_MAKE_GROUP then step_make_group prog vm
      else if op = VM_OP_SET_SLOT then step_set_slot prog vm
      else if op = VM_OP_OPERATOR then step_operator prog vm
      else if op = VM_OP_RET then Stop (step_ret vm)
      else if op = VM_OP_CALL then step_call prog vm
      else if op = VM_OP_NODE_META then
        fail_with ''NODE_META execution is not supported in V0.1 runtime''
      else fail_with ''unknown opcode'')"

text \<open>No instruction moves the instruction pointer back.\<close>

lemma payload_ip: "payload prog vm = Some (w, vm1) \<Longrightarrow> vm_ip vm < vm_ip vm1"
  by (auto simp: payload_def read_u32_def split: if_splits)

lemma vm_ip_simps [simp]:
  "vm_ip (vm_stack_push vm v) = vm_ip vm" "vm_ip (vm_set_slot vm n v) = vm_ip vm"
  "vm_ip (vm_call vm i) = vm_ip vm" "vm_ip (vm_init_call_frame vm) = vm_ip vm"
  by (simp_all add: vm_stack_push_def vm_set_slot_def vm_call_def vm_init_call_frame_def)

lemma vm_stack_pop_ip: "vm_stack_pop vm = Some (v, vm1) \<Longrightarrow> vm_ip vm1 = vm_ip vm"
  by (auto simp: vm_stack_pop_def split: list.splits)

lemma vm_operator_ip: "vm_execute_operator vm op = Inr vm1 \<Longrightarrow> vm_ip vm1 = vm_ip vm"
  by (auto simp: vm_execute_operator_def vm_add_def vm_set_def Let_def dest!: vm_stack_pop_ip
      split: if_splits option.splits)

lemma step_ip_le:
  "step_push prog k vm = Continue vm' \<Longrightarrow> vm_ip vm \<le> vm_ip vm'"
  "step_make_group prog vm = Continue vm' \<Longrightarrow> vm_ip vm \<le> vm_ip vm'"
  "step_set_slot prog vm = Continue vm' \<Longrightarrow> vm_ip vm \<le> vm_ip vm'"
  "step_operator prog vm = Continue vm' \<Longrightarrow> vm_ip vm \<le> vm_ip vm'"
  "step_call prog vm = Continue vm' \<Longrightarrow> vm_ip vm \<le> vm_ip vm'"
  by (auto simp: step_push_def step_make_group_def step_set_slot_def step_operator_def
      step_call_def dest!: payload_ip vm_stack_pop_ip vm_operator_ip
      split: if_splits option.splits sum.splits)

lemma vm_step_ip: "vm_step prog vm = Continue vm' \<Longrightarrow> vm_ip vm < vm_ip vm'"
  by (auto simp: vm_step_def Let_def dest!: step_ip_le split: if_splits)

function vm_run :: "vm_program \<Rightarrow> morphl_vm \<Rightarrow> vm_outcome" where
  "vm_run prog vm =
     (if vm_ip vm < length (p_code prog) then
        (case vm_step prog vm of Continue vm' \<Rightarrow> vm_run prog vm' | Stop r \<Rightarrow> r)
      else Exit 1 [report_error ''program terminated without HALT''])"
  by pat_completeness auto
termination
  by (relation "measure (\<lambda>(prog, vm). length (p_code prog) - vm_ip vm)")
    (auto dest!: vm_step_ip)

declare vm_run.simps [simp del]

definition morphl_vm_execute :: "vm_program \<Rightarrow> morphl_vm \<Rightarrow> vm_outcome" where
  "morphl_vm_execute prog vm =
     (if p_code prog = [] then Exit 1 [report_error ''invalid VM state'']
      else vm_run prog (vm_init_call_frame vm))"

definition morphl_vm_run_file :: "byte list option \<Rightarrow> vm_outcome" where
  "morphl_vm_run_file file =
     (case morphl_vm_program_load file of
        None \<Rightarrow> Exit 1 [report_error ''failed to load bytecode file'']
      | Some prog \<Rightarrow> morphl_vm_execute prog morphl_vm_new)"

section \<open>Termination\<close>

text \<open>The loop with a bound on its turns; \<open>None\<close> when the bound is used up.\<close>

fun vm_steps :: "nat \<Rightarrow> vm_program \<Rightarrow> morphl_vm \<Rightarrow> vm_outcome option" where
  "vm_steps 0 prog vm = None"
| "vm_steps (Suc n) prog vm =
     (if vm_ip vm < length (p_code prog) then
        (case vm_step prog vm of Continue vm' \<Rightarrow> vm_steps n prog vm' | Stop r \<Rightarrow> Some r)
      else Some (Exit 1 [report_error ''program terminated without HALT'']))"

lemma vm_steps_enough:
  "length (p_code prog) - vm_ip vm < n \<Longrightarrow> vm_steps n prog vm = Some (vm_run prog vm)"
proof (induction n arbitrary: vm)
  case (Suc n)
  show ?case
  proof (cases "vm_ip vm < length (p_code prog)")
    case True
    show ?thesis
    proof (cases "vm_step prog vm")
      case (Continue vm')
      with vm_step_ip [OF Continue] Suc True show ?thesis by (simp add: vm_run.simps [of prog vm])
    qed (use True in \<open>simp add: vm_run.simps [of prog vm]\<close>)
  qed (simp add: vm_run.simps [of prog vm])
qed simp

text \<open>C26: every program stops.  The loop executes no instruction twice: the instruction pointer
  grows with every instruction that does not end the run, calls and returns included, so as many
  turns as the code has bytes, and one, always produce an outcome.\<close>

theorem vm_always_terminates:
  "vm_steps (length (p_code prog) + 1) prog vm = Some (vm_run prog vm) \<and>
   (vm_step prog vm = Continue vm' \<longrightarrow> vm_ip vm < vm_ip vm')"
  using vm_steps_enough [of prog vm "length (p_code prog) + 1"] vm_step_ip [of prog vm vm'] by simp

theorem vm_always_terminates_witness:
  "vm_steps 3 \<lparr>p_version_major = 1, p_version_minor = 0, p_strings = [], p_code = [1, 0]\<rparr> morphl_vm_new
     = Some (vm_run \<lparr>p_version_major = 1, p_version_minor = 0, p_strings = [], p_code = [1, 0]\<rparr> morphl_vm_new)"
  using vm_always_terminates [of "\<lparr>p_version_major = 1, p_version_minor = 0, p_strings = [],
    p_code = [1, 0]\<rparr>" morphl_vm_new morphl_vm_new] by (simp add: numeral_3_eq_3)

section \<open>Reachable machines\<close>

inductive vm_reach :: "vm_program \<Rightarrow> morphl_vm \<Rightarrow> bool" for prog where
  vm_start: "vm_reach prog (vm_init_call_frame morphl_vm_new)"
| vm_next: "vm_reach prog vm \<Longrightarrow> vm_ip vm < length (p_code prog) \<Longrightarrow> vm_step prog vm = Continue vm' \<Longrightarrow>
     vm_reach prog vm'"

text \<open>The shape of a value: text exactly for literals and identifiers, items only in groups.\<close>

fun value_ok :: "vm_value \<Rightarrow> bool" where
  "value_ok (VmValue kind content items) \<longleftrightarrow>
     (case kind of
        VM_VALUE_NULL \<Rightarrow> content = None \<and> items = []
      | VM_VALUE_LITERAL \<Rightarrow> content \<noteq> None \<and> items = []
      | VM_VALUE_IDENT \<Rightarrow> content \<noteq> None \<and> items = []
      | VM_VALUE_GROUP \<Rightarrow> content = None \<and> (\<forall>i\<in>set items. value_ok i))"

definition vm_ok :: "vm_program \<Rightarrow> morphl_vm \<Rightarrow> bool" where
  "vm_ok prog vm \<longleftrightarrow>
     vm_ip vm \<le> length (p_code prog) \<and> (\<forall>v\<in>set (vm_stack vm). value_ok v) \<and>
     (\<forall>v\<in>snd ` set (vm_slots vm). value_ok v) \<and> distinct (map fst (vm_slots vm)) \<and>
     vm_frames vm \<noteq> [] \<and> f_func_index (last (vm_frames vm)) = 0"

lemma set_slot_names: "set (map fst (set_slot sl name v)) = insert name (set (map fst sl))"
  by (induction sl name v rule: set_slot.induct) auto

lemma set_slot_distinct: "distinct (map fst sl) \<Longrightarrow> distinct (map fst (set_slot sl name v))"
proof (induction sl name v rule: set_slot.induct)
  case (2 n u rest name v)
  then show ?case using set_slot_names [of rest name v] by auto
qed simp

lemma set_slot_values: "snd ` set (set_slot sl name v) \<subseteq> insert v (snd ` set sl)"
  by (induction sl name v rule: set_slot.induct) auto

lemma vm_ok_push [simp]: "vm_ok prog (vm_stack_push vm v) \<longleftrightarrow> vm_ok prog vm \<and> value_ok v"
  by (auto simp: vm_ok_def vm_stack_push_def)

lemma vm_ok_pop: "vm_stack_pop vm = Some (v, vm1) \<Longrightarrow> vm_ok prog vm \<Longrightarrow> value_ok v \<and> vm_ok prog vm1"
  by (auto simp: vm_ok_def vm_stack_pop_def split: list.splits)

lemma vm_ok_set_slot:
  assumes "vm_ok prog vm" and "value_ok v"
  shows "vm_ok prog (vm_set_slot vm name v)"
proof -
  have "distinct (map fst (set_slot (vm_slots vm) name v))"
    using assms(1) set_slot_distinct by (simp add: vm_ok_def)
  moreover have "\<forall>x\<in>snd ` set (set_slot (vm_slots vm) name v). value_ok x"
    using assms set_slot_values [of "vm_slots vm" name v] unfolding vm_ok_def by blast
  ultimately show ?thesis using assms(1) by (simp add: vm_ok_def vm_set_slot_def)
qed

lemma vm_ok_payload: "payload prog vm = Some (w, vm1) \<Longrightarrow> vm_ok prog vm \<Longrightarrow> vm_ok prog vm1"
  by (auto simp: vm_ok_def payload_def read_u32_def split: if_splits)

lemma vm_ok_call: "vm_ok prog vm \<Longrightarrow> vm_ok prog (vm_call vm i)"
  by (simp add: vm_ok_def vm_call_def)

lemma vm_ok_add: "vm_add vm = Inr vm1 \<Longrightarrow> vm_ok prog vm \<Longrightarrow> vm_ok prog vm1"
  by (auto simp: vm_add_def Let_def split: if_splits option.splits prod.splits dest!: vm_ok_pop)

lemma vm_ok_set:
  assumes "vm_set vm = Inr vm1" and "vm_ok prog vm"
  shows "vm_ok prog vm1"
proof -
  obtain v vma t vmb where p: "vm_stack_pop vm = Some (v, vma)" "vm_stack_pop vma = Some (t, vmb)"
    using assms(1) by (auto simp: vm_set_def split: option.splits prod.splits)
  have "value_ok v" "vm_ok prog vmb"
    using vm_ok_pop [OF p(1) assms(2)] vm_ok_pop [OF p(2)] by blast+
  with assms(1) p show ?thesis
    by (auto simp: vm_set_def Let_def split: if_splits option.splits intro!: vm_ok_set_slot)
qed

lemma vm_ok_operator: "vm_execute_operator vm op = Inr vm1 \<Longrightarrow> vm_ok prog vm \<Longrightarrow> vm_ok prog vm1"
  by (auto simp: vm_execute_operator_def split: if_splits dest: vm_ok_add vm_ok_set)

lemma vm_ok_group:
  "vm_ok prog vm \<Longrightarrow> vm_ok prog (vm\<lparr>vm_stack := drop n (vm_stack vm)\<rparr>) \<and>
     value_ok (VmValue VM_VALUE_GROUP None (rev (take n (vm_stack vm))))"
  by (auto simp: vm_ok_def dest: in_set_takeD in_set_dropD)

lemma vm_ok_step:
  assumes "vm_step prog vm = Continue vm'" and "vm_ok prog vm" and "vm_ip vm < length (p_code prog)"
  shows "vm_ok prog vm'"
proof -
  let ?vm = "vm\<lparr>vm_ip := Suc (vm_ip vm)\<rparr>"
  have ok: "vm_ok prog ?vm" using assms(2,3) by (simp add: vm_ok_def)
  have push: "step_push prog k ?vm = Continue vm' \<Longrightarrow> k \<in> {VM_VALUE_LITERAL, VM_VALUE_IDENT} \<Longrightarrow> vm_ok prog vm'"
    for k using ok by (auto simp: step_push_def dest!: vm_ok_payload split: option.splits if_splits)
  have group: "step_make_group prog ?vm = Continue vm' \<Longrightarrow> vm_ok prog vm'"
    using ok vm_ok_group
    by (fastforce simp: step_make_group_def dest!: vm_ok_payload split: option.splits if_splits)
  have slot: "step_set_slot prog ?vm = Continue vm' \<Longrightarrow> vm_ok prog vm'"
    using ok by (auto simp: step_set_slot_def dest!: vm_ok_payload vm_ok_pop intro!: vm_ok_set_slot
        split: option.splits if_splits)
  have oper: "step_operator prog ?vm = Continue vm' \<Longrightarrow> vm_ok prog vm'"
    using ok by (auto simp: step_operator_def dest!: vm_ok_payload vm_ok_operator
        split: option.splits if_splits sum.splits)
  have call: "step_call prog ?vm = Continue vm' \<Longrightarrow> vm_ok prog vm'"
    using ok by (auto simp: step_call_def dest!: vm_ok_payload intro: vm_ok_call split: option.splits)
  show ?thesis
    using assms(1) ok push group slot oper call
    by (auto simp: vm_step_def Let_def split: if_splits)
qed

lemma vm_reach_ok: "vm_reach prog vm \<Longrightarrow> vm_ok prog vm"
proof (induction rule: vm_reach.induct)
  case vm_start
  then show ?case by (simp add: vm_ok_def vm_init_call_frame_def morphl_vm_new_def)
next
  case (vm_next vm vm')
  then show ?case using vm_ok_step by blast
qed

text \<open>C16: a running machine is well formed.  In every state the loop can reach the instruction
  pointer is within the code, every value on the stack, in a slot or inside a group has text exactly
  when it is a literal or an identifier and items only when it is a group, slot names are distinct,
  and the main frame is at the bottom of the call stack; hence no run ends with
  \<open>attempted to return from top-level code\<close>.\<close>

theorem vm_reachable_well_formed:
  assumes "vm_reach prog vm"
  shows "vm_ok prog vm \<and>
    (vm_step prog vm = Stop (Exit c ms) \<longrightarrow>
       report_error ''attempted to return from top-level code'' \<notin> set ms)"
proof -
  have ok: "vm_ok prog vm" using vm_reach_ok [OF assms] .
  then have "vm_frames vm \<noteq> []" by (simp add: vm_ok_def)
  then have "report_error ''attempted to return from top-level code'' \<notin> set ms"
    if "vm_step prog vm = Stop (Exit c ms)"
    using that
    by (auto simp: vm_step_def Let_def step_push_def step_make_group_def step_set_slot_def
        step_operator_def step_call_def step_ret_def vm_return_def vm_execute_operator_def vm_add_def
        vm_set_def report_error_def unsupported_message_def
        split: if_splits option.splits sum.splits list.splits)
  with ok show ?thesis by blast
qed

theorem vm_reachable_well_formed_witness:
  "vm_ok \<lparr>p_version_major = 1, p_version_minor = 0, p_strings = [], p_code = [1, 0]\<rparr>
     (vm_init_call_frame morphl_vm_new)"
  using vm_reachable_well_formed [OF vm_start] by blast

end
