(* ===== verification/Vm_Image.thy ===== *)
theory Vm_Image
  imports Vm_Runtime
begin

text \<open>
  The file format, from both ends: the little-endian codecs as one interface with two instances,
  the image the emitter writes as one expression, and the loader's result on it.
\<close>

section \<open>Little-endian codecs\<close>

text \<open>
  What reader and writer of one field promise each other: fixed width, decoding an encoded value
  wherever it stands, and a refusal exactly at fields that do not fit.
\<close>

locale le_codec =
  fixes enc :: "'a \<Rightarrow> byte list"
    and dec :: "byte list \<Rightarrow> nat \<Rightarrow> ('a \<times> nat) option"
    and width :: nat
  assumes enc_width: "length (enc v) = width"
    and dec_enc: "dec (pre @ enc v @ post) (length pre) = Some (v, length pre + width)"
    and dec_refuses: "dec bytes off = None \<longleftrightarrow> off + width > length bytes"
    and dec_advances: "dec bytes off = Some (v, off') \<Longrightarrow> off' = off + width"
begin

lemma dec_here:
  assumes "drop off bytes = enc v @ rest" and "off \<le> length bytes"
  shows "dec bytes off = Some (v, off + width)" and "drop (off + width) bytes = rest"
    and "off + width \<le> length bytes"
proof -
  have b: "bytes = take off bytes @ enc v @ rest" using assms(1) by (metis append_take_drop_id)
  show "dec bytes off = Some (v, off + width)"
    using dec_enc [of "take off bytes" v rest] b assms(2) by (metis length_take min.absorb2)
  show "drop (off + width) bytes = rest"
    using assms(1) enc_width by (metis append_eq_conv_conj drop_drop add.commute)
  have "length (drop off bytes) = width + length rest" using assms(1) enc_width by simp
  then show "off + width \<le> length bytes" using assms(2) by simp
qed

lemma dec_two:
  assumes "drop off bytes = enc v @ enc w @ rest" and "off \<le> length bytes"
  shows "\<exists>off'. dec bytes off = Some (v, off') \<and> dec bytes off' = Some (w, off' + width) \<and>
    drop (off' + width) bytes = rest \<and> off' + width \<le> length bytes"
  using dec_here [OF assms] dec_here [of "off + width" bytes w rest] by simp

end

lemma mask8: "(0xFF :: 'a::len word) = mask 8"
  by (simp add: mask_eq_exp_minus_1)

lemma u16_join:
  "(ucast (ucast (v AND 0xFF) :: byte) OR push_bit 8 (ucast (ucast (drop_bit 8 v AND 0xFF) :: byte))
     :: 16 word) = v"
  unfolding mask8 take_bit_eq_mask [symmetric]
proof (rule bit_word_eqI, goal_cases)
  case (1 n)
  then show ?case by (cases "n < 8"; simp add: bit_simps; auto)
qed

lemma u32_join:
  "(ucast (ucast (v AND 0xFF) :: byte) OR push_bit 8 (ucast (ucast (drop_bit 8 v AND 0xFF) :: byte)) OR
    push_bit 16 (ucast (ucast (drop_bit 16 v AND 0xFF) :: byte)) OR
    push_bit 24 (ucast (ucast (drop_bit 24 v AND 0xFF) :: byte)) :: 32 word) = v"
  unfolding mask8 take_bit_eq_mask [symmetric]
proof (rule bit_word_eqI, goal_cases)
  case (1 n)
  then show ?case by (cases "n < 8"; cases "n < 16"; cases "n < 24"; simp add: bit_simps; auto)
qed

interpretation u16: le_codec u16_le read_u16 2
  by unfold_locales
    (auto simp: u16_le_def read_u16_def nth_append u16_join split: if_splits)

interpretation u32: le_codec u32_le read_u32 4
  by unfold_locales
    (auto simp: u32_le_def read_u32_def nth_append u32_join split: if_splits)

section \<open>Characters and bytes\<close>

lemma char_byte [simp]: "char_of (unat (of_char c :: byte)) = c"
proof -
  have "unat (of_char c :: byte) = (of_char c :: nat) mod 256"
    by (simp only: of_nat_of_char [where 'a = byte, symmetric] unat_of_nat) simp
  then show ?thesis by simp
qed

lemma chars_of_bytes_of [simp]: "chars_of (bytes_of s) = s"
  by (simp add: chars_of_def bytes_of_def comp_def)

lemma length_bytes_of [simp]: "length (bytes_of s) = length s"
  by (simp add: bytes_of_def)

section \<open>The image\<close>

lemma bytes_push_data:
  "bytes_push buf src = Some buf' \<Longrightarrow> b_data buf' = b_data buf @ src"
  by (auto simp: bytes_push_def Option.bind_eq_Some_conv Let_def split: if_splits)

definition string_image :: "vm_string \<Rightarrow> byte list" where
  "string_image item = u32_le (vs_len item) @ bytes_of (take (unat (vs_len item)) (vs_ptr item))"

definition metadata_image :: "vm_metadata \<Rightarrow> byte list" where
  "metadata_image item = u32_le (md_key item) @ u32_le (md_value item)"

definition vm_image :: "vm_emitter \<Rightarrow> byte list" where
  "vm_image em =
     bytes_of MORPHL_VM_MAGIC @ u16_le MORPHL_VM_VERSION_MAJOR @ u16_le MORPHL_VM_VERSION_MINOR @
     u32_le 0 @ u32_le (of_nat (length (st_items (e_strings em)))) @
     concat (map string_image (st_items (e_strings em))) @
     u32_le (of_nat (length (mt_items (e_metadata em)))) @
     concat (map metadata_image (mt_items (e_metadata em))) @
     u32_le (of_nat (length (b_data (e_code em)))) @ b_data (e_code em)"

lemma push_strings_data:
  "push_strings f items = Some f' \<Longrightarrow> b_data f' = b_data f @ concat (map string_image items)"
  by (induction items arbitrary: f)
    (auto simp: Option.bind_eq_Some_conv bytes_push_u32_le_def string_image_def dest!: bytes_push_data)

lemma push_metadata_data:
  "push_metadata f items = Some f' \<Longrightarrow> b_data f' = b_data f @ concat (map metadata_image items)"
  by (induction items arbitrary: f)
    (auto simp: Option.bind_eq_Some_conv bytes_push_u32_le_def metadata_image_def
      dest!: bytes_push_data)

lemma vm_file_image: "vm_file em = Some f \<Longrightarrow> b_data f = vm_image em"
  unfolding vm_file_def
  by (auto simp: Option.bind_eq_Some_conv bytes_push_u32_le_def bytes_push_u16_le_def vm_image_def
      dest!: bytes_push_data push_strings_data push_metadata_data)

section \<open>Loading the image\<close>

lemma load_strings_image:
  assumes "drop off bytes = concat (map string_image items) @ rest" and "off \<le> length bytes"
    and "\<forall>item\<in>set items. unat (vs_len item) \<le> length (vs_ptr item)"
  shows "\<exists>off'. load_strings bytes off (length items) =
      Some (map (\<lambda>item. c_str (take (unat (vs_len item)) (vs_ptr item))) items, off') \<and>
      drop off' bytes = rest \<and> off' \<le> length bytes"
  using assms
proof (induction items arbitrary: off)
  case (Cons item items)
  let ?text = "bytes_of (take (unat (vs_len item)) (vs_ptr item))"
  have d: "drop off bytes = u32_le (vs_len item) @ ?text @ concat (map string_image items) @ rest"
    using Cons.prems(1) by (simp add: string_image_def [of item])
  note u = u32.dec_here [OF d Cons.prems(2)]
  have len: "length ?text = unat (vs_len item)" using Cons.prems(3) by simp
  have fits: "off + 4 + unat (vs_len item) \<le> length bytes"
    using u(2,3) len by (metis add_leD1 append_eq_conv_conj length_append length_drop le_diff_conv2 le_add1 add.commute)
  have "drop (off + 4 + unat (vs_len item)) bytes = concat (map string_image items) @ rest"
    using u(2) len by (metis append_eq_conv_conj drop_drop add.commute)
  then obtain off' where ih: "load_strings bytes (off + 4 + unat (vs_len item)) (length items) =
      Some (map (\<lambda>item. c_str (take (unat (vs_len item)) (vs_ptr item))) items, off')"
    "drop off' bytes = rest" "off' \<le> length bytes"
    using Cons.IH fits Cons.prems(3) by auto
  have "take (unat (vs_len item)) (drop (off + 4) bytes) = ?text"
    using u(2) len by simp
  with ih u(1) fits show ?case by simp
qed simp

lemma skip_metadata_image:
  assumes "drop off bytes = concat (map metadata_image items) @ rest" and "off \<le> length bytes"
  shows "\<exists>off'. skip_metadata bytes off (length items) = Some off' \<and> drop off' bytes = rest \<and>
    off' \<le> length bytes"
  using assms
proof (induction items arbitrary: off)
  case (Cons item items)
  have "drop off bytes = u32_le (md_key item) @ u32_le (md_value item) @
      concat (map metadata_image items) @ rest"
    using Cons.prems(1) by (simp add: metadata_image_def [of item])
  from u32.dec_two [OF this Cons.prems(2)] Cons.IH show ?case by fastforce
qed simp

text \<open>Every field of the image reads back, and the code is the end of the file.\<close>

lemma image_fields:
  assumes "\<forall>item\<in>set (st_items (e_strings em)). unat (vs_len item) \<le> length (vs_ptr item)"
  shows "\<exists>o1 o2. take 4 (vm_image em) = bytes_of MORPHL_VM_MAGIC \<and> 4 \<le> length (vm_image em) \<and>
    read_u16 (vm_image em) 4 = Some (MORPHL_VM_VERSION_MAJOR, 6) \<and>
    read_u16 (vm_image em) 6 = Some (MORPHL_VM_VERSION_MINOR, 8) \<and>
    read_u32 (vm_image em) 8 = Some (0, 12) \<and>
    read_u32 (vm_image em) 12 = Some (of_nat (length (st_items (e_strings em))), 16) \<and>
    load_strings (vm_image em) 16 (length (st_items (e_strings em))) =
      Some (map (\<lambda>item. c_str (take (unat (vs_len item)) (vs_ptr item))) (st_items (e_strings em)), o1) \<and>
    read_u32 (vm_image em) o1 = Some (of_nat (length (mt_items (e_metadata em))), o1 + 4) \<and>
    skip_metadata (vm_image em) (o1 + 4) (length (mt_items (e_metadata em))) = Some o2 \<and>
    read_u32 (vm_image em) o2 = Some (of_nat (length (b_data (e_code em))), o2 + 4) \<and>
    drop (o2 + 4) (vm_image em) = b_data (e_code em) \<and>
    o2 + 4 + length (b_data (e_code em)) = length (vm_image em)"
proof -
  let ?b = "vm_image em"
  let ?items = "st_items (e_strings em)" and ?meta = "mt_items (e_metadata em)"
  let ?code = "b_data (e_code em)"
  have magic: "length (bytes_of MORPHL_VM_MAGIC) = 4" by (simp add: MORPHL_VM_MAGIC_def)
  have pre: "take 4 ?b = bytes_of MORPHL_VM_MAGIC" "4 \<le> length ?b"
    using magic by (simp_all add: vm_image_def)
  have d4: "drop 4 ?b = u16_le MORPHL_VM_VERSION_MAJOR @ u16_le MORPHL_VM_VERSION_MINOR @
     u32_le 0 @ u32_le (of_nat (length ?items)) @ concat (map string_image ?items) @
     u32_le (of_nat (length ?meta)) @ concat (map metadata_image ?meta) @
     u32_le (of_nat (length ?code)) @ ?code"
    using magic by (simp add: vm_image_def)
  note major = u16.dec_here [OF d4 pre(2)]
  note minor = u16.dec_here [OF major(2,3)]
  note flags = u32.dec_here [OF minor(2,3)]
  note count = u32.dec_here [OF flags(2,3)]
  obtain o1 where strings: "load_strings ?b (4 + 2 + 2 + 4 + 4) (length ?items) =
      Some (map (\<lambda>item. c_str (take (unat (vs_len item)) (vs_ptr item))) ?items, o1)"
    and d1: "drop o1 ?b = u32_le (of_nat (length ?meta)) @ concat (map metadata_image ?meta) @
     u32_le (of_nat (length ?code)) @ ?code" "o1 \<le> length ?b"
    using load_strings_image [OF count(2,3) assms] by blast
  note mcount = u32.dec_here [OF d1]
  obtain o2 where meta: "skip_metadata ?b (o1 + 4) (length ?meta) = Some o2"
    and d2: "drop o2 ?b = u32_le (of_nat (length ?code)) @ ?code" "o2 \<le> length ?b"
    using skip_metadata_image [OF mcount(2,3)] by blast
  note code = u32.dec_here [OF d2]
  have "length (drop (o2 + 4) ?b) = length ?code" using code(2) by simp
  then have "o2 + 4 + length ?code = length ?b" using code(3) by simp
  with pre major(1) minor(1) flags(1) count(1) strings mcount(1) meta code(1,2) show ?thesis
    by auto
qed

lemma load_image:
  assumes "length (st_items (e_strings em)) < 2 ^ 32" and "length (mt_items (e_metadata em)) < 2 ^ 32"
    and "length (b_data (e_code em)) < 2 ^ 32"
    and "\<forall>item\<in>set (st_items (e_strings em)). unat (vs_len item) \<le> length (vs_ptr item)"
  shows "morphl_vm_program_load (Some (vm_image em)) =
    Some \<lparr>p_version_major = MORPHL_VM_VERSION_MAJOR, p_version_minor = MORPHL_VM_VERSION_MINOR,
      p_strings = map (\<lambda>item. c_str (take (unat (vs_len item)) (vs_ptr item))) (st_items (e_strings em)),
      p_code = b_data (e_code em)\<rparr>"
proof -
  have un: "unat (of_nat n :: 32 word) = n" if "n < 2 ^ 32" for n
    using that by (simp add: unat_of_nat)
  from image_fields [OF assms(4)] show ?thesis
    by (auto simp: morphl_vm_program_load_def un [OF assms(1)] un [OF assms(2)] un [OF assms(3)])
qed

text \<open>A file is refused, never misread, when it is cut short: the loader reads no byte outside it.\<close>

lemma load_strings_bounds:
  "load_strings bytes off n = Some (ss, off') \<Longrightarrow> length ss = n \<and> off + 4 * n \<le> off' \<and>
     (off \<le> length bytes \<longrightarrow> off' \<le> length bytes)"
proof (induction bytes off n arbitrary: ss off' rule: load_strings.induct)
  case (2 bytes off n)
  then show ?case
    by (fastforce split: option.splits if_splits prod.splits dest: u32.dec_advances)
qed simp

lemma skip_metadata_bounds:
  "skip_metadata bytes off n = Some off' \<Longrightarrow> off + 8 * n = off' \<and>
     (off \<le> length bytes \<longrightarrow> off' \<le> length bytes)"
proof (induction bytes off n arbitrary: off' rule: skip_metadata.induct)
  case (2 bytes off n)
  then show ?case
    by (fastforce split: option.splits prod.splits if_splits simp: read_u32_def)
qed simp

end
