(* ===== verification/Vm_Correct.thy ===== *)
theory Vm_Correct
  imports Vm_Image
begin

text \<open>
  Compiler correctness for the bytecode back end: a reference semantics of the syntax tree (a value
  stack, slots as a finite map, and the number of active calls), and the proof that running the
  emitted code is that semantics.
\<close>

section \<open>Reference semantics\<close>

type_synonym slot_map = "string \<Rightarrow> vm_value option"
type_synonym ref_state = "vm_value list \<times> slot_map \<times> nat"
type_synonym ref_result = "vm_outcome + ref_state"

definition ref_fail :: "string \<Rightarrow> ref_result" where
  "ref_fail message = Inl (Exit 1 [report_error message])"

definition ref_bind :: "ref_result \<Rightarrow> (ref_state \<Rightarrow> ref_result) \<Rightarrow> ref_result" where
  "ref_bind r f = (case r of Inl out \<Rightarrow> Inl out | Inr s \<Rightarrow> f s)"

definition ref_push :: "vm_value \<Rightarrow> ref_state \<Rightarrow> ref_result" where
  "ref_push v s = (case s of (st, sl, k) \<Rightarrow> Inr (v # st, sl, k))"

definition leaf_value :: "vm_value_kind \<Rightarrow> str \<Rightarrow> vm_value" where
  "leaf_value kind text = VmValue kind (Some (c_str (str_bytes text))) []"

definition ref_group :: "nat \<Rightarrow> ref_state \<Rightarrow> ref_result" where
  "ref_group n s = (case s of (st, sl, k) \<Rightarrow>
     if n > length st then ref_fail ''MAKE_GROUP arity exceeds stack depth''
     else Inr (VmValue VM_VALUE_GROUP None (rev (take n st)) # drop n st, sl, k))"

definition ref_declare :: "str \<Rightarrow> ref_state \<Rightarrow> ref_result" where
  "ref_declare name s = (case s of
     ([], sl, k) \<Rightarrow> ref_fail ''SET_SLOT requires a value on stack''
   | (v # st, sl, k) \<Rightarrow> Inr (v # st, sl(c_str (str_bytes name) \<mapsto> v), k))"

definition ref_call :: "ref_state \<Rightarrow> ref_result" where
  "ref_call s = (case s of (st, sl, k) \<Rightarrow> Inr (st, sl, k + 1))"

text \<open>The number an operand stands for: its own text, or that of the slot it names.\<close>

definition ref_resolve :: "slot_map \<Rightarrow> vm_value \<Rightarrow> vm_value" where
  "ref_resolve sl v =
     (case (v_kind v, v_text v) of
        (VM_VALUE_IDENT, Some name) \<Rightarrow> (case sl name of Some u \<Rightarrow> u | None \<Rightarrow> v)
      | _ \<Rightarrow> v)"

definition ref_sum :: "double \<Rightarrow> double \<Rightarrow> string option" where
  "ref_sum x y =
     (let text = format_g17 (double_add x y) in
      if length text = 0 \<or> length text \<ge> 64 then None else Some text)"

definition ref_add :: "ref_state \<Rightarrow> ref_result" where
  "ref_add s = (case s of
     (r # l # st, sl, k) \<Rightarrow>
       (case (vm_value_to_number (ref_resolve sl l), vm_value_to_number (ref_resolve sl r)) of
          (Some x, Some y) \<Rightarrow>
            (case ref_sum x y of
               None \<Rightarrow> ref_fail ''failed to format $add result''
             | Some text \<Rightarrow> Inr (VmValue VM_VALUE_LITERAL (Some text) [] # st, sl, k))
        | _ \<Rightarrow> ref_fail ''$add currently supports numeric literal operands only'')
   | _ \<Rightarrow> ref_fail ''$add requires two operands'')"

definition ref_set :: "ref_state \<Rightarrow> ref_result" where
  "ref_set s = (case s of
     (r # l # st, sl, k) \<Rightarrow>
       (case (v_kind l, v_text l) of
          (VM_VALUE_IDENT, Some name) \<Rightarrow> Inr (r # st, sl(name \<mapsto> r), k)
        | _ \<Rightarrow> ref_fail ''$set lhs must be an identifier'')
   | _ \<Rightarrow> ref_fail ''$set requires identifier and value operands'')"

definition ref_operator :: "str \<Rightarrow> ref_state \<Rightarrow> ref_result" where
  "ref_operator op_name s =
     (let name = c_str (str_bytes op_name) in
      if name = ''$add'' then ref_add s
      else if name = ''$set'' then ref_set s
      else Inl (Exit 1 [unsupported_message name]))"

text \<open>Return: an exit code outside calls, always an error inside one.\<close>

definition ref_ret :: "ref_state \<Rightarrow> ref_result" where
  "ref_ret s = (case s of (st, sl, k) \<Rightarrow> Inl
     (if k = 1 then
        (case st of
           [] \<Rightarrow> Exit 1 [report_error ''stack underflow while trying to read exit code'']
         | v # _ \<Rightarrow>
             (case vm_value_to_number v of
                None \<Rightarrow> Exit 1 [report_error ''invalid exit code (must be a number between 0 and 255)'']
              | Some d \<Rightarrow>
                  if double_lt_0 d \<or> double_gt_255 d
                  then Exit 1 [report_error ''invalid exit code (must be a number between 0 and 255)'']
                  else (case double_to_int d of None \<Rightarrow> Undefined_conversion | Some n \<Rightarrow> Exit n [])))
      else if st = [] then
        Exit 1 [report_error ''stack underflow while trying to return value'',
                report_error ''failed to return from function'']
      else Exit 1 [report_error ''unknown opcode'']))"

definition node_op_name :: "intern_table option \<Rightarrow> ast \<Rightarrow> str" where
  "node_op_name interns node =
     (case interns of
        None \<Rightarrow> Some ''<none>''
      | Some t \<Rightarrow> if n_op node = 0 then Some ''<none>'' else interns_lookup t (n_op node))"

fun ref_node :: "intern_table option \<Rightarrow> ast \<Rightarrow> ref_state \<Rightarrow> ref_result"
  and ref_nodes :: "intern_table option \<Rightarrow> ast list \<Rightarrow> ref_state \<Rightarrow> ref_result" where
  "ref_node interns (AstNode kind op v cs cap fn row col) s =
     (let op_name = node_op_name interns (AstNode kind op v cs cap fn row col);
          declared = ref_bind
            (case cs of c # rhs # _ \<Rightarrow> ref_node interns rhs s
                      | _ \<Rightarrow> ref_push (VmValue VM_VALUE_NULL None []) s) (ref_declare (decl_name cs))
      in
      case kind of
        AST_LITERAL \<Rightarrow> ref_push (leaf_value VM_VALUE_LITERAL v) s
      | AST_IDENT \<Rightarrow> ref_push (leaf_value VM_VALUE_IDENT v) s
      | AST_GROUP \<Rightarrow> ref_bind (ref_nodes interns cs s) (ref_group (length cs))
      | AST_CALL \<Rightarrow> ref_bind (ref_nodes interns cs s) ref_call
      | AST_DECL \<Rightarrow> declared
      | AST_SET \<Rightarrow> ref_bind (ref_nodes interns cs s) (ref_operator (Some ''$set''))
      | AST_BUILTIN \<Rightarrow>
          (if is_compile_time_operator op_name then
             (if str_eq op_name (Some ''$decl'') then declared else ref_nodes interns cs s)
           else if str_eq op_name (Some ''$ret'') then
             (case cs of [] \<Rightarrow> Inr s | c # _ \<Rightarrow> ref_bind (ref_node interns c s) ref_ret)
           else ref_bind (ref_nodes interns cs s) (ref_operator op_name))
      | AST_FILE \<Rightarrow> ref_nodes interns cs s
      | AST_BLOCK \<Rightarrow> ref_nodes interns cs s
      | _ \<Rightarrow> ref_fail ''NODE_META execution is not supported in V0.1 runtime'')"
| "ref_nodes interns [] s = Inr s"
| "ref_nodes interns (c # cs) s = ref_bind (ref_node interns c s) (ref_nodes interns cs)"

text \<open>A program: its tree, then success.\<close>

definition ref_program :: "intern_table option \<Rightarrow> ast option \<Rightarrow> vm_outcome" where
  "ref_program interns tree =
     (case (case tree of None \<Rightarrow> ref_push (VmValue VM_VALUE_NULL None []) ([], Map.empty, 1)
                       | Some n \<Rightarrow> ref_node interns n ([], Map.empty, 1)) of
        Inl out \<Rightarrow> out
      | Inr _ \<Rightarrow> Exit 0 [])"

section \<open>Emitter lemmas\<close>

abbreviation em_code :: "vm_emitter \<Rightarrow> byte list" where
  "em_code em \<equiv> b_data (e_code em)"

abbreviation em_items :: "vm_emitter \<Rightarrow> vm_string list" where
  "em_items em \<equiv> st_items (e_strings em)"

definition em_le :: "vm_emitter \<Rightarrow> vm_emitter \<Rightarrow> bool" where
  "em_le em em' \<longleftrightarrow> (\<exists>c. em_code em' = em_code em @ c) \<and> (\<exists>i. em_items em' = em_items em @ i) \<and>
     e_interns em' = e_interns em"

lemma em_le_refl [simp]: "em_le em em"
  by (simp add: em_le_def)

lemma em_le_trans: "em_le a b \<Longrightarrow> em_le b c \<Longrightarrow> em_le a c"
  by (auto simp: em_le_def)

lemma emit_opcode_eq:
  assumes "emit_opcode em op = Some em'"
  shows "em_code em' = em_code em @ [op]" "e_strings em' = e_strings em"
    "e_metadata em' = e_metadata em" "e_interns em' = e_interns em"
  using assms
  by (auto simp: emit_opcode_def bytes_push_u8_def Option.bind_eq_Some_conv dest!: bytes_push_data)

lemma emit_u32_eq:
  assumes "emit_u32 em v = Some em'"
  shows "em_code em' = em_code em @ u32_le v" "e_strings em' = e_strings em"
    "e_metadata em' = e_metadata em" "e_interns em' = e_interns em"
  using assms
  by (auto simp: emit_u32_def bytes_push_u32_le_def Option.bind_eq_Some_conv dest!: bytes_push_data)

lemma emit_opcode_u32_eq:
  assumes "emit_opcode_u32 em op v = Some em'"
  shows "em_code em' = em_code em @ op # u32_le v" "e_strings em' = e_strings em"
    "e_metadata em' = e_metadata em" "e_interns em' = e_interns em"
proof -
  obtain em1 where "emit_opcode em op = Some em1" "emit_u32 em1 v = Some em'"
    using assms by (auto simp: emit_opcode_u32_def Option.bind_eq_Some_conv)
  then show "em_code em' = em_code em @ op # u32_le v" "e_strings em' = e_strings em"
    "e_metadata em' = e_metadata em" "e_interns em' = e_interns em"
    by (simp_all add: emit_opcode_eq emit_u32_eq)
qed

lemma find_text_Some:
  "find_text items s i = Some j \<Longrightarrow> i \<le> j \<and> j - i < length items \<and> same_text (items ! (j - i)) s"
proof (induction items s i arbitrary: j rule: find_text.induct)
  case (2 item items s i)
  show ?case
  proof (cases "same_text item s")
    case False
    with 2 have "i + 1 \<le> j \<and> j - (i + 1) < length items \<and> same_text (items ! (j - (i + 1))) s"
      by simp
    then show ?thesis by (auto simp: nth_Cons' Suc_diff_le)
  qed (use 2 in simp)
qed simp

lemma string_table_add_eq:
  assumes "string_table_add table text = Some (idx, table')"
  shows "\<exists>i more. idx = of_nat i \<and> i < length (st_items table') \<and>
    st_items table' = st_items table @ more \<and>
    (\<forall>item\<in>set more. item = \<lparr>vs_ptr = text, vs_len = of_nat (length text)\<rparr>) \<and> length more \<le> 1 \<and>
    (same_text (st_items table' ! i) text \<or>
     st_items table' ! i = \<lparr>vs_ptr = text, vs_len = of_nat (length text)\<rparr>)"
proof (cases "find_text (st_items table) text 0")
  case (Some j)
  with assms find_text_Some [OF Some] show ?thesis
    by (intro exI [of _ j] exI [of _ "[]"]) (simp add: string_table_add_def)
next
  case None
  with assms show ?thesis
    by (intro exI [of _ "length (st_items table)"]
        exI [of _ "[\<lparr>vs_ptr = text, vs_len = of_nat (length text)\<rparr>]"])
      (auto simp: string_table_add_def Option.bind_eq_Some_conv Let_def)
qed

lemma emit_opcode_le: "emit_opcode em op = Some em' \<Longrightarrow> em_le em em'"
  using emit_opcode_eq [of em op em'] by (simp add: em_le_def)

lemma emit_u32_le: "emit_u32 em v = Some em' \<Longrightarrow> em_le em em'"
  using emit_u32_eq [of em v em'] by (simp add: em_le_def)

lemma emit_opcode_u32_le: "emit_opcode_u32 em op v = Some em' \<Longrightarrow> em_le em em'"
  using emit_opcode_u32_eq [of em op v em'] by (simp add: em_le_def)

lemma add_string_le:
  "string_table_add (e_strings em) s = Some (idx, t) \<Longrightarrow> em_le em (em\<lparr>e_strings := t\<rparr>)"
  using string_table_add_eq [of "e_strings em" s idx t] by (auto simp: em_le_def)

lemma emit_named_le: "emit_named em op name = Some em' \<Longrightarrow> em_le em em'"
  by (auto simp: emit_named_def Option.bind_eq_Some_conv
      dest!: add_string_le emit_opcode_u32_le intro: em_le_trans)

lemma emit_set_slot_le: "emit_set_slot em name = Some em' \<Longrightarrow> em_le em em'"
  unfolding emit_set_slot_def by (rule emit_named_le)

lemmas emit_leaf_le = emit_opcode_le emit_u32_le emit_opcode_u32_le emit_named_le emit_set_slot_le
  add_string_le

lemma emit_nodes_le_lift:
  "(\<And>c em em'. c \<in> set cs \<Longrightarrow> emit_node em c = Some em' \<Longrightarrow> em_le em em') \<Longrightarrow>
     emit_nodes em cs = Some em' \<Longrightarrow> em_le em em'"
proof (induction cs arbitrary: em)
  case (Cons c cs)
  then obtain em1 where "emit_node em c = Some em1" "emit_nodes em1 cs = Some em'"
    by (auto simp: Option.bind_eq_Some_conv)
  with Cons show ?case by (meson em_le_trans list.set_intros)
qed simp

lemma emit_meta_le:
  assumes "string_table_add (e_strings em) s = Some (i, t)"
    and "emit_opcode (em\<lparr>e_strings := t\<rparr>) op1 = Some em1" and "emit_opcode em1 op2 = Some em2"
    and "emit_u32 em2 w = Some em3" and "emit_u32 em3 w' = Some em4"
  shows "em_le em em4"
  using assms emit_leaf_le em_le_trans by meson

lemma emit_node_le: "emit_node em n = Some em' \<Longrightarrow> em_le em em'"
proof (induction n arbitrary: em em')
  case (AstNode kind op v cs cap fn row col)
  have nodes: "emit_nodes em cs = Some em1 \<Longrightarrow> em_le em em1" for em em1
    using AstNode.IH by (rule emit_nodes_le_lift)
  have rhs: "cs = c # rhs # rest \<Longrightarrow> emit_node em rhs = Some em1 \<Longrightarrow> em_le em em1" for c rhs rest em em1
    using AstNode.IH [of rhs em em1] by simp
  have head: "cs = c # rest \<Longrightarrow> emit_node em c = Some em1 \<Longrightarrow> em_le em em1" for c rest em em1
    using AstNode.IH [of c em em1] by simp
  note le = nodes rhs head emit_leaf_le
  show ?case
    using AstNode.prems
    by (cases kind)
      (auto simp: Let_def Option.bind_eq_Some_conv split: if_splits list.splits prod.splits
        intro: le em_le_trans [OF le(1) le(6)] em_le_trans [OF le(1) le(7)]
          em_le_trans [OF le(2) le(8)] em_le_trans [OF le(4) le(8)] em_le_trans [OF le(3) le(4)]
          em_le_trans [OF emit_meta_le le(1)])
qed

lemma emit_nodes_le: "emit_nodes em cs = Some em' \<Longrightarrow> em_le em em'"
  using emit_node_le by (rule emit_nodes_le_lift)

section \<open>Code in memory\<close>

text \<open>The loaded program holds the code and the strings emitted so far; no length has wrapped.\<close>

definition texts_small :: "vm_emitter \<Rightarrow> bool" where
  "texts_small em \<longleftrightarrow> length (em_items em) < 2 ^ 32 \<and>
     (\<forall>item\<in>set (em_items em). unat (vs_len item) = length (vs_ptr item))"

definition prog_has :: "vm_program \<Rightarrow> vm_emitter \<Rightarrow> bool" where
  "prog_has prog em \<longleftrightarrow> (\<exists>c. p_code prog = em_code em @ c) \<and>
     (\<exists>m. p_strings prog = map (\<lambda>item. c_str (vs_ptr item)) (em_items em) @ m) \<and> texts_small em"

lemma prog_has_le: "prog_has prog em' \<Longrightarrow> em_le em em' \<Longrightarrow> prog_has prog em"
  by (auto simp: prog_has_def em_le_def texts_small_def)

lemma string_in_memory:
  assumes "string_table_add (e_strings em) s = Some (idx, t)" and "prog_has prog (em\<lparr>e_strings := t\<rparr>)"
  shows "unat idx < length (p_strings prog) \<and> p_strings prog ! unat idx = c_str s"
proof -
  let ?items = "st_items t"
  obtain i where i: "idx = of_nat i" "i < length ?items"
    "same_text (?items ! i) s \<or> ?items ! i = \<lparr>vs_ptr = s, vs_len = of_nat (length s)\<rparr>"
    using string_table_add_eq [OF assms(1)] by blast
  obtain m where m: "p_strings prog = map (\<lambda>item. c_str (vs_ptr item)) ?items @ m"
    and small: "length ?items < 2 ^ 32" "\<forall>item\<in>set ?items. unat (vs_len item) = length (vs_ptr item)"
    using assms(2) by (auto simp: prog_has_def texts_small_def)
  have "unat (vs_len (?items ! i)) = length (vs_ptr (?items ! i))"
    using small(2) i(2) by simp
  then have "vs_ptr (?items ! i) = s" using i(3) by (auto simp: same_text_def)
  moreover have "unat idx = i"
    using i(1,2) small(1) by (simp add: unat_of_nat)
  ultimately show ?thesis using i(2) m by (simp add: nth_append)
qed

lemma emit_named_eq:
  assumes "emit_named em op name = Some em'" and "prog_has prog em'"
  obtains idx where "em_code em' = em_code em @ op # u32_le idx"
    "unat idx < length (p_strings prog)" "p_strings prog ! unat idx = c_str (str_bytes name)"
proof -
  obtain idx t where t: "string_table_add (e_strings em) (str_bytes name) = Some (idx, t)"
    and e: "emit_opcode_u32 (em\<lparr>e_strings := t\<rparr>) op idx = Some em'"
    using assms(1) by (auto simp: emit_named_def Option.bind_eq_Some_conv)
  have "prog_has prog (em\<lparr>e_strings := t\<rparr>)"
    using prog_has_le [OF assms(2) emit_opcode_u32_le [OF e]] .
  from string_in_memory [OF t this] emit_opcode_u32_eq(1) [OF e] that show ?thesis by simp
qed

lemma fetch_opcode:
  assumes "prog_has prog em'" and "em_code em' = em_code em @ op # w" and "vm_ip vm = length (em_code em)"
  shows "vm_ip vm < length (p_code prog)" "p_code prog ! vm_ip vm = op"
  using assms by (auto simp: prog_has_def nth_append)

lemma fetch_payload:
  assumes "prog_has prog em'" and "em_code em' = em_code em @ op # u32_le w"
    and "vm_ip vm = length (em_code em)"
  shows "payload prog (vm\<lparr>vm_ip := Suc (vm_ip vm)\<rparr>) = Some (w, vm\<lparr>vm_ip := length (em_code em')\<rparr>)"
proof -
  obtain c where c: "p_code prog = (em_code em @ [op]) @ u32_le w @ c"
    using assms(1,2) by (auto simp: prog_has_def)
  have "length (em_code em') = length (em_code em @ [op]) + 4"
    using assms(2) u32.enc_width by simp
  with u32.dec_enc [of "em_code em @ [op]" w c] assms(3) show ?thesis
    unfolding payload_def c by simp
qed

section \<open>Simulation\<close>

definition view :: "morphl_vm \<Rightarrow> ref_state" where
  "view vm = (vm_stack vm, map_of (vm_slots vm), length (vm_frames vm))"

text \<open>From \<open>vm\<close> the machine ends with the reference outcome, or reaches \<open>ip\<close> in the reference state.\<close>

definition reaches :: "vm_program \<Rightarrow> morphl_vm \<Rightarrow> nat \<Rightarrow> ref_result \<Rightarrow> bool" where
  "reaches prog vm ip r \<longleftrightarrow>
     (case r of
        Inl out \<Rightarrow> vm_run prog vm = out
      | Inr s \<Rightarrow> \<exists>vm'. vm_run prog vm = vm_run prog vm' \<and> vm_ip vm' = ip \<and> view vm' = s \<and>
          snd (snd s) > 0)"

lemma reaches_bind:
  assumes "reaches prog vm ip1 r"
    and "\<And>vm' s. r = Inr s \<Longrightarrow> vm_ip vm' = ip1 \<Longrightarrow> view vm' = s \<Longrightarrow> snd (snd s) > 0 \<Longrightarrow>
      reaches prog vm' ip2 (f s)"
  shows "reaches prog vm ip2 (ref_bind r f)"
proof (cases r)
  case (Inr s)
  then obtain vm' where "vm_run prog vm = vm_run prog vm'" "vm_ip vm' = ip1" "view vm' = s" "snd (snd s) > 0"
    using assms(1) by (auto simp: reaches_def)
  with assms(2) [OF Inr] Inr show ?thesis
    by (fastforce simp: reaches_def ref_bind_def split: sum.splits)
qed (use assms(1) in \<open>simp add: reaches_def ref_bind_def\<close>)

lemma reaches_step:
  assumes "vm_ip vm < length (p_code prog)"
    and "case r of Inl out \<Rightarrow> vm_step prog vm = Stop out
      | Inr s \<Rightarrow> \<exists>vm'. vm_step prog vm = Continue vm' \<and> vm_ip vm' = ip \<and> view vm' = s \<and> snd (snd s) > 0"
  shows "reaches prog vm ip r"
  using assms by (auto simp: reaches_def vm_run.simps [of prog vm] split: sum.splits)

lemma map_of_set_slot: "map_of (set_slot sl name v) = (map_of sl)(name \<mapsto> v)"
  by (induction sl name v rule: set_slot.induct) (auto simp: fun_eq_iff)

lemma view_simps:
  "view (vm\<lparr>vm_ip := i\<rparr>) = view vm"
  "view (vm_stack_push vm v) = (case view vm of (st, sl, k) \<Rightarrow> (v # st, sl, k))"
  "view (vm_set_slot vm name v) = (case view vm of (st, sl, k) \<Rightarrow> (st, sl(name \<mapsto> v), k))"
  by (simp_all add: view_def vm_stack_push_def vm_set_slot_def map_of_set_slot)

lemma vm_step_opcode:
  assumes "p_code prog ! vm_ip vm = op"
  shows "op = VM_OP_HALT \<Longrightarrow> vm_step prog vm = Stop (Exit 0 [])"
    "op = VM_OP_PUSH_NULL \<Longrightarrow> vm_step prog vm =
       Continue (vm_stack_push (vm\<lparr>vm_ip := Suc (vm_ip vm)\<rparr>) (VmValue VM_VALUE_NULL None []))"
    "op = VM_OP_PUSH_LITERAL \<Longrightarrow>
       vm_step prog vm = step_push prog VM_VALUE_LITERAL (vm\<lparr>vm_ip := Suc (vm_ip vm)\<rparr>)"
    "op = VM_OP_PUSH_IDENT \<Longrightarrow>
       vm_step prog vm = step_push prog VM_VALUE_IDENT (vm\<lparr>vm_ip := Suc (vm_ip vm)\<rparr>)"
    "op = VM_OP_MAKE_GROUP \<Longrightarrow> vm_step prog vm = step_make_group prog (vm\<lparr>vm_ip := Suc (vm_ip vm)\<rparr>)"
    "op = VM_OP_SET_SLOT \<Longrightarrow> vm_step prog vm = step_set_slot prog (vm\<lparr>vm_ip := Suc (vm_ip vm)\<rparr>)"
    "op = VM_OP_OPERATOR \<Longrightarrow> vm_step prog vm = step_operator prog (vm\<lparr>vm_ip := Suc (vm_ip vm)\<rparr>)"
    "op = VM_OP_RET \<Longrightarrow> vm_step prog vm = Stop (step_ret (vm\<lparr>vm_ip := Suc (vm_ip vm)\<rparr>))"
    "op = VM_OP_CALL \<Longrightarrow> vm_step prog vm = step_call prog (vm\<lparr>vm_ip := Suc (vm_ip vm)\<rparr>)"
    "op = VM_OP_NODE_META \<Longrightarrow> vm_step prog vm =
       fail_with ''NODE_META execution is not supported in V0.1 runtime''"
  using assms by (simp_all add: vm_step_def opcodes)

text \<open>The code between \<open>em\<close> and \<open>em'\<close> does what \<open>f\<close> says.\<close>

definition sim :: "vm_emitter \<Rightarrow> vm_emitter \<Rightarrow> (ref_state \<Rightarrow> ref_result) \<Rightarrow> bool" where
  "sim em em' f \<longleftrightarrow>
     (\<forall>prog vm s. prog_has prog em' \<longrightarrow> vm_ip vm = length (em_code em) \<longrightarrow> view vm = s \<longrightarrow>
        0 < snd (snd s) \<longrightarrow> reaches prog vm (length (em_code em')) (f s))"

lemma sim_bind:
  assumes "sim em em1 f" and "sim em1 em2 g" and "em_le em1 em2"
  shows "sim em em2 (\<lambda>s. ref_bind (f s) g)"
  unfolding sim_def
proof (intro allI impI)
  fix prog vm s
  assume a: "prog_has prog em2" "vm_ip vm = length (em_code em)" "view vm = s" "0 < snd (snd s)"
  have "reaches prog vm (length (em_code em1)) (f s)"
    using assms(1) prog_has_le [OF a(1) assms(3)] a(2-4) unfolding sim_def by blast
  then show "reaches prog vm (length (em_code em2)) (ref_bind (f s) g)"
  proof (rule reaches_bind)
    fix vm' s'
    assume "vm_ip vm' = length (em_code em1)" "view vm' = s'" "0 < snd (snd s')"
    with assms(2) a(1) show "reaches prog vm' (length (em_code em2)) (g s')"
      unfolding sim_def by blast
  qed
qed

lemma sim_none: "sim em em Inr"
  by (auto simp: sim_def reaches_def)

lemma sim_null:
  assumes "emit_opcode em VM_OP_PUSH_NULL = Some em'"
  shows "sim em em' (ref_push (VmValue VM_VALUE_NULL None []))"
  unfolding sim_def
proof (intro allI impI)
  fix prog vm s
  assume a: "prog_has prog em'" "vm_ip vm = length (em_code em)" "view vm = s" "0 < snd (snd s)"
  note code = emit_opcode_eq(1) [OF assms]
  note f = fetch_opcode [OF a(1) code a(2)]
  show "reaches prog vm (length (em_code em')) (ref_push (VmValue VM_VALUE_NULL None []) s)"
    by (rule reaches_step [OF f(1)])
      (use a code vm_step_opcode(2) [OF f(2)] in \<open>auto simp: ref_push_def view_simps split: prod.split\<close>)
qed

text \<open>Instructions with a string operand.\<close>

lemma sim_named:
  assumes "emit_named em op name = Some em'"
    and "\<And>prog vm idx ip. p_code prog ! vm_ip vm = op \<Longrightarrow>
      payload prog (vm\<lparr>vm_ip := Suc (vm_ip vm)\<rparr>) = Some (idx, vm\<lparr>vm_ip := ip\<rparr>) \<Longrightarrow>
      unat idx < length (p_strings prog) \<Longrightarrow> p_strings prog ! unat idx = c_str (str_bytes name) \<Longrightarrow>
      0 < length (vm_frames vm) \<Longrightarrow>
      (case f (view vm) of Inl out \<Rightarrow> vm_step prog vm = Stop out
       | Inr s \<Rightarrow> \<exists>vm'. vm_step prog vm = Continue vm' \<and> vm_ip vm' = ip \<and> view vm' = s \<and> snd (snd s) > 0)"
  shows "sim em em' f"
  unfolding sim_def
proof (intro allI impI)
  fix prog vm s
  assume a: "prog_has prog em'" "vm_ip vm = length (em_code em)" "view vm = s" "0 < snd (snd s)"
  obtain idx where e: "em_code em' = em_code em @ op # u32_le idx"
    "unat idx < length (p_strings prog)" "p_strings prog ! unat idx = c_str (str_bytes name)"
    by (rule emit_named_eq [OF assms(1) a(1)])
  note f = fetch_opcode [OF a(1) e(1) a(2)]
  have "0 < length (vm_frames vm)" using a(3,4) by (auto simp: view_def)
  from assms(2) [OF f(2) fetch_payload [OF a(1) e(1) a(2)] e(2,3) this] a(3)
  show "reaches prog vm (length (em_code em')) (f s)"
    by (intro reaches_step [OF f(1)]) simp
qed

lemma view_frames: "0 < length (vm_frames vm) \<longleftrightarrow> 0 < snd (snd (view vm))"
  by (simp add: view_def)

lemma sim_leaf:
  assumes "emit_named em op name = Some em'"
    and "(op, kind) \<in> {(VM_OP_PUSH_LITERAL, VM_VALUE_LITERAL), (VM_OP_PUSH_IDENT, VM_VALUE_IDENT)}"
  shows "sim em em' (ref_push (leaf_value kind name))"
proof (rule sim_named [OF assms(1)])
  fix prog vm idx ip
  assume a: "p_code prog ! vm_ip vm = op"
    "payload prog (vm\<lparr>vm_ip := Suc (vm_ip vm)\<rparr>) = Some (idx, vm\<lparr>vm_ip := ip\<rparr>)"
    "unat idx < length (p_strings prog)" "p_strings prog ! unat idx = c_str (str_bytes name)"
    "0 < length (vm_frames vm)"
  have "vm_step prog vm = step_push prog kind (vm\<lparr>vm_ip := Suc (vm_ip vm)\<rparr>)"
    using assms(2) vm_step_opcode(3,4) [OF a(1)] by auto
  with a show "case ref_push (leaf_value kind name) (view vm) of
      Inl out \<Rightarrow> vm_step prog vm = Stop out
    | Inr s \<Rightarrow> \<exists>vm'. vm_step prog vm = Continue vm' \<and> vm_ip vm' = ip \<and> view vm' = s \<and> 0 < snd (snd s)"
    by (auto simp: ref_push_def step_push_def leaf_value_def vm_stack_push_def view_def)
qed

lemma sim_declare:
  assumes "emit_set_slot em name = Some em'"
  shows "sim em em' (ref_declare name)"
proof (rule sim_named [OF assms [unfolded emit_set_slot_def]])
  fix prog vm idx ip
  assume a: "p_code prog ! vm_ip vm = VM_OP_SET_SLOT"
    "payload prog (vm\<lparr>vm_ip := Suc (vm_ip vm)\<rparr>) = Some (idx, vm\<lparr>vm_ip := ip\<rparr>)"
    "unat idx < length (p_strings prog)" "p_strings prog ! unat idx = c_str (str_bytes name)"
    "0 < length (vm_frames vm)"
  with vm_step_opcode(6) [OF a(1)] show "case ref_declare name (view vm) of
      Inl out \<Rightarrow> vm_step prog vm = Stop out
    | Inr s \<Rightarrow> \<exists>vm'. vm_step prog vm = Continue vm' \<and> vm_ip vm' = ip \<and> view vm' = s \<and> 0 < snd (snd s)"
    by (cases "vm_stack vm")
      (auto simp: ref_declare_def ref_fail_def step_set_slot_def vm_stack_pop_def vm_stack_push_def
        vm_set_slot_def view_def map_of_set_slot)
qed

lemma sim_call:
  assumes "emit_named em VM_OP_CALL name = Some em'"
  shows "sim em em' ref_call"
proof (rule sim_named [OF assms])
  fix prog vm idx ip
  assume a: "p_code prog ! vm_ip vm = VM_OP_CALL"
    "payload prog (vm\<lparr>vm_ip := Suc (vm_ip vm)\<rparr>) = Some (idx, vm\<lparr>vm_ip := ip\<rparr>)"
  with vm_step_opcode(9) [OF a(1)] show "case ref_call (view vm) of
      Inl out \<Rightarrow> vm_step prog vm = Stop out
    | Inr s \<Rightarrow> \<exists>vm'. vm_step prog vm = Continue vm' \<and> vm_ip vm' = ip \<and> view vm' = s \<and> 0 < snd (snd s)"
    by (simp add: ref_call_def step_call_def vm_call_def view_def)
qed

text \<open>Operators: the machine's on its stacks and slot list, the reference's on the view.\<close>

lemma resolve_view:
  "vm_resolve_value vm v = ref_resolve (map_of (vm_slots vm)) v"
  by (auto simp: vm_resolve_value_def ref_resolve_def split: option.split vm_value_kind.split)

lemma operator_view:
  assumes "0 < length (vm_frames vm)"
  shows "case ref_operator name (view vm) of
      Inl out \<Rightarrow> \<exists>ms. vm_execute_operator vm (c_str (str_bytes name)) = Inl ms \<and> out = Exit 1 ms
    | Inr s \<Rightarrow> \<exists>vm'. vm_execute_operator vm (c_str (str_bytes name)) = Inr vm' \<and>
        vm_ip vm' = vm_ip vm \<and> view vm' = s \<and> 0 < snd (snd s)"
proof -
  consider "vm_stack vm = []" | r where "vm_stack vm = [r]" | r l st where "vm_stack vm = r # l # st"
    by (metis list.exhaust)
  then show ?thesis
  proof cases
    case (3 r l st)
    let ?sl = "map_of (vm_slots vm)"
    have res: "vm_resolve_value (vm\<lparr>vm_stack := st\<rparr>) v = ref_resolve ?sl v" for v
      by (simp add: resolve_view)
    have add: "case ref_add (view vm) of
        Inl out \<Rightarrow> \<exists>ms. vm_add vm = Inl ms \<and> out = Exit 1 ms
      | Inr s \<Rightarrow> \<exists>vm'. vm_add vm = Inr vm' \<and> vm_ip vm' = vm_ip vm \<and> view vm' = s \<and> 0 < snd (snd s)"
      using assms 3
      by (cases "vm_value_to_number (ref_resolve ?sl l)"; cases "vm_value_to_number (ref_resolve ?sl r)")
        (auto simp: ref_add_def vm_add_def view_def ref_fail_def vm_stack_pop_def vm_stack_push_def
          res ref_sum_def Let_def)
    have set: "case ref_set (view vm) of
        Inl out \<Rightarrow> \<exists>ms. vm_set vm = Inl ms \<and> out = Exit 1 ms
      | Inr s \<Rightarrow> \<exists>vm'. vm_set vm = Inr vm' \<and> vm_ip vm' = vm_ip vm \<and> view vm' = s \<and> 0 < snd (snd s)"
      using assms 3
      by (cases "v_kind l"; cases "v_text l")
        (auto simp: ref_set_def vm_set_def view_def ref_fail_def vm_stack_pop_def vm_stack_push_def
          vm_set_slot_def map_of_set_slot)
    let ?name = "c_str (str_bytes name)"
    consider "?name = ''$add''" | "?name = ''$set''" | "?name \<noteq> ''$add''" "?name \<noteq> ''$set''" by blast
    then show ?thesis
    proof cases
      case 1
      then have e: "ref_operator name (view vm) = ref_add (view vm)"
        "vm_execute_operator vm ?name = vm_add vm"
        by (simp_all add: ref_operator_def vm_execute_operator_def)
      show ?thesis unfolding e by (rule add)
    next
      case 2
      then have e: "ref_operator name (view vm) = ref_set (view vm)"
        "vm_execute_operator vm ?name = vm_set vm"
        by (simp_all add: ref_operator_def vm_execute_operator_def)
      show ?thesis unfolding e by (rule set)
    qed (simp add: ref_operator_def vm_execute_operator_def)
  qed (auto simp: ref_operator_def vm_execute_operator_def ref_add_def ref_set_def vm_add_def
      vm_set_def view_def ref_fail_def vm_stack_pop_def Let_def)
qed

lemma sim_operator:
  assumes "emit_named em VM_OP_OPERATOR name = Some em'"
  shows "sim em em' (ref_operator name)"
proof (rule sim_named [OF assms])
  fix prog vm idx ip
  assume a: "p_code prog ! vm_ip vm = VM_OP_OPERATOR"
    "payload prog (vm\<lparr>vm_ip := Suc (vm_ip vm)\<rparr>) = Some (idx, vm\<lparr>vm_ip := ip\<rparr>)"
    "unat idx < length (p_strings prog)" "p_strings prog ! unat idx = c_str (str_bytes name)"
    "0 < length (vm_frames vm)"
  have "view (vm\<lparr>vm_ip := ip\<rparr>) = view vm" by (rule view_simps)
  with operator_view [of "vm\<lparr>vm_ip := ip\<rparr>" name] a(2-5) vm_step_opcode(7) [OF a(1)]
  show "case ref_operator name (view vm) of
      Inl out \<Rightarrow> vm_step prog vm = Stop out
    | Inr s \<Rightarrow> \<exists>vm'. vm_step prog vm = Continue vm' \<and> vm_ip vm' = ip \<and> view vm' = s \<and> 0 < snd (snd s)"
    by (auto simp: step_operator_def split: sum.splits)
qed

lemma sim_group:
  assumes "emit_opcode_u32 em VM_OP_MAKE_GROUP (of_nat n) = Some em'" and "n < 2 ^ 32"
  shows "sim em em' (ref_group n)"
  unfolding sim_def
proof (intro allI impI)
  fix prog vm s
  assume a: "prog_has prog em'" "vm_ip vm = length (em_code em)" "view vm = s" "0 < snd (snd s)"
  note code = emit_opcode_u32_eq(1) [OF assms(1)]
  note f = fetch_opcode [OF a(1) code a(2)]
  have n: "unat (of_nat n :: 32 word) = n" using assms(2) by (simp add: unat_of_nat)
  show "reaches prog vm (length (em_code em')) (ref_group n s)"
    by (rule reaches_step [OF f(1)])
      (use a(3,4) vm_step_opcode(5) [OF f(2) refl] fetch_payload [OF a(1) code a(2)] n in
        \<open>auto simp: step_make_group_def ref_group_def view_def vm_stack_push_def ref_fail_def\<close>)
qed

lemma sim_ret:
  assumes "emit_opcode em VM_OP_RET = Some em'"
  shows "sim em em' ref_ret"
  unfolding sim_def
proof (intro allI impI)
  fix prog vm s
  assume a: "prog_has prog em'" "vm_ip vm = length (em_code em)" "view vm = s" "0 < snd (snd s)"
  note code = emit_opcode_eq(1) [OF assms]
  note f = fetch_opcode [OF a(1) code a(2)]
  have "ref_ret s = Inl (step_ret (vm\<lparr>vm_ip := Suc (vm_ip vm)\<rparr>))"
    using a(3,4)
    by (cases "vm_stack vm"; cases "vm_frames vm")
      (auto simp: ref_ret_def step_ret_def view_def vm_stack_pop_def vm_return_def)
  then show "reaches prog vm (length (em_code em')) (ref_ret s)"
    using vm_step_opcode(8) [OF f(2) refl] by (intro reaches_step [OF f(1)]) simp
qed

lemma sim_meta:
  assumes "emit_opcode (em\<lparr>e_strings := t\<rparr>) VM_OP_NODE_META = Some em1"
    and "emit_opcode em1 opc = Some em2" and "emit_u32 em2 w = Some em3" and "emit_u32 em3 w' = Some em4"
    and "emit_nodes em4 cs = Some em'"
  shows "sim em em' (\<lambda>s. ref_fail ''NODE_META execution is not supported in V0.1 runtime'')"
  unfolding sim_def
proof (intro allI impI)
  fix prog :: vm_program and vm :: morphl_vm and s :: ref_state
  assume a: "prog_has prog em'" "vm_ip vm = length (em_code em)"
  have "em_le em1 em'"
    using emit_opcode_le [OF assms(2)] emit_u32_le [OF assms(3)] emit_u32_le [OF assms(4)]
      emit_nodes_le [OF assms(5)] em_le_trans by blast
  then have p: "prog_has prog em1" using a(1) prog_has_le by blast
  have "em_code em1 = em_code em @ [VM_OP_NODE_META]" using emit_opcode_eq(1) [OF assms(1)] by simp
  note f = fetch_opcode [OF p this a(2)]
  show "reaches prog vm (length (em_code em'))
      (ref_fail ''NODE_META execution is not supported in V0.1 runtime'')"
    using vm_step_opcode(10) [OF f(2) refl] by (intro reaches_step [OF f(1)]) (simp add: ref_fail_def)
qed

text \<open>Emission of a tree simulates its reference semantics.\<close>

lemma sim_ext: "sim em em' f \<Longrightarrow> (\<And>s. g s = f s) \<Longrightarrow> sim em em' g"
  by (simp add: sim_def)

lemma op_name_eq: "op_name_from_node em n = node_op_name (e_interns em) n"
  by (simp add: op_name_from_node_def node_op_name_def)

lemma em_le_interns: "em_le em em' \<Longrightarrow> e_interns em' = e_interns em"
  by (simp add: em_le_def)

lemma sim_nodes_lift:
  "(\<And>c em em'. c \<in> set cs \<Longrightarrow> emit_node em c = Some em' \<Longrightarrow> sim em em' (ref_node (e_interns em) c)) \<Longrightarrow>
     emit_nodes em cs = Some em' \<Longrightarrow> sim em em' (ref_nodes (e_interns em) cs)"
proof (induction cs arbitrary: em)
  case Nil
  then show ?case by (auto intro: sim_ext [OF sim_none])
next
  case (Cons c cs)
  then obtain em1 where 1: "emit_node em c = Some em1" "emit_nodes em1 cs = Some em'"
    by (auto simp: Option.bind_eq_Some_conv)
  have "sim em em1 (ref_node (e_interns em) c)" using Cons.prems(1) 1(1) by simp
  moreover have "sim em1 em' (ref_nodes (e_interns em1) cs)" using Cons 1(2) by simp
  ultimately have "sim em em' (\<lambda>s. ref_bind (ref_node (e_interns em) c s) (ref_nodes (e_interns em1) cs))"
    using emit_nodes_le [OF 1(2)] by (rule sim_bind)
  then show ?case by (rule sim_ext) (simp add: em_le_interns [OF emit_node_le [OF 1(1)]])
qed

lemma node_count_child: "c \<in> set cs \<Longrightarrow> node_count c < node_count (AstNode k op v cs cap fn row col)"
  using member_le_sum_list [of "node_count c" "map node_count cs"] by simp

lemma node_count_pos: "0 < node_count n"
  by (cases n) simp

lemma length_children_less: "length cs < node_count (AstNode k op v cs cap fn row col)"
proof -
  have "length cs \<le> (\<Sum>c\<leftarrow>cs. node_count c)"
  proof (induction cs)
    case (Cons c cs)
    then show ?case using node_count_pos [of c] by simp
  qed simp
  then show ?thesis by simp
qed

text \<open>The right-hand side of a declaration.\<close>

lemma sim_rhs:
  assumes "(case cs of c # rhs # _ \<Rightarrow> emit_node em rhs | _ \<Rightarrow> emit_opcode em VM_OP_PUSH_NULL) = Some em1"
    and "emit_set_slot em1 (decl_name cs) = Some em'"
    and "\<And>c em em'. c \<in> set cs \<Longrightarrow> emit_node em c = Some em' \<Longrightarrow> sim em em' (ref_node (e_interns em) c)"
  shows "sim em em' (\<lambda>s. ref_bind
    (case cs of c # rhs # _ \<Rightarrow> ref_node (e_interns em) rhs s
              | _ \<Rightarrow> ref_push (VmValue VM_VALUE_NULL None []) s) (ref_declare (decl_name cs)))"
proof -
  have "sim em em1 (\<lambda>s. case cs of c # rhs # _ \<Rightarrow> ref_node (e_interns em) rhs s
      | _ \<Rightarrow> ref_push (VmValue VM_VALUE_NULL None []) s)"
  proof (cases "\<exists>c rhs rest. cs = c # rhs # rest")
    case True
    with assms(1,3) show ?thesis by auto
  next
    case False
    then have "emit_opcode em VM_OP_PUSH_NULL = Some em1"
      using assms(1) by (auto split: list.splits)
    from sim_null [OF this] False show ?thesis by (auto intro: sim_ext split: list.split)
  qed
  then show ?thesis
    using sim_declare [OF assms(2)] emit_set_slot_le [OF assms(2)] by (rule sim_bind)
qed

lemma sim_then_named:
  assumes "emit_nodes em cs = Some em1" and "emit_named em1 op name = Some em'"
    and "sim em em1 f" and "sim em1 em' g"
  shows "sim em em' (\<lambda>s. ref_bind (f s) g)"
  using assms(3,4) emit_named_le [OF assms(2)] by (rule sim_bind)

lemma emit_node_sim:
  "emit_node em n = Some em' \<Longrightarrow> node_count n < 2 ^ 32 \<Longrightarrow> sim em em' (ref_node (e_interns em) n)"
proof (induction n arbitrary: em em')
  case (AstNode kind op v cs cap fn row col)
  let ?n = "AstNode kind op v cs cap fn row col"
  let ?i = "e_interns em"
  have IH: "sim em em' (ref_node (e_interns em) c)"
    if "c \<in> set cs" "emit_node em c = Some em'" for c em em'
    using AstNode.IH [OF that] AstNode.prems(2) node_count_child [OF that(1)] less_trans by blast
  have nodes: "sim em em1 (ref_nodes (e_interns em) cs)" if "emit_nodes em cs = Some em1" for em em1
    using IH that by (rule sim_nodes_lift)
  have declared: "sim em em' (ref_node ?i ?n)"
    if "Option.bind (case cs of c # rhs # _ \<Rightarrow> emit_node em rhs | _ \<Rightarrow> emit_opcode em VM_OP_PUSH_NULL)
          (\<lambda>em1. emit_set_slot em1 (decl_name cs)) = Some em'"
      and "\<And>s. ref_node ?i ?n s = ref_bind (case cs of c # rhs # _ \<Rightarrow> ref_node ?i rhs s
              | _ \<Rightarrow> ref_push (VmValue VM_VALUE_NULL None []) s) (ref_declare (decl_name cs))"
    using that(1) IH by (auto simp: Option.bind_eq_Some_conv intro: sim_ext [OF sim_rhs that(2)])
  have named: "sim em em' (ref_node ?i ?n)"
    if run: "Option.bind (emit_nodes em cs) (\<lambda>em1. emit_named em1 opc name) = Some em'"
      and step: "\<And>em1. emit_named em1 opc name = Some em' \<Longrightarrow> sim em1 em' g"
      and eq: "\<And>s. ref_node ?i ?n s = ref_bind (ref_nodes ?i cs s) g" for opc name g
  proof -
    obtain em1 where "emit_nodes em cs = Some em1" "emit_named em1 opc name = Some em'"
      using run by (auto simp: Option.bind_eq_Some_conv)
    then show ?thesis
      by (intro sim_ext [OF sim_then_named eq]) (auto intro: nodes step)
  qed
  show ?case
  proof (cases kind)
    case AST_LITERAL
    then show ?thesis using AstNode.prems(1) by (auto intro: sim_ext [OF sim_leaf])
  next
    case AST_IDENT
    then show ?thesis using AstNode.prems(1) by (auto intro: sim_ext [OF sim_leaf])
  next
    case AST_CALL
    with AstNode.prems(1) show ?thesis by (intro named [where g = ref_call]) (auto intro: sim_call)
  next
    case AST_SET
    with AstNode.prems(1) show ?thesis
      by (intro named [where g = "ref_operator (Some ''$set'')"]) (auto intro: sim_operator)
  next
    case AST_DECL
    with AstNode.prems(1) show ?thesis by (intro declared) (simp_all cong: list.case_cong)
  next
    case AST_BLOCK
    with AstNode.prems(1) show ?thesis by (intro sim_ext [OF nodes]) simp_all
  next
    case AST_FILE
    with AstNode.prems(1) show ?thesis by (intro sim_ext [OF nodes]) simp_all
  next
    case AST_GROUP
    then obtain em1 where 1: "emit_nodes em cs = Some em1"
      "emit_opcode_u32 em1 VM_OP_MAKE_GROUP (of_nat (length cs)) = Some em'"
      using AstNode.prems(1) by (auto simp: Option.bind_eq_Some_conv)
    have "length cs < 2 ^ 32" using AstNode.prems(2) length_children_less less_trans by blast
    from sim_bind [OF nodes [OF 1(1)] sim_group [OF 1(2) this] emit_opcode_u32_le [OF 1(2)]] AST_GROUP
    show ?thesis by (auto intro: sim_ext)
  next
    case AST_BUILTIN
    let ?name = "node_op_name ?i ?n"
    consider "is_compile_time_operator ?name" "str_eq ?name (Some ''$decl'')"
      | "is_compile_time_operator ?name" "\<not> str_eq ?name (Some ''$decl'')"
      | "\<not> is_compile_time_operator ?name" "str_eq ?name (Some ''$ret'')"
      | "\<not> is_compile_time_operator ?name" "\<not> str_eq ?name (Some ''$ret'')" by blast
    then show ?thesis
    proof cases
      case 1
      with AST_BUILTIN AstNode.prems(1) show ?thesis
        by (intro declared) (simp_all add: op_name_eq Let_def cong: list.case_cong)
    next
      case 2
      with AST_BUILTIN AstNode.prems(1) show ?thesis
        by (intro sim_ext [OF nodes]) (simp_all add: op_name_eq Let_def)
    next
      case 3
      then obtain c rest em1 where 1: "cs = c # rest" "emit_node em c = Some em1"
        "emit_opcode em1 VM_OP_RET = Some em'"
        using AST_BUILTIN AstNode.prems(1)
        by (auto simp: op_name_eq Let_def Option.bind_eq_Some_conv split: list.splits)
      from sim_bind [OF IH [OF _ 1(2)] sim_ret [OF 1(3)] emit_opcode_le [OF 1(3)]] 1(1) 3 AST_BUILTIN
      show ?thesis by (auto intro!: sim_ext)
    next
      case 4
      with AST_BUILTIN AstNode.prems(1) show ?thesis
        by (intro named [where g = "ref_operator ?name"])
          (auto simp: op_name_eq Let_def intro: sim_operator)
    qed
  qed (use AstNode.prems(1) in \<open>auto simp: Let_def Option.bind_eq_Some_conv split: prod.splits
        intro: sim_ext [OF sim_meta]\<close>)
qed

section \<open>Emission succeeds\<close>

fun subnodes :: "ast \<Rightarrow> ast list" where
  "subnodes (AstNode k op v cs cap fn row col) =
     AstNode k op v cs cap fn row col # concat (map subnodes cs)"

text \<open>No text reaches \<open>2 ^ 32\<close> bytes, and a \<open>$ret\<close> has its operand.\<close>

definition node_ok :: "intern_table option \<Rightarrow> ast \<Rightarrow> bool" where
  "node_ok interns m \<longleftrightarrow>
     str_len (n_value m) < 2 ^ 32 \<and> str_len (node_op_name interns m) < 2 ^ 32 \<and>
     (n_kind m = AST_BUILTIN \<and> str_eq (node_op_name interns m) (Some ''$ret'') \<longrightarrow> n_children m \<noteq> [])"

definition tree_ok :: "intern_table option \<Rightarrow> ast \<Rightarrow> bool" where
  "tree_ok interns n \<longleftrightarrow> (\<forall>m\<in>set (subnodes n). node_ok interns m)"

lemma tree_ok_node:
  "tree_ok interns (AstNode k op v cs cap fn row col) \<longleftrightarrow>
     node_ok interns (AstNode k op v cs cap fn row col) \<and> (\<forall>c\<in>set cs. tree_ok interns c)"
  by (auto simp: tree_ok_def)

text \<open>The room an emitter takes, and its strings with their true lengths.\<close>

definition em_size :: "vm_emitter \<Rightarrow> nat" where
  "em_size em = length (em_code em) + length (em_items em)"

definition em_ok :: "vm_emitter \<Rightarrow> bool" where
  "em_ok em \<longleftrightarrow> (\<forall>item\<in>set (em_items em). unat (vs_len item) = length (vs_ptr item))"

definition fits :: "vm_emitter \<Rightarrow> nat \<Rightarrow> vm_emitter option \<Rightarrow> bool" where
  "fits em k r \<longleftrightarrow> (em_ok em \<and> em_size em + k < 2 ^ 32 \<longrightarrow>
     (\<exists>em'. r = Some em' \<and> em_ok em' \<and> em_size em' \<le> em_size em + k))"

lemma fits_bind:
  assumes "fits em k r" and "\<And>em1. r = Some em1 \<Longrightarrow> fits em1 k' (g em1)"
  shows "fits em (k + k') (Option.bind r g)"
  unfolding fits_def
proof (intro impI)
  assume a: "em_ok em \<and> em_size em + (k + k') < 2 ^ 32"
  then obtain em1 where 1: "r = Some em1" "em_ok em1" "em_size em1 \<le> em_size em + k"
    using assms(1) by (auto simp: fits_def)
  then have "em_size em1 + k' < 2 ^ 32" using a by simp
  then obtain em' where "g em1 = Some em'" "em_ok em'" "em_size em' \<le> em_size em1 + k'"
    using assms(2) [OF 1(1)] 1(2) by (auto simp: fits_def)
  with 1 show "\<exists>em'. Option.bind r g = Some em' \<and> em_ok em' \<and> em_size em' \<le> em_size em + (k + k')"
    by auto
qed

lemma fits_mono: "fits em k r \<Longrightarrow> k \<le> k' \<Longrightarrow> fits em k' r"
  by (fastforce simp: fits_def)

lemma vm_grow_loop_total: "min_count \<le> 2 ^ 63 \<Longrightarrow> vm_grow_loop c min_count \<noteq> None"
proof (induction c min_count rule: vm_grow_loop.induct)
  case (1 c min_count)
  have "size_max div 2 = 2 ^ 63 - 1" by (simp add: size_max_def)
  with 1 show ?case by (subst vm_grow_loop.simps) auto
qed

lemma vm_grow_total: "min_count \<le> 2 ^ 63 \<Longrightarrow> \<exists>c. vm_grow cap min_count = Some c"
  using vm_grow_loop_total by (simp add: vm_grow_def)

lemma vm_grow_covers: "vm_grow cap min_count = Some c \<Longrightarrow> min_count \<le> c"
proof -
  have "vm_grow_loop c0 m = Some c \<Longrightarrow> 0 < c0 \<Longrightarrow> m \<le> c" for c0 m
    by (induction c0 m rule: vm_grow_loop.induct)
      (subst (asm) (2) vm_grow_loop.simps, auto split: if_splits)
  then show "vm_grow cap min_count = Some c \<Longrightarrow> min_count \<le> c"
    by (simp add: vm_grow_def split: if_splits)
qed

lemma bytes_push_total:
  "length (b_data buf) + length src \<le> 2 ^ 63 \<Longrightarrow> \<exists>buf'. bytes_push buf src = Some buf'"
  using vm_grow_total [of "length (b_data buf) + length src" "b_capacity buf"]
  by (auto simp: bytes_push_def Let_def)

lemma fits_opcode: "fits em 1 (emit_opcode em op)"
  unfolding fits_def
proof (intro impI)
  assume "em_ok em \<and> em_size em + 1 < 2 ^ 32"
  moreover from this obtain b where "bytes_push (e_code em) [op] = Some b"
    using bytes_push_total [of "e_code em" "[op]"] by (auto simp: em_size_def)
  then have e: "emit_opcode em op = Some (em\<lparr>e_code := b\<rparr>)"
    by (simp add: emit_opcode_def bytes_push_u8_def)
  moreover note emit_opcode_eq [OF e]
  ultimately show "\<exists>em'. emit_opcode em op = Some em' \<and> em_ok em' \<and> em_size em' \<le> em_size em + 1"
    by (simp add: em_ok_def em_size_def)
qed

lemma fits_u32: "fits em 4 (emit_u32 em v)"
  unfolding fits_def
proof (intro impI)
  assume "em_ok em \<and> em_size em + 4 < 2 ^ 32"
  moreover from this obtain b where "bytes_push (e_code em) (u32_le v) = Some b"
    using bytes_push_total [of "e_code em" "u32_le v"] u32.enc_width by (auto simp: em_size_def)
  then have e: "emit_u32 em v = Some (em\<lparr>e_code := b\<rparr>)"
    by (simp add: emit_u32_def bytes_push_u32_le_def)
  moreover note emit_u32_eq [OF e]
  ultimately show "\<exists>em'. emit_u32 em v = Some em' \<and> em_ok em' \<and> em_size em' \<le> em_size em + 4"
    by (simp add: em_ok_def em_size_def u32.enc_width)
qed

lemma fits_opcode_u32: "fits em 5 (emit_opcode_u32 em op v)"
  using fits_bind [OF fits_opcode fits_u32] by (simp add: emit_opcode_u32_def)

lemma string_table_add_fits:
  assumes "em_ok em" and "em_size em + 1 < 2 ^ 32" and "length s < 2 ^ 32"
  shows "\<exists>idx t. string_table_add (e_strings em) s = Some (idx, t) \<and> em_ok (em\<lparr>e_strings := t\<rparr>) \<and>
    em_size (em\<lparr>e_strings := t\<rparr>) \<le> em_size em + 1"
proof -
  have "length (em_items em) + 1 \<le> 2 ^ 63" using assms(2) by (simp add: em_size_def)
  from vm_grow_total [OF this, of "st_capacity (e_strings em)"]
  have "\<exists>idx t. string_table_add (e_strings em) s = Some (idx, t)"
    by (cases "find_text (em_items em) s 0") (auto simp: string_table_add_def Let_def)
  then obtain idx t where t: "string_table_add (e_strings em) s = Some (idx, t)" by blast
  obtain more where m: "st_items t = em_items em @ more" "length more \<le> 1"
    "\<forall>item\<in>set more. item = \<lparr>vs_ptr = s, vs_len = of_nat (length s)\<rparr>"
    using string_table_add_eq [OF t] by blast
  have "unat (of_nat (length s) :: 32 word) = length s" using assms(3) by (simp add: unat_of_nat)
  with m(3) have "\<forall>item\<in>set more. unat (vs_len item) = length (vs_ptr item)" by auto
  with m assms(1) t show ?thesis by (auto simp: em_ok_def em_size_def)
qed

lemma fits_string:
  assumes "length s < 2 ^ 32" and "\<And>idx t. fits (em\<lparr>e_strings := t\<rparr>) k (g (idx, t))"
  shows "fits em (1 + k) (Option.bind (string_table_add (e_strings em) s) g)"
  unfolding fits_def
proof (intro impI)
  assume a: "em_ok em \<and> em_size em + (1 + k) < 2 ^ 32"
  then obtain idx t where t: "string_table_add (e_strings em) s = Some (idx, t)"
    "em_ok (em\<lparr>e_strings := t\<rparr>)" "em_size (em\<lparr>e_strings := t\<rparr>) \<le> em_size em + 1"
    using string_table_add_fits [of em s] assms(1) by auto
  with assms(2) [of t idx] a show "\<exists>em'. Option.bind (string_table_add (e_strings em) s) g = Some em' \<and>
      em_ok em' \<and> em_size em' \<le> em_size em + (1 + k)"
    by (fastforce simp: fits_def)
qed

lemma fits_named: "str_len name < 2 ^ 32 \<Longrightarrow> fits em 6 (emit_named em op name)"
  using fits_string [of "str_bytes name" em 5 "\<lambda>(idx, t). emit_opcode_u32 (em\<lparr>e_strings := t\<rparr>) op idx"]
    fits_opcode_u32 by (simp add: emit_named_def str_len_bytes)

lemma fits_set_slot: "str_len name < 2 ^ 32 \<Longrightarrow> fits em 6 (emit_set_slot em name)"
  unfolding emit_set_slot_def by (rule fits_named)

lemma decl_name_small:
  "\<forall>c\<in>set cs. tree_ok interns c \<Longrightarrow> str_len (decl_name cs) < 2 ^ 32"
proof (cases cs)
  case (Cons c cs')
  assume "\<forall>c\<in>set cs. tree_ok interns c"
  with Cons have "node_ok interns c" by (cases c) (simp add: tree_ok_node)
  with Cons show ?thesis by (simp add: decl_name_def node_ok_def)
qed (simp add: decl_name_def)

lemma fits_nodes_lift:
  "(\<And>c em. c \<in> set cs \<Longrightarrow> e_interns em = interns \<Longrightarrow> fits em (11 * node_count c) (emit_node em c)) \<Longrightarrow>
     e_interns em = interns \<Longrightarrow> fits em (11 * (\<Sum>c\<leftarrow>cs. node_count c)) (emit_nodes em cs)"
proof (induction cs arbitrary: em)
  case Nil
  then show ?case by (simp add: fits_def)
next
  case (Cons c cs)
  have "fits em (11 * node_count c + 11 * (\<Sum>c\<leftarrow>cs. node_count c))
      (Option.bind (emit_node em c) (\<lambda>em1. emit_nodes em1 cs))"
    using Cons em_le_interns [OF emit_node_le] by (intro fits_bind) auto
  then show ?case by (simp add: algebra_simps)
qed

lemma emit_node_fits:
  "tree_ok interns n \<Longrightarrow> e_interns em = interns \<Longrightarrow> fits em (11 * node_count n) (emit_node em n)"
proof (induction n arbitrary: em)
  case (AstNode kind op v cs cap fn row col)
  let ?n = "AstNode kind op v cs cap fn row col"
  let ?k = "\<Sum>c\<leftarrow>cs. node_count c"
  have kids: "\<forall>c\<in>set cs. tree_ok interns c" and ok: "node_ok interns ?n"
    using AstNode.prems(1) by (simp_all add: tree_ok_node)
  have nodes: "fits em (11 * ?k) (emit_nodes em cs)" if "e_interns em = interns" for em
    using AstNode.IH kids that by (intro fits_nodes_lift [where interns = interns]) auto
  have v: "str_len v < 2 ^ 32" and name: "str_len (op_name_from_node em ?n) < 2 ^ 32"
    using ok AstNode.prems(2) by (simp_all add: node_ok_def op_name_eq)
  have named: "fits em (11 * node_count ?n)
      (Option.bind (emit_nodes em cs) (\<lambda>em1. emit_named em1 opc nm))"
    if "str_len nm < 2 ^ 32" for opc nm
    by (rule fits_mono [OF fits_bind [OF nodes [OF AstNode.prems(2)] fits_named [OF that]]]) simp
  have declared: "fits em (11 * node_count ?n)
      (Option.bind (case cs of c # rhs # _ \<Rightarrow> emit_node em rhs | _ \<Rightarrow> emit_opcode em VM_OP_PUSH_NULL)
        (\<lambda>em1. emit_set_slot em1 (decl_name cs)))"
  proof -
    have "fits em (1 + 11 * ?k) (case cs of c # rhs # _ \<Rightarrow> emit_node em rhs | _ \<Rightarrow> emit_opcode em VM_OP_PUSH_NULL)"
    proof (cases "\<exists>c rhs rest. cs = c # rhs # rest")
      case True
      then obtain c rhs rest where cs: "cs = c # rhs # rest" by blast
      have "fits em (11 * node_count rhs) (emit_node em rhs)"
        using AstNode.IH [of rhs em] kids AstNode.prems(2) cs by simp
      then show ?thesis unfolding cs by (auto elim: fits_mono)
    next
      case False
      then have "(case cs of c # rhs # _ \<Rightarrow> emit_node em rhs | _ \<Rightarrow> emit_opcode em VM_OP_PUSH_NULL)
          = emit_opcode em VM_OP_PUSH_NULL" by (auto split: list.split)
      then show ?thesis using fits_mono [OF fits_opcode] by simp
    qed
    from fits_bind [OF this fits_set_slot [OF decl_name_small [OF kids]]] show ?thesis
      by (rule fits_mono) simp
  qed
  have meta: "fits em (11 * node_count ?n)
      (Option.bind (string_table_add (e_strings em) (str_bytes (op_name_from_node em ?n)))
            (\<lambda>(op_idx, strings). Option.bind (emit_opcode (em\<lparr>e_strings := strings\<rparr>) VM_OP_NODE_META)
              (\<lambda>em1. Option.bind (emit_opcode em1 (kind_value kind))
                (\<lambda>em2. Option.bind (emit_u32 em2 op_idx)
                  (\<lambda>em3. Option.bind (emit_u32 em3 (of_nat (length cs)))
                    (\<lambda>em4. emit_nodes em4 cs))))))"
  proof -
    have "fits em (1 + (1 + (1 + (4 + (4 + 11 * ?k)))))
      (Option.bind (string_table_add (e_strings em) (str_bytes (op_name_from_node em ?n)))
            (\<lambda>(op_idx, strings). Option.bind (emit_opcode (em\<lparr>e_strings := strings\<rparr>) VM_OP_NODE_META)
              (\<lambda>em1. Option.bind (emit_opcode em1 (kind_value kind))
                (\<lambda>em2. Option.bind (emit_u32 em2 op_idx)
                  (\<lambda>em3. Option.bind (emit_u32 em3 (of_nat (length cs)))
                    (\<lambda>em4. emit_nodes em4 cs))))))"
    proof (rule fits_string, goal_cases)
      case 1
      then show ?case using name by (simp add: str_len_bytes)
    next
      case (2 idx t)
      show ?case
        unfolding prod.case
        by (intro fits_bind fits_opcode fits_u32 nodes)
          (auto dest!: emit_opcode_eq(4) emit_u32_eq(4) simp: AstNode.prems(2))
    qed
    then show ?thesis by (rule fits_mono) simp
  qed
  show ?case
  proof (cases kind)
    case AST_LITERAL
    then show ?thesis using fits_mono [OF fits_named [OF v]] by simp
  next
    case AST_IDENT
    then show ?thesis using fits_mono [OF fits_named [OF v]] by simp
  next
    case AST_GROUP
    have "fits em (11 * node_count ?n)
      (Option.bind (emit_nodes em cs) (\<lambda>em1. emit_opcode_u32 em1 VM_OP_MAKE_GROUP (of_nat (length cs))))"
      by (rule fits_mono [OF fits_bind [OF nodes [OF AstNode.prems(2)] fits_opcode_u32]]) simp
    with AST_GROUP show ?thesis by simp
  next
    case AST_BUILTIN
    show ?thesis
    proof (cases "str_eq (op_name_from_node em ?n) (Some ''$ret'')")
      case True
      then obtain c rest where cs: "cs = c # rest"
        using ok AST_BUILTIN AstNode.prems(2) by (cases cs) (auto simp: node_ok_def op_name_eq)
      have "fits em (11 * node_count c + 1) (Option.bind (emit_node em c) (\<lambda>em1. emit_opcode em1 VM_OP_RET))"
        using AstNode.IH [of c em] kids AstNode.prems(2) cs by (intro fits_bind fits_opcode) simp
      moreover have "\<not> is_compile_time_operator (op_name_from_node em ?n)"
        using True by (auto simp: is_compile_time_operator_def compile_time_ops_def str_eq_iff)
      ultimately show ?thesis
        using True AST_BUILTIN cs by (auto simp: Let_def elim: fits_mono)
    next
      case False
      with AST_BUILTIN named [OF name] declared fits_mono [OF nodes [OF AstNode.prems(2)]] show ?thesis
        by (simp add: Let_def)
    qed
  qed (use named declared meta fits_mono [OF nodes [OF AstNode.prems(2)]] in \<open>simp_all add: Let_def\<close>)
qed

section \<open>The whole back end\<close>

lemma meta_entry:
  assumes "em_ok em" and "em_size em + 2 < 2 ^ 32" and "length k < 2 ^ 32" and "length v < 2 ^ 32"
    and "length (mt_items (e_metadata em)) < 3"
  shows "\<exists>em'. emit_meta_entry em k v = Some em' \<and> em_ok em' \<and> em_size em' \<le> em_size em + 2 \<and>
    em_code em' = em_code em \<and> em_le em em' \<and>
    length (mt_items (e_metadata em')) = length (mt_items (e_metadata em)) + 1"
proof -
  obtain i t where 1: "string_table_add (e_strings em) k = Some (i, t)" "em_ok (em\<lparr>e_strings := t\<rparr>)"
    "em_size (em\<lparr>e_strings := t\<rparr>) \<le> em_size em + 1"
    using string_table_add_fits [OF assms(1) _ assms(3)] assms(2) by auto
  have "em_size (em\<lparr>e_strings := t\<rparr>) + 1 < 2 ^ 32" using 1(3) assms(2) by simp
  from string_table_add_fits [OF 1(2) this assms(4)] obtain j u where
    2: "string_table_add t v = Some (j, u)" "em_ok (em\<lparr>e_strings := u\<rparr>)"
    "em_size (em\<lparr>e_strings := u\<rparr>) \<le> em_size em + 2" using 1(3) by auto
  have "\<exists>m. metadata_add (e_metadata em) i j = Some m \<and>
      length (mt_items m) = length (mt_items (e_metadata em)) + 1"
    using vm_grow_total [of "length (mt_items (e_metadata em)) + 1" "mt_capacity (e_metadata em)"] assms(5)
    by (cases "length (mt_items (e_metadata em)) = mt_capacity (e_metadata em)")
      (auto simp: metadata_add_def Let_def)
  then obtain m where m: "metadata_add (e_metadata em) i j = Some m"
    "length (mt_items m) = length (mt_items (e_metadata em)) + 1" by blast
  have "em_le em (em\<lparr>e_strings := t\<rparr>)" "em_le (em\<lparr>e_strings := t\<rparr>) (em\<lparr>e_strings := u\<rparr>)"
    using add_string_le [OF 1(1)] add_string_le [of "em\<lparr>e_strings := t\<rparr>" v j u] 2(1) by simp_all
  then have "em_le em (em\<lparr>e_strings := u, e_metadata := m\<rparr>)"
    by (auto simp: em_le_def)
  with 1(1) 2 m show ?thesis
    by (simp add: emit_meta_entry_def em_ok_def em_size_def)
qed

lemma emit_metadata_total:
  assumes "em_ok em" and "em_size em + 6 < 2 ^ 32" and "mt_items (e_metadata em) = []"
  shows "\<exists>em'. emit_metadata em = Some em' \<and> em_ok em' \<and> em_size em' \<le> em_size em + 6 \<and>
    em_code em' = em_code em \<and> em_le em em' \<and> length (mt_items (e_metadata em')) = 3"
proof -
  obtain em1 where 1: "emit_meta_entry em ''backend'' ''morphl-vm-bytecode'' = Some em1" "em_ok em1"
    "em_size em1 \<le> em_size em + 2" "em_code em1 = em_code em" "em_le em em1"
    "length (mt_items (e_metadata em1)) = 1"
    using meta_entry [OF assms(1), of "''backend''" "''morphl-vm-bytecode''"] assms(2,3) by auto
  obtain em2 where 2: "emit_meta_entry em1 ''format_version'' ''1.0'' = Some em2" "em_ok em2"
    "em_size em2 \<le> em_size em1 + 2" "em_code em2 = em_code em1" "em_le em1 em2"
    "length (mt_items (e_metadata em2)) = 2"
    using meta_entry [OF 1(2), of "''format_version''" "''1.0''"] assms(2) 1(3,6) by auto
  obtain em3 where 3: "emit_meta_entry em2 ''operators'' ''runtime-verbatim'' = Some em3" "em_ok em3"
    "em_size em3 \<le> em_size em2 + 2" "em_code em3 = em_code em2" "em_le em2 em3"
    "length (mt_items (e_metadata em3)) = 3"
    using meta_entry [OF 2(2), of "''operators''" "''runtime-verbatim''"] assms(2) 1(3) 2(3,6) by auto
  have "em_le em em3" using 1(5) 2(5) 3(5) em_le_trans by blast
  with 1 2 3 show ?thesis by (simp add: emit_metadata_def)
qed

lemma push_strings_total:
  "length (b_data f) + length (concat (map string_image items)) \<le> 2 ^ 63 \<Longrightarrow>
     \<exists>f'. push_strings f items = Some f'"
proof (induction items arbitrary: f)
  case (Cons item items)
  have len: "length (string_image item) = 4 + length (take (unat (vs_len item)) (vs_ptr item))"
    by (simp add: string_image_def u32.enc_width)
  obtain f1 where 1: "bytes_push f (u32_le (vs_len item)) = Some f1"
    using bytes_push_total [of f "u32_le (vs_len item)"] Cons.prems len u32.enc_width by auto
  note d1 = bytes_push_data [OF 1]
  obtain f2 where 2: "bytes_push f1 (bytes_of (take (unat (vs_len item)) (vs_ptr item))) = Some f2"
    using bytes_push_total [of f1 "bytes_of (take (unat (vs_len item)) (vs_ptr item))"]
      Cons.prems len d1 u32.enc_width by auto
  have "length (b_data f2) + length (concat (map string_image items)) \<le> 2 ^ 63"
    using Cons.prems len d1 bytes_push_data [OF 2] u32.enc_width by simp
  from Cons.IH [OF this] 1 2 show ?case by (simp add: bytes_push_u32_le_def)
qed simp

lemma push_metadata_total:
  "length (b_data f) + length (concat (map metadata_image items)) \<le> 2 ^ 63 \<Longrightarrow>
     \<exists>f'. push_metadata f items = Some f'"
proof (induction items arbitrary: f)
  case (Cons item items)
  have len: "length (metadata_image item) = 8" by (simp add: metadata_image_def u32.enc_width)
  obtain f1 where 1: "bytes_push f (u32_le (md_key item)) = Some f1"
    using bytes_push_total [of f "u32_le (md_key item)"] Cons.prems len u32.enc_width by auto
  note d1 = bytes_push_data [OF 1]
  obtain f2 where 2: "bytes_push f1 (u32_le (md_value item)) = Some f2"
    using bytes_push_total [of f1 "u32_le (md_value item)"] Cons.prems len d1 u32.enc_width by auto
  have "length (b_data f2) + length (concat (map metadata_image items)) \<le> 2 ^ 63"
    using Cons.prems len d1 bytes_push_data [OF 2] u32.enc_width by simp
  from Cons.IH [OF this] 1 2 show ?case by (simp add: bytes_push_u32_le_def)
qed simp

text \<open>One push of a known prefix of the image.\<close>

lemma push_part:
  assumes "b_data f = pre" and "length (pre @ src) \<le> 2 ^ 63"
  obtains f' where "bytes_push f src = Some f'" "b_data f' = pre @ src"
  using bytes_push_total [of f src] assms bytes_push_data by auto

lemma vm_file_total:
  assumes "length (vm_image em) \<le> 2 ^ 63"
  shows "\<exists>f. vm_file em = Some f"
proof -
  let ?items = "st_items (e_strings em)" and ?meta = "mt_items (e_metadata em)"
  note len = assms [unfolded vm_image_def]
  have magic: "length (bytes_of MORPHL_VM_MAGIC) \<le> 2 ^ 63" by (simp add: MORPHL_VM_MAGIC_def)
  obtain f1 where 1: "bytes_push \<lparr>b_data = [], b_capacity = 0\<rparr> (bytes_of MORPHL_VM_MAGIC) = Some f1"
    using bytes_push_total [of "\<lparr>b_data = [], b_capacity = 0\<rparr>" "bytes_of MORPHL_VM_MAGIC"] magic by auto
  have d1: "b_data f1 = bytes_of MORPHL_VM_MAGIC" using bytes_push_data [OF 1] by simp
  obtain f2 where 2: "bytes_push f1 (u16_le MORPHL_VM_VERSION_MAJOR) = Some f2"
    "b_data f2 = bytes_of MORPHL_VM_MAGIC @ u16_le MORPHL_VM_VERSION_MAJOR"
    by (rule push_part [OF d1, where src = "u16_le MORPHL_VM_VERSION_MAJOR"]) (use len in simp)
  obtain f3 where 3: "bytes_push f2 (u16_le MORPHL_VM_VERSION_MINOR) = Some f3"
    "b_data f3 = b_data f2 @ u16_le MORPHL_VM_VERSION_MINOR"
    by (rule push_part [OF refl, where f = f2 and src = "u16_le MORPHL_VM_VERSION_MINOR"]) (use len 2(2) in simp)
  obtain f4 where 4: "bytes_push f3 (u32_le 0) = Some f4" "b_data f4 = b_data f3 @ u32_le 0"
    by (rule push_part [OF refl, where f = f3 and src = "u32_le 0"]) (use len 2(2) 3(2) in simp)
  obtain f5 where 5: "bytes_push f4 (u32_le (of_nat (length ?items))) = Some f5"
    "b_data f5 = b_data f4 @ u32_le (of_nat (length ?items))"
    by (rule push_part [OF refl, where f = f4 and src = "u32_le (of_nat (length ?items))"]) (use len 2(2) 3(2) 4(2) in simp)
  have "length (b_data f5) + length (concat (map string_image ?items)) \<le> 2 ^ 63"
    using len by (simp add: 2(2) 3(2) 4(2) 5(2))
  then obtain f6 where 6: "push_strings f5 ?items = Some f6" using push_strings_total by blast
  note d6 = push_strings_data [OF 6]
  obtain f7 where 7: "bytes_push f6 (u32_le (of_nat (length ?meta))) = Some f7"
    "b_data f7 = b_data f6 @ u32_le (of_nat (length ?meta))"
    by (rule push_part [OF refl, where f = f6 and src = "u32_le (of_nat (length ?meta))"]) (use len 2(2) 3(2) 4(2) 5(2) d6 in simp)
  have "length (b_data f7) + length (concat (map metadata_image ?meta)) \<le> 2 ^ 63"
    using len by (simp add: 2(2) 3(2) 4(2) 5(2) d6 7(2))
  then obtain f8 where 8: "push_metadata f7 ?meta = Some f8" using push_metadata_total by blast
  note d8 = push_metadata_data [OF 8]
  obtain f9 where 9: "bytes_push f8 (u32_le (of_nat (length (em_code em)))) = Some f9"
    "b_data f9 = b_data f8 @ u32_le (of_nat (length (em_code em)))"
    by (rule push_part [OF refl, where f = f8 and src = "u32_le (of_nat (length (em_code em)))"]) (use len 2(2) 3(2) 4(2) 5(2) d6 7(2) d8 in simp)
  obtain f10 where 10: "bytes_push f9 (em_code em) = Some f10"
    by (rule push_part [OF refl, where f = f9 and src = "em_code em"])
      (use len 2(2) 3(2) 4(2) 5(2) d6 7(2) d8 9(2) in simp)
  from 1 2(1) 3(1) 4(1) 5(1) 6 7(1) 8 9(1) 10 show ?thesis
    by (simp add: vm_file_def bytes_push_u16_le_def bytes_push_u32_le_def)
qed

lemma image_length:
  assumes "em_ok em" and "em_size em < 2 ^ 30" and "length (mt_items (e_metadata em)) = 3"
  shows "length (vm_image em) \<le> 2 ^ 63"
proof -
  have s: "length (string_image item) \<le> 2 ^ 32 + 4" for item
  proof -
    have "unat (vs_len item) < 2 ^ 32" by (rule order_less_le_trans [OF unsigned_less]) simp
    then show ?thesis by (simp add: string_image_def u32.enc_width)
  qed
  have "length (concat (map string_image items)) \<le> length items * (2 ^ 32 + 4)" for items
  proof (induction items)
    case (Cons item items)
    then show ?case using s [of item] by simp
  qed simp
  then have "length (concat (map string_image (em_items em))) \<le> length (em_items em) * (2 ^ 32 + 4)"
    by blast
  moreover have "length (concat (map metadata_image items)) = 8 * length items" for items
    by (induction items) (simp_all add: metadata_image_def u32.enc_width)
  ultimately show ?thesis
    using assms(2,3)
    by (simp add: vm_image_def MORPHL_VM_MAGIC_def u32.enc_width u16.enc_width em_size_def)
qed

text \<open>The bytes written are the image of an emitter that holds the tree's code and then \<open>HALT\<close>.\<close>

definition tree_size :: "ast option \<Rightarrow> nat" where
  "tree_size tree = (case tree of None \<Rightarrow> 1 | Some n \<Rightarrow> node_count n)"

definition program_ok :: "intern_table option \<Rightarrow> ast option \<Rightarrow> bool" where
  "program_ok interns tree \<longleftrightarrow>
     11 * tree_size tree + 7 < 2 ^ 30 \<and> (case tree of None \<Rightarrow> True | Some n \<Rightarrow> tree_ok interns n)"

lemma emit_tree_fits:
  "program_ok interns tree \<Longrightarrow> e_interns em = interns \<Longrightarrow>
     fits em (11 * tree_size tree) (emit_tree em tree)"
  using fits_mono [OF fits_opcode, of 11 em VM_OP_PUSH_NULL]
  by (cases tree) (auto simp: program_ok_def tree_size_def emit_tree_def intro: emit_node_fits)

text \<open>Lowering the tree leaves the metadata alone.\<close>

lemma emit_named_metadata: "emit_named em op name = Some em' \<Longrightarrow> e_metadata em' = e_metadata em"
  by (auto simp: emit_named_def Option.bind_eq_Some_conv dest!: emit_opcode_u32_eq(3))

lemma emit_nodes_metadata_lift:
  "(\<And>c em em'. c \<in> set cs \<Longrightarrow> emit_node em c = Some em' \<Longrightarrow> e_metadata em' = e_metadata em) \<Longrightarrow>
     emit_nodes em cs = Some em' \<Longrightarrow> e_metadata em' = e_metadata em"
proof (induction cs arbitrary: em)
  case (Cons c cs)
  then obtain em1 where "emit_node em c = Some em1" "emit_nodes em1 cs = Some em'"
    by (auto simp: Option.bind_eq_Some_conv)
  with Cons show ?case by (metis list.set_intros)
qed simp

lemma emit_node_metadata: "emit_node em n = Some em' \<Longrightarrow> e_metadata em' = e_metadata em"
proof (induction n arbitrary: em em')
  case (AstNode kind op v cs cap fn row col)
  have nodes: "emit_nodes em cs = Some em1 \<Longrightarrow> e_metadata em1 = e_metadata em" for em em1
    using AstNode.IH by (rule emit_nodes_metadata_lift)
  have kids: "c \<in> set cs \<Longrightarrow> emit_node em c = Some em1 \<Longrightarrow> e_metadata em1 = e_metadata em" for c em em1
    using AstNode.IH .
  show ?case
    using AstNode.prems
    by (cases kind)
      (auto simp: Let_def Option.bind_eq_Some_conv emit_set_slot_def split: if_splits list.splits prod.splits
        dest!: emit_named_metadata emit_opcode_u32_eq(3) emit_opcode_eq(3) emit_u32_eq(3) nodes
        dest: kids [rotated])
qed

lemma emit_tree_metadata: "emit_tree em tree = Some em' \<Longrightarrow> e_metadata em' = e_metadata em"
  by (cases tree) (auto simp: emit_tree_def dest: emit_opcode_eq(3) emit_node_metadata)

definition ref_tree :: "intern_table option \<Rightarrow> ast option \<Rightarrow> ref_state \<Rightarrow> ref_result" where
  "ref_tree interns tree s =
     (case tree of None \<Rightarrow> ref_push (VmValue VM_VALUE_NULL None []) s | Some n \<Rightarrow> ref_node interns n s)"

lemma emit_tree_sim:
  assumes "emit_tree em tree = Some em'" and "program_ok (e_interns em) tree"
  shows "sim em em' (ref_tree (e_interns em) tree)"
proof (cases tree)
  case None
  with assms sim_null [of em em'] show ?thesis
    by (auto simp: emit_tree_def ref_tree_def intro: sim_ext)
next
  case (Some n)
  then have "node_count n < 2 ^ 32" using assms(2) by (simp add: program_ok_def tree_size_def)
  with assms(1) Some emit_node_sim [of em n em'] show ?thesis
    by (auto simp: emit_tree_def ref_tree_def intro: sim_ext)
qed

lemma run_halt:
  assumes "prog_has prog em2" and "emit_opcode em1 VM_OP_HALT = Some em2" and "vm_ip vm = length (em_code em1)"
  shows "vm_run prog vm = Exit 0 []"
proof -
  note f = fetch_opcode [OF assms(1) emit_opcode_eq(1) [OF assms(2)] assms(3)]
  with vm_step_opcode(1) [OF f(2) refl] show ?thesis by (simp add: vm_run.simps [of prog vm])
qed

lemma back_end_correct:
  assumes ok: "program_ok interns tree"
  shows "\<exists>bytes. morphl_backend_func_vm tree interns = Some bytes \<and>
    morphl_vm_run_file (Some bytes) = ref_program interns tree"
proof -
  let ?em = "empty_emitter interns"
  have e: "em_ok ?em" "em_size ?em = 0" "e_interns ?em = interns" "mt_items (e_metadata ?em) = []"
    "em_code ?em = []"
    by (simp_all add: empty_emitter_def em_ok_def em_size_def)
  have small: "11 * tree_size tree + 7 < 2 ^ 30" using ok by (simp add: program_ok_def)
  obtain em1 where 1: "emit_tree ?em tree = Some em1" "em_ok em1" "em_size em1 \<le> 11 * tree_size tree"
    using emit_tree_fits [OF ok e(3)] e(1,2) small by (auto simp: fits_def)
  obtain em2 where 2: "emit_opcode em1 VM_OP_HALT = Some em2" "em_ok em2" "em_size em2 \<le> em_size em1 + 1"
    using fits_opcode [of em1 VM_OP_HALT] 1(2,3) small by (auto simp: fits_def)
  have "e_metadata em1 = e_metadata ?em"
    using emit_tree_metadata [OF 1(1)] .
  then have "mt_items (e_metadata em2) = []" using emit_opcode_eq(3) [OF 2(1)] e(4) by simp
  then obtain em3 where 3: "emit_metadata em2 = Some em3" "em_ok em3" "em_size em3 \<le> em_size em2 + 6"
    "em_code em3 = em_code em2" "em_le em2 em3" "length (mt_items (e_metadata em3)) = 3"
    using emit_metadata_total [OF 2(2)] 1(3) 2(3) small by auto
  have size3: "em_size em3 < 2 ^ 30" using 1(3) 2(3) 3(3) small by simp
  obtain f where f: "vm_file em3 = Some f" "b_data f = vm_image em3"
    using vm_file_total [OF image_length [OF 3(2) size3 3(6)]] vm_file_image by blast
  have bytes: "morphl_backend_func_vm tree interns = Some (vm_image em3)"
    using 1(1) 2(1) 3(1) f by (simp add: morphl_backend_func_vm_def)
  let ?prog = "\<lparr>p_version_major = MORPHL_VM_VERSION_MAJOR, p_version_minor = MORPHL_VM_VERSION_MINOR,
      p_strings = map (\<lambda>item. c_str (vs_ptr item)) (em_items em3), p_code = em_code em3\<rparr>"
  have len: "\<forall>item\<in>set (em_items em3). unat (vs_len item) = length (vs_ptr item)"
    using 3(2) by (simp add: em_ok_def)
  have "morphl_vm_program_load (Some (vm_image em3)) = Some ?prog"
    using load_image [of em3] size3 3(6) len by (simp add: em_size_def cong: map_cong)
  moreover have "em_code em3 \<noteq> []"
    using 3(4) emit_opcode_eq(1) [OF 2(1)] by simp
  ultimately have run: "morphl_vm_run_file (Some (vm_image em3)) =
      vm_run ?prog (vm_init_call_frame morphl_vm_new)"
    by (simp add: morphl_vm_run_file_def morphl_vm_execute_def)
  have has3: "prog_has ?prog em3"
    using size3 len by (auto simp: prog_has_def texts_small_def em_size_def)
  then have has2: "prog_has ?prog em2" using 3(5) by (rule prog_has_le)
  then have has1: "prog_has ?prog em1" using emit_opcode_le [OF 2(1)] by (rule prog_has_le)
  have v: "view (vm_init_call_frame morphl_vm_new) = ([], Map.empty, 1)"
    "vm_ip (vm_init_call_frame morphl_vm_new) = 0"
    by (simp_all add: view_def vm_init_call_frame_def morphl_vm_new_def)
  have "reaches ?prog (vm_init_call_frame morphl_vm_new) (length (em_code em1))
      (ref_tree interns tree ([], Map.empty, 1))"
  proof -
    have "sim ?em em1 (ref_tree interns tree)" using emit_tree_sim [OF 1(1)] ok e(3) by simp
    then show ?thesis
      using sim_def [THEN iffD1, rule_format, OF _ has1 _ v(1)] v(2) e(5) by simp
  qed
  then have "vm_run ?prog (vm_init_call_frame morphl_vm_new) = ref_program interns tree"
    using run_halt [OF has2 2(1)]
    by (auto simp: reaches_def ref_program_def ref_tree_def split: sum.splits option.splits)
  with bytes run show ?thesis by simp
qed

end
