(* ===== verification/Vm_Properties.thy ===== *)
theory Vm_Properties
  imports Vm_Correct
begin

text \<open>
  What the bytecode back end and the virtual machine promise together: files that load back, cut
  files that are refused, running that agrees with the reference semantics, and the arithmetic a
  program of decimal literals computes.
\<close>

section \<open>Compiler correctness\<close>

text \<open>C1: the bytecode back end is correct.  For every tree of fewer than about 97 million nodes
  whose texts are shorter than \<open>2 ^ 32\<close> bytes and whose \<open>$ret\<close> nodes have an operand, lowering
  succeeds and running the written file has exactly the outcome, exit code and messages, of the
  reference semantics of the tree.\<close>

theorem vm_backend_correct:
  assumes "program_ok interns tree"
  shows "\<exists>bytes. morphl_backend_func_vm tree interns = Some bytes \<and>
    morphl_vm_run_file (Some bytes) = ref_program interns tree"
  using back_end_correct [OF assms] .

theorem vm_backend_correct_witness:
  "\<exists>bytes. morphl_backend_func_vm (Some (AstNode AST_LITERAL 0 (Some ''7'') [] 0 None 0 0)) None = Some bytes \<and>
    morphl_vm_run_file (Some bytes) = Exit 0 []"
proof -
  let ?n = "AstNode AST_LITERAL 0 (Some ''7'') [] 0 None 0 0"
  have "program_ok None (Some ?n)"
    by (simp add: program_ok_def tree_size_def tree_ok_def node_ok_def node_op_name_def)
  moreover have "ref_program None (Some ?n) = Exit 0 []"
    by (simp add: ref_program_def ref_push_def Let_def)
  ultimately show ?thesis using vm_backend_correct [of None "Some ?n"] by metis
qed

section \<open>Sums of decimal literals\<close>

datatype sum_expr = Num nat | Plus sum_expr sum_expr

fun sum_value :: "sum_expr \<Rightarrow> nat" where
  "sum_value (Num n) = n"
| "sum_value (Plus a b) = sum_value a + sum_value b"

fun sum_size :: "sum_expr \<Rightarrow> nat" where
  "sum_size (Num n) = 1"
| "sum_size (Plus a b) = sum_size a + sum_size b + 1"

text \<open>
  The trees of these sums for the operator symbol given.  The parsers leave the kind of the token in a
  literal's operator, and a position in nodes read with a grammar: these fields are arbitrary.
\<close>

inductive sum_tree :: "nat \<Rightarrow> ast \<Rightarrow> sum_expr \<Rightarrow> bool" for add where
  number: "sum_tree add (AstNode AST_LITERAL kind (Some (nat_str n)) [] cap fn row col) (Num n)"
| plus: "sum_tree add x a \<Longrightarrow> sum_tree add y b \<Longrightarrow>
    sum_tree add (AstNode AST_BUILTIN add None [x, y] cap fn row col) (Plus a b)"

lemma node_count_sum_tree: "sum_tree add x e \<Longrightarrow> node_count x = sum_size e"
  by (induction rule: sum_tree.induct) auto

lemma no_null_nat_str: "c_str (nat_str n) = nat_str n"
proof -
  have "digit_char d \<noteq> CHR 0x00" if "d < 10" for d
    using digit_char_facts(1) [OF that] by (auto simp: isdigit_def)
  then have "\<forall>c\<in>set (nat_str n). c \<noteq> CHR 0x00"
    using nat_str_digits [of n] by metis
  then show ?thesis by (simp add: c_str_def takeWhile_eq_all_conv)
qed

lemma nat_str_short: "n < 2 ^ 53 \<Longrightarrow> length (nat_str n) \<le> 16"
  using nat_str_length [of n 15] by simp

lemma literal_number:
  "n < 2 ^ 53 \<Longrightarrow> vm_value_to_number (VmValue VM_VALUE_LITERAL (Some (nat_str n)) []) = Some (Fin False n 0)"
  by (simp add: vm_value_to_number_def strtod_nat_str)

definition sum_ops :: "intern_table \<Rightarrow> nat \<Rightarrow> nat \<Rightarrow> bool" where
  "sum_ops t ret add \<longleftrightarrow>
     reachable_table t \<and> interns_lookup t ret = Some ''$ret'' \<and> interns_lookup t add = Some ''$add''"

lemma sum_op_names:
  assumes "sum_ops t ret add"
  shows "n_op n = add \<Longrightarrow> node_op_name (Some t) n = Some ''$add''"
    and "n_op n = ret \<Longrightarrow> node_op_name (Some t) n = Some ''$ret''"
  using assms by (auto simp: sum_ops_def node_op_name_def interns_lookup_def split: if_splits)

text \<open>Names are short: their bytes are in the 64 KiB arena of the table.\<close>

lemma lookup_short:
  assumes "table_inv t" and "interns_lookup t sy = Some b"
  shows "length b < 65536"
proof -
  have "b \<in> set (t_index t)" using assms(2) by (auto simp: interns_lookup_def Let_def split: if_splits)
  then have "length b + 1 \<le> bytes_used (t_index t)" unfolding bytes_used_def by (auto intro: member_le_sum_list)
  with assms(1) show ?thesis by (simp add: table_inv_def)
qed

lemma op_name_short: "table_inv t \<Longrightarrow> str_len (node_op_name (Some t) n) < 2 ^ 32"
  by (cases "interns_lookup t (n_op n)") (auto simp: node_op_name_def str_len_def dest!: lookup_short)

lemma sum_tree_runs:
  assumes "sum_ops t ret add" and "sum_tree add x e" and "sum_value e < 2 ^ 53"
  shows "ref_node (Some t) x (st, sl, k) =
    Inr (VmValue VM_VALUE_LITERAL (Some (nat_str (sum_value e))) [] # st, sl, k)"
  using assms(2,3)
proof (induction arbitrary: st rule: sum_tree.induct)
  case (number kind n cap fn row col)
  then show ?case by (simp add: ref_push_def leaf_value_def no_null_nat_str)
next
  case (plus x a y b cap fn row col)
  then have ab: "sum_value a < 2 ^ 53" "sum_value b < 2 ^ 53" "sum_value a + sum_value b < 2 ^ 53"
    by auto
  have len: "nat_str (sum_value a + sum_value b) \<noteq> []" "length (nat_str (sum_value a + sum_value b)) \<le> 16"
    using nat_str_short [OF ab(3)] by auto
  have "ref_sum (Fin False (sum_value a) 0) (Fin False (sum_value b) 0) =
      Some (nat_str (sum_value a + sum_value b))"
    using len unfolding ref_sum_def double_add_int [OF ab(3)] format_nat [OF ab(3)] by simp
  then have "ref_add (VmValue VM_VALUE_LITERAL (Some (nat_str (sum_value b))) [] #
        VmValue VM_VALUE_LITERAL (Some (nat_str (sum_value a))) [] # st, sl, k) =
      Inr (VmValue VM_VALUE_LITERAL (Some (nat_str (sum_value a + sum_value b))) [] # st, sl, k)"
    by (simp add: ref_add_def ref_resolve_def literal_number [OF ab(1)] literal_number [OF ab(2)])
  moreover have "c_str ''$add'' = ''$add''" by (simp add: c_str_def)
  ultimately show ?case
    using plus.IH ab
    by (simp add: sum_op_names [OF assms(1)] is_compile_time_operator_def compile_time_ops_def
        str_eq_iff ref_bind_def ref_operator_def Let_def del: power_numeral)
qed

lemma sum_tree_ok:
  assumes "sum_ops t ret add" and "sum_tree add x e" and "sum_value e < 2 ^ 53"
  shows "tree_ok (Some t) x"
  using assms(2,3)
proof (induction rule: sum_tree.induct)
  case (number kind n cap fn row col)
  have "table_inv t" using assms(1) by (simp add: sum_ops_def reachable_table_inv)
  with number nat_str_short [of n] op_name_short show ?case
    by (simp add: tree_ok_def node_ok_def str_len_def)
next
  case (plus x a y b cap fn row col)
  then show ?case
    using sum_op_names(1) [OF assms(1)] by (simp add: tree_ok_node node_ok_def str_len_def)
qed

lemma ret_tree_ok:
  assumes "sum_ops t ret add" and "sum_tree add x e" and "sum_value e < 2 ^ 53" and "sum_size e < 97000000"
  shows "program_ok (Some t) (Some (AstNode AST_BUILTIN ret None [x] cap fn row col))"
proof -
  have "tree_ok (Some t) (AstNode AST_BUILTIN ret None [x] cap fn row col)"
    using sum_tree_ok [OF assms(1-3)] sum_op_names(2) [OF assms(1)] by (simp add: tree_ok_node node_ok_def str_len_def)
  moreover have "tree_size (Some (AstNode AST_BUILTIN ret None [x] cap fn row col)) = sum_size e + 1"
    using node_count_sum_tree [OF assms(2)] by (simp add: tree_size_def)
  ultimately show ?thesis using assms(4) by (simp add: program_ok_def)
qed

lemma ret_tree_runs:
  assumes "sum_ops t ret add" and "sum_tree add x e" and "sum_value e < 2 ^ 53"
  shows "ref_program (Some t) (Some (AstNode AST_BUILTIN ret None [x] cap fn row col)) =
    (if sum_value e \<le> 255 then Exit (int (sum_value e)) []
     else Exit 1 [report_error ''invalid exit code (must be a number between 0 and 255)''])"
proof -
  have "ref_ret ([VmValue VM_VALUE_LITERAL (Some (nat_str (sum_value e))) []], Map.empty, 1) =
    Inl (if sum_value e \<le> 255 then Exit (int (sum_value e)) []
     else Exit 1 [report_error ''invalid exit code (must be a number between 0 and 255)''])"
    unfolding ref_ret_def using literal_number [OF assms(3)] double_255(1) [OF assms(3)] double_255(2)
    by (simp del: double_gt_255.simps double_to_int.simps)
  then show ?thesis
    using sum_tree_runs [OF assms, of "[]" Map.empty 1]
    by (simp add: ref_program_def sum_op_names(2) [OF assms(1)]
        is_compile_time_operator_def compile_time_ops_def str_eq_iff ref_bind_def del: One_nat_def)
qed

text \<open>C25: a program computes what it says.  A tree of \<open>$ret\<close> applied to a nest of \<open>$add\<close>s over decimal
  literals, of fewer than 97 million nodes and with a sum below \<open>2 ^ 53\<close>, compiled to a file and run,
  exits with the sum when the sum is at most 255, and with code 1 and the range message otherwise: the
  text of every intermediate sum reads back as the same number.\<close>

theorem vm_computes_sums:
  assumes "sum_ops t ret add" and "sum_tree add x e" and "sum_value e < 2 ^ 53" and "sum_size e < 97000000"
  shows "\<exists>bytes. morphl_backend_func_vm (Some (AstNode AST_BUILTIN ret None [x] cap fn row col)) (Some t) = Some bytes \<and>
    morphl_vm_run_file (Some bytes) =
      (if sum_value e \<le> 255 then Exit (int (sum_value e)) []
       else Exit 1 [report_error ''invalid exit code (must be a number between 0 and 255)''])"
  using back_end_correct [OF ret_tree_ok [OF assms, of cap fn row col]]
    ret_tree_runs [OF assms(1-3), of cap fn row col] by simp

lemma example_sum_ops: "\<exists>t. sum_ops t 1 2"
proof -
  let ?a = "interns_intern interns_new (Some ''$ret'')"
  let ?t = "snd ?a"
  let ?b = "interns_intern ?t (Some ''$add'')"
  have a: "fst ?a = 1" "t_index ?t = [''$ret'']"
    using interns_intern_refines(2) [OF interns_new_inv, of "''$ret''"]
    by (simp_all add: intern_spec_def interns_new_eq bytes_used_def)
  have inv: "table_inv ?t" by (intro st.intern_inv interns_new_inv)
  have "t_index (snd ?b) = [''$ret'', ''$add'']"
    using interns_intern_refines(2) [OF inv, of "''$add''"]
    by (simp add: a intern_spec_def bytes_used_def)
  moreover have "reachable_table (snd ?b)" by (intro rt_intern rt_new)
  ultimately have "sum_ops (snd ?b) 1 2" by (simp add: sum_ops_def interns_lookup_def Let_def)
  then show ?thesis ..
qed

theorem vm_computes_sums_witness:
  "\<exists>t bytes. morphl_backend_func_vm (Some (AstNode AST_BUILTIN 1 None
      [AstNode AST_BUILTIN 2 None
        [AstNode AST_LITERAL 9 (Some ''40'') [] 0 None 0 0, AstNode AST_LITERAL 9 (Some ''2'') [] 0 None 0 0] 0 None 0 0]
      0 None 0 0)) (Some t) = Some bytes \<and>
    morphl_vm_run_file (Some bytes) = Exit 42 []"
proof -
  obtain t where t: "sum_ops t 1 2" using example_sum_ops ..
  have "nat_str 40 = ''40''" "nat_str 2 = ''2''" by code_simp+
  then have "sum_tree 2 (AstNode AST_BUILTIN 2 None
      [AstNode AST_LITERAL 9 (Some ''40'') [] 0 None 0 0, AstNode AST_LITERAL 9 (Some ''2'') [] 0 None 0 0] 0 None 0 0)
      (Plus (Num 40) (Num 2))"
    using sum_tree.plus [OF sum_tree.number [of 2 9 40] sum_tree.number [of 2 9 2]] by simp
  from vm_computes_sums [OF t this, of 0 None 0 0] show ?thesis by auto
qed

section \<open>Files\<close>

text \<open>Reading a cut file: what a read finds there it finds in the whole file.\<close>

lemma read_take:
  "read_u16 (take k bytes) off = Some x \<Longrightarrow> read_u16 bytes off = Some x"
  "read_u32 (take k bytes) off = Some y \<Longrightarrow> read_u32 bytes off = Some y"
  by (auto simp: read_u16_def read_u32_def split: if_splits)

lemma load_strings_take:
  "load_strings (take k bytes) off n = Some r \<Longrightarrow> load_strings bytes off n = Some r"
proof (induction bytes off n arbitrary: r rule: load_strings.induct)
  case (2 bytes off n)
  then obtain len off1 where u: "read_u32 (take k bytes) off = Some (len, off1)"
    by (auto split: option.splits)
  have fit: "off1 + unat len \<le> min (length bytes) k"
    using 2(2) u by (auto split: if_splits option.splits)
  obtain ss off' where rest: "load_strings (take k bytes) (off1 + unat len) n = Some (ss, off')"
    using 2(2) u fit by (auto split: if_splits option.splits)
  have "load_strings bytes (off1 + unat len) n = Some (ss, off')"
    using 2(1) [OF read_take(2) [OF u] refl _ rest] fit by simp
  moreover have "take (unat len) (drop off1 (take k bytes)) = take (unat len) (drop off1 bytes)"
    using min_absorb1 [of "unat len" "k - off1"] fit by (simp add: drop_take le_diff_conv2)
  ultimately show ?case using 2(2) u rest fit read_take(2) [OF u] by simp
qed simp

lemma skip_metadata_take:
  "skip_metadata (take k bytes) off n = Some r \<Longrightarrow> skip_metadata bytes off n = Some r"
  by (induction bytes off n arbitrary: r rule: skip_metadata.induct)
    (auto split: option.splits dest!: read_take)
lemma load_take_image:
  assumes "length (st_items (e_strings em)) < 2 ^ 32" and "length (mt_items (e_metadata em)) < 2 ^ 32"
    and "length (b_data (e_code em)) < 2 ^ 32"
    and "\<forall>item\<in>set (st_items (e_strings em)). unat (vs_len item) \<le> length (vs_ptr item)"
    and cut: "k < length (vm_image em)"
  shows "morphl_vm_program_load (Some (take k (vm_image em))) = None"
proof -
  let ?b = "vm_image em"
  have un: "unat (of_nat n :: 32 word) = n" if "n < 2 ^ 32" for n
    using that by (simp add: unat_of_nat)
  obtain o1 o2 where im: "read_u16 ?b 4 = Some (MORPHL_VM_VERSION_MAJOR, 6)"
      "read_u16 ?b 6 = Some (MORPHL_VM_VERSION_MINOR, 8)" "read_u32 ?b 8 = Some (0, 12)"
      "read_u32 ?b 12 = Some (of_nat (length (st_items (e_strings em))), 16)"
      "load_strings ?b 16 (length (st_items (e_strings em))) =
        Some (map (\<lambda>item. c_str (take (unat (vs_len item)) (vs_ptr item))) (st_items (e_strings em)), o1)"
      "read_u32 ?b o1 = Some (of_nat (length (mt_items (e_metadata em))), o1 + 4)"
      "skip_metadata ?b (o1 + 4) (length (mt_items (e_metadata em))) = Some o2"
      "read_u32 ?b o2 = Some (of_nat (length (b_data (e_code em))), o2 + 4)"
      "o2 + 4 + length (b_data (e_code em)) = length ?b"
    using image_fields [OF assms(4)] by blast
  show ?thesis
  proof (rule ccontr)
    assume "morphl_vm_program_load (Some (take k ?b)) \<noteq> None"
    then obtain p where "morphl_vm_program_load (Some (take k ?b)) = Some p" by blast
    then obtain o5 where "o5 + length (b_data (e_code em)) \<le> k" "o5 = o2 + 4"
      using cut
      by (auto simp: morphl_vm_program_load_def Option.bind_eq_Some_conv im un [OF assms(1)] un [OF assms(2)]
          un [OF assms(3)] split: if_splits dest!: read_take load_strings_take skip_metadata_take)
    then show False using im(9) cut by simp
  qed
qed

text \<open>C18: files load back, and cut files are refused.  A file the back end writes, from any emitter
  with fewer than \<open>2 ^ 32\<close> strings, metadata entries and code bytes, loads as the program with the
  emitter's texts (up to a first NUL) and its code; every proper prefix of it is refused.\<close>

theorem vm_file_loads_or_is_refused:
  assumes "vm_file em = Some out_file"
    and "length (st_items (e_strings em)) < 2 ^ 32" and "length (mt_items (e_metadata em)) < 2 ^ 32"
    and "length (b_data (e_code em)) < 2 ^ 32"
    and "\<forall>item\<in>set (st_items (e_strings em)). unat (vs_len item) \<le> length (vs_ptr item)"
  shows "morphl_vm_program_load (Some (take k (b_data out_file))) =
    (if k < length (b_data out_file) then None
     else Some \<lparr>p_version_major = MORPHL_VM_VERSION_MAJOR, p_version_minor = MORPHL_VM_VERSION_MINOR,
      p_strings = map (\<lambda>item. c_str (take (unat (vs_len item)) (vs_ptr item))) (st_items (e_strings em)),
      p_code = b_data (e_code em)\<rparr>)"
  using load_take_image [OF assms(2-5), of k] load_image [OF assms(2-5)] vm_file_image [OF assms(1)]
  by simp

theorem vm_file_loads_or_is_refused_witness:
  "\<exists>out_file. vm_file (empty_emitter None) = Some out_file \<and>
     morphl_vm_program_load (Some (take 23 (b_data out_file))) = None \<and>
     morphl_vm_program_load (Some (take 24 (b_data out_file))) =
       Some \<lparr>p_version_major = 1, p_version_minor = 0, p_strings = [], p_code = []\<rparr>"
proof -
  obtain out_file where f: "vm_file (empty_emitter None) = Some out_file"
    using vm_file_total [of "empty_emitter None"]
    by (auto simp: vm_image_def empty_emitter_def MORPHL_VM_MAGIC_def u32_le_def u16_le_def)
  have "length (b_data out_file) = 24"
    using vm_file_image [OF f] by (simp add: vm_image_def empty_emitter_def MORPHL_VM_MAGIC_def u32_le_def u16_le_def)
  with f vm_file_loads_or_is_refused [OF f, of 23] vm_file_loads_or_is_refused [OF f, of 24]
  show ?thesis
    by (simp add: empty_emitter_def MORPHL_VM_VERSION_MAJOR_def MORPHL_VM_VERSION_MINOR_def)
qed

section \<open>Calls\<close>

text \<open>Call frames are never left: no instruction that continues removes one.\<close>

lemma frames_kept:
  "payload prog vm = Some (w, vm1) \<Longrightarrow> vm_frames vm1 = vm_frames vm"
  "vm_stack_pop vm = Some (v, vm1) \<Longrightarrow> vm_frames vm1 = vm_frames vm"
  "vm_frames (vm_stack_push vm v) = vm_frames vm" "vm_frames (vm_set_slot vm name v) = vm_frames vm"
  by (auto simp: payload_def vm_stack_pop_def vm_stack_push_def vm_set_slot_def
      split: option.splits list.splits)

lemma frames_operator: "vm_execute_operator vm op = Inr vm1 \<Longrightarrow> vm_frames vm1 = vm_frames vm"
  by (auto simp: vm_execute_operator_def vm_add_def vm_set_def Let_def frames_kept
      split: if_splits option.splits prod.splits dest!: frames_kept(1,2))
lemma frames_step:
  assumes "vm_step prog vm = Continue vm'"
  shows "length (vm_frames vm) \<le> length (vm_frames vm')"
proof -
  let ?vm = "vm\<lparr>vm_ip := Suc (vm_ip vm)\<rparr>"
  have "vm_frames vm' = vm_frames ?vm" if "step_push prog k ?vm = Continue vm'" for k
    using that by (auto simp: step_push_def frames_kept split: option.splits if_splits dest!: frames_kept(1))
  moreover have "vm_frames vm' = vm_frames ?vm" if "step_make_group prog ?vm = Continue vm'"
    using that by (auto simp: step_make_group_def frames_kept split: option.splits if_splits dest!: frames_kept(1))
  moreover have "vm_frames vm' = vm_frames ?vm" if "step_set_slot prog ?vm = Continue vm'"
    using that by (auto simp: step_set_slot_def frames_kept split: option.splits if_splits dest!: frames_kept(1,2))
  moreover have "vm_frames vm' = vm_frames ?vm" if "step_operator prog ?vm = Continue vm'"
    using that by (auto simp: step_operator_def split: option.splits if_splits sum.splits
        dest!: frames_kept(1) frames_operator)
  moreover have "length (vm_frames vm') = length (vm_frames ?vm) + 1" if "step_call prog ?vm = Continue vm'"
    using that by (auto simp: step_call_def vm_call_def split: option.splits dest!: frames_kept(1))
  ultimately show ?thesis
    using assms by (auto simp: vm_step_def Let_def frames_kept split: if_splits)
qed

lemma operator_messages: "vm_execute_operator vm op = Inl messages \<Longrightarrow> messages \<noteq> []"
  by (auto simp: vm_execute_operator_def vm_add_def vm_set_def Let_def
      split: if_splits option.splits prod.splits)

text \<open>What a \<open>RET\<close> in a call reports.\<close>

definition ret_messages :: "morphl_vm \<Rightarrow> string list" where
  "ret_messages vm =
     (if vm_stack vm = []
      then [report_error ''stack underflow while trying to return value'', report_error ''failed to return from function'']
      else [report_error ''unknown opcode''])"

lemma stop_in_call:
  assumes "vm_step prog vm = Stop r" and "length (vm_frames vm) > 1"
  shows "r = Exit 0 [] \<and> p_code prog ! vm_ip vm = VM_OP_HALT \<or> (\<exists>m ms. r = Exit 1 (m # ms))"
proof -
  have "\<exists>m ms. r = Exit 1 (m # ms)" if "step_operator prog v = Stop r" for v
    using that operator_messages
    by (auto simp: step_operator_def neq_Nil_conv split: if_splits option.splits sum.splits; blast)
  moreover have "\<exists>m ms. r = Exit 1 (m # ms)" if "r = step_ret (vm\<lparr>vm_ip := Suc (vm_ip vm)\<rparr>)"
    using that assms(2) by (auto simp: step_ret_def vm_return_def split: option.splits sum.splits list.splits)
  ultimately show ?thesis
    using assms(1)
    by (auto simp: vm_step_def Let_def step_push_def step_make_group_def step_set_slot_def step_call_def
        split: if_splits option.splits)
qed

lemma ret_in_call:
  assumes "p_code prog ! vm_ip vm = VM_OP_RET" and "length (vm_frames vm) > 1"
  shows "vm_step prog vm = Stop (Exit 1 (ret_messages vm))"
  using assms
  by (auto simp: vm_step_def Let_def opcodes step_ret_def vm_return_def ret_messages_def vm_stack_pop_def
      split: list.splits)

text \<open>The machines a run goes through.\<close>

inductive vm_leads :: "vm_program \<Rightarrow> morphl_vm \<Rightarrow> morphl_vm \<Rightarrow> bool" for prog where
  vm_here: "vm_leads prog vm vm"
| vm_on: "vm_ip vm < length (p_code prog) \<Longrightarrow> vm_step prog vm = Continue vm1 \<Longrightarrow> vm_leads prog vm1 vm' \<Longrightarrow>
    vm_leads prog vm vm'"

lemma vm_leads_run: "vm_leads prog vm vm' \<Longrightarrow> vm_run prog vm = vm_run prog vm'"
proof (induction rule: vm_leads.induct)
  case (vm_on vm vm1 vm')
  then show ?case by (simp add: vm_run.simps [of prog vm])
qed simp

lemma vm_leads_frames: "vm_leads prog vm vm' \<Longrightarrow> length (vm_frames vm) \<le> length (vm_frames vm')"
proof (induction rule: vm_leads.induct)
  case (vm_on vm vm1 vm')
  from frames_step [OF vm_on(2)] vm_on.IH show ?case by simp
qed simp

lemma run_in_call:
  assumes "length (vm_frames vm) > 1"
  shows "vm_run prog vm = Exit 0 [] \<and>
      (\<exists>h. vm_leads prog vm h \<and> vm_ip h < length (p_code prog) \<and> p_code prog ! vm_ip h = VM_OP_HALT) \<or>
    (\<exists>m ms. vm_run prog vm = Exit 1 (m # ms))"
  using assms
proof (induction prog vm rule: vm_run.induct)
  case (1 prog vm)
  show ?case
  proof (cases "vm_ip vm < length (p_code prog)")
    case True
    show ?thesis
    proof (cases "vm_step prog vm")
      case (Continue vm1)
      then have "vm_run prog vm = vm_run prog vm1" using True by (simp add: vm_run.simps [of prog vm])
      then show ?thesis
        using "1.IH" [OF True Continue] frames_step [OF Continue] "1.prems" vm_on [OF True Continue] by fastforce
    next
      case (Stop r)
      then have "vm_run prog vm = r" using True by (simp add: vm_run.simps [of prog vm])
      with stop_in_call [OF Stop "1.prems"] True vm_here [of prog vm] show ?thesis by blast
    qed
  qed (simp add: vm_run.simps [of prog vm])
qed

text \<open>C27: no function returns a value.  Once a \<open>CALL\<close> has been executed the machine has more than one
  frame, and from such a machine on no frame is ever left.  The first \<open>RET\<close> it comes to ends the run
  with exit code 1 and one message, \<open>unknown opcode\<close>, or, when there is no value to return, with the
  two messages of the underflow; a run ends with exit code 0 only at a \<open>HALT\<close>, and every other run
  with exit code 1 and a message, never with a program's own exit code.\<close>

theorem vm_calls_never_return:
  assumes "length (vm_frames vm) > 1" and "vm_leads prog vm vm'"
  shows "length (vm_frames vm) \<le> length (vm_frames vm') \<and>
    (vm_ip vm' < length (p_code prog) \<and> p_code prog ! vm_ip vm' = VM_OP_RET \<longrightarrow>
       vm_run prog vm = Exit 1 (ret_messages vm')) \<and>
    (vm_run prog vm = Exit 0 [] \<and>
       (\<exists>h. vm_leads prog vm h \<and> vm_ip h < length (p_code prog) \<and> p_code prog ! vm_ip h = VM_OP_HALT) \<or>
     (\<exists>m ms. vm_run prog vm = Exit 1 (m # ms)))"
proof (intro conjI impI)
  show le: "length (vm_frames vm) \<le> length (vm_frames vm')" using vm_leads_frames [OF assms(2)] .
  assume ret: "vm_ip vm' < length (p_code prog) \<and> p_code prog ! vm_ip vm' = VM_OP_RET"
  then have "vm_step prog vm' = Stop (Exit 1 (ret_messages vm'))" using ret_in_call [of prog vm'] le assms(1) by simp
  with ret vm_leads_run [OF assms(2)] show "vm_run prog vm = Exit 1 (ret_messages vm')"
    by (simp add: vm_run.simps [of prog vm'])
qed (rule run_in_call [OF assms(1)])

text \<open>After a call, \<open>PUSH_NULL; RET; HALT\<close>.\<close>

theorem vm_calls_never_return_witness:
  "vm_run \<lparr>p_version_major = 1, p_version_minor = 0, p_strings = [], p_code = [VM_OP_PUSH_NULL, VM_OP_RET, VM_OP_HALT]\<rparr>
     (vm_call (vm_init_call_frame morphl_vm_new) 0) = Exit 1 [report_error ''unknown opcode'']"
proof -
  let ?prog = "\<lparr>p_version_major = 1, p_version_minor = 0, p_strings = [], p_code = [VM_OP_PUSH_NULL, VM_OP_RET, VM_OP_HALT]\<rparr>"
  let ?vm = "vm_call (vm_init_call_frame morphl_vm_new) 0"
  let ?vm' = "vm_stack_push (?vm\<lparr>vm_ip := 1\<rparr>) (VmValue VM_VALUE_NULL None [])"
  have "vm_step ?prog ?vm = Continue ?vm'" by (simp add: vm_step_def Let_def opcodes vm_call_def vm_init_call_frame_def morphl_vm_new_def)
  then have "vm_leads ?prog ?vm ?vm'" by (intro vm_on [OF _ _ vm_here]) (simp_all add: morphl_vm_new_def)
  moreover have "length (vm_frames ?vm) > 1" by (simp add: vm_call_def vm_init_call_frame_def)
  ultimately show ?thesis
    using vm_calls_never_return [of ?vm ?prog ?vm'] by (simp add: ret_messages_def vm_stack_push_def)
qed

end
