(* ===== verification/Diagnostics.thy ===== *)
theory Diagnostics
  imports Morphl_Prelude
begin

text \<open>
  Diagnostics and the file helpers they use: \<open>include/util/error.h\<close>, \<open>src/util/error.c\<close>,
  \<open>src/util/file.c\<close> and the POSIX branches of \<open>src/util/fs.c\<close>.

  The file system is a map from paths to contents.  A sink is what a callback of type
  \<open>MorphlErrorSinkFn\<close> writes for an error; the global sink and the lines written so far are
  the state.  The fields \<open>created_file\<close> and \<open>created_line\<close> (the C source position of the
  error, which no code reads) are left out.
\<close>

section \<open>Severities and codes\<close>

datatype morphl_severity = MORPHL_SEV_NOTE | MORPHL_SEV_WARN | MORPHL_SEV_ERROR | MORPHL_SEV_FATAL

fun sev_value :: "morphl_severity \<Rightarrow> nat" where
  "sev_value MORPHL_SEV_NOTE = 0"
| "sev_value MORPHL_SEV_WARN = 1"
| "sev_value MORPHL_SEV_ERROR = 2"
| "sev_value MORPHL_SEV_FATAL = 3"

lemma sev_value_inj: "sev_value a = sev_value b \<Longrightarrow> a = b"
  by (cases a; cases b) simp_all

text \<open>The enumeration is ordered by its values.\<close>

instantiation morphl_severity :: linorder
begin
definition less_eq_morphl_severity :: "morphl_severity \<Rightarrow> morphl_severity \<Rightarrow> bool" where
  "less_eq_morphl_severity a b \<longleftrightarrow> sev_value a \<le> sev_value b"
definition less_morphl_severity :: "morphl_severity \<Rightarrow> morphl_severity \<Rightarrow> bool" where
  "less_morphl_severity a b \<longleftrightarrow> sev_value a < sev_value b"
instance
  by standard (auto simp: less_eq_morphl_severity_def less_morphl_severity_def intro: sev_value_inj)
end

datatype morphl_err_code = MORPHL_EOK | MORPHL_E_INTERNAL | MORPHL_E_OOM | MORPHL_E_INVALID_ARG
  | MORPHL_E_IO | MORPHL_E_LEX | MORPHL_E_PARSE | MORPHL_E_TYPE | MORPHL_E_SEMA

fun code_value :: "morphl_err_code \<Rightarrow> nat" where
  "code_value MORPHL_EOK = 0"
| "code_value MORPHL_E_INTERNAL = 1"
| "code_value MORPHL_E_OOM = 2"
| "code_value MORPHL_E_INVALID_ARG = 3"
| "code_value MORPHL_E_IO = 4"
| "code_value MORPHL_E_LEX = 1000"
| "code_value MORPHL_E_PARSE = 2000"
| "code_value MORPHL_E_TYPE = 3000"
| "code_value MORPHL_E_SEMA = 4000"

fun sev_str :: "morphl_severity \<Rightarrow> string" where
  "sev_str MORPHL_SEV_NOTE = ''note''"
| "sev_str MORPHL_SEV_WARN = ''warning''"
| "sev_str MORPHL_SEV_ERROR = ''error''"
| "sev_str MORPHL_SEV_FATAL = ''fatal''"

section \<open>Locations and errors\<close>

record morphl_span =
  sp_path :: "string option"
  sp_line :: "32 word"
  sp_col :: "32 word"
  sp_start :: "32 word"
  sp_end :: "32 word"

definition morphl_span_unknown :: morphl_span where
  "morphl_span_unknown = \<lparr>sp_path = None, sp_line = 0, sp_col = 0, sp_start = 0, sp_end = 0\<rparr>"

text \<open>\<open>size_t\<close> positions saturate.\<close>

definition sat32 :: "nat \<Rightarrow> 32 word" where
  "sat32 n = (if n > 2 ^ 32 - 1 then - 1 else of_nat n)"

definition morphl_span_from_loc :: "string option \<Rightarrow> nat \<Rightarrow> nat \<Rightarrow> morphl_span" where
  "morphl_span_from_loc path line col =
     \<lparr>sp_path = path, sp_line = sat32 line, sp_col = sat32 col, sp_start = 0, sp_end = 0\<rparr>"

record morphl_error =
  er_code :: morphl_err_code
  er_sev :: morphl_severity
  er_span :: morphl_span
  er_msg :: string

text \<open>\<open>morphl_error_make\<close> with the formatted text: what fits into \<open>ML_ERRMSG_CAP\<close> bytes.\<close>

definition ML_ERRMSG_CAP :: nat where "ML_ERRMSG_CAP = 256"

definition morphl_error_make ::
    "morphl_err_code \<Rightarrow> morphl_severity \<Rightarrow> morphl_span \<Rightarrow> string \<Rightarrow> morphl_error" where
  "morphl_error_make code sev span formatted =
     \<lparr>er_code = code, er_sev = sev, er_span = span, er_msg = take (ML_ERRMSG_CAP - 1) formatted\<rparr>"

text \<open>A \<open>%.*s\<close> conversion of a string view.\<close>

definition view_text :: "str \<Rightarrow> string" where
  "view_text s = c_str (str_bytes s)"

section \<open>Files\<close>

type_synonym files = "string \<Rightarrow> string option"

text \<open>The buffer (without its terminating NUL) and its length.\<close>

definition morphl_file_read_all :: "files \<Rightarrow> string \<Rightarrow> (string \<times> nat) option" where
  "morphl_file_read_all files path =
     (case files path of None \<Rightarrow> None | Some contents \<Rightarrow> Some (contents, length contents))"

definition newline :: char where "newline = CHR 0x0A"

text \<open>\<open>fgets\<close> with a buffer of 1024 bytes: the chunk it reads, of at most 1023.\<close>

definition fgets_chunk :: "string \<Rightarrow> string" where
  "fgets_chunk s =
     (let i = length (takeWhile (\<lambda>c. c \<noteq> newline) s) in take (min 1023 (i + 1)) s)"

definition strip_newline :: "string \<Rightarrow> string" where
  "strip_newline s = (if s \<noteq> [] \<and> last s = newline then butlast s else s)"

function get_line_loop :: "string \<Rightarrow> nat \<Rightarrow> nat \<Rightarrow> string option" where
  "get_line_loop s current line_number =
     (if s = [] then None
      else if current = line_number then Some (strip_newline (c_str (fgets_chunk s)))
      else get_line_loop (drop (length (fgets_chunk s)) s) (current + 1) line_number)"
  by pat_completeness auto
termination
  by (relation "measure (\<lambda>(s, current, line_number). length s)") (auto simp: fgets_chunk_def Let_def)

declare get_line_loop.simps [simp del]

definition morphl_file_get_line :: "files \<Rightarrow> string \<Rightarrow> nat \<Rightarrow> string option" where
  "morphl_file_get_line files path line_number =
     (if line_number = 0 then None
      else (case files path of None \<Rightarrow> None | Some contents \<Rightarrow> get_line_loop contents 1 line_number))"

section \<open>Formatting and emission\<close>

definition error_text :: "files \<Rightarrow> morphl_error \<Rightarrow> string" where
  "error_text files err =
     (let path = (case sp_path (er_span err) of None \<Rightarrow> ''<unknown>'' | Some p \<Rightarrow> p);
          line = sp_line (er_span err); col = sp_col (er_span err);
          core = sev_str (er_sev err) @ ''['' @ nat_str (code_value (er_code err)) @ '']: '' @ er_msg err
      in
      if line = 0 \<or> col = 0 then path @ '': '' @ core
      else path @ '':'' @ nat_str (unat line) @ '':'' @ nat_str (unat col) @ '': '' @ core @
        [CHR 0x0A, CHR 0x09] @
        (case morphl_file_get_line files path (unat line) of None \<Rightarrow> [] | Some s \<Rightarrow> s))"

text \<open>The returned length and the text in the buffer.\<close>

definition morphl_error_format :: "files \<Rightarrow> morphl_error \<Rightarrow> nat \<Rightarrow> nat \<times> string" where
  "morphl_error_format files err out_cap =
     (if er_code err = MORPHL_EOK \<or> out_cap = 0 then (0, [])
      else (let text = error_text files err in
            (if length text \<ge> out_cap then out_cap - 1 else length text, take (out_cap - 1) text)))"

type_synonym error_sink = "(morphl_error \<Rightarrow> string list) option"

record diagnostics =
  dg_files :: files
  dg_global_sink :: error_sink
  dg_output :: "string list"

definition morphl_error_set_global_sink :: "error_sink \<Rightarrow> diagnostics \<Rightarrow> diagnostics" where
  "morphl_error_set_global_sink sink dg = dg\<lparr>dg_global_sink := sink\<rparr>"

definition morphl_error_get_global_sink :: "diagnostics \<Rightarrow> error_sink" where
  "morphl_error_get_global_sink dg = dg_global_sink dg"

definition fallback_sink :: "files \<Rightarrow> morphl_error \<Rightarrow> string list" where
  "fallback_sink files err = [snd (morphl_error_format files err 512) @ [CHR 0x0A]]"

definition morphl_error_emit :: "error_sink \<Rightarrow> morphl_error \<Rightarrow> diagnostics \<Rightarrow> diagnostics" where
  "morphl_error_emit sink err dg =
     (if er_code err = MORPHL_EOK then dg
      else (let effective = (case sink of None \<Rightarrow> dg_global_sink dg | Some f \<Rightarrow> Some f);
                written = (case effective of None \<Rightarrow> fallback_sink (dg_files dg) err | Some f \<Rightarrow> f err)
            in dg\<lparr>dg_output := dg_output dg @ written\<rparr>))"

section \<open>Paths\<close>

definition MAX_PATH :: nat where "MAX_PATH = 4096"

definition fs_is_relative_path :: "string option \<Rightarrow> bool" where
  "fs_is_relative_path path =
     (case path of None \<Rightarrow> True | Some p \<Rightarrow> p = [] \<or> hd p \<noteq> CHR ''/'')"

text \<open>The source path up to its last slash; all of it when it has none.\<close>

definition source_dir :: "string \<Rightarrow> string" where
  "source_dir p =
     (if CHR ''/'' \<in> set p then rev (tl (dropWhile (\<lambda>c. c \<noteq> CHR ''/'') (rev p))) else p)"

text \<open>
  Paths are C strings.  A path that \<open>strncpy\<close> would leave unterminated (4096 bytes or more,
  read out of bounds in C) has no value in the model: \<open>None\<close>.
\<close>

definition fs_get_absolute_path_from_source :: "string option \<Rightarrow> string option \<Rightarrow> str option" where
  "fs_get_absolute_path_from_source path source_file =
     (case (path, source_file) of
        (Some p, Some src) \<Rightarrow>
          if fs_is_relative_path path then
            if length src \<ge> MAX_PATH then None
            else if length (source_dir src) + length p + 2 > MAX_PATH then Some None
            else Some (Some (source_dir src @ ''/'' @ p))
          else if length p \<ge> MAX_PATH then None
          else Some (Some p)
      | _ \<Rightarrow> Some None)"
section \<open>What the components promise\<close>

text \<open>The lines of a file; a newline at the end of the file opens no further line.\<close>

function lines_of :: "string \<Rightarrow> string list" where
  "lines_of s =
     (if s = [] then []
      else (let line = takeWhile (\<lambda>c. c \<noteq> newline) s in line # lines_of (drop (length line + 1) s)))"
  by pat_completeness auto
termination
  by (relation "measure length") (auto simp: Let_def)

declare lines_of.simps [simp del]

lemma fgets_chunk_short:
  assumes "length (takeWhile (\<lambda>c. c \<noteq> newline) s) < 1023"
  shows "fgets_chunk s = take (length (takeWhile (\<lambda>c. c \<noteq> newline) s) + 1) s"
proof -
  have "min 1023 (length (takeWhile (\<lambda>c. c \<noteq> newline) s) + 1) = length (takeWhile (\<lambda>c. c \<noteq> newline) s) + 1"
    using assms by simp
  then show ?thesis unfolding fgets_chunk_def Let_def by (rule arg_cong)
qed

lemma take_line:
  "take (length (takeWhile (\<lambda>c. c \<noteq> newline) s) + 1) s =
     takeWhile (\<lambda>c. c \<noteq> newline) s @ (if dropWhile (\<lambda>c. c \<noteq> newline) s = [] then [] else [newline])"
proof (cases "dropWhile (\<lambda>c. c \<noteq> newline) s")
  case (Cons c rest)
  then have s: "s = takeWhile (\<lambda>c. c \<noteq> newline) s @ newline # rest"
    using hd_dropWhile [of "\<lambda>c. c \<noteq> newline" s] takeWhile_dropWhile_id [of "\<lambda>c. c \<noteq> newline" s]
    by (metis list.discI list.sel(1))
  have "take (length t + 1) (t @ newline # rest) = t @ [newline]" for t :: string by simp
  with s Cons show ?thesis by (metis list.discI)
next
  case Nil
  then have "takeWhile (\<lambda>c. c \<noteq> newline) s = s"
    using takeWhile_dropWhile_id [of "\<lambda>c. c \<noteq> newline" s] by (metis append_Nil2)
  with Nil show ?thesis by (simp del: takeWhile_eq_all_conv dropWhile_eq_Nil_conv)
qed

lemma strip_line:
  assumes "length (takeWhile (\<lambda>c. c \<noteq> newline) s) < 1023" and "CHR 0x00 \<notin> set s"
  shows "strip_newline (c_str (fgets_chunk s)) = takeWhile (\<lambda>c. c \<noteq> newline) s"
proof -
  let ?l = "takeWhile (\<lambda>c. c \<noteq> newline) s"
  have "CHR 0x00 \<notin> set (fgets_chunk s)"
    using assms(2) by (auto simp: fgets_chunk_def Let_def dest: in_set_takeD)
  then have c: "c_str (fgets_chunk s) = ?l @ (if dropWhile (\<lambda>c. c \<noteq> newline) s = [] then [] else [newline])"
    using c_str_id fgets_chunk_short [OF assms(1)] take_line [of s] by metis
  have "\<forall>x\<in>set ?l. x \<noteq> newline" by (auto dest: set_takeWhileD)
  then have "?l \<noteq> [] \<Longrightarrow> last ?l \<noteq> newline" using last_in_set by blast
  with c show ?thesis by (auto simp: strip_newline_def)
qed

lemma get_line_loop_lines:
  assumes "\<forall>line\<in>set (lines_of s). length line < 1023" and "CHR 0x00 \<notin> set s" and "current \<le> n"
  shows "get_line_loop s current n =
    (if n - current < length (lines_of s) then Some (lines_of s ! (n - current)) else None)"
  using assms
proof (induction s current n rule: get_line_loop.induct)
  case (1 s current n)
  let ?l = "takeWhile (\<lambda>c. c \<noteq> newline) s"
  show ?case
  proof (cases "s = []")
    case False
    then have lines: "lines_of s = ?l # lines_of (drop (length ?l + 1) s)"
      by (simp add: lines_of.simps [of s] Let_def)
    then have short: "length ?l < 1023" using 1(2) by simp
    have rest: "drop (length (fgets_chunk s)) s = drop (length ?l + 1) s"
      using fgets_chunk_short [OF short] by (simp add: min_def)
    have nul: "CHR 0x00 \<notin> set (drop (length ?l + 1) s)" using 1(3) by (meson in_set_dropD)
    have "get_line_loop (drop (length (fgets_chunk s)) s) (current + 1) n =
        (if n - (current + 1) < length (lines_of (drop (length (fgets_chunk s)) s))
         then Some (lines_of (drop (length (fgets_chunk s)) s) ! (n - (current + 1))) else None)"
      if "current \<noteq> n"
      using 1(1) [OF False that] 1(2,4) lines rest nul that by simp
    then show ?thesis
      using 1(4) False lines rest strip_line [OF short 1(3)]
      by (auto simp: get_line_loop.simps [of s] nth_Cons' diff_Suc split: nat.splits)
  qed (simp add: get_line_loop.simps lines_of.simps)
qed

text \<open>C28: the line shown with a diagnostic is the line the diagnostic names.  In a file without NUL
  bytes whose lines are shorter than the 1023 characters one \<open>fgets\<close> reads,
  \<open>morphl_file_get_line\<close> returns exactly the \<open>n\<close>-th line without its newline, and nothing for
  line 0 or a line past the end.\<close>

theorem file_get_line_nth:
  assumes "files path = Some contents" and "CHR 0x00 \<notin> set contents"
    and "\<forall>line\<in>set (lines_of contents). length line < 1023"
  shows "morphl_file_get_line files path n =
    (if 0 < n \<and> n \<le> length (lines_of contents) then Some (lines_of contents ! (n - 1)) else None)"
  using get_line_loop_lines [OF assms(3,2), of 1 n] assms(1)
  by (auto simp: morphl_file_get_line_def)

theorem file_get_line_nth_witness:
  "morphl_file_get_line (\<lambda>p. Some (''ab'' @ [newline] @ ''c'')) ''f'' 2 = Some ''c''"
proof -
  have l: "lines_of (''ab'' @ [newline] @ ''c'') = [''ab'', ''c'']"
    by (simp add: lines_of.simps newline_def Let_def)
  show ?thesis
    using file_get_line_nth [of "\<lambda>p. Some (''ab'' @ [newline] @ ''c'')" "''f''" "''ab'' @ [newline] @ ''c''" 2]
    unfolding l by (simp add: newline_def)
qed

text \<open>Formatting stays inside the buffer.  The reported length is the length of the text written,
  it is smaller than the buffer (whose last byte is the terminator), the text is a prefix of the full
  diagnostic, and it is the full diagnostic whenever that fits.\<close>

theorem error_format_bounded:
  assumes "morphl_error_format files err out_cap = (n, out)" and "er_code err \<noteq> MORPHL_EOK" and "0 < out_cap"
  shows "n = length out \<and> n < out_cap \<and> out = take n (error_text files err) \<and>
    (length (error_text files err) < out_cap \<longrightarrow> out = error_text files err)"
  using assms by (auto simp: morphl_error_format_def Let_def min_def split: if_splits)

theorem error_format_bounded_witness:
  "snd (morphl_error_format (\<lambda>p. None)
      (morphl_error_make MORPHL_E_TYPE MORPHL_SEV_ERROR morphl_span_unknown ''bad'') 512) =
    ''<unknown>: error[3000]: bad''"
proof -
  let ?e = "morphl_error_make MORPHL_E_TYPE MORPHL_SEV_ERROR morphl_span_unknown ''bad''"
  have num: "nat_str 3000 = ''3000''"
    by (simp add: nat_str.simps digit_char_def char_of_eq_iff)
  have t: "error_text (\<lambda>p. None) ?e = ''<unknown>: error[3000]: bad''"
    by (simp add: error_text_def morphl_error_make_def morphl_span_unknown_def ML_ERRMSG_CAP_def
        num)
  obtain n out where f: "morphl_error_format (\<lambda>p. None) ?e 512 = (n, out)" by (rule prod.exhaust)
  have "er_code ?e \<noteq> MORPHL_EOK" by (simp add: morphl_error_make_def)
  then have "length (error_text (\<lambda>p. None) ?e) < 512 \<longrightarrow> out = error_text (\<lambda>p. None) ?e"
    using error_format_bounded [OF f _ zero_less_numeral] by blast
  then have "out = ''<unknown>: error[3000]: bad''" unfolding t by simp
  then show ?thesis unfolding f by simp
qed

lemma source_dir_slash:
  assumes "CHR ''/'' \<notin> set base"
  shows "source_dir (dir @ ''/'' @ base) = dir"
proof -
  have "dropWhile (\<lambda>c. c \<noteq> CHR ''/'') (rev base @ CHR ''/'' # rev dir) = CHR ''/'' # rev dir"
    using assms by (subst dropWhile_append2) auto
  then show ?thesis by (simp add: source_dir_def)
qed

text \<open>Import paths resolve against the directory of the importing file.  A relative path is joined
  to everything before the last slash of the source path, an absolute path is kept, and a result that
  would not fit into \<open>MAX_PATH\<close> bytes is refused; a source path without a slash is taken as a
  directory itself.\<close>

theorem absolute_path_resolves:
  assumes "CHR ''/'' \<notin> set base" and "length (dir @ ''/'' @ base) < MAX_PATH" and "length p < MAX_PATH"
  shows "fs_get_absolute_path_from_source (Some p) (Some (dir @ ''/'' @ base)) =
      Some (if p \<noteq> [] \<and> hd p = CHR ''/'' then Some p
        else if length dir + length p + 2 > MAX_PATH then None else Some (dir @ ''/'' @ p)) \<and>
    (p = [] \<or> hd p \<noteq> CHR ''/'' \<longrightarrow> length base + length p + 2 \<le> MAX_PATH \<longrightarrow>
      fs_get_absolute_path_from_source (Some p) (Some base) = Some (Some (base @ ''/'' @ p)))"
proof -
  have "source_dir base = base" using assms(1) by (simp add: source_dir_def)
  then show ?thesis
    using assms(2,3) source_dir_slash [OF assms(1), of dir]
    by (auto simp: fs_get_absolute_path_from_source_def fs_is_relative_path_def)
qed

theorem absolute_path_resolves_witness:
  "fs_get_absolute_path_from_source (Some ''b.m'') (Some ''src/a.m'') = Some (Some ''src/b.m'') \<and>
   fs_get_absolute_path_from_source (Some ''b.m'') (Some ''a.m'') = Some (Some ''a.m/b.m'')"
  using absolute_path_resolves [of "''a.m''" "''src''" "''b.m''"] by (simp add: MAX_PATH_def)

end
