(* ===== verification/Types.thy ===== *)
theory Types
  imports Intern_Table
begin

text \<open>
  The types of \<open>include/typing/typing.h\<close> and \<open>src/typing/typing.c\<close>.

  A \<open>MorphlType*\<close> is the index of a cell in the list of cells allocated so far, \<open>None\<close> for
  \<open>NULL\<close>; cells are mutable and shared, and a cell can contain itself (a block whose field has
  the type of \<open>$this\<close>).  The arena decides which allocations succeed.  The arrays of a cell are
  never shared between cells, so they are part of it.

  The recursive routines take the recursion depth they may use, and return \<open>None\<close> when it is not
  enough; \<open>abs_type\<close> reads the finite tree below a pointer, and the main results are stated for
  pointers that have one.
\<close>

section \<open>Cells\<close>

type_synonym tref = "nat option"

datatype type_data =
    MORPHL_TYPE_UNKNOWN | MORPHL_TYPE_VOID | MORPHL_TYPE_INT | MORPHL_TYPE_FLOAT | MORPHL_TYPE_STRING
  | MORPHL_TYPE_IDENT | MORPHL_TYPE_BOOL
  | MORPHL_TYPE_FUNC (fn_param_types: "tref list") (fn_return_type: tref)
  | MORPHL_TYPE_REF (rf_target: tref) (rf_is_mutable: bool) (rf_is_inline: bool)
  | MORPHL_TYPE_PRIMITIVE
  | MORPHL_TYPE_BLOCK (bl_fields: "(nat \<times> tref) list")
  | MORPHL_TYPE_GROUP (gr_elem_types: "tref list")
  | MORPHL_TYPE_TRAIT nat

record morphl_type =
  ty_size :: nat
  ty_align :: nat
  ty_data :: type_data

record type_arena =
  ta_arena :: arena
  ta_cells :: "morphl_type list"

definition cell :: "type_arena \<Rightarrow> nat \<Rightarrow> type_data" where
  "cell h p = ty_data (ta_cells h ! p)"

definition set_cell :: "type_arena \<Rightarrow> nat \<Rightarrow> type_data \<Rightarrow> type_arena" where
  "set_cell h p d = h\<lparr>ta_cells := (ta_cells h)[p := (ta_cells h ! p)\<lparr>ty_data := d\<rparr>]\<rparr>"

definition SIZEOF_TYPE :: nat where "SIZEOF_TYPE = 56"
definition SIZEOF_POINTER :: nat where "SIZEOF_POINTER = 8"
definition SIZEOF_SYM :: nat where "SIZEOF_SYM = 4"

section \<open>Constructors\<close>

text \<open>\<open>arena_alloc\<close>: \<open>None\<close> for a request of 0 bytes or one that does not fit.\<close>

definition arena_alloc :: "type_arena \<Rightarrow> nat \<Rightarrow> type_arena option" where
  "arena_alloc h n =
     (if n = 0 then None
      else (case arena_push (ta_arena h) n of None \<Rightarrow> None | Some (_, a) \<Rightarrow> Some (h\<lparr>ta_arena := a\<rparr>)))"

definition alloc_type :: "nat \<Rightarrow> nat \<Rightarrow> type_data \<Rightarrow> type_arena \<Rightarrow> tref \<times> type_arena" where
  "alloc_type sz align d h =
     (case arena_alloc h SIZEOF_TYPE of
        None \<Rightarrow> (None, h)
      | Some h1 \<Rightarrow>
          (Some (length (ta_cells h1)),
           h1\<lparr>ta_cells := ta_cells h1 @ [\<lparr>ty_size = sz, ty_align = align, ty_data = d\<rparr>]\<rparr>))"

definition morphl_type_unknown :: "type_arena \<Rightarrow> tref \<times> type_arena" where
  "morphl_type_unknown = alloc_type 0 1 MORPHL_TYPE_UNKNOWN"

definition morphl_type_void :: "type_arena \<Rightarrow> tref \<times> type_arena" where
  "morphl_type_void = alloc_type 0 1 MORPHL_TYPE_VOID"

definition morphl_type_int :: "type_arena \<Rightarrow> tref \<times> type_arena" where
  "morphl_type_int = alloc_type 8 8 MORPHL_TYPE_INT"

definition morphl_type_float :: "type_arena \<Rightarrow> tref \<times> type_arena" where
  "morphl_type_float = alloc_type 8 8 MORPHL_TYPE_FLOAT"

definition morphl_type_string :: "type_arena \<Rightarrow> tref \<times> type_arena" where
  "morphl_type_string = alloc_type 16 8 MORPHL_TYPE_STRING"

definition morphl_type_ident :: "type_arena \<Rightarrow> tref \<times> type_arena" where
  "morphl_type_ident = alloc_type 8 8 MORPHL_TYPE_IDENT"

definition morphl_type_bool :: "type_arena \<Rightarrow> tref \<times> type_arena" where
  "morphl_type_bool = alloc_type 1 1 MORPHL_TYPE_BOOL"

text \<open>Room for the arrays of the cell just allocated; \<open>NULL\<close> when one does not fit.\<close>

fun with_arrays :: "nat list \<Rightarrow> tref \<times> type_arena \<Rightarrow> tref \<times> type_arena" where
  "with_arrays [] r = r"
| "with_arrays (n # ns) (t, h) =
     (case t of
        None \<Rightarrow> (None, h)
      | Some p \<Rightarrow> (case arena_alloc h n of None \<Rightarrow> (None, h) | Some h1 \<Rightarrow> with_arrays ns (Some p, h1)))"

definition morphl_type_func :: "tref \<Rightarrow> tref \<Rightarrow> type_arena \<Rightarrow> tref \<times> type_arena" where
  "morphl_type_func param_type return_type h =
     (if return_type = None then (None, h)
      else (case param_type of
              None \<Rightarrow> alloc_type 8 8 (MORPHL_TYPE_FUNC [] return_type) h
            | Some p \<Rightarrow> with_arrays [SIZEOF_POINTER]
                 (alloc_type 8 8 (MORPHL_TYPE_FUNC [param_type] return_type) h)))"

definition morphl_type_ref :: "tref \<Rightarrow> bool \<Rightarrow> bool \<Rightarrow> type_arena \<Rightarrow> tref \<times> type_arena" where
  "morphl_type_ref target is_mutable is_inline h =
     (if target = None then (None, h)
      else alloc_type 8 8 (MORPHL_TYPE_REF target is_mutable is_inline) h)"

definition morphl_type_group :: "tref list \<Rightarrow> type_arena \<Rightarrow> tref \<times> type_arena" where
  "morphl_type_group elem_types h =
     (if elem_types = [] then alloc_type 0 1 (MORPHL_TYPE_GROUP []) h
      else with_arrays [length elem_types * SIZEOF_POINTER]
             (alloc_type 0 1 (MORPHL_TYPE_GROUP elem_types) h))"

definition morphl_type_block :: "(nat \<times> tref) list \<Rightarrow> type_arena \<Rightarrow> tref \<times> type_arena" where
  "morphl_type_block members h =
     (if members = [] then alloc_type 0 1 (MORPHL_TYPE_BLOCK []) h
      else with_arrays [length members * SIZEOF_SYM, length members * SIZEOF_POINTER]
             (alloc_type 0 1 (MORPHL_TYPE_BLOCK members) h))"
section \<open>Cloning\<close>

text \<open>The loop over the children of a node: the copies in order, \<open>NULL\<close> at the first that fails.\<close>

fun clone_list ::
    "(type_arena \<Rightarrow> tref \<Rightarrow> (tref \<times> type_arena) option) \<Rightarrow> type_arena \<Rightarrow> tref list \<Rightarrow>
     (tref list option \<times> type_arena) option" where
  "clone_list f h [] = Some (Some [], h)"
| "clone_list f h (t # ts) =
     (case f h t of
        None \<Rightarrow> None
      | Some (None, h1) \<Rightarrow> Some (None, h1)
      | Some (Some p, h1) \<Rightarrow>
          (case clone_list f h1 ts of
             None \<Rightarrow> None
           | Some (None, h2) \<Rightarrow> Some (None, h2)
           | Some (Some us, h2) \<Rightarrow> Some (Some (Some p # us), h2)))"

text \<open>Room for the arrays of a copy.\<close>

fun alloc_all :: "nat list \<Rightarrow> type_arena \<Rightarrow> bool \<times> type_arena" where
  "alloc_all [] h = (True, h)"
| "alloc_all (n # ns) h =
     (case arena_alloc h n of None \<Rightarrow> (False, h) | Some h1 \<Rightarrow> alloc_all ns h1)"

text \<open>
  A block asks for both arrays before it looks at either pointer; when the first request does not
  fit, the second, which is larger, does not fit either.
\<close>

fun array_sizes :: "type_data \<Rightarrow> nat list" where
  "array_sizes (MORPHL_TYPE_FUNC ps r) = (if ps = [] then [] else [length ps * SIZEOF_POINTER])"
| "array_sizes (MORPHL_TYPE_GROUP es) = (if es = [] then [] else [length es * SIZEOF_POINTER])"
| "array_sizes (MORPHL_TYPE_BLOCK fs) =
     (if fs = [] then [] else [length fs * SIZEOF_SYM, length fs * SIZEOF_POINTER])"
| "array_sizes d = []"

text \<open>The pointers a cell holds, in the order they are copied, and the cell with other pointers.\<close>

fun child_refs :: "type_data \<Rightarrow> tref list" where
  "child_refs (MORPHL_TYPE_FUNC ps r) = ps @ (if r = None then [] else [r])"
| "child_refs (MORPHL_TYPE_GROUP es) = es"
| "child_refs (MORPHL_TYPE_BLOCK fs) = map snd fs"
| "child_refs (MORPHL_TYPE_REF t m i) = (if t = None then [] else [t])"
| "child_refs d = []"

fun replace_refs :: "type_data \<Rightarrow> tref list \<Rightarrow> type_data" where
  "replace_refs (MORPHL_TYPE_FUNC ps r) ts =
     MORPHL_TYPE_FUNC (take (length ps) ts) (if r = None then None else last ts)"
| "replace_refs (MORPHL_TYPE_GROUP es) ts = MORPHL_TYPE_GROUP ts"
| "replace_refs (MORPHL_TYPE_BLOCK fs) ts = MORPHL_TYPE_BLOCK (zip (map fst fs) ts)"
| "replace_refs (MORPHL_TYPE_REF t m i) ts = MORPHL_TYPE_REF (if t = None then None else hd ts) m i"
| "replace_refs d ts = d"

fun morphl_type_clone :: "nat \<Rightarrow> type_arena \<Rightarrow> tref \<Rightarrow> (tref \<times> type_arena) option" where
  "morphl_type_clone 0 h t = None"
| "morphl_type_clone (Suc n) h t =
     (case t of
        None \<Rightarrow> Some (None, h)
      | Some q \<Rightarrow>
          (case alloc_type (ty_size (ta_cells h ! q)) (ty_align (ta_cells h ! q)) (cell h q) h of
             (None, h1) \<Rightarrow> Some (None, h1)
           | (Some p, h1) \<Rightarrow>
               (case alloc_all (array_sizes (cell h q)) h1 of
                  (False, h2) \<Rightarrow> Some (None, h2)
                | (True, h2) \<Rightarrow>
                    (case clone_list (morphl_type_clone n) h2 (child_refs (cell h q)) of
                       None \<Rightarrow> None
                     | Some (None, h3) \<Rightarrow> Some (None, h3)
                     | Some (Some ts, h3) \<Rightarrow> Some (Some p, set_cell h3 p (replace_refs (cell h q) ts))))))"

section \<open>Equality\<close>

fun equal_lists :: "(tref \<Rightarrow> tref \<Rightarrow> bool option) \<Rightarrow> tref list \<Rightarrow> tref list \<Rightarrow> bool option" where
  "equal_lists f (a # as) (b # bs) =
     (case f a b of
        None \<Rightarrow> None
      | Some False \<Rightarrow> Some False
      | Some True \<Rightarrow> equal_lists f as bs)"
| "equal_lists f as bs = Some True"

fun equal_fields ::
    "(tref \<Rightarrow> tref \<Rightarrow> bool option) \<Rightarrow> (nat \<times> tref) list \<Rightarrow> (nat \<times> tref) list \<Rightarrow> bool option" where
  "equal_fields f ((x, a) # as) ((y, b) # bs) =
     (if x \<noteq> y then Some False
      else (case f a b of
              None \<Rightarrow> None
            | Some False \<Rightarrow> Some False
            | Some True \<Rightarrow> equal_fields f as bs))"
| "equal_fields f as bs = Some True"

text \<open>The tag of a cell: its constructor.\<close>

fun kind_tag :: "type_data \<Rightarrow> nat" where
  "kind_tag MORPHL_TYPE_UNKNOWN = 0"
| "kind_tag MORPHL_TYPE_VOID = 1"
| "kind_tag MORPHL_TYPE_INT = 2"
| "kind_tag MORPHL_TYPE_FLOAT = 3"
| "kind_tag MORPHL_TYPE_STRING = 4"
| "kind_tag MORPHL_TYPE_IDENT = 5"
| "kind_tag MORPHL_TYPE_BOOL = 6"
| "kind_tag (MORPHL_TYPE_FUNC ps r) = 7"
| "kind_tag (MORPHL_TYPE_REF t m i) = 8"
| "kind_tag MORPHL_TYPE_PRIMITIVE = 9"
| "kind_tag (MORPHL_TYPE_BLOCK fs) = 10"
| "kind_tag (MORPHL_TYPE_GROUP es) = 11"
| "kind_tag (MORPHL_TYPE_TRAIT s) = 12"

fun morphl_type_equals :: "nat \<Rightarrow> type_arena \<Rightarrow> tref \<Rightarrow> tref \<Rightarrow> bool option" where
  "morphl_type_equals 0 h a b = None"
| "morphl_type_equals (Suc n) h a b =
     (case (a, b) of
        (Some p, Some q) \<Rightarrow>
          (if kind_tag (cell h p) \<noteq> kind_tag (cell h q) then Some False
           else (case (cell h p, cell h q) of
                   (MORPHL_TYPE_FUNC ps r, MORPHL_TYPE_FUNC qs s) \<Rightarrow>
                     if length ps \<noteq> length qs then Some False
                     else (case equal_lists (morphl_type_equals n h) ps qs of
                             None \<Rightarrow> None
                           | Some False \<Rightarrow> Some False
                           | Some True \<Rightarrow> morphl_type_equals n h r s)
                 | (MORPHL_TYPE_GROUP es, MORPHL_TYPE_GROUP fs) \<Rightarrow>
                     if length es \<noteq> length fs then Some False
                     else equal_lists (morphl_type_equals n h) es fs
                 | (MORPHL_TYPE_BLOCK es, MORPHL_TYPE_BLOCK fs) \<Rightarrow>
                     if length es \<noteq> length fs then Some False
                     else equal_fields (morphl_type_equals n h) es fs
                 | (MORPHL_TYPE_REF t m i, MORPHL_TYPE_REF u k j) \<Rightarrow>
                     if m \<noteq> k then Some False
                     else if i \<noteq> j then Some False
                     else morphl_type_equals n h t u
                 | _ \<Rightarrow> Some True))
      | _ \<Rightarrow> Some (a = b))"

definition morphl_type_is_subtype :: "nat \<Rightarrow> type_arena \<Rightarrow> tref \<Rightarrow> tref \<Rightarrow> bool option" where
  "morphl_type_is_subtype n h sub super = morphl_type_equals n h sub super"

definition morphl_type_is_primitive :: "type_arena \<Rightarrow> tref \<Rightarrow> bool" where
  "morphl_type_is_primitive h t =
     (case t of
        None \<Rightarrow> False
      | Some p \<Rightarrow> cell h p \<in> {MORPHL_TYPE_INT, MORPHL_TYPE_FLOAT, MORPHL_TYPE_BOOL, MORPHL_TYPE_STRING,
          MORPHL_TYPE_VOID})"
section \<open>Rendering\<close>

text \<open>
  The 512-byte buffer: \<open>snprintf\<close> at an offset writes what fits and returns the length of the whole
  text, which the code adds to the offset.  Past the end of the buffer the remaining size
  \<open>sizeof(buf) - offset\<close> wraps around and the write is out of bounds: no value.
\<close>

definition put :: "string \<times> nat \<Rightarrow> string \<Rightarrow> (string \<times> nat) option" where
  "put b written_text =
     (case b of (buf, offset) \<Rightarrow>
        if offset > 512 then None else Some (take 511 (buf @ written_text), offset + length written_text))"

fun put_all :: "string \<times> nat \<Rightarrow> string list \<Rightarrow> (string \<times> nat) option" where
  "put_all b [] = Some b"
| "put_all b (t # ts) = (case put b t of None \<Rightarrow> None | Some b1 \<Rightarrow> put_all b1 ts)"

definition in_brackets :: "string \<Rightarrow> string list \<Rightarrow> string \<Rightarrow> string option" where
  "in_brackets left items right =
     map_option fst (put_all (left, length left)
       (map (\<lambda>s. s @ '', '') (butlast items) @ (if items = [] then [] else [last items]) @ [right]))"

fun field_text :: "intern_table \<Rightarrow> nat \<times> string \<Rightarrow> string" where
  "field_text interns (name, s) = c_str (str_bytes (interns_lookup interns name)) @ '':'' @ s"

fun morphl_type_to_string :: "nat \<Rightarrow> type_arena \<Rightarrow> intern_table \<Rightarrow> tref \<Rightarrow> string option" where
  "morphl_type_to_string 0 h interns t = None"
| "morphl_type_to_string (Suc n) h interns t =
     (case t of
        None \<Rightarrow> Some ''<null>''
      | Some p \<Rightarrow>
          (case cell h p of
             MORPHL_TYPE_VOID \<Rightarrow> Some ''void''
           | MORPHL_TYPE_INT \<Rightarrow> Some ''int''
           | MORPHL_TYPE_FLOAT \<Rightarrow> Some ''float''
           | MORPHL_TYPE_STRING \<Rightarrow> Some ''string''
           | MORPHL_TYPE_IDENT \<Rightarrow> Some ''ident''
           | MORPHL_TYPE_BOOL \<Rightarrow> Some ''bool''
           | MORPHL_TYPE_FUNC ps r \<Rightarrow>
               (case ps of
                  [] \<Rightarrow> None
                | q # _ \<Rightarrow>
                    (case (morphl_type_to_string n h interns q, morphl_type_to_string n h interns r) of
                       (Some a, Some b) \<Rightarrow> Some (take 511 (''('' @ a @ '') => '' @ b))
                     | _ \<Rightarrow> None))
           | MORPHL_TYPE_GROUP es \<Rightarrow>
               (case those (map (morphl_type_to_string n h interns) es) of
                  None \<Rightarrow> None
                | Some items \<Rightarrow> in_brackets ''('' items '')'')
           | MORPHL_TYPE_BLOCK fs \<Rightarrow>
               (case those (map (morphl_type_to_string n h interns) (map snd fs)) of
                  None \<Rightarrow> None
                | Some items \<Rightarrow> in_brackets ''{'' (map (field_text interns) (zip (map fst fs) items)) ''}'')
           | MORPHL_TYPE_REF u m i \<Rightarrow>
               Some (''ref['' @ (if m then ''mut'' else ''const'') @ (if i then '' inline'' else '''') @ '']'')
           | MORPHL_TYPE_PRIMITIVE \<Rightarrow> Some ''primitive''
           | MORPHL_TYPE_TRAIT s \<Rightarrow> Some ''trait''
           | MORPHL_TYPE_UNKNOWN \<Rightarrow> Some ''unknown''))"

section \<open>The tree below a pointer\<close>

datatype type_tree = T_Null | T_Node type_data "type_tree list"

text \<open>
  \<open>abs_type n h t\<close> is the tree of depth at most \<open>n\<close> below \<open>t\<close>: every cell with its pointers
  (and the name of a trait, which equality ignores) erased, over the trees of the pointers.
\<close>

fun erase :: "type_data \<Rightarrow> type_data" where
  "erase (MORPHL_TYPE_FUNC ps r) = MORPHL_TYPE_FUNC (map (\<lambda>t. None) ps) None"
| "erase (MORPHL_TYPE_GROUP es) = MORPHL_TYPE_GROUP (map (\<lambda>t. None) es)"
| "erase (MORPHL_TYPE_BLOCK fs) = MORPHL_TYPE_BLOCK (map (\<lambda>f. (fst f, None)) fs)"
| "erase (MORPHL_TYPE_REF t m i) = MORPHL_TYPE_REF None m i"
| "erase (MORPHL_TYPE_TRAIT s) = MORPHL_TYPE_TRAIT 0"
| "erase d = d"

fun all_refs :: "type_data \<Rightarrow> tref list" where
  "all_refs (MORPHL_TYPE_FUNC ps r) = ps @ [r]"
| "all_refs (MORPHL_TYPE_GROUP es) = es"
| "all_refs (MORPHL_TYPE_BLOCK fs) = map snd fs"
| "all_refs (MORPHL_TYPE_REF t m i) = [t]"
| "all_refs d = []"

fun abs_type :: "nat \<Rightarrow> type_arena \<Rightarrow> tref \<Rightarrow> type_tree option" where
  "abs_type 0 h t = None"
| "abs_type (Suc n) h t =
     (case t of
        None \<Rightarrow> Some T_Null
      | Some p \<Rightarrow> map_option (T_Node (erase (cell h p))) (those (map (abs_type n h) (all_refs (cell h p)))))"
lemma those_Some: "those xs = Some ys \<longleftrightarrow> xs = map Some ys"
  by (induction xs arbitrary: ys) (auto split: option.splits)

lemma those_map_Some:
  "those (map f xs) = Some ys \<longleftrightarrow> list_all2 (\<lambda>x y. f x = Some y) xs ys"
  by (auto simp: those_Some list_eq_iff_nth_eq list_all2_conv_all_nth)

lemma those_Some_mono:
  "those (map f xs) = Some ys \<Longrightarrow> (\<And>x y. x \<in> set xs \<Longrightarrow> f x = Some y \<Longrightarrow> g x = Some y) \<Longrightarrow> those (map g xs) = Some ys"
  unfolding those_map_Some by (rule list.rel_mono_strong)

lemma abs_type_mono: "abs_type n h t = Some x \<Longrightarrow> n \<le> m \<Longrightarrow> abs_type m h t = Some x"
proof (induction n arbitrary: t x m)
  case (Suc n)
  then obtain m' where m: "m = Suc m'" "n \<le> m'" by (cases m) auto
  show ?case
  proof (cases t)
    case (Some p)
    then obtain xs where xs: "those (map (abs_type n h) (all_refs (cell h p))) = Some xs"
      "x = T_Node (erase (cell h p)) xs" using Suc.prems(1) by auto
    have "those (map (abs_type m' h) (all_refs (cell h p))) = Some xs"
      using xs(1) by (rule those_Some_mono) (use Suc.IH m(2) in blast)
    then show ?thesis using Some m(1) xs(2) by simp
  qed (use Suc.prems m in simp)
qed simp

lemma equal_lists_abs:
  assumes "list_all2 (\<lambda>a x. tree a = Some x) as xs" and "list_all2 (\<lambda>b y. tree b = Some y) bs ys"
    and "length as = length bs" and "\<And>a b x y. tree a = Some x \<Longrightarrow> tree b = Some y \<Longrightarrow> f a b = Some (x = y)"
  shows "equal_lists f as bs = Some (xs = ys)"
  using assms(3,1,2)
proof (induction as bs arbitrary: xs ys rule: list_induct2)
  case (Cons a as b bs)
  then obtain x xs' y ys' where "xs = x # xs'" "ys = y # ys'" "tree a = Some x" "tree b = Some y"
    by (auto simp: list_all2_Cons1)
  with Cons assms(4) show ?case by (cases "x = y") auto
qed simp

lemma equal_fields_abs:
  assumes "list_all2 (\<lambda>a x. tree a = Some x) (map snd as) xs"
    and "list_all2 (\<lambda>b y. tree b = Some y) (map snd bs) ys"
    and "length as = length bs" and "\<And>a b x y. tree a = Some x \<Longrightarrow> tree b = Some y \<Longrightarrow> f a b = Some (x = y)"
  shows "equal_fields f as bs = Some (map fst as = map fst bs \<and> xs = ys)"
  using assms(3,1,2)
proof (induction as bs arbitrary: xs ys rule: list_induct2)
  case (Cons a as b bs)
  then obtain x xs' y ys' where "xs = x # xs'" "ys = y # ys'" "tree (snd a) = Some x" "tree (snd b) = Some y"
    by (auto simp: list_all2_Cons1)
  with Cons assms(4) show ?case by (cases a; cases b; cases "x = y") auto
qed simp

lemma equals_abs_same:
  "abs_type n h a = Some x \<Longrightarrow> abs_type n h b = Some y \<Longrightarrow> morphl_type_equals n h a b = Some (x = y)"
proof (induction n arbitrary: a b x y)
  case (Suc n)
  show ?case
  proof (cases "a = None \<or> b = None")
    case False
    then obtain p q where pq: "a = Some p" "b = Some q" by auto
    obtain xs ys where xs: "list_all2 (\<lambda>a x. abs_type n h a = Some x) (all_refs (cell h p)) xs"
        "x = T_Node (erase (cell h p)) xs"
      and ys: "list_all2 (\<lambda>a x. abs_type n h a = Some x) (all_refs (cell h q)) ys"
        "y = T_Node (erase (cell h q)) ys"
      using Suc.prems pq by (auto simp: those_map_Some)
    note lists = equal_lists_abs [where tree = "abs_type n h" and f = "morphl_type_equals n h", OF _ _ _ Suc.IH]
      equal_fields_abs [where tree = "abs_type n h" and f = "morphl_type_equals n h", OF _ _ _ Suc.IH]
    have None_eq: "map (\<lambda>t. None) us = map (\<lambda>t. None) vs \<longleftrightarrow> length us = length vs" for us vs :: "tref list"
      by (simp add: map_replicate_const)
    have fields_eq: "map (\<lambda>f. (fst f, None)) us = map (\<lambda>f. (fst f, None)) vs \<longleftrightarrow> map fst us = map fst vs"
      for us vs :: "(nat \<times> tref) list"
      by (auto simp: list_eq_iff_nth_eq)
    show ?thesis
      using xs ys pq
      by (cases "cell h p"; cases "cell h q")
        (auto simp: None_eq fields_eq list_all2_append1 list_all2_Cons1 lists Suc.IH dest: map_eq_imp_length_eq
          split: option.splits bool.splits)
  qed (use Suc.prems in \<open>auto split: option.splits\<close>)
qed simp
section \<open>Copies\<close>

text \<open>The bytes a copy of a tree takes from the arena, and trees without \<open>NULL\<close>.\<close>

fun tree_bytes :: "type_tree \<Rightarrow> nat" where
  "tree_bytes T_Null = 0"
| "tree_bytes (T_Node d xs) = SIZEOF_TYPE + sum_list (array_sizes d) + sum_list (map tree_bytes xs)"

fun complete :: "type_tree \<Rightarrow> bool" where
  "complete T_Null = False"
| "complete (T_Node d xs) \<longleftrightarrow> (\<forall>x\<in>set xs. complete x)"

text \<open>The cells from \<open>lo\<close> on point only at each other.\<close>

definition closed_from :: "nat \<Rightarrow> type_arena \<Rightarrow> bool" where
  "closed_from lo h \<longleftrightarrow> (\<forall>i. lo \<le> i \<and> i < length (ta_cells h) \<longrightarrow>
     (\<forall>r. Some r \<in> set (all_refs (cell h i)) \<longrightarrow> lo \<le> r \<and> r < length (ta_cells h)))"

definition heap_ext :: "type_arena \<Rightarrow> type_arena \<Rightarrow> bool" where
  "heap_ext h h' \<longleftrightarrow> (\<exists>new. ta_cells h' = ta_cells h @ new) \<and> a_cap (ta_arena h') = a_cap (ta_arena h)"

lemma heap_ext_refl [simp]: "heap_ext h h"
  by (simp add: heap_ext_def)

lemma heap_ext_trans: "heap_ext h h1 \<Longrightarrow> heap_ext h1 h2 \<Longrightarrow> heap_ext h h2"
  by (auto simp: heap_ext_def)

lemma heap_ext_length: "heap_ext h h' \<Longrightarrow> length (ta_cells h) \<le> length (ta_cells h')"
  by (auto simp: heap_ext_def)

lemma heap_ext_cell: "heap_ext h h' \<Longrightarrow> i < length (ta_cells h) \<Longrightarrow> cell h' i = cell h i"
  by (auto simp: heap_ext_def cell_def nth_append)

lemma abs_type_agree:
  assumes "\<forall>p\<in>S. cell h' p = cell h p \<and> (\<forall>r. Some r \<in> set (all_refs (cell h p)) \<longrightarrow> r \<in> S)"
  shows "(\<And>p. t = Some p \<Longrightarrow> p \<in> S) \<Longrightarrow> abs_type n h' t = abs_type n h t"
proof (induction n arbitrary: t)
  case (Suc n)
  show ?case
  proof (cases t)
    case (Some p)
    then have p: "p \<in> S" using Suc.prems by simp
    have "abs_type n h' r = abs_type n h r" if "r \<in> set (all_refs (cell h p))" for r
      using Suc.IH [of r] assms p that by blast
    then have "those (map (abs_type n h') (all_refs (cell h p))) = those (map (abs_type n h) (all_refs (cell h p)))"
      by (simp cong: map_cong)
    moreover have "cell h' p = cell h p" using assms p by simp
    ultimately show ?thesis by (simp add: Some)
  qed simp
qed simp

lemma closed_fromD:
  "closed_from lo h \<Longrightarrow> lo \<le> i \<Longrightarrow> i < length (ta_cells h) \<Longrightarrow> Some r \<in> set (all_refs (cell h i)) \<Longrightarrow>
     lo \<le> r \<and> r < length (ta_cells h)"
  unfolding closed_from_def by blast

lemma abs_type_ext:
  assumes "heap_ext h h'" and "closed_from lo h" and "\<And>p. t = Some p \<Longrightarrow> lo \<le> p \<and> p < length (ta_cells h)"
  shows "abs_type n h' t = abs_type n h t"
proof (rule abs_type_agree [where S = "{lo..<length (ta_cells h)}"])
  show "\<forall>p\<in>{lo..<length (ta_cells h)}. cell h' p = cell h p \<and>
      (\<forall>r. Some r \<in> set (all_refs (cell h p)) \<longrightarrow> r \<in> {lo..<length (ta_cells h)})"
    using heap_ext_cell [OF assms(1)] closed_fromD [OF assms(2)] by (meson atLeastLessThan_iff)
qed (use assms(3) in simp)

lemma closed_join:
  assumes "closed_from lo h" and "heap_ext h h'" and "closed_from (length (ta_cells h)) h'"
    and "lo \<le> length (ta_cells h)"
  shows "closed_from lo h'"
  unfolding closed_from_def
proof (intro allI impI, elim conjE)
  fix i r assume i: "lo \<le> i" "i < length (ta_cells h')" and r: "Some r \<in> set (all_refs (cell h' i))"
  show "lo \<le> r \<and> r < length (ta_cells h')"
  proof (cases "i < length (ta_cells h)")
    case True
    then have "Some r \<in> set (all_refs (cell h i))" using r heap_ext_cell [OF assms(2) True] by simp
    from closed_fromD [OF assms(1) i(1) True this] heap_ext_length [OF assms(2)] show ?thesis by simp
  next
    case False
    from closed_fromD [OF assms(3) _ i(2) r] False assms(4) show ?thesis by simp
  qed
qed

lemma closed_snoc:
  assumes "closed_from 0 h" and "heap_ext h h2" and "length (ta_cells h2) = Suc (length (ta_cells h))"
    and "\<And>r. Some r \<in> set (all_refs (cell h2 (length (ta_cells h)))) \<Longrightarrow> r < length (ta_cells h)"
  shows "closed_from 0 h2"
  unfolding closed_from_def
proof (intro allI impI, elim conjE)
  fix i r assume i: "i < length (ta_cells h2)" and r: "Some r \<in> set (all_refs (cell h2 i))"
  show "0 \<le> r \<and> r < length (ta_cells h2)"
  proof (cases "i < length (ta_cells h)")
    case True
    then show ?thesis using closed_fromD [OF assms(1) _ True, of r] r heap_ext_cell [OF assms(2) True] assms(3) by simp
  next
    case False
    then have "i = length (ta_cells h)" using i assms(3) by simp
    then show ?thesis using assms(4) [of r] r assms(3) by simp
  qed
qed

lemma arena_alloc_Some:
  "arena_alloc h n = Some h1 \<longleftrightarrow> 0 < n \<and> a_off (ta_arena h) + n \<le> a_cap (ta_arena h) \<and>
     h1 = h\<lparr>ta_arena := (ta_arena h)\<lparr>a_off := a_off (ta_arena h) + n\<rparr>\<rparr>"
  by (auto simp: arena_alloc_def arena_push_def)

text \<open>What the allocation of the arrays does: everything or a failure, without touching a cell.\<close>

lemma alloc_all_result:
  assumes "alloc_all ns h = (b, h1)" and "0 \<notin> set ns"
  shows "ta_cells h1 = ta_cells h \<and> a_cap (ta_arena h1) = a_cap (ta_arena h) \<and>
    (b \<longleftrightarrow> sum_list ns = 0 \<or> a_off (ta_arena h) + sum_list ns \<le> a_cap (ta_arena h)) \<and>
    (b \<longrightarrow> a_off (ta_arena h1) = a_off (ta_arena h) + sum_list ns)"
  using assms
proof (induction ns arbitrary: h)
  case (Cons n ns)
  show ?case
  proof (cases "arena_alloc h n")
    case None
    with Cons.prems show ?thesis
      by (auto simp: arena_alloc_def arena_push_def split: if_splits)
  next
    case (Some h2)
    with Cons.prems have "alloc_all ns h2 = (b, h1)" "0 \<notin> set ns" by simp_all
    from Cons.IH [OF this] Some show ?thesis
      by (auto simp: arena_alloc_Some simp del: sum_list_eq_0_iff)
  qed
qed simp

lemma array_sizes_pos: "0 \<notin> set (array_sizes d)"
  by (cases d) (auto simp: SIZEOF_POINTER_def SIZEOF_SYM_def)

lemma array_sizes_erase [simp]: "array_sizes (erase d) = array_sizes d"
  by (cases d) simp_all

lemma child_refs_all: "None \<notin> set (all_refs d) \<Longrightarrow> child_refs d = all_refs d"
  by (cases d; cases "fn_return_type d"; cases "rf_target d") auto

lemma replace_refs_all:
  assumes "None \<notin> set (all_refs d)" and "length ts = length (all_refs d)"
  shows "erase (replace_refs d ts) = erase d \<and> all_refs (replace_refs d ts) = ts"
proof (cases d)
  case (MORPHL_TYPE_FUNC ps r)
  with assms(2) obtain us u where "ts = us @ [u]" "length us = length ps"
    by (cases ts rule: rev_cases) auto
  with MORPHL_TYPE_FUNC assms(1) show ?thesis by (auto simp: map_replicate_const)
next
  case (MORPHL_TYPE_BLOCK fs)
  moreover have "map (\<lambda>f. (fst f, None)) (zip (map fst fs) ts) = map (\<lambda>f. (fst f, None :: tref)) fs"
    using assms(2) MORPHL_TYPE_BLOCK by (simp add: list_eq_iff_nth_eq)
  ultimately show ?thesis using assms by (simp add: map_snd_zip)
next
  case (MORPHL_TYPE_REF t m i)
  with assms show ?thesis by (cases ts) auto
qed (use assms in \<open>auto simp: map_replicate_const\<close>)
text \<open>
  A finished copy of a tree: new cells only, pointing only at new cells, with the same tree, and
  exactly the bytes of the tree taken; a failed one had too little room.
\<close>

definition copied :: "type_arena \<Rightarrow> type_arena \<Rightarrow> nat \<Rightarrow> bool" where
  "copied h h' bytes \<longleftrightarrow> closed_from (length (ta_cells h)) h' \<and>
     a_off (ta_arena h') = a_off (ta_arena h) + bytes \<and> a_off (ta_arena h') \<le> a_cap (ta_arena h')"

definition clone_post :: "nat \<Rightarrow> type_arena \<Rightarrow> type_tree \<Rightarrow> tref \<times> type_arena \<Rightarrow> bool" where
  "clone_post n h x r \<longleftrightarrow> (case r of (t', h') \<Rightarrow> heap_ext h h' \<and>
     (case t' of
        None \<Rightarrow> a_off (ta_arena h) + tree_bytes x > a_cap (ta_arena h)
      | Some p \<Rightarrow> length (ta_cells h) \<le> p \<and> p < length (ta_cells h') \<and> abs_type n h' t' = Some x \<and>
          copied h h' (tree_bytes x)))"

definition clones :: "(type_arena \<Rightarrow> tref \<Rightarrow> (tref \<times> type_arena) option) \<Rightarrow> nat \<Rightarrow> bool" where
  "clones f n \<longleftrightarrow> (\<forall>h t x. abs_type n h t = Some x \<longrightarrow> complete x \<longrightarrow> closed_from 0 h \<longrightarrow>
     (\<forall>p. t = Some p \<longrightarrow> p < length (ta_cells h)) \<longrightarrow> (\<exists>r. f h t = Some r \<and> clone_post n h x r))"

lemma clone_list_correct:
  assumes "clones f n"
  shows "list_all2 (\<lambda>t x. abs_type n h t = Some x) ts xs \<Longrightarrow> \<forall>x\<in>set xs. complete x \<Longrightarrow> closed_from 0 h \<Longrightarrow>
      (\<And>p. Some p \<in> set ts \<Longrightarrow> p < length (ta_cells h)) \<Longrightarrow> a_off (ta_arena h) \<le> a_cap (ta_arena h) \<Longrightarrow>
    \<exists>us h'. clone_list f h ts = Some (us, h') \<and> heap_ext h h' \<and>
      (case us of
         None \<Rightarrow> a_off (ta_arena h) + sum_list (map tree_bytes xs) > a_cap (ta_arena h)
       | Some us \<Rightarrow> list_all2 (\<lambda>t x. abs_type n h' t = Some x) us xs \<and> None \<notin> set us \<and>
           (\<forall>p. Some p \<in> set us \<longrightarrow> length (ta_cells h) \<le> p \<and> p < length (ta_cells h')) \<and>
           copied h h' (sum_list (map tree_bytes xs)))"
proof (induction ts arbitrary: h xs)
  case Nil
  then show ?case by (auto simp: copied_def closed_from_def)
next
  case (Cons t ts)
  from Cons.prems(1) obtain x ys where xs: "xs = x # ys" "abs_type n h t = Some x"
    "list_all2 (\<lambda>t x. abs_type n h t = Some x) ts ys" by (auto simp: list_all2_Cons1)
  obtain t1 h1 where 1: "f h t = Some (t1, h1)" "clone_post n h x (t1, h1)"
    using assms [unfolded clones_def, rule_format, OF xs(2) _ Cons.prems(3)] Cons.prems(2,4) xs(1) by auto
  then have e1: "heap_ext h h1" by (simp add: clone_post_def)
  show ?case
  proof (cases t1)
    case None
    with 1 xs(1) e1 show ?thesis by (auto simp: clone_post_def)
  next
    case (Some p)
    with 1(2) have p: "length (ta_cells h) \<le> p" "p < length (ta_cells h1)" "abs_type n h1 (Some p) = Some x"
      and c1: "copied h h1 (tree_bytes x)"
      by (auto simp: clone_post_def)
    then have cl1: "closed_from (length (ta_cells h)) h1" by (simp add: copied_def)
    have cl: "closed_from 0 h1" using closed_join [OF Cons.prems(3) e1 cl1] by simp
    have bounds: "q < length (ta_cells h1)" if "Some q \<in> set ts" for q
      using Cons.prems(4) [of q] that heap_ext_length [OF e1] by simp
    have same: "abs_type n h1 u = abs_type n h u" if "u \<in> set ts" for u
      using abs_type_ext [OF e1 Cons.prems(3), of u n] Cons.prems(4) that by auto
    have "list_all2 (\<lambda>t x. abs_type n h1 t = Some x) ts ys"
      using xs(3) by (rule list.rel_mono_strong) (simp add: same)
    from Cons.IH [OF this _ cl bounds] xs(1) Cons.prems(2) c1
    obtain us h2 where 2: "clone_list f h1 ts = Some (us, h2)" "heap_ext h1 h2"
      "case us of
         None \<Rightarrow> a_off (ta_arena h1) + sum_list (map tree_bytes ys) > a_cap (ta_arena h1)
       | Some us \<Rightarrow> list_all2 (\<lambda>t x. abs_type n h2 t = Some x) us ys \<and> None \<notin> set us \<and>
           (\<forall>p. Some p \<in> set us \<longrightarrow> length (ta_cells h1) \<le> p \<and> p < length (ta_cells h2)) \<and>
           copied h1 h2 (sum_list (map tree_bytes ys))"
      by (auto simp: copied_def)
    note e2 = heap_ext_trans [OF e1 2(2)]
    show ?thesis
    proof (cases us)
      case None
      with 1(1) Some 2 e1 e2 c1 xs(1) show ?thesis by (auto simp: copied_def heap_ext_def)
    next
      case us: (Some vs)
      have "abs_type n h2 (Some p) = Some x"
        using abs_type_ext [OF 2(2) cl1, of "Some p" n] p by simp
      moreover have "closed_from (length (ta_cells h)) h2"
        using closed_join [OF cl1 2(2)] 2(3) us heap_ext_length [OF e1] by (simp add: copied_def)
      moreover have "length (ta_cells h1) \<le> length (ta_cells h2)" using heap_ext_length [OF 2(2)] .
      ultimately show ?thesis
        using 1(1) Some 2 us e2 c1 xs(1) p heap_ext_length [OF e1]
        by (fastforce simp: copied_def)
    qed
  qed
qed
lemma alloc_type_cases:
  assumes "alloc_type sz al d h = (t, h')"
  shows "(t = None \<and> h' = h \<and> a_off (ta_arena h) + SIZEOF_TYPE > a_cap (ta_arena h)) \<or>
    (t = Some (length (ta_cells h)) \<and> heap_ext h h' \<and> length (ta_cells h') = Suc (length (ta_cells h)) \<and>
     cell h' (length (ta_cells h)) = d \<and> a_off (ta_arena h') = a_off (ta_arena h) + SIZEOF_TYPE \<and>
     a_off (ta_arena h') \<le> a_cap (ta_arena h'))"
  using assms
  by (cases "arena_alloc h SIZEOF_TYPE")
    (auto simp: alloc_type_def arena_alloc_Some heap_ext_def cell_def arena_alloc_def arena_push_def SIZEOF_TYPE_def
      split: if_splits)

text \<open>A complete tree stands for a cell without \<open>NULL\<close>.\<close>

lemma abs_list_no_null:
  assumes "list_all2 (\<lambda>t x. abs_type n h t = Some x) ts xs" and "\<forall>x\<in>set xs. complete x"
  shows "None \<notin> set ts"
proof
  assume "None \<in> set ts"
  then obtain i where i: "i < length ts" "ts ! i = None" by (auto simp: in_set_conv_nth)
  then have "abs_type n h None = Some (xs ! i)" "i < length xs"
    using assms(1) by (auto simp: list_all2_conv_all_nth)
  moreover have "abs_type n h None \<noteq> Some y" if "complete y" for y using that by (cases n) auto
  ultimately show False using assms(2) nth_mem by blast
qed

text \<open>The last step of a copy: the node gets the copies of its children.\<close>

lemma finish_copy:
  assumes e2: "heap_ext h h2" and len2: "length (ta_cells h2) = Suc (length (ta_cells h))"
    and e: "heap_ext h2 h3"
    and ts: "list_all2 (\<lambda>t x. abs_type n h3 t = Some x) ts xs"
    and new: "\<And>r. Some r \<in> set ts \<Longrightarrow> length (ta_cells h2) \<le> r \<and> r < length (ta_cells h3)"
    and c: "copied h2 h3 bytes" and off2: "a_off (ta_arena h2) = a_off (ta_arena h) + k"
    and d: "None \<notin> set (all_refs d)" "length ts = length (all_refs d)"
  defines "p \<equiv> length (ta_cells h)" and "h4 \<equiv> set_cell h3 (length (ta_cells h)) (replace_refs d ts)"
  shows "heap_ext h h4" and "p < length (ta_cells h4)"
    and "abs_type (Suc n) h4 (Some p) = Some (T_Node (erase d) xs)" and "copied h h4 (k + bytes)"
proof -
  note rr = replace_refs_all [OF d]
  note e3 = heap_ext_trans [OF e2 e]
  have len3: "Suc p \<le> length (ta_cells h3)" using heap_ext_length [OF e] len2 p_def by simp
  have cells4: "cell h4 i = (if i = p then replace_refs d ts else cell h3 i)" if "i < length (ta_cells h3)" for i
    using that by (simp add: set_cell_def cell_def h4_def p_def)
  have len4: "length (ta_cells h4) = length (ta_cells h3)" by (simp add: set_cell_def h4_def)
  have cp4: "cell h4 p = replace_refs d ts" using cells4 len3 by simp
  have new: "Suc p \<le> r \<and> r < length (ta_cells h3)" if "Some r \<in> set ts" for r
    using new [OF that] len2 p_def by simp
  have cl3: "closed_from (Suc p) h3" using c len2 by (simp add: copied_def p_def)
  have same: "abs_type n h4 u = abs_type n h3 u" if "u \<in> set ts" for u
  proof (rule abs_type_agree [where S = "{Suc p..<length (ta_cells h3)}"])
    show "\<forall>i\<in>{Suc p..<length (ta_cells h3)}. cell h4 i = cell h3 i \<and>
        (\<forall>r. Some r \<in> set (all_refs (cell h3 i)) \<longrightarrow> r \<in> {Suc p..<length (ta_cells h3)})"
      using cells4 closed_fromD [OF cl3] by (metis atLeastLessThan_iff not_less_eq_eq order_refl)
  qed (use new that in simp)
  have "list_all2 (\<lambda>t x. abs_type n h4 t = Some x) ts xs"
    using ts by (rule list.rel_mono_strong) (simp add: same)
  then show "abs_type (Suc n) h4 (Some p) = Some (T_Node (erase d) xs)"
    using rr cp4 by (simp add: those_map_Some)
  show "heap_ext h h4" using e3 by (auto simp: heap_ext_def set_cell_def h4_def list_update_append)
  show "p < length (ta_cells h4)" using len3 len4 by simp
  have "closed_from p h4"
    unfolding closed_from_def len4
  proof (intro allI impI, elim conjE)
    fix i r assume i: "p \<le> i" "i < length (ta_cells h3)" and r: "Some r \<in> set (all_refs (cell h4 i))"
    show "p \<le> r \<and> r < length (ta_cells h3)"
    proof (cases "i = p")
      case True
      then show ?thesis using r cp4 rr new [of r] by simp
    next
      case False
      then have "Some r \<in> set (all_refs (cell h3 i))" "Suc p \<le> i" using r cells4 i by simp_all
      from closed_fromD [OF cl3 this(2) i(2) this(1)] show ?thesis by simp
    qed
  qed
  then show "copied h h4 (k + bytes)"
    using c off2 by (simp add: copied_def set_cell_def h4_def p_def)
qed

lemma clone_correct:
  assumes "abs_type n h t = Some x" and "complete x" and "closed_from 0 h"
    and "\<And>p. t = Some p \<Longrightarrow> p < length (ta_cells h)"
  shows "\<exists>r. morphl_type_clone n h t = Some r \<and> clone_post n h x r"
  using assms
proof (induction n arbitrary: h t x)
  case (Suc n)
  have ih: "clones (morphl_type_clone n) n" unfolding clones_def using Suc.IH by blast
  obtain q where q: "t = Some q" using Suc.prems by (cases t) auto
  let ?d = "cell h q" and ?p = "length (ta_cells h)"
  obtain xs where xs: "list_all2 (\<lambda>t x. abs_type n h t = Some x) (all_refs ?d) xs" "x = T_Node (erase ?d) xs"
    using Suc.prems(1) q by (auto simp: those_map_Some)
  have bytes: "tree_bytes x = SIZEOF_TYPE + sum_list (array_sizes ?d) + sum_list (map tree_bytes xs)"
    using xs(2) by simp
  have no_null: "None \<notin> set (all_refs ?d)" using abs_list_no_null [OF xs(1)] Suc.prems(2) xs(2) by simp
  obtain t1 h1 where alloc: "alloc_type (ty_size (ta_cells h ! q)) (ty_align (ta_cells h ! q)) ?d h = (t1, h1)"
    by fastforce
  note a1 = alloc_type_cases [OF alloc]
  show ?case
  proof (cases t1)
    case None
    with a1 alloc q bytes show ?thesis by (auto simp: clone_post_def)
  next
    case (Some p)
    obtain b h2 where all: "alloc_all (array_sizes ?d) h1 = (b, h2)" by fastforce
    note a2 = alloc_all_result [OF all array_sizes_pos]
    have e2: "heap_ext h h2" and len2: "length (ta_cells h2) = Suc ?p" and cp: "cell h2 ?p = ?d" and p: "p = ?p"
      using a1 a2 Some by (auto simp: heap_ext_def cell_def)
    show ?thesis
    proof (cases b)
      case False
      have "a_off (ta_arena h) + tree_bytes x > a_cap (ta_arena h)"
        using a1 a2 False Some bytes by (auto simp: heap_ext_def simp del: sum_list_eq_0_iff)
      then have "clone_post (Suc n) h x (None, h2)" using e2 by (simp add: clone_post_def)
      moreover have "morphl_type_clone (Suc n) h t = Some (None, h2)" using alloc Some all False q by simp
      ultimately show ?thesis by blast
    next
      case True
      have off2: "a_off (ta_arena h2) = a_off (ta_arena h) + (SIZEOF_TYPE + sum_list (array_sizes ?d))"
          "a_off (ta_arena h2) \<le> a_cap (ta_arena h2)"
        using a1 a2 True Some by (auto simp: heap_ext_def simp del: sum_list_eq_0_iff)
      have below: "r < ?p" if "Some r \<in> set (all_refs ?d)" for r
        using closed_fromD [OF Suc.prems(3) _ _ that] Suc.prems(4) q by simp
      have cl2: "closed_from 0 h2"
        by (rule closed_snoc [OF Suc.prems(3) e2 len2]) (use below cp in simp)
      have same: "abs_type n h2 u = abs_type n h u" if "u \<in> set (all_refs ?d)" for u
        using abs_type_ext [OF e2 Suc.prems(3), of u n] below that by auto
      have "list_all2 (\<lambda>t x. abs_type n h2 t = Some x) (all_refs ?d) xs"
        using xs(1) by (rule list.rel_mono_strong) (simp add: same)
      moreover have "\<forall>y\<in>set xs. complete y" using Suc.prems(2) xs(2) by simp
      moreover have "\<And>r. Some r \<in> set (all_refs ?d) \<Longrightarrow> r < length (ta_cells h2)"
        using below len2 by fastforce
      ultimately obtain us h3 where c: "clone_list (morphl_type_clone n) h2 (all_refs ?d) = Some (us, h3)" "heap_ext h2 h3"
        and cs: "case us of
            None \<Rightarrow> a_off (ta_arena h2) + sum_list (map tree_bytes xs) > a_cap (ta_arena h2)
          | Some us \<Rightarrow> list_all2 (\<lambda>t x. abs_type n h3 t = Some x) us xs \<and> None \<notin> set us \<and>
              (\<forall>p. Some p \<in> set us \<longrightarrow> length (ta_cells h2) \<le> p \<and> p < length (ta_cells h3)) \<and>
              copied h2 h3 (sum_list (map tree_bytes xs))"
        using clone_list_correct [OF ih _ _ cl2 _ off2(2), of "all_refs ?d" xs] by blast
      show ?thesis
      proof (cases us)
        case None
        then have "a_off (ta_arena h) + tree_bytes x > a_cap (ta_arena h)"
          using cs off2 bytes e2 by (simp add: heap_ext_def)
        then have "clone_post (Suc n) h x (None, h3)"
          using heap_ext_trans [OF e2 c(2)] by (simp add: clone_post_def)
        moreover have "morphl_type_clone (Suc n) h t = Some (None, h3)"
          using alloc Some all True q c None child_refs_all [OF no_null] by simp
        ultimately show ?thesis by blast
      next
        case us: (Some ts)
        let ?h4 = "set_cell h3 ?p (replace_refs ?d ts)"
        have tl: "length ts = length (all_refs ?d)" using cs us list_all2_lengthD [OF xs(1)] by (fastforce dest: list_all2_lengthD)
        have l2: "list_all2 (\<lambda>t x. abs_type n h3 t = Some x) ts xs"
          and new: "\<And>r. Some r \<in> set ts \<Longrightarrow> length (ta_cells h2) \<le> r \<and> r < length (ta_cells h3)"
          and cop: "copied h2 h3 (sum_list (map tree_bytes xs))"
          using cs us by simp_all
        note fin = finish_copy [OF e2 len2 c(2) l2 new cop off2(1) no_null tl]
        have "clone_post (Suc n) h x (Some ?p, ?h4)"
          unfolding clone_post_def prod.case option.case bytes
          using fin(1,2,4) fin(3) [folded xs(2)] by simp
        moreover have "morphl_type_clone (Suc n) h t = Some (Some ?p, ?h4)"
          using alloc Some p all True q c us child_refs_all [OF no_null] by simp
        ultimately show ?thesis by blast
      qed
    qed
  qed
qed simp
section \<open>Rendered trees\<close>

definition joined :: "string list \<Rightarrow> string" where
  "joined items = concat (map (\<lambda>s. s @ '', '') (butlast items)) @ (if items = [] then [] else last items)"

text \<open>The text of a tree; a function shows its first parameter.\<close>

fun render :: "intern_table \<Rightarrow> type_tree \<Rightarrow> string" where
  "render interns T_Null = ''<null>''"
| "render interns (T_Node d xs) =
     (case d of
        MORPHL_TYPE_VOID \<Rightarrow> ''void''
      | MORPHL_TYPE_INT \<Rightarrow> ''int''
      | MORPHL_TYPE_FLOAT \<Rightarrow> ''float''
      | MORPHL_TYPE_STRING \<Rightarrow> ''string''
      | MORPHL_TYPE_IDENT \<Rightarrow> ''ident''
      | MORPHL_TYPE_BOOL \<Rightarrow> ''bool''
      | MORPHL_TYPE_FUNC ps r \<Rightarrow> (case map (render interns) xs of
            [] \<Rightarrow> []
          | a # rest \<Rightarrow> ''('' @ a @ '') => '' @ last (a # rest))
      | MORPHL_TYPE_GROUP es \<Rightarrow> ''('' @ joined (map (render interns) xs) @ '')''
      | MORPHL_TYPE_BLOCK fs \<Rightarrow>
          ''{'' @ joined (map (field_text interns) (zip (map fst fs) (map (render interns) xs))) @ ''}''
      | MORPHL_TYPE_REF u m i \<Rightarrow>
          ''ref['' @ (if m then ''mut'' else ''const'') @ (if i then '' inline'' else '''') @ '']''
      | MORPHL_TYPE_PRIMITIVE \<Rightarrow> ''primitive''
      | MORPHL_TYPE_TRAIT s \<Rightarrow> ''trait''
      | MORPHL_TYPE_UNKNOWN \<Rightarrow> ''unknown'')"

text \<open>Functions have a parameter; the referent of a reference is not shown.\<close>

fun has_params :: "type_tree \<Rightarrow> bool" where
  "has_params T_Null = True"
| "has_params (T_Node d xs) \<longleftrightarrow>
     (case d of MORPHL_TYPE_FUNC ps r \<Rightarrow> ps \<noteq> [] | _ \<Rightarrow> True) \<and> (\<forall>x\<in>set xs. has_params x)"

lemma put_all_fits:
  "length buf + length (concat ts) \<le> 511 \<Longrightarrow>
     put_all (buf, length buf) ts = Some (buf @ concat ts, length (buf @ concat ts))"
proof (induction ts arbitrary: buf)
  case (Cons t ts)
  have "put_all (buf @ t, length (buf @ t)) ts =
      Some ((buf @ t) @ concat ts, length ((buf @ t) @ concat ts))"
    by (rule Cons.IH) (use Cons.prems in simp)
  then show ?case using Cons.prems by (simp add: put_def)
qed simp

lemma in_brackets_fits:
  assumes "length left + length (joined items) + length right \<le> 511"
  shows "in_brackets left items right = Some (left @ joined items @ right)"
proof -
  define ts where "ts = map (\<lambda>s. s @ '', '') (butlast items) @ (if items = [] then [] else [last items]) @ [right]"
  have c: "concat ts = joined items @ right" by (simp add: joined_def ts_def)
  show ?thesis
    unfolding in_brackets_def ts_def [symmetric] using put_all_fits [of left ts] assms c by simp
qed

lemma joined_length: "s \<in> set items \<Longrightarrow> length s \<le> length (joined items)"
proof (induction items rule: rev_induct)
  case (snoc a items)
  then show ?case
  proof (cases "s = a")
    case False
    then have "s \<in> set items" using snoc.prems by simp
    then have "length s \<le> length (concat (map (\<lambda>s. s @ '', '') items))"
      by (induction items) auto
    then show ?thesis by (simp add: joined_def)
  qed (simp add: joined_def)
qed simp

lemma rendered_parts:
  assumes "list_all2 (\<lambda>t x. abs_type n h t = Some x) ts xs" and "\<forall>x\<in>set xs. length (render interns x) \<le> 511"
    and "\<And>t x. abs_type n h t = Some x \<Longrightarrow> x \<in> set xs \<Longrightarrow> length (render interns x) \<le> 511 \<Longrightarrow>
      morphl_type_to_string n h interns t = Some (render interns x)"
  shows "those (map (morphl_type_to_string n h interns) ts) = Some (map (render interns) xs)"
proof -
  have "list_all2 (\<lambda>t x. morphl_type_to_string n h interns t = Some (render interns x)) ts xs"
    using assms(1) by (rule list.rel_mono_strong) (use assms(2,3) in blast)
  then show ?thesis by (simp add: those_map_Some list_all2_map2)
qed

lemma render_part:
  assumes "x \<in> set xs" and "length (joined (map (render interns) xs)) \<le> 509"
  shows "length (render interns x) \<le> 511"
  using joined_length [of "render interns x" "map (render interns) xs"] assms by force

lemma render_field:
  assumes "x \<in> set xs" and "length fs = length xs"
    and "length (joined (map (field_text interns) (zip (map fst fs) (map (render interns) xs)))) \<le> 509"
  shows "length (render interns x) \<le> 511"
proof -
  obtain i where i: "i < length xs" "xs ! i = x" using assms(1) by (auto simp: in_set_conv_nth)
  let ?items = "map (field_text interns) (zip (map fst fs) (map (render interns) xs))"
  have it: "?items ! i = field_text interns (fst (fs ! i), render interns x)" using i assms(2) by simp
  have "?items ! i \<in> set ?items" by (rule nth_mem) (use i assms(2) in simp)
  from joined_length [OF this] it have "length (render interns x) \<le> length (joined ?items)" by simp
  with assms(3) show ?thesis by simp
qed

lemma to_string_render:
  assumes "abs_type n h t = Some x" and "has_params x" and "length (render interns x) \<le> 511"
  shows "morphl_type_to_string n h interns t = Some (render interns x)"
  using assms
proof (induction n arbitrary: t x)
  case (Suc n)
  show ?case
  proof (cases t)
    case (Some p)
    obtain xs where xs: "list_all2 (\<lambda>t x. abs_type n h t = Some x) (all_refs (cell h p)) xs"
        "x = T_Node (erase (cell h p)) xs"
      using Suc.prems(1) Some by (auto simp: those_map_Some)
    have parts: "(\<forall>x\<in>set xs. length (render interns x) \<le> 511) \<Longrightarrow>
        those (map (morphl_type_to_string n h interns) (all_refs (cell h p))) = Some (map (render interns) xs)"
      using rendered_parts [OF xs(1), of interns] Suc.IH Suc.prems(2) xs(2) by simp
    show ?thesis
    proof (cases "cell h p")
      case (MORPHL_TYPE_FUNC ps r)
      with Suc.prems(2) xs obtain q qs where ps: "ps = q # qs" by (cases ps) auto
      with MORPHL_TYPE_FUNC xs(1) obtain a as b where ab: "xs = a # as @ [b]" "abs_type n h q = Some a" "abs_type n h r = Some b"
        by (auto simp: list_all2_Cons1 list_all2_append1)
      then have "length (render interns a) \<le> 511" "length (render interns b) \<le> 511"
        using Suc.prems(3) MORPHL_TYPE_FUNC xs(2) by simp_all
      then show ?thesis
        using Suc.IH ab Suc.prems(2,3) Some MORPHL_TYPE_FUNC ps xs(2) by simp
    next
      case (MORPHL_TYPE_GROUP es)
      then have "length (joined (map (render interns) xs)) \<le> 509" using Suc.prems(3) xs(2) by simp
      then show ?thesis
        using parts render_part [of _ xs interns] MORPHL_TYPE_GROUP Some xs(2) Suc.prems(3) by (simp add: in_brackets_fits)
    next
      case (MORPHL_TYPE_BLOCK fs)
      have l: "length fs = length xs" using xs(1) MORPHL_TYPE_BLOCK by (auto dest: list_all2_lengthD)
      have m: "map fst (map (\<lambda>f. (fst f, None :: tref)) fs) = map fst fs" by simp
      have j: "length (joined (map (field_text interns) (zip (map fst fs) (map (render interns) xs)))) \<le> 509"
        using Suc.prems(3) xs(2) MORPHL_TYPE_BLOCK by (simp add: comp_def)
      then have "\<forall>x\<in>set xs. length (render interns x) \<le> 511" using render_field [OF _ l] by blast
      then show ?thesis
        using parts MORPHL_TYPE_BLOCK Some xs(2) j by (simp add: in_brackets_fits comp_def)
    qed (use Some xs(2) in simp_all)
  qed (use Suc.prems in simp)
qed simp
section \<open>Properties\<close>

text \<open>C12: type equality is structural equality.  Whenever the types below two pointers are finite,
  \<open>morphl_type_equals\<close> returns, and it returns true exactly when the two trees are the same: same
  kinds, same number and names of fields in the same order, same flags, recursively; sizes,
  alignments and sharing play no part.\<close>

theorem type_equality_structural:
  assumes "abs_type n h a = Some x" and "abs_type m h b = Some y" and "max n m \<le> k"
  shows "morphl_type_equals k h a b = Some (x = y)"
  using equals_abs_same [OF abs_type_mono [OF assms(1)] abs_type_mono [OF assms(2)], of k] assms(3) by simp

definition sample_types :: type_arena where
  "sample_types =
     \<lparr>ta_arena = \<lparr>a_cap = 4096, a_off = 0\<rparr>,
      ta_cells = [\<lparr>ty_size = 8, ty_align = 8, ty_data = MORPHL_TYPE_INT\<rparr>,
        \<lparr>ty_size = 8, ty_align = 8, ty_data = MORPHL_TYPE_INT\<rparr>,
        \<lparr>ty_size = 0, ty_align = 1, ty_data = MORPHL_TYPE_GROUP [Some 0, Some 1]\<rparr>,
        \<lparr>ty_size = 0, ty_align = 1, ty_data = MORPHL_TYPE_GROUP [Some 1, Some 1]\<rparr>,
        \<lparr>ty_size = 0, ty_align = 1, ty_data = MORPHL_TYPE_BLOCK [(7, Some 4)]\<rparr>]\<rparr>"

lemma sample_cells:
  "cell sample_types 0 = MORPHL_TYPE_INT" "cell sample_types (Suc 0) = MORPHL_TYPE_INT"
  "cell sample_types 2 = MORPHL_TYPE_GROUP [Some 0, Some 1]"
  "cell sample_types 3 = MORPHL_TYPE_GROUP [Some 1, Some 1]"
  "cell sample_types 4 = MORPHL_TYPE_BLOCK [(7, Some 4)]"
  by (simp_all add: cell_def sample_types_def)

lemma sample_trees:
  "abs_type 2 sample_types (Some 2) =
     Some (T_Node (MORPHL_TYPE_GROUP [None, None]) [T_Node MORPHL_TYPE_INT [], T_Node MORPHL_TYPE_INT []])"
  "abs_type 2 sample_types (Some 3) =
     Some (T_Node (MORPHL_TYPE_GROUP [None, None]) [T_Node MORPHL_TYPE_INT [], T_Node MORPHL_TYPE_INT []])"
  by (simp_all add: numeral_2_eq_2 sample_cells [unfolded numeral_2_eq_2])

theorem type_equality_structural_witness: "morphl_type_equals 2 sample_types (Some 2) (Some 3) = Some True"
  using type_equality_structural [OF sample_trees] by simp
text \<open>A heap whose cells point only at cells allocated before them.\<close>

definition ordered_heap :: "type_arena \<Rightarrow> bool" where
  "ordered_heap h \<longleftrightarrow> (\<forall>p<length (ta_cells h). \<forall>t\<in>set (all_refs (cell h p)). \<forall>r. t = Some r \<longrightarrow> r < p)"

lemma those_total:
  assumes "\<forall>u\<in>set us. \<exists>y. f u = Some y"
  shows "\<exists>ys. those (map f us) = Some ys"
proof
  show "those (map f us) = Some (map (\<lambda>u. the (f u)) us)"
    unfolding those_map_Some list_all2_map2 by (rule list.rel_refl_strong) (use assms in fastforce)
qed

lemma ordered_heap_tree:
  assumes "ordered_heap h" and "\<And>p. t = Some p \<Longrightarrow> p < n \<and> p < length (ta_cells h)"
  shows "\<exists>x. abs_type (Suc n) h t = Some x"
  using assms(2)
proof (induction n arbitrary: t)
  case 0
  then show ?case by (cases t) auto
next
  case (Suc n)
  show ?case
  proof (cases t)
    case (Some p)
    then have p: "p < Suc n" "p < length (ta_cells h)" using Suc.prems by auto
    have "\<exists>y. abs_type (Suc n) h u = Some y" if "u \<in> set (all_refs (cell h p))" for u
    proof (rule Suc.IH)
      fix r assume "u = Some r"
      then have "r < p" using assms(1) p(2) that by (auto simp: ordered_heap_def)
      then show "r < n \<and> r < length (ta_cells h)" using p by simp
    qed
    then obtain ys where "those (map (abs_type (Suc n) h) (all_refs (cell h p))) = Some ys"
      using those_total [of "all_refs (cell h p)" "abs_type (Suc n) h"] by blast
    then show ?thesis using Some by (simp only: abs_type.simps(2) option.case option.map) blast
  qed simp
qed

text \<open>Type equality returns on all types built by the constructors alone.  When every cell points
  only at cells allocated before it, comparing two cells needs a recursion no deeper than their
  addresses, whatever the cells are.\<close>

theorem type_equality_returns:
  assumes "ordered_heap h" and "p < length (ta_cells h)" and "q < length (ta_cells h)"
  shows "\<exists>b. morphl_type_equals (max p q + 2) h (Some p) (Some q) = Some b"
proof -
  obtain x where x: "abs_type (Suc (Suc (max p q))) h (Some p) = Some x"
    using ordered_heap_tree [OF assms(1), where t = "Some p" and n = "Suc (max p q)"] assms(2)
    by (auto simp: less_Suc_eq_le simp del: abs_type.simps)
  obtain y where y: "abs_type (Suc (Suc (max p q))) h (Some q) = Some y"
    using ordered_heap_tree [OF assms(1), where t = "Some q" and n = "Suc (max p q)"] assms(3)
    by (auto simp: less_Suc_eq_le simp del: abs_type.simps)
  from equals_abs_same [OF x y] show ?thesis by simp
qed

definition two_ints :: type_arena where
  "two_ints = snd (morphl_type_int (snd (morphl_type_int
     \<lparr>ta_arena = arena_init 256, ta_cells = []\<rparr>)))"

lemma two_ints_eq:
  "two_ints = \<lparr>ta_arena = \<lparr>a_cap = 256, a_off = 112\<rparr>,
     ta_cells = replicate 2 \<lparr>ty_size = 8, ty_align = 8, ty_data = MORPHL_TYPE_INT\<rparr>\<rparr>"
  by (simp add: two_ints_def morphl_type_int_def alloc_type_def arena_alloc_def arena_push_def arena_init_def
      SIZEOF_TYPE_def numeral_2_eq_2)

theorem type_equality_returns_witness: "\<exists>b. morphl_type_equals (max 0 1 + 2) two_ints (Some 0) (Some 1) = Some b"
proof -
  have "ordered_heap two_ints"
    by (simp add: ordered_heap_def two_ints_eq cell_def less_Suc_eq numeral_2_eq_2)
  from type_equality_returns [OF this, of 0 1] show ?thesis by (simp add: two_ints_eq)
qed

lemma equals_self_fields:
  assumes "cell h p = MORPHL_TYPE_BLOCK ((f, Some p) # fs)" and "cell h q = MORPHL_TYPE_BLOCK ((f, Some q) # gs)"
    and "length fs = length gs"
  shows "morphl_type_equals n h (Some p) (Some q) = None"
  using assms by (induction n) simp_all

text \<open>C29: type equality does not return on types that contain themselves.  Take two blocks with a
  first field of the same name whose type is the block itself (the type of a block whose first
  statement declares a variable as \<open>$this\<close>).  With different numbers of fields the answer is no at
  the first comparison; with the same number they are never told apart nor found equal, at any
  recursion depth, whatever their other fields are.\<close>

theorem type_equality_diverges:
  assumes "cell h p = MORPHL_TYPE_BLOCK ((f, Some p) # fs)" and "cell h q = MORPHL_TYPE_BLOCK ((f, Some q) # gs)"
  shows "morphl_type_equals (Suc n) h (Some p) (Some q) = (if length fs = length gs then None else Some False)"
  using assms equals_self_fields [OF assms, of n] by simp

theorem type_equality_diverges_witness: "morphl_type_equals 1000 sample_types (Some 4) (Some 4) = None"
  using type_equality_diverges [OF sample_cells(5) sample_cells(5), of 999] by simp

text \<open>C30: a clone is a deep copy.  For a finite type without \<open>NULL\<close> parts in a heap without dangling
  pointers, \<open>morphl_type_clone\<close> returns; it gives \<open>NULL\<close> exactly when the arena has less room than
  the cells and arrays of the copy need, and otherwise a new cell with the same tree, hence equal to
  the original.  No old cell changes, and everything the copy reaches is newly allocated.\<close>

theorem type_clone_deep_copy:
  assumes "abs_type n h (Some q) = Some x" and "complete x" and "closed_from 0 h" and "q < length (ta_cells h)"
  shows "\<exists>t h'. morphl_type_clone n h (Some q) = Some (t, h') \<and> heap_ext h h' \<and>
    (t = None \<longleftrightarrow> a_off (ta_arena h) + tree_bytes x > a_cap (ta_arena h)) \<and>
    (\<forall>p. t = Some p \<longrightarrow> length (ta_cells h) \<le> p \<and> closed_from (length (ta_cells h)) h' \<and>
       abs_type n h' t = Some x \<and> morphl_type_equals n h' (Some q) t = Some True)"
proof -
  obtain t h' where r: "morphl_type_clone n h (Some q) = Some (t, h')" "clone_post n h x (t, h')"
    using clone_correct [OF assms(1-3)] assms(4) by fastforce
  have e: "heap_ext h h'" using r(2) by (simp add: clone_post_def)
  show ?thesis
  proof (cases t)
    case (Some p)
    with r(2) have p: "length (ta_cells h) \<le> p" "abs_type n h' (Some p) = Some x" "copied h h' (tree_bytes x)"
      by (simp_all add: clone_post_def)
    have "abs_type n h' (Some q) = Some x"
      using abs_type_ext [OF e assms(3), of "Some q" n] assms(1,4) by simp
    from equals_abs_same [OF this p(2)] p e r(1) Some show ?thesis by (auto simp: copied_def heap_ext_def)
  qed (use r e in \<open>simp add: clone_post_def\<close>)
qed
lemma sample_closed: "closed_from 0 sample_types"
  unfolding closed_from_def
proof (intro allI impI, elim conjE)
  fix i r assume "i < length (ta_cells sample_types)" and r: "Some r \<in> set (all_refs (cell sample_types i))"
  then have "i = 0 \<or> i = Suc 0 \<or> i = 2 \<or> i = 3 \<or> i = 4" by (auto simp: sample_types_def)
  with r have "r < 5" by (elim disjE) (auto simp: sample_cells)
  then show "0 \<le> r \<and> r < length (ta_cells sample_types)" by (simp add: sample_types_def)
qed

theorem type_clone_deep_copy_witness:
  "\<exists>p h'. morphl_type_clone 2 sample_types (Some 2) = Some (Some p, h') \<and> 5 \<le> p \<and>
     morphl_type_equals 2 h' (Some 2) (Some p) = Some True"
proof -
  have len: "length (ta_cells sample_types) = 5" by (simp add: sample_types_def)
  have room: "a_off (ta_arena sample_types) + tree_bytes (T_Node (MORPHL_TYPE_GROUP [None, None])
      [T_Node MORPHL_TYPE_INT [], T_Node MORPHL_TYPE_INT []]) \<le> a_cap (ta_arena sample_types)"
    by (simp add: sample_types_def SIZEOF_TYPE_def SIZEOF_POINTER_def)
  from type_clone_deep_copy [OF sample_trees(1) _ sample_closed] len room
  obtain t h' where "morphl_type_clone 2 sample_types (Some 2) = Some (t, h')" "t \<noteq> None"
    "\<forall>p. t = Some p \<longrightarrow> 5 \<le> p \<and> morphl_type_equals 2 h' (Some 2) t = Some True"
    by fastforce
  then show ?thesis by blast
qed

text \<open>C31: a type is shown as its structure.  For a finite type whose functions all have a parameter and
  whose text fits into the 511 characters of the buffer, \<open>morphl_type_to_string\<close> returns exactly the
  rendering of its tree: the parts in order, separated by commas, field names before their types,
  references without their target.\<close>

theorem type_to_string_renders:
  assumes "abs_type n h t = Some x" and "has_params x" and "length (render interns x) \<le> 511"
  shows "morphl_type_to_string n h interns t = Some (render interns x)"
  using to_string_render [OF assms] .

theorem type_to_string_renders_witness:
  "morphl_type_to_string 2 sample_types interns_new (Some 2) = Some ''(int, int)''"
proof -
  let ?x = "T_Node (MORPHL_TYPE_GROUP [None, None]) [T_Node MORPHL_TYPE_INT [], T_Node MORPHL_TYPE_INT []]"
  have "render interns_new ?x = ''(int, int)''" by (simp add: joined_def)
  with type_to_string_renders [OF sample_trees(1), of interns_new] show ?thesis by simp
qed

end
