(* ===== verification/Type_Context.thy ===== *)
theory Type_Context
  imports Types Diagnostics
begin

text \<open>
  The type checking context of \<open>include/typing/type_context.h\<close> and
  \<open>src/typing/type_context.c\<close>: scopes of variables and forward declarations, the function
  registry, and the stacks of functions, blocks, files and global scopes.

  Arrays are lists with the capacity the code keeps for them, since growing one takes room from the
  arena; stacks have their top first.  The global error sink of \<open>src/util/error.c\<close> is part of the
  state.  \<open>type_context_print_debug\<close>, which only prints, is in theory \<open>Driver\<close>, and contexts are not
  \<open>NULL\<close>.
\<close>

section \<open>State\<close>

record forward_entry =
  fw_name :: nat
  fw_type :: tref
  fw_resolved :: bool

record scope =
  sc_vars :: "(nat \<times> tref) list"
  sc_var_capacity :: nat
  sc_forwards :: "forward_entry list"
  sc_forward_capacity :: nat
  sc_has_forward_errors :: bool

record ref_stack =
  rs_items :: "tref list"
  rs_capacity :: nat

record type_context =
  tc_types :: type_arena
  tc_interns :: intern_table
  tc_diagnostics :: diagnostics
  tc_functions :: "(nat \<times> tref) list"
  tc_func_capacity :: nat
  tc_scopes :: "scope list"
  tc_scope_capacity :: nat
  tc_expected_return_type :: tref
  tc_pending_func_type :: tref
  tc_func_stack :: ref_stack
  tc_file_type :: tref
  tc_global_type :: tref
  tc_file_stack :: ref_stack
  tc_global_stack :: ref_stack
  tc_this_stack :: ref_stack

definition INITIAL_FUNC_CAPACITY :: nat where "INITIAL_FUNC_CAPACITY = 32"
definition INITIAL_SCOPE_CAPACITY :: nat where "INITIAL_SCOPE_CAPACITY = 8"
definition INITIAL_VAR_CAPACITY :: nat where "INITIAL_VAR_CAPACITY = 16"
definition INITIAL_FORWARD_CAPACITY :: nat where "INITIAL_FORWARD_CAPACITY = 4"
definition INITIAL_THIS_CAPACITY :: nat where "INITIAL_THIS_CAPACITY = 8"
definition INITIAL_FILE_CAPACITY :: nat where "INITIAL_FILE_CAPACITY = 4"
definition INITIAL_GLOBAL_CAPACITY :: nat where "INITIAL_GLOBAL_CAPACITY = 4"
definition INITIAL_FUNC_STACK_CAPACITY :: nat where "INITIAL_FUNC_STACK_CAPACITY = 4"

lemmas initial_capacities = INITIAL_FUNC_CAPACITY_def INITIAL_SCOPE_CAPACITY_def
  INITIAL_VAR_CAPACITY_def INITIAL_FORWARD_CAPACITY_def INITIAL_THIS_CAPACITY_def
  INITIAL_FILE_CAPACITY_def INITIAL_GLOBAL_CAPACITY_def INITIAL_FUNC_STACK_CAPACITY_def

definition SIZEOF_CONTEXT :: nat where "SIZEOF_CONTEXT = 192"
definition SIZEOF_SCOPE :: nat where "SIZEOF_SCOPE = 56"
definition SIZEOF_ENTRY :: nat where "SIZEOF_ENTRY = 16"
definition SIZEOF_FORWARD :: nat where "SIZEOF_FORWARD = 24"

lemmas sizes = SIZEOF_CONTEXT_def SIZEOF_SCOPE_def SIZEOF_ENTRY_def SIZEOF_FORWARD_def
  SIZEOF_POINTER_def SIZEOF_TYPE_def SIZEOF_SYM_def

section \<open>Creation\<close>

definition empty_scope :: scope where
  "empty_scope =
     \<lparr>sc_vars = [], sc_var_capacity = INITIAL_VAR_CAPACITY, sc_forwards = [],
      sc_forward_capacity = INITIAL_FORWARD_CAPACITY, sc_has_forward_errors = False\<rparr>"

text \<open>What a new context takes from the arena; on failure the part before the refused request is gone.\<close>

definition context_sizes :: "nat list" where
  "context_sizes =
     [SIZEOF_CONTEXT, INITIAL_FILE_CAPACITY * SIZEOF_POINTER, INITIAL_GLOBAL_CAPACITY * SIZEOF_POINTER,
      INITIAL_THIS_CAPACITY * SIZEOF_POINTER, INITIAL_FUNC_STACK_CAPACITY * SIZEOF_POINTER,
      INITIAL_FUNC_CAPACITY * SIZEOF_ENTRY, INITIAL_SCOPE_CAPACITY * SIZEOF_SCOPE,
      INITIAL_VAR_CAPACITY * SIZEOF_ENTRY, INITIAL_FORWARD_CAPACITY * SIZEOF_FORWARD]"

definition type_context_new :: "type_arena \<Rightarrow> intern_table \<Rightarrow> diagnostics \<Rightarrow> type_context option" where
  "type_context_new h interns dg =
     (case alloc_all context_sizes h of
        (False, _) \<Rightarrow> None
      | (True, h') \<Rightarrow> Some
          \<lparr>tc_types = h', tc_interns = interns, tc_diagnostics = dg,
           tc_functions = [], tc_func_capacity = INITIAL_FUNC_CAPACITY,
           tc_scopes = [empty_scope], tc_scope_capacity = INITIAL_SCOPE_CAPACITY,
           tc_expected_return_type = None, tc_pending_func_type = None,
           tc_func_stack = \<lparr>rs_items = [], rs_capacity = INITIAL_FUNC_STACK_CAPACITY\<rparr>,
           tc_file_type = None, tc_global_type = None,
           tc_file_stack = \<lparr>rs_items = [], rs_capacity = INITIAL_FILE_CAPACITY\<rparr>,
           tc_global_stack = \<lparr>rs_items = [], rs_capacity = INITIAL_GLOBAL_CAPACITY\<rparr>,
           tc_this_stack = \<lparr>rs_items = [], rs_capacity = INITIAL_THIS_CAPACITY\<rparr>\<rparr>)"

section \<open>Growing arrays\<close>

text \<open>Room for one more element: the capacity to use from now on, and the arena.\<close>

definition grow_array :: "nat \<Rightarrow> nat \<Rightarrow> nat \<Rightarrow> type_arena \<Rightarrow> (nat \<times> type_arena) option" where
  "grow_array used capacity elem_size h =
     (if used \<ge> capacity
      then map_option (\<lambda>h'. (capacity * 2, h')) (arena_alloc h (capacity * 2 * elem_size))
      else Some (capacity, h))"

definition push_ref :: "tref \<Rightarrow> ref_stack \<Rightarrow> type_arena \<Rightarrow> (ref_stack \<times> type_arena) option" where
  "push_ref t rs h =
     map_option (\<lambda>(cap, h'). (\<lparr>rs_items = t # rs_items rs, rs_capacity = cap\<rparr>, h'))
       (grow_array (length (rs_items rs)) (rs_capacity rs) SIZEOF_POINTER h)"

section \<open>Scopes\<close>

definition type_context_push_scope :: "type_context \<Rightarrow> bool \<times> type_context" where
  "type_context_push_scope ctx =
     (case grow_array (length (tc_scopes ctx)) (tc_scope_capacity ctx) SIZEOF_SCOPE (tc_types ctx) of
        None \<Rightarrow> (False, ctx)
      | Some (cap, h) \<Rightarrow>
          (let ctx1 = ctx\<lparr>tc_types := h, tc_scope_capacity := cap\<rparr> in
           case alloc_all [INITIAL_VAR_CAPACITY * SIZEOF_ENTRY, INITIAL_FORWARD_CAPACITY * SIZEOF_FORWARD] h of
             (False, h') \<Rightarrow> (False, ctx1\<lparr>tc_types := h'\<rparr>)
           | (True, h') \<Rightarrow> (True, ctx1\<lparr>tc_types := h', tc_scopes := empty_scope # tc_scopes ctx\<rparr>)))"

definition emit :: "morphl_error \<Rightarrow> type_context \<Rightarrow> type_context" where
  "emit err ctx = ctx\<lparr>tc_diagnostics := morphl_error_emit None err (tc_diagnostics ctx)\<rparr>"

definition missing_body :: "intern_table \<Rightarrow> forward_entry \<Rightarrow> morphl_error" where
  "missing_body interns f = morphl_error_make MORPHL_E_TYPE MORPHL_SEV_ERROR morphl_span_unknown
     (''$forward missing body for '' @ [CHR 0x27] @ view_text (interns_lookup interns (fw_name f)) @ [CHR 0x27])"

definition unresolved :: "scope \<Rightarrow> forward_entry list" where
  "unresolved sc = filter (\<lambda>f. \<not> fw_resolved f) (sc_forwards sc)"

definition type_context_pop_scope :: "type_context \<Rightarrow> bool \<times> type_context" where
  "type_context_pop_scope ctx =
     (case tc_scopes ctx of
        current # outer # rest \<Rightarrow>
          (let ctx1 = fold (emit \<circ> missing_body (tc_interns ctx)) (unresolved current) ctx in
           (\<not> (sc_has_forward_errors current \<or> unresolved current \<noteq> []),
            ctx1\<lparr>tc_scopes := outer # rest\<rparr>))
      | _ \<Rightarrow> (False, ctx))"

section \<open>Variables\<close>

text \<open>The current scope with other contents.\<close>

definition set_current :: "scope \<Rightarrow> type_context \<Rightarrow> type_context" where
  "set_current sc ctx = ctx\<lparr>tc_scopes := sc # tl (tc_scopes ctx)\<rparr>"

definition type_context_define_var :: "nat \<Rightarrow> tref \<Rightarrow> type_context \<Rightarrow> bool \<times> type_context" where
  "type_context_define_var name t ctx =
     (if tc_scopes ctx = [] \<or> name = 0 \<or> t = None then (False, ctx)
      else (let current = hd (tc_scopes ctx) in
            case grow_array (length (sc_vars current)) (sc_var_capacity current) SIZEOF_ENTRY (tc_types ctx) of
              None \<Rightarrow> (False, ctx)
            | Some (cap, h) \<Rightarrow>
                (True, set_current (current\<lparr>sc_var_capacity := cap, sc_vars := sc_vars current @ [(name, t)]\<rparr>)
                         (ctx\<lparr>tc_types := h\<rparr>))))"

text \<open>The first entry of a name gets another type; \<open>None\<close> when there is no entry.\<close>

fun update_first :: "(nat \<times> tref) list \<Rightarrow> nat \<Rightarrow> tref \<Rightarrow> (nat \<times> tref) list option" where
  "update_first [] name t = None"
| "update_first ((x, u) # es) name t =
     (if x = name then Some ((x, t) # es) else map_option (Cons (x, u)) (update_first es name t))"

definition type_context_update_var :: "nat \<Rightarrow> tref \<Rightarrow> type_context \<Rightarrow> bool \<times> type_context" where
  "type_context_update_var name t ctx =
     (if tc_scopes ctx = [] \<or> name = 0 \<or> t = None then (False, ctx)
      else (let current = hd (tc_scopes ctx) in
            case update_first (sc_vars current) name t of
              None \<Rightarrow> (False, ctx)
            | Some vars \<Rightarrow> (True, set_current (current\<lparr>sc_vars := vars\<rparr>) ctx)))"

fun lookup_scopes :: "scope list \<Rightarrow> nat \<Rightarrow> tref" where
  "lookup_scopes [] name = None"
| "lookup_scopes (sc # scs) name =
     (case map_of (sc_vars sc) name of Some t \<Rightarrow> t | None \<Rightarrow> lookup_scopes scs name)"

definition type_context_lookup_var :: "type_context \<Rightarrow> nat \<Rightarrow> tref" where
  "type_context_lookup_var ctx name = (if name = 0 then None else lookup_scopes (tc_scopes ctx) name)"

definition type_context_check_duplicate_var :: "type_context \<Rightarrow> nat \<Rightarrow> bool" where
  "type_context_check_duplicate_var ctx name \<longleftrightarrow>
     tc_scopes ctx \<noteq> [] \<and> name \<noteq> 0 \<and> name \<in> fst ` set (sc_vars (hd (tc_scopes ctx)))"
section \<open>Functions\<close>

definition type_context_define_func :: "nat \<Rightarrow> tref \<Rightarrow> type_context \<Rightarrow> bool \<times> type_context" where
  "type_context_define_func name t ctx =
     (if name = 0 \<or> t = None then (False, ctx)
      else (case grow_array (length (tc_functions ctx)) (tc_func_capacity ctx) SIZEOF_ENTRY (tc_types ctx) of
              None \<Rightarrow> (False, ctx)
            | Some (cap, h) \<Rightarrow>
                (True, ctx\<lparr>tc_types := h, tc_func_capacity := cap, tc_functions := tc_functions ctx @ [(name, t)]\<rparr>)))"

definition type_context_update_func :: "nat \<Rightarrow> tref \<Rightarrow> type_context \<Rightarrow> bool \<times> type_context" where
  "type_context_update_func name t ctx =
     (if name = 0 \<or> t = None then (False, ctx)
      else (case update_first (tc_functions ctx) name t of
              None \<Rightarrow> (False, ctx)
            | Some fs \<Rightarrow> (True, ctx\<lparr>tc_functions := fs\<rparr>)))"

definition type_context_lookup_func :: "type_context \<Rightarrow> nat \<Rightarrow> tref" where
  "type_context_lookup_func ctx name =
     (if name = 0 then None else (case map_of (tc_functions ctx) name of Some t \<Rightarrow> t | None \<Rightarrow> None))"

section \<open>Forward declarations\<close>

definition type_context_define_forward :: "nat \<Rightarrow> tref \<Rightarrow> type_context \<Rightarrow> bool \<times> type_context" where
  "type_context_define_forward name t ctx =
     (if name = 0 \<or> t = None \<or> tc_scopes ctx = [] then (False, ctx)
      else (let current = hd (tc_scopes ctx) in
            if name \<in> fw_name ` set (sc_forwards current) then (False, ctx)
            else (case grow_array (length (sc_forwards current)) (sc_forward_capacity current) SIZEOF_FORWARD
                         (tc_types ctx) of
                    None \<Rightarrow> (False, ctx)
                  | Some (cap, h) \<Rightarrow>
                      (True, set_current
                         (current\<lparr>sc_forward_capacity := cap,
                            sc_forwards := sc_forwards current @
                              [\<lparr>fw_name = name, fw_type = t, fw_resolved = False\<rparr>]\<rparr>)
                         (ctx\<lparr>tc_types := h\<rparr>)))))"

text \<open>The first declaration of the name, with the declarations before and after it.\<close>

fun split_forward :: "forward_entry list \<Rightarrow> nat \<Rightarrow> (forward_entry list \<times> forward_entry \<times> forward_entry list) option" where
  "split_forward [] name = None"
| "split_forward (f # fs) name =
     (if fw_name f = name then Some ([], f, fs)
      else map_option (\<lambda>(before, g, after). (f # before, g, after)) (split_forward fs name))"

text \<open>\<open>None\<close>: the comparison of the types needs more recursion than \<open>n\<close>.\<close>

definition type_context_define_forward_body ::
    "nat \<Rightarrow> nat \<Rightarrow> tref \<Rightarrow> type_context \<Rightarrow> (bool \<times> type_context) option" where
  "type_context_define_forward_body n name t ctx =
     (if name = 0 \<or> t = None \<or> tc_scopes ctx = [] then Some (False, ctx)
      else (let current = hd (tc_scopes ctx) in
            case split_forward (sc_forwards current) name of
              None \<Rightarrow> Some (False, ctx)
            | Some (before, f, after) \<Rightarrow>
                if fw_resolved f then Some (False, ctx)
                else (case morphl_type_equals n (tc_types ctx) (fw_type f) t of
                        None \<Rightarrow> None
                      | Some False \<Rightarrow> Some (False, ctx)
                      | Some True \<Rightarrow>
                          Some (True, set_current
                            (current\<lparr>sc_forwards := before @ f\<lparr>fw_resolved := True\<rparr> # after\<rparr>) ctx))))"

definition type_context_lookup_forward :: "type_context \<Rightarrow> nat \<Rightarrow> forward_entry option" where
  "type_context_lookup_forward ctx name =
     (if name = 0 \<or> tc_scopes ctx = [] then None
      else map_option (\<lambda>(before, f, after). f) (split_forward (sc_forwards (hd (tc_scopes ctx))) name))"

text \<open>One turn of the loop over the scopes: the verdict so far, the diagnostics, the scope.\<close>

definition check_scope :: "intern_table \<Rightarrow> scope \<Rightarrow> bool \<times> diagnostics \<Rightarrow> scope \<times> bool \<times> diagnostics" where
  "check_scope interns sc acc =
     (case acc of (ok, dg) \<Rightarrow>
        if sc_has_forward_errors sc then (sc, False, dg)
        else (case unresolved sc of
                [] \<Rightarrow> (sc, ok, dg)
              | f # _ \<Rightarrow> (sc\<lparr>sc_has_forward_errors := True\<rparr>, False,
                          morphl_error_emit None (missing_body interns f) dg)))"

text \<open>The outermost scope, last in the list, is checked first.\<close>

fun check_scopes :: "intern_table \<Rightarrow> scope list \<Rightarrow> bool \<times> diagnostics \<Rightarrow> scope list \<times> bool \<times> diagnostics" where
  "check_scopes interns [] acc = ([], acc)"
| "check_scopes interns (sc # scs) acc =
     (case check_scopes interns scs acc of
        (scs', acc') \<Rightarrow> (case check_scope interns sc acc' of (sc', acc'') \<Rightarrow> (sc' # scs', acc'')))"

definition type_context_check_unresolved_forwards :: "type_context \<Rightarrow> bool \<times> type_context" where
  "type_context_check_unresolved_forwards ctx =
     (case check_scopes (tc_interns ctx) (tc_scopes ctx) (True, tc_diagnostics ctx) of
        (scs, ok, dg) \<Rightarrow> (ok, ctx\<lparr>tc_scopes := scs, tc_diagnostics := dg\<rparr>))"

section \<open>Return types and the stacks\<close>

definition type_context_set_return_type :: "tref \<Rightarrow> type_context \<Rightarrow> type_context" where
  "type_context_set_return_type t ctx = ctx\<lparr>tc_expected_return_type := t\<rparr>"

definition type_context_get_return_type :: "type_context \<Rightarrow> tref" where
  "type_context_get_return_type ctx = tc_expected_return_type ctx"

definition type_context_set_pending_func :: "tref \<Rightarrow> type_context \<Rightarrow> type_context" where
  "type_context_set_pending_func t ctx = ctx\<lparr>tc_pending_func_type := t\<rparr>"

definition type_context_take_pending_func :: "type_context \<Rightarrow> tref \<times> type_context" where
  "type_context_take_pending_func ctx = (tc_pending_func_type ctx, ctx\<lparr>tc_pending_func_type := None\<rparr>)"

definition type_context_push_func :: "tref \<Rightarrow> type_context \<Rightarrow> bool \<times> type_context" where
  "type_context_push_func t ctx =
     (case push_ref t (tc_func_stack ctx) (tc_types ctx) of
        None \<Rightarrow> (False, ctx)
      | Some (rs, h) \<Rightarrow> (True, ctx\<lparr>tc_func_stack := rs, tc_types := h\<rparr>))"

definition pop_ref :: "ref_stack \<Rightarrow> ref_stack" where
  "pop_ref rs = rs\<lparr>rs_items := tl (rs_items rs)\<rparr>"

definition type_context_pop_func :: "type_context \<Rightarrow> bool \<times> type_context" where
  "type_context_pop_func ctx =
     (if rs_items (tc_func_stack ctx) = [] then (False, ctx)
      else (True, ctx\<lparr>tc_func_stack := pop_ref (tc_func_stack ctx)\<rparr>))"

definition top_ref :: "ref_stack \<Rightarrow> tref" where
  "top_ref rs = (case rs_items rs of [] \<Rightarrow> None | t # _ \<Rightarrow> t)"

definition type_context_get_current_func :: "type_context \<Rightarrow> tref" where
  "type_context_get_current_func ctx = top_ref (tc_func_stack ctx)"

definition type_context_push_this :: "tref \<Rightarrow> type_context \<Rightarrow> bool \<times> type_context" where
  "type_context_push_this t ctx =
     (if t = None then (False, ctx)
      else (case push_ref t (tc_this_stack ctx) (tc_types ctx) of
              None \<Rightarrow> (False, ctx)
            | Some (rs, h) \<Rightarrow> (True, ctx\<lparr>tc_this_stack := rs, tc_types := h\<rparr>)))"

definition type_context_pop_this :: "type_context \<Rightarrow> bool \<times> type_context" where
  "type_context_pop_this ctx =
     (if rs_items (tc_this_stack ctx) = [] then (False, ctx)
      else (True, ctx\<lparr>tc_this_stack := pop_ref (tc_this_stack ctx)\<rparr>))"

definition type_context_get_this :: "type_context \<Rightarrow> tref" where
  "type_context_get_this ctx = top_ref (tc_this_stack ctx)"

definition type_context_push_file :: "tref \<Rightarrow> type_context \<Rightarrow> bool \<times> type_context" where
  "type_context_push_file t ctx =
     (case push_ref (tc_file_type ctx) (tc_file_stack ctx) (tc_types ctx) of
        None \<Rightarrow> (False, ctx)
      | Some (rs, h) \<Rightarrow> (True, ctx\<lparr>tc_file_stack := rs, tc_types := h, tc_file_type := t\<rparr>))"

definition type_context_pop_file :: "type_context \<Rightarrow> bool \<times> type_context" where
  "type_context_pop_file ctx =
     (case rs_items (tc_file_stack ctx) of
        [] \<Rightarrow> (False, ctx)
      | t # _ \<Rightarrow> (True, ctx\<lparr>tc_file_type := t, tc_file_stack := pop_ref (tc_file_stack ctx)\<rparr>))"

definition type_context_push_global :: "tref \<Rightarrow> type_context \<Rightarrow> bool \<times> type_context" where
  "type_context_push_global t ctx =
     (case push_ref (tc_global_type ctx) (tc_global_stack ctx) (tc_types ctx) of
        None \<Rightarrow> (False, ctx)
      | Some (rs, h) \<Rightarrow> (True, ctx\<lparr>tc_global_stack := rs, tc_types := h, tc_global_type := t\<rparr>))"

definition type_context_pop_global :: "type_context \<Rightarrow> bool \<times> type_context" where
  "type_context_pop_global ctx =
     (case rs_items (tc_global_stack ctx) of
        [] \<Rightarrow> (False, ctx)
      | t # _ \<Rightarrow> (True, ctx\<lparr>tc_global_type := t, tc_global_stack := pop_ref (tc_global_stack ctx)\<rparr>))"

definition type_context_get_file :: "type_context \<Rightarrow> tref" where
  "type_context_get_file ctx = tc_file_type ctx"

definition type_context_get_global :: "type_context \<Rightarrow> tref" where
  "type_context_get_global ctx = tc_global_type ctx"
section \<open>The stack discipline\<close>

text \<open>
  What the clients of the five stacks of a context rely on.  \<open>items\<close> is the stack the client sees,
  with the top first; a pop at or below \<open>floor_depth\<close> changes nothing.
\<close>

locale lifo_stack =
  fixes push :: "'a \<Rightarrow> 's \<Rightarrow> bool \<times> 's"
    and pop :: "'s \<Rightarrow> bool \<times> 's"
    and items :: "'s \<Rightarrow> 'b list"
    and entry :: "'a \<Rightarrow> 'b"
    and floor_depth :: nat
  assumes push_accepted: "fst (push t s) \<Longrightarrow> items (snd (push t s)) = entry t # items s"
    and push_refused: "\<not> fst (push t s) \<Longrightarrow> items (snd (push t s)) = items s"
    and pop_items: "items (snd (pop s)) = (if length (items s) \<le> floor_depth then items s else tl (items s))"
begin

lemma push_pop:
  assumes "fst (push t s)" and "floor_depth \<le> length (items s)"
  shows "items (snd (pop (snd (push t s)))) = items s"
  using assms by (simp add: push_accepted pop_items)

text \<open>A push, work that keeps the stack, and a pop keep the stack.\<close>

lemma bracket:
  assumes "fst (push t s)" and "items s' = items (snd (push t s))" and "floor_depth \<le> length (items s)"
  shows "items (snd (pop s')) = items s"
  using assms by (simp add: push_accepted pop_items)

lemma pop_depth: "length (items (snd (pop s))) \<le> length (items s)"
  by (simp add: pop_items)

end

lemma grow_array_Some:
  "grow_array used capacity elem_size h = Some (cap, h') \<longleftrightarrow>
     (used \<ge> capacity \<and> cap = capacity * 2 \<and> arena_alloc h (capacity * 2 * elem_size) = Some h') \<or>
     (used < capacity \<and> cap = capacity \<and> h' = h)"
  by (auto simp: grow_array_def)

lemma push_ref_items: "push_ref t rs h = Some (rs', h') \<Longrightarrow> rs_items rs' = t # rs_items rs"
  by (auto simp: push_ref_def)

lemma pop_ref_items [simp]: "rs_items (pop_ref rs) = tl (rs_items rs)"
  by (simp add: pop_ref_def)

lemma emit_fields [simp]:
  "tc_types (emit err ctx) = tc_types ctx" "tc_interns (emit err ctx) = tc_interns ctx"
  "tc_functions (emit err ctx) = tc_functions ctx" "tc_func_capacity (emit err ctx) = tc_func_capacity ctx"
  "tc_scopes (emit err ctx) = tc_scopes ctx" "tc_scope_capacity (emit err ctx) = tc_scope_capacity ctx"
  "tc_expected_return_type (emit err ctx) = tc_expected_return_type ctx"
  "tc_pending_func_type (emit err ctx) = tc_pending_func_type ctx"
  "tc_func_stack (emit err ctx) = tc_func_stack ctx" "tc_file_type (emit err ctx) = tc_file_type ctx"
  "tc_global_type (emit err ctx) = tc_global_type ctx" "tc_file_stack (emit err ctx) = tc_file_stack ctx"
  "tc_global_stack (emit err ctx) = tc_global_stack ctx" "tc_this_stack (emit err ctx) = tc_this_stack ctx"
  by (simp_all add: emit_def)

lemma emits_context:
  "fold (emit \<circ> g) fs ctx = ctx\<lparr>tc_diagnostics := fold (morphl_error_emit None \<circ> g) fs (tc_diagnostics ctx)\<rparr>"
  by (induction fs arbitrary: ctx) (simp_all add: emit_def)

interpretation funcs: lifo_stack type_context_push_func type_context_pop_func
    "\<lambda>ctx. rs_items (tc_func_stack ctx)" "\<lambda>t. t" 0
  by unfold_locales
    (auto simp: type_context_push_func_def type_context_pop_func_def dest: push_ref_items split: option.splits)

interpretation this: lifo_stack type_context_push_this type_context_pop_this
    "\<lambda>ctx. rs_items (tc_this_stack ctx)" "\<lambda>t. t" 0
  by unfold_locales
    (auto simp: type_context_push_this_def type_context_pop_this_def dest: push_ref_items
      split: option.splits if_splits)

text \<open>The current file is the top of the file stack, and likewise for the global scope.\<close>

definition file_items :: "type_context \<Rightarrow> tref list" where
  "file_items ctx = tc_file_type ctx # rs_items (tc_file_stack ctx)"

definition global_items :: "type_context \<Rightarrow> tref list" where
  "global_items ctx = tc_global_type ctx # rs_items (tc_global_stack ctx)"

interpretation files: lifo_stack type_context_push_file type_context_pop_file file_items "\<lambda>t. t" 1
  by unfold_locales
    (auto simp: file_items_def type_context_push_file_def type_context_pop_file_def
      dest: push_ref_items split: option.splits list.splits)

interpretation globals: lifo_stack type_context_push_global type_context_pop_global global_items "\<lambda>t. t" 1
  by unfold_locales
    (auto simp: global_items_def type_context_push_global_def type_context_pop_global_def
      dest: push_ref_items split: option.splits list.splits)

interpretation scopes: lifo_stack "\<lambda>u. type_context_push_scope" type_context_pop_scope tc_scopes "\<lambda>u. empty_scope" 1
  by unfold_locales
    (auto simp: type_context_push_scope_def type_context_pop_scope_def Let_def emits_context
      split: option.splits prod.splits bool.splits list.splits)

section \<open>Scopes as an environment\<close>

text \<open>The abstract environment: one finite map per scope, the innermost first.\<close>

type_synonym env = "(nat \<Rightarrow> tref option) list"

definition env_of :: "type_context \<Rightarrow> env" where
  "env_of ctx = map (\<lambda>sc. map_of (sc_vars sc)) (tc_scopes ctx)"

fun lookup_env :: "env \<Rightarrow> nat \<Rightarrow> tref" where
  "lookup_env [] name = None"
| "lookup_env (m # ms) name = (case m name of Some t \<Rightarrow> t | None \<Rightarrow> lookup_env ms name)"

text \<open>A definition is kept when the scope has one already: the first entry of a name counts.\<close>

fun bind_env :: "env \<Rightarrow> nat \<Rightarrow> tref \<Rightarrow> env" where
  "bind_env [] name t = []"
| "bind_env (m # ms) name t = (if name \<in> dom m then m else m(name \<mapsto> t)) # ms"

lemma lookup_scopes_env: "lookup_scopes scs name = lookup_env (map (\<lambda>sc. map_of (sc_vars sc)) scs) name"
  by (induction scs) (auto split: option.split)

lemma map_of_snoc: "map_of (vs @ [(x, t)]) = (if x \<in> dom (map_of vs) then map_of vs else (map_of vs)(x \<mapsto> t))"
  by (auto simp: map_add_def fun_eq_iff domIff split: option.splits)

lemma update_first_map:
  "update_first vs name t = Some us \<Longrightarrow> name \<in> dom (map_of vs) \<and> map_of us = (map_of vs)(name \<mapsto> t)"
  by (induction vs name t arbitrary: us rule: update_first.induct) (auto split: if_splits)

lemma update_first_None: "update_first vs name t = None \<longleftrightarrow> name \<notin> fst ` set vs"
  by (induction vs name t rule: update_first.induct) auto

lemma env_set_current:
  "tc_scopes ctx \<noteq> [] \<Longrightarrow> env_of (set_current sc ctx) = map_of (sc_vars sc) # tl (env_of ctx)"
  by (simp add: env_of_def set_current_def map_tl)

text \<open>C7: scopes implement a stack of finite maps.  Entering a scope adds an empty map and leaving one
  drops the innermost; a definition binds its name in the innermost map unless it is bound there
  already; an update rebinds a name of the innermost map only; a lookup finds the innermost binding;
  and the duplicate check asks for a binding in the innermost map.\<close>

theorem scopes_refine_environment:
  "(fst (type_context_push_scope ctx) \<longrightarrow> env_of (snd (type_context_push_scope ctx)) = Map.empty # env_of ctx) \<and>
   (length (env_of ctx) > 1 \<longrightarrow> env_of (snd (type_context_pop_scope ctx)) = tl (env_of ctx)) \<and>
   (type_context_define_var name t ctx = (True, ctx1) \<longrightarrow> env_of ctx1 = bind_env (env_of ctx) name t) \<and>
   (type_context_update_var name t ctx = (True, ctx2) \<longrightarrow>
      name \<in> dom (hd (env_of ctx)) \<and> env_of ctx2 = (hd (env_of ctx))(name \<mapsto> t) # tl (env_of ctx)) \<and>
   (name \<noteq> 0 \<longrightarrow> type_context_lookup_var ctx name = lookup_env (env_of ctx) name) \<and>
   (name \<noteq> 0 \<and> env_of ctx \<noteq> [] \<longrightarrow>
      (type_context_check_duplicate_var ctx name \<longleftrightarrow> name \<in> dom (hd (env_of ctx))))"
proof (intro conjI impI)
  show "env_of (snd (type_context_push_scope ctx)) = Map.empty # env_of ctx" if "fst (type_context_push_scope ctx)"
    using scopes.push_accepted [OF that] by (simp add: env_of_def empty_scope_def)
  show "env_of (snd (type_context_pop_scope ctx)) = tl (env_of ctx)" if "length (env_of ctx) > 1"
    using scopes.pop_items [of ctx] that by (simp add: env_of_def map_tl)
  show "env_of ctx1 = bind_env (env_of ctx) name t" if "type_context_define_var name t ctx = (True, ctx1)"
    using that
    by (cases "tc_scopes ctx")
      (auto simp: type_context_define_var_def Let_def env_of_def set_current_def map_of_snoc
        simp del: map_of_append split: if_splits option.splits)
  show "name \<in> dom (hd (env_of ctx))" "env_of ctx2 = (hd (env_of ctx))(name \<mapsto> t) # tl (env_of ctx)"
    if "type_context_update_var name t ctx = (True, ctx2)"
    using that
    by (cases "tc_scopes ctx";
        auto simp: type_context_update_var_def Let_def env_of_def set_current_def dest: update_first_map
          split: if_splits option.splits)+
  show "type_context_lookup_var ctx name = lookup_env (env_of ctx) name" if "name \<noteq> 0"
    using that by (simp add: type_context_lookup_var_def env_of_def lookup_scopes_env)
  show "type_context_check_duplicate_var ctx name \<longleftrightarrow> name \<in> dom (hd (env_of ctx))" if "name \<noteq> 0 \<and> env_of ctx \<noteq> []"
    using that by (cases "tc_scopes ctx") (auto simp: type_context_check_duplicate_var_def env_of_def dom_map_of_conv_image_fst)
qed
section \<open>A first context\<close>

definition quiet :: diagnostics where
  "quiet = \<lparr>dg_files = (\<lambda>p. None), dg_global_sink = None, dg_output = []\<rparr>"

definition sample_context :: type_context where
  "sample_context = the (type_context_new \<lparr>ta_arena = arena_init 65536, ta_cells = []\<rparr> interns_new quiet)"

lemma sample_context_new:
  "type_context_new \<lparr>ta_arena = arena_init 65536, ta_cells = []\<rparr> interns_new quiet = Some sample_context"
  by (simp add: sample_context_def type_context_new_def context_sizes_def arena_alloc_def arena_push_def arena_init_def
      initial_capacities sizes)

lemma sample_context_fields:
  "tc_scopes sample_context = [empty_scope]" "tc_scope_capacity sample_context = 8"
  "tc_types sample_context = \<lparr>ta_arena = \<lparr>a_cap = 65536, a_off = 1664\<rparr>, ta_cells = []\<rparr>"
  "tc_diagnostics sample_context = quiet" "tc_interns sample_context = interns_new"
  "rs_items (tc_func_stack sample_context) = []" "rs_items (tc_this_stack sample_context) = []"
  "rs_capacity (tc_this_stack sample_context) = 8"
  by (simp_all add: sample_context_def type_context_new_def context_sizes_def arena_alloc_def arena_push_def arena_init_def
      initial_capacities sizes)

definition sample_defined :: type_context where
  "sample_defined = snd (type_context_define_var 5 (Some 0) (snd (type_context_push_scope sample_context)))"

lemma sample_pushed: "fst (type_context_push_scope sample_context)"
  by (simp add: type_context_push_scope_def sample_context_fields grow_array_def arena_alloc_def arena_push_def
      initial_capacities sizes)

lemma sample_define_var:
  "type_context_define_var 5 (Some 0) (snd (type_context_push_scope sample_context)) = (True, sample_defined)"
  using scopes.push_accepted [OF sample_pushed]
  by (simp add: sample_defined_def type_context_define_var_def empty_scope_def grow_array_def initial_capacities)

theorem scopes_refine_environment_witness:
  "env_of sample_defined = [[5 \<mapsto> Some 0], Map.empty] \<and>
   type_context_lookup_var sample_defined 5 = Some 0 \<and>
   type_context_lookup_var (snd (type_context_pop_scope sample_defined)) 5 = None"
proof -
  let ?p = "snd (type_context_push_scope sample_context)"
  have "env_of sample_context = [Map.empty]" by (simp add: env_of_def sample_context_fields empty_scope_def)
  then have p: "env_of ?p = [Map.empty, Map.empty]"
    using scopes_refine_environment [of sample_context 0 None sample_context sample_context] sample_pushed by simp
  then have d: "env_of sample_defined = [[5 \<mapsto> Some 0], Map.empty]"
    using scopes_refine_environment [of ?p 5 "Some 0" sample_defined ?p] sample_define_var by simp
  then have o: "env_of (snd (type_context_pop_scope sample_defined)) = [Map.empty]"
    using scopes_refine_environment [of sample_defined 5 None ?p ?p] by simp
  show ?thesis
    using d o scopes_refine_environment [of sample_defined 5 None ?p ?p]
      scopes_refine_environment [of "snd (type_context_pop_scope sample_defined)" 5 None ?p ?p] by simp
qed

section \<open>Forward declarations\<close>

lemma split_forward_Some:
  "split_forward fs name = Some (before, f, after) \<Longrightarrow>
     fs = before @ f # after \<and> fw_name f = name \<and> name \<notin> fw_name ` set before"
  by (induction fs name arbitrary: before rule: split_forward.induct) (auto split: if_splits)

lemma split_forward_found:
  "name \<notin> fw_name ` set before \<Longrightarrow> fw_name f = name \<Longrightarrow>
     split_forward (before @ f # after) name = Some (before, f, after)"
  by (induction before) auto

lemma split_forward_other:
  "fw_name f = fw_name g \<Longrightarrow> name \<noteq> fw_name f \<Longrightarrow>
     map_option (\<lambda>(b, f, a). f) (split_forward (before @ f # after) name) =
     map_option (\<lambda>(b, f, a). f) (split_forward (before @ g # after) name)"
proof (induction before)
  case Nil
  then show ?case by (auto simp: option.map_comp comp_def split_def)
next
  case (Cons a before)
  then show ?case
    by (auto simp: option.map_comp comp_def split_def)
qed

text \<open>What a sink writes for the errors of unresolved declarations.\<close>

definition written :: "diagnostics \<Rightarrow> morphl_error \<Rightarrow> string list" where
  "written dg err = (case dg_global_sink dg of None \<Rightarrow> fallback_sink (dg_files dg) err | Some f \<Rightarrow> f err)"

lemma emit_missing:
  "morphl_error_emit None (missing_body interns f) dg = dg\<lparr>dg_output := dg_output dg @ written dg (missing_body interns f)\<rparr>"
  by (simp add: morphl_error_emit_def missing_body_def morphl_error_make_def written_def Let_def)

lemma emits_missing:
  "fold (morphl_error_emit None \<circ> missing_body interns) fs dg =
     dg\<lparr>dg_output := dg_output dg @ concat (map (written dg \<circ> missing_body interns) fs)\<rparr>"
proof (induction fs arbitrary: dg)
  case (Cons f fs)
  have "written (dg\<lparr>dg_output := x\<rparr>) = written dg" for x by (simp add: written_def fun_eq_iff split: option.split)
  then show ?case using Cons.IH by (simp add: emit_missing comp_def)
qed simp

text \<open>C17: a forward declaration gets exactly one body, of its own type.  A body is accepted only while
  the declaration of the current scope is unresolved and the types are equal; it resolves that
  declaration and no other, and a second body is refused.  Leaving the scope succeeds exactly when
  every declaration has its body (and no error was noted before), and reports each that has none, in
  order.\<close>

theorem forward_protocol:
  "(type_context_define_forward_body n name t ctx = Some (True, ctx') \<longrightarrow>
      (\<exists>f. type_context_lookup_forward ctx name = Some f \<and> \<not> fw_resolved f \<and>
         morphl_type_equals n (tc_types ctx) (fw_type f) t = Some True \<and>
         type_context_lookup_forward ctx' name = Some (f\<lparr>fw_resolved := True\<rparr>)) \<and>
      (\<forall>x. x \<noteq> name \<longrightarrow> type_context_lookup_forward ctx' x = type_context_lookup_forward ctx x) \<and>
      (\<forall>m u. type_context_define_forward_body m name u ctx' = Some (False, ctx'))) \<and>
   (tc_scopes ctx = current # outer # rest \<longrightarrow>
      (fst (type_context_pop_scope ctx) \<longleftrightarrow>
         \<not> sc_has_forward_errors current \<and> (\<forall>f\<in>set (sc_forwards current). fw_resolved f)) \<and>
      dg_output (tc_diagnostics (snd (type_context_pop_scope ctx))) =
        dg_output (tc_diagnostics ctx) @
        concat (map (written (tc_diagnostics ctx) \<circ> missing_body (tc_interns ctx)) (unresolved current)))"
proof (intro conjI impI)
  assume body: "type_context_define_forward_body n name t ctx = Some (True, ctx')"
  then obtain sc scs before f after where s: "tc_scopes ctx = sc # scs" "name \<noteq> 0"
      "split_forward (sc_forwards sc) name = Some (before, f, after)" "\<not> fw_resolved f"
      "morphl_type_equals n (tc_types ctx) (fw_type f) t = Some True"
      "ctx' = set_current (sc\<lparr>sc_forwards := before @ f\<lparr>fw_resolved := True\<rparr> # after\<rparr>) ctx"
    by (cases "tc_scopes ctx")
      (auto simp: type_context_define_forward_body_def Let_def split: if_splits option.splits prod.splits bool.splits)
  note sf = split_forward_Some [OF s(3)]
  have sc': "tc_scopes ctx' = sc\<lparr>sc_forwards := before @ f\<lparr>fw_resolved := True\<rparr> # after\<rparr> # scs"
    using s(1,6) by (simp add: set_current_def)
  have found: "split_forward (before @ f\<lparr>fw_resolved := True\<rparr> # after) name = Some (before, f\<lparr>fw_resolved := True\<rparr>, after)"
    using sf by (intro split_forward_found) simp_all
  show "\<exists>f. type_context_lookup_forward ctx name = Some f \<and> \<not> fw_resolved f \<and>
      morphl_type_equals n (tc_types ctx) (fw_type f) t = Some True \<and>
      type_context_lookup_forward ctx' name = Some (f\<lparr>fw_resolved := True\<rparr>)"
    using s sc' found by (intro exI [of _ f]) (simp add: type_context_lookup_forward_def)
  show "\<forall>x. x \<noteq> name \<longrightarrow> type_context_lookup_forward ctx' x = type_context_lookup_forward ctx x"
    using s(1) sc' sf split_forward_other [of "f\<lparr>fw_resolved := True\<rparr>" f _ before after]
    by (simp add: type_context_lookup_forward_def)
  show "\<forall>m u. type_context_define_forward_body m name u ctx' = Some (False, ctx')"
    using sc' found by (simp add: type_context_define_forward_body_def Let_def)
next
  assume s: "tc_scopes ctx = current # outer # rest"
  then show "fst (type_context_pop_scope ctx) \<longleftrightarrow>
      \<not> sc_has_forward_errors current \<and> (\<forall>f\<in>set (sc_forwards current). fw_resolved f)"
    by (auto simp: type_context_pop_scope_def Let_def unresolved_def filter_empty_conv)
  show "dg_output (tc_diagnostics (snd (type_context_pop_scope ctx))) =
      dg_output (tc_diagnostics ctx) @
      concat (map (written (tc_diagnostics ctx) \<circ> missing_body (tc_interns ctx)) (unresolved current))"
    using s by (simp add: type_context_pop_scope_def Let_def emits_context emits_missing)
qed
definition sample_forward :: type_context where
  "sample_forward =
     snd (type_context_define_forward 5 (Some 0) (snd (type_context_push_scope
       (sample_context\<lparr>tc_types := snd (morphl_type_void (tc_types sample_context))\<rparr>))))"

lemma sample_forward_fields:
  "tc_scopes sample_forward =
     [empty_scope\<lparr>sc_forwards := [\<lparr>fw_name = 5, fw_type = Some 0, fw_resolved = False\<rparr>]\<rparr>, empty_scope]"
  "cell (tc_types sample_forward) 0 = MORPHL_TYPE_VOID" "tc_diagnostics sample_forward = quiet"
  by (simp_all add: sample_forward_def type_context_define_forward_def type_context_push_scope_def
      sample_context_fields grow_array_def arena_alloc_def arena_push_def initial_capacities sizes
      set_current_def empty_scope_def cell_def morphl_type_void_def alloc_type_def Let_def)

theorem forward_protocol_witness:
  "\<not> fst (type_context_pop_scope sample_forward) \<and>
   length (dg_output (tc_diagnostics (snd (type_context_pop_scope sample_forward)))) = 1 \<and>
   (\<exists>ctx'. type_context_define_forward_body 1 5 (Some 0) sample_forward = Some (True, ctx') \<and>
      type_context_define_forward_body 1 5 (Some 0) ctx' = Some (False, ctx'))"
proof -
  obtain ctx' where b: "type_context_define_forward_body 1 5 (Some 0) sample_forward = Some (True, ctx')"
    by (simp add: type_context_define_forward_body_def sample_forward_fields Let_def)
  note p = forward_protocol [of 1 5 "Some 0" sample_forward ctx'
      "empty_scope\<lparr>sc_forwards := [\<lparr>fw_name = 5, fw_type = Some 0, fw_resolved = False\<rparr>]\<rparr>" empty_scope "[]"]
  show ?thesis
    using p b by (simp add: sample_forward_fields unresolved_def written_def fallback_sink_def quiet_def)
qed

section \<open>Reachable contexts\<close>

definition scope_ok :: "scope \<Rightarrow> bool" where
  "scope_ok sc \<longleftrightarrow>
     length (sc_vars sc) \<le> sc_var_capacity sc \<and> 0 < sc_var_capacity sc \<and>
     length (sc_forwards sc) \<le> sc_forward_capacity sc \<and> 0 < sc_forward_capacity sc \<and>
     distinct (map fw_name (sc_forwards sc)) \<and>
     (\<forall>v\<in>set (sc_vars sc). fst v \<noteq> 0 \<and> snd v \<noteq> None) \<and>
     (\<forall>f\<in>set (sc_forwards sc). fw_name f \<noteq> 0 \<and> fw_type f \<noteq> None)"

definition stack_ok :: "ref_stack \<Rightarrow> bool" where
  "stack_ok rs \<longleftrightarrow> length (rs_items rs) \<le> rs_capacity rs \<and> 0 < rs_capacity rs"

definition arena_ok :: "type_arena \<Rightarrow> bool" where
  "arena_ok h \<longleftrightarrow> a_off (ta_arena h) \<le> a_cap (ta_arena h)"

definition context_ok :: "type_context \<Rightarrow> bool" where
  "context_ok ctx \<longleftrightarrow>
     arena_ok (tc_types ctx) \<and> tc_scopes ctx \<noteq> [] \<and> length (tc_scopes ctx) \<le> tc_scope_capacity ctx \<and>
     (\<forall>sc\<in>set (tc_scopes ctx). scope_ok sc) \<and>
     length (tc_functions ctx) \<le> tc_func_capacity ctx \<and> 0 < tc_func_capacity ctx \<and>
     (\<forall>f\<in>set (tc_functions ctx). fst f \<noteq> 0 \<and> snd f \<noteq> None) \<and>
     stack_ok (tc_func_stack ctx) \<and> stack_ok (tc_file_stack ctx) \<and> stack_ok (tc_global_stack ctx) \<and>
     stack_ok (tc_this_stack ctx) \<and> None \<notin> set (rs_items (tc_this_stack ctx))"

text \<open>
  The operations of the context, and what its clients do beside them: allocate and update types,
  intern names, and change the global sink.
\<close>

inductive context_step :: "type_context \<Rightarrow> type_context \<Rightarrow> bool" where
  "context_step ctx (snd (type_context_push_scope ctx))"
| "context_step ctx (snd (type_context_pop_scope ctx))"
| "context_step ctx (snd (type_context_define_var name t ctx))"
| "context_step ctx (snd (type_context_update_var name t ctx))"
| "context_step ctx (snd (type_context_define_func name t ctx))"
| "context_step ctx (snd (type_context_update_func name t ctx))"
| "context_step ctx (snd (type_context_define_forward name t ctx))"
| "type_context_define_forward_body n name t ctx = Some (b, ctx') \<Longrightarrow> context_step ctx ctx'"
| "context_step ctx (snd (type_context_check_unresolved_forwards ctx))"
| "context_step ctx (type_context_set_return_type t ctx)"
| "context_step ctx (type_context_set_pending_func t ctx)"
| "context_step ctx (snd (type_context_take_pending_func ctx))"
| "context_step ctx (snd (type_context_push_func t ctx))"
| "context_step ctx (snd (type_context_pop_func ctx))"
| "context_step ctx (snd (type_context_push_this t ctx))"
| "context_step ctx (snd (type_context_pop_this ctx))"
| "context_step ctx (snd (type_context_push_file t ctx))"
| "context_step ctx (snd (type_context_pop_file ctx))"
| "context_step ctx (snd (type_context_push_global t ctx))"
| "context_step ctx (snd (type_context_pop_global ctx))"
| "arena_ok h \<Longrightarrow> context_step ctx (ctx\<lparr>tc_types := h, tc_interns := ti, tc_diagnostics := dg\<rparr>)"

inductive context_reach :: "type_context \<Rightarrow> bool" where
  reach_new: "arena_ok h \<Longrightarrow> type_context_new h interns dg = Some ctx \<Longrightarrow> context_reach ctx"
| reach_step: "context_reach ctx \<Longrightarrow> context_step ctx ctx' \<Longrightarrow> context_reach ctx'"

lemma grow_array_ok:
  "grow_array used capacity elem_size h = Some (cap, h') \<Longrightarrow> 0 < capacity \<Longrightarrow> used \<le> capacity \<Longrightarrow> arena_ok h \<Longrightarrow>
     used < cap \<and> 0 < cap \<and> arena_ok h'"
  by (auto simp: grow_array_Some arena_alloc_Some arena_ok_def)

lemma alloc_all_ok: "alloc_all ns h = (b, h') \<Longrightarrow> arena_ok h \<Longrightarrow> arena_ok h'"
  by (induction ns arbitrary: h) (auto simp: arena_ok_def arena_alloc_Some split: option.splits)

lemma push_ref_ok:
  "push_ref t rs h = Some (rs', h') \<Longrightarrow> stack_ok rs \<Longrightarrow> arena_ok h \<Longrightarrow> stack_ok rs' \<and> arena_ok h'"
  by (fastforce simp: push_ref_def stack_ok_def dest: grow_array_ok)

lemma pop_ref_ok: "stack_ok rs \<Longrightarrow> stack_ok (pop_ref rs)"
  by (auto simp: stack_ok_def pop_ref_def)

lemma update_first_names:
  "update_first vs name t = Some us \<Longrightarrow> length us = length vs \<and> set us \<subseteq> set vs \<union> {(name, t)}"
  by (induction vs name t arbitrary: us rule: update_first.induct) (fastforce split: if_splits)+

lemma empty_scope_ok: "scope_ok empty_scope"
  by (simp add: scope_ok_def empty_scope_def initial_capacities)
lemma set_current_ok:
  "context_ok ctx \<Longrightarrow> scope_ok sc \<Longrightarrow> context_ok (set_current sc ctx)"
  by (cases "tc_scopes ctx") (auto simp: context_ok_def set_current_def)

lemma types_ok: "context_ok ctx \<Longrightarrow> arena_ok h \<Longrightarrow> context_ok (ctx\<lparr>tc_types := h\<rparr>)"
  by (simp add: context_ok_def)

lemma current_ok: "context_ok ctx \<Longrightarrow> scope_ok (hd (tc_scopes ctx))"
  by (cases "tc_scopes ctx") (simp_all add: context_ok_def)

lemma push_scope_ok:
  assumes "context_ok ctx"
  shows "context_ok (snd (type_context_push_scope ctx))"
proof (cases "grow_array (length (tc_scopes ctx)) (tc_scope_capacity ctx) SIZEOF_SCOPE (tc_types ctx)")
  case (Some r)
  then obtain cap h where g: "grow_array (length (tc_scopes ctx)) (tc_scope_capacity ctx) SIZEOF_SCOPE (tc_types ctx) =
      Some (cap, h)" by (cases r) simp
  obtain b h' where a: "alloc_all [INITIAL_VAR_CAPACITY * SIZEOF_ENTRY, INITIAL_FORWARD_CAPACITY * SIZEOF_FORWARD] h = (b, h')"
    by (rule prod.exhaust)
  have "0 < tc_scope_capacity ctx" using assms by (cases "tc_scopes ctx") (auto simp: context_ok_def)
  then have "length (tc_scopes ctx) < cap \<and> arena_ok h"
    using grow_array_ok [OF g] assms by (simp add: context_ok_def)
  with alloc_all_ok [OF a] a g assms show ?thesis
    by (cases b) (simp_all add: type_context_push_scope_def context_ok_def empty_scope_ok del: alloc_all.simps)
qed (use assms in \<open>simp add: type_context_push_scope_def\<close>)

lemma pop_scope_ok: "context_ok ctx \<Longrightarrow> context_ok (snd (type_context_pop_scope ctx))"
  unfolding type_context_pop_scope_def
  by (auto simp: context_ok_def emits_context Let_def split: list.splits)

lemma define_var_ok:
  assumes "context_ok ctx"
  shows "context_ok (snd (type_context_define_var name t ctx))"
proof -
  let ?sc = "hd (tc_scopes ctx)"
  have sc: "scope_ok ?sc" using current_ok [OF assms] .
  have "context_ok (set_current (?sc\<lparr>sc_var_capacity := cap, sc_vars := sc_vars ?sc @ [(name, t)]\<rparr>) (ctx\<lparr>tc_types := h\<rparr>))"
    if "name \<noteq> 0" "t \<noteq> None"
      "grow_array (length (sc_vars ?sc)) (sc_var_capacity ?sc) SIZEOF_ENTRY (tc_types ctx) = Some (cap, h)" for cap h
  proof -
    have "length (sc_vars ?sc) < cap \<and> 0 < cap \<and> arena_ok h"
      using grow_array_ok [OF that(3)] sc assms by (simp add: scope_ok_def context_ok_def)
    with sc that(1,2) assms show ?thesis
      by (intro set_current_ok types_ok) (auto simp: scope_ok_def)
  qed
  then show ?thesis using assms by (auto simp: type_context_define_var_def Let_def split: option.splits)
qed

lemma update_var_ok:
  assumes "context_ok ctx"
  shows "context_ok (snd (type_context_update_var name t ctx))"
proof -
  let ?sc = "hd (tc_scopes ctx)"
  have "context_ok (set_current (?sc\<lparr>sc_vars := vs\<rparr>) ctx)"
    if "name \<noteq> 0" "t \<noteq> None" "update_first (sc_vars ?sc) name t = Some vs" for vs
    using update_first_names [OF that(3)] current_ok [OF assms] that(1,2) assms
    by (intro set_current_ok) (auto simp: scope_ok_def)
  then show ?thesis using assms by (auto simp: type_context_update_var_def Let_def split: option.splits)
qed

lemma define_forward_ok:
  assumes "context_ok ctx"
  shows "context_ok (snd (type_context_define_forward name t ctx))"
proof -
  let ?sc = "hd (tc_scopes ctx)"
  have sc: "scope_ok ?sc" using current_ok [OF assms] .
  have "context_ok (set_current (?sc\<lparr>sc_forward_capacity := cap,
      sc_forwards := sc_forwards ?sc @ [\<lparr>fw_name = name, fw_type = t, fw_resolved = False\<rparr>]\<rparr>) (ctx\<lparr>tc_types := h\<rparr>))"
    if "name \<noteq> 0" "t \<noteq> None" "name \<notin> fw_name ` set (sc_forwards ?sc)"
      "grow_array (length (sc_forwards ?sc)) (sc_forward_capacity ?sc) SIZEOF_FORWARD (tc_types ctx) = Some (cap, h)"
    for cap h
  proof -
    have "length (sc_forwards ?sc) < cap \<and> 0 < cap \<and> arena_ok h"
      using grow_array_ok [OF that(4)] sc assms by (simp add: scope_ok_def context_ok_def)
    with sc that(1-3) assms show ?thesis
      by (intro set_current_ok types_ok) (auto simp: scope_ok_def)
  qed
  then show ?thesis using assms by (auto simp: type_context_define_forward_def Let_def split: option.splits)
qed

lemma forward_body_ok:
  assumes "type_context_define_forward_body n name t ctx = Some (b, ctx')" and "context_ok ctx"
  shows "context_ok ctx'"
proof -
  let ?sc = "hd (tc_scopes ctx)"
  have "context_ok (set_current (?sc\<lparr>sc_forwards := before @ f\<lparr>fw_resolved := True\<rparr> # after\<rparr>) ctx)"
    if "split_forward (sc_forwards ?sc) name = Some (before, f, after)" for before f after
    using split_forward_Some [OF that] current_ok [OF assms(2)]
    by (intro set_current_ok [OF assms(2)]) (auto simp: scope_ok_def)
  then show ?thesis
    using assms by (auto simp: type_context_define_forward_body_def Let_def
        split: if_splits option.splits prod.splits bool.splits)
qed

lemma check_scopes_ok:
  "check_scopes interns scs acc = (scs', acc') \<Longrightarrow>
     length scs' = length scs \<and> ((\<forall>sc\<in>set scs. scope_ok sc) \<longrightarrow> (\<forall>sc\<in>set scs'. scope_ok sc))"
  by (induction scs arbitrary: scs' acc')
    (fastforce simp: check_scope_def scope_ok_def split: prod.splits if_splits list.splits)+

lemma check_unresolved_ok: "context_ok ctx \<Longrightarrow> context_ok (snd (type_context_check_unresolved_forwards ctx))"
  by (fastforce simp: type_context_check_unresolved_forwards_def context_ok_def dest: check_scopes_ok split: prod.splits)

lemma functions_ok:
  "context_ok ctx \<Longrightarrow> context_ok (snd (type_context_define_func name t ctx))"
  "context_ok ctx \<Longrightarrow> context_ok (snd (type_context_update_func name t ctx))"
  by (fastforce simp: type_context_define_func_def type_context_update_func_def context_ok_def
      dest: grow_array_ok update_first_names split: option.splits)+

lemma push_ok:
  "context_ok ctx \<Longrightarrow> context_ok (snd (type_context_push_func t ctx))"
  "context_ok ctx \<Longrightarrow> context_ok (snd (type_context_push_this t ctx))"
  "context_ok ctx \<Longrightarrow> context_ok (snd (type_context_push_file t ctx))"
  "context_ok ctx \<Longrightarrow> context_ok (snd (type_context_push_global t ctx))"
  by (fastforce simp: type_context_push_func_def type_context_push_this_def type_context_push_file_def
      type_context_push_global_def context_ok_def dest: push_ref_ok push_ref_items split: option.splits)+

lemma pop_ok:
  "context_ok ctx \<Longrightarrow> context_ok (snd (type_context_pop_func ctx))"
  "context_ok ctx \<Longrightarrow> context_ok (snd (type_context_pop_this ctx))"
  "context_ok ctx \<Longrightarrow> context_ok (snd (type_context_pop_file ctx))"
  "context_ok ctx \<Longrightarrow> context_ok (snd (type_context_pop_global ctx))"
  by (auto simp: type_context_pop_func_def type_context_pop_this_def type_context_pop_file_def
      type_context_pop_global_def context_ok_def intro: pop_ref_ok dest: list.set_sel(2) [rotated]
      split: list.splits)
lemma context_step_ok: "context_step ctx ctx' \<Longrightarrow> context_ok ctx \<Longrightarrow> context_ok ctx'"
proof (induction rule: context_step.induct)
  case (8 n name t ctx b ctx')
  then show ?case by (rule forward_body_ok)
qed (simp_all add: push_scope_ok pop_scope_ok define_var_ok update_var_ok define_forward_ok check_unresolved_ok
    functions_ok push_ok pop_ok,
  simp_all add: context_ok_def type_context_set_return_type_def type_context_set_pending_func_def
    type_context_take_pending_func_def)

lemma context_new_ok: "type_context_new h interns dg = Some ctx \<Longrightarrow> arena_ok h \<Longrightarrow> context_ok ctx"
  unfolding type_context_new_def
  by (auto simp: context_ok_def stack_ok_def empty_scope_ok initial_capacities simp del: alloc_all.simps
      dest: alloc_all_ok split: prod.splits bool.splits)

text \<open>C32: contexts stay well formed.  In every context that the operations can produce, whatever their
  clients allocate and report, there is a current scope, every array has the room for its elements
  and can grow, no scope declares a name forward twice, every entry has a name and a type, no
  \<open>$this\<close> is \<open>NULL\<close>, and the arena is within its capacity.\<close>

theorem context_reachable_ok:
  assumes "context_reach ctx"
  shows "context_ok ctx"
  using assms by (induction rule: context_reach.induct) (auto intro: context_new_ok context_step_ok)

theorem context_reachable_ok_witness: "context_ok sample_defined"
proof (rule context_reachable_ok)
  have "context_reach sample_context"
    by (rule reach_new [OF _ sample_context_new]) (simp add: arena_ok_def arena_init_def)
  then have "context_reach (snd (type_context_push_scope sample_context))"
    by (rule reach_step) (rule context_step.intros)
  then show "context_reach sample_defined"
    unfolding sample_defined_def by (rule reach_step) (rule context_step.intros)
qed

text \<open>The special scopes are restored.  Whatever an operation does in between, as long as it leaves
  the stack as it found it, leaving a block, function, file or global scope that was entered makes the
  enclosing \<open>$this\<close>, current function, \<open>$file\<close> or \<open>$global\<close> current again.\<close>

theorem special_scopes_restored:
  "(fst (type_context_push_this t ctx) \<and> tc_this_stack ctx' = tc_this_stack (snd (type_context_push_this t ctx)) \<longrightarrow>
      type_context_get_this ctx' = t \<and>
      type_context_get_this (snd (type_context_pop_this ctx')) = type_context_get_this ctx) \<and>
   (fst (type_context_push_func t ctx) \<and> tc_func_stack ctx' = tc_func_stack (snd (type_context_push_func t ctx)) \<longrightarrow>
      type_context_get_current_func ctx' = t \<and>
      type_context_get_current_func (snd (type_context_pop_func ctx')) = type_context_get_current_func ctx) \<and>
   (fst (type_context_push_file t ctx) \<and> file_items ctx' = file_items (snd (type_context_push_file t ctx)) \<longrightarrow>
      type_context_get_file ctx' = t \<and>
      type_context_get_file (snd (type_context_pop_file ctx')) = type_context_get_file ctx) \<and>
   (fst (type_context_push_global t ctx) \<and> global_items ctx' = global_items (snd (type_context_push_global t ctx)) \<longrightarrow>
      type_context_get_global ctx' = t \<and>
      type_context_get_global (snd (type_context_pop_global ctx')) = type_context_get_global ctx)"
proof (intro conjI impI; elim conjE)
  assume a: "fst (type_context_push_this t ctx)" "tc_this_stack ctx' = tc_this_stack (snd (type_context_push_this t ctx))"
  show "type_context_get_this ctx' = t" "type_context_get_this (snd (type_context_pop_this ctx')) = type_context_get_this ctx"
    using this.push_accepted [OF a(1)] this.bracket [OF a(1), of ctx'] a(2)
    by (simp_all add: type_context_get_this_def top_ref_def)
next
  assume a: "fst (type_context_push_func t ctx)" "tc_func_stack ctx' = tc_func_stack (snd (type_context_push_func t ctx))"
  show "type_context_get_current_func ctx' = t"
    "type_context_get_current_func (snd (type_context_pop_func ctx')) = type_context_get_current_func ctx"
    using funcs.push_accepted [OF a(1)] funcs.bracket [OF a(1), of ctx'] a(2)
    by (simp_all add: type_context_get_current_func_def top_ref_def)
next
  assume a: "fst (type_context_push_file t ctx)" "file_items ctx' = file_items (snd (type_context_push_file t ctx))"
  show "type_context_get_file ctx' = t" "type_context_get_file (snd (type_context_pop_file ctx')) = type_context_get_file ctx"
    using files.push_accepted [OF a(1)] files.bracket [OF a(1), of ctx'] a(2)
    by (simp_all add: type_context_get_file_def file_items_def)
next
  assume a: "fst (type_context_push_global t ctx)" "global_items ctx' = global_items (snd (type_context_push_global t ctx))"
  show "type_context_get_global ctx' = t"
    "type_context_get_global (snd (type_context_pop_global ctx')) = type_context_get_global ctx"
    using globals.push_accepted [OF a(1)] globals.bracket [OF a(1), of ctx'] a(2)
    by (simp_all add: type_context_get_global_def global_items_def)
qed

theorem special_scopes_restored_witness:
  "type_context_get_this (snd (type_context_push_this (Some 3) sample_context)) = Some 3 \<and>
   type_context_get_this (snd (type_context_pop_this (snd (type_context_push_this (Some 3) sample_context)))) = None"
proof -
  have "fst (type_context_push_this (Some 3) sample_context)"
    by (simp add: type_context_push_this_def push_ref_def grow_array_def sample_context_fields)
  then show ?thesis
    using special_scopes_restored [of "Some 3" sample_context "snd (type_context_push_this (Some 3) sample_context)"]
    by (simp add: type_context_get_this_def top_ref_def sample_context_fields)
qed

end
