(* ===== verification/Inference.thy ===== *)
theory Inference
  imports Type_Context Operators Lexer "HOL-Library.Monad_Syntax"
begin

text \<open>
  Type inference, \<open>src/typing/inference.c\<close>.

  The two entry points thread the context and the syntax tree, which inference changes: a property
  gets the name \<open>$name\<close>, an overloaded node becomes the candidate that was chosen.  A result
  \<open>(t, node, ctx)\<close> with \<open>t = None\<close> is a \<open>NULL\<close> type.  Calls of the type equality and of
  \<open>unwrap_ref\<close> may use \<open>n\<close> levels; no result at all means that this was not enough, or that
  the C code reads outside an array (a function node with less than two children) or the wrong
  member of a union.

  A node owns its children and has no \<open>NULL\<close> child.  Names printed with \<open>%s\<close> end at their
  length: the bytes after an interned name are not modelled.
\<close>

section \<open>Diagnostics and names\<close>

definition span_from_node :: "ast \<Rightarrow> morphl_span" where
  "span_from_node node = morphl_span_from_loc (n_filename node) (n_row node) (n_col node)"

definition error_at :: "ast \<Rightarrow> string \<Rightarrow> type_context \<Rightarrow> type_context" where
  "error_at node msg = emit (morphl_error_make MORPHL_E_TYPE MORPHL_SEV_ERROR (span_from_node node) msg)"

definition warn_at :: "ast \<Rightarrow> morphl_err_code \<Rightarrow> string \<Rightarrow> type_context \<Rightarrow> type_context" where
  "warn_at node code msg = emit (morphl_error_make code MORPHL_SEV_WARN (span_from_node node) msg)"

text \<open>A reported failure.\<close>

definition fail_at :: "ast \<Rightarrow> string \<Rightarrow> type_context \<Rightarrow> (tref \<times> type_context) option" where
  "fail_at node msg ctx = Some (None, error_at node msg ctx)"

text \<open>\<open>interns_intern(ctx->interns, s)\<close>.\<close>

definition intern_in :: "str \<Rightarrow> type_context \<Rightarrow> nat \<times> type_context" where
  "intern_in s ctx = (case interns_intern (tc_interns ctx) s of (sy, t) \<Rightarrow> (sy, ctx\<lparr>tc_interns := t\<rparr>))"

text \<open>\<open>op == interns_intern(a) || op == interns_intern(b) || ...\<close>, stopping at the first that agrees.\<close>

fun op_is_any :: "nat \<Rightarrow> string list \<Rightarrow> type_context \<Rightarrow> bool \<times> type_context" where
  "op_is_any op [] ctx = (False, ctx)"
| "op_is_any op (name # names) ctx =
     (case intern_in (str_from name) ctx of
        (sy, ctx1) \<Rightarrow> if op = sy then (True, ctx1) else op_is_any op names ctx1)"

definition op_name_str :: "nat \<Rightarrow> intern_table \<Rightarrow> string" where
  "op_name_str op interns =
     (if op = 0 then ''<unknown>'' else c_str (str_bytes (interns_lookup interns op)))"

section \<open>Types in the arena of the context\<close>

text \<open>A constructor of a type run on the arena of the context.\<close>

definition with_types :: "(type_arena \<Rightarrow> tref \<times> type_arena) \<Rightarrow> type_context \<Rightarrow> tref \<times> type_context" where
  "with_types mk ctx = (case mk (tc_types ctx) of (t, h) \<Rightarrow> (t, ctx\<lparr>tc_types := h\<rparr>))"

definition make_type ::
    "(type_arena \<Rightarrow> tref \<times> type_arena) \<Rightarrow> type_context \<Rightarrow> (tref \<times> type_context) option" where
  "make_type mk ctx = Some (with_types mk ctx)"

text \<open>\<open>t && t->kind == d\<close>, for the kinds without data.\<close>

definition is_kind :: "type_context \<Rightarrow> tref \<Rightarrow> type_data \<Rightarrow> bool" where
  "is_kind ctx t d = (case t of None \<Rightarrow> False | Some p \<Rightarrow> cell (tc_types ctx) p = d)"

definition is_func :: "type_context \<Rightarrow> tref \<Rightarrow> bool" where
  "is_func ctx t =
     (case t of
        None \<Rightarrow> False
      | Some p \<Rightarrow> (case cell (tc_types ctx) p of MORPHL_TYPE_FUNC ps r \<Rightarrow> True | _ \<Rightarrow> False))"

definition set_type :: "nat \<Rightarrow> type_data \<Rightarrow> type_context \<Rightarrow> type_context" where
  "set_type p d ctx = ctx\<lparr>tc_types := set_cell (tc_types ctx) p d\<rparr>"

fun unwrap_ref :: "nat \<Rightarrow> type_arena \<Rightarrow> tref \<Rightarrow> tref option" where
  "unwrap_ref 0 h t = None"
| "unwrap_ref (Suc n) h t =
     (case t of
        None \<Rightarrow> Some None
      | Some p \<Rightarrow> (case cell h p of MORPHL_TYPE_REF (Some q) m i \<Rightarrow> unwrap_ref n h (Some q) | _ \<Rightarrow> Some t))"

definition types_comparable :: "nat \<Rightarrow> type_arena \<Rightarrow> tref \<Rightarrow> tref \<Rightarrow> bool option" where
  "types_comparable n h a b =
     (if a = None \<or> b = None then Some False else morphl_type_equals n h a b)"

section \<open>Inference for an operator\<close>

text \<open>\<open>$mut\<close>, \<open>$const\<close>, \<open>$inline\<close>.\<close>

definition infer_ref_op :: "ast \<Rightarrow> nat \<Rightarrow> string \<Rightarrow> tref list \<Rightarrow> type_context \<Rightarrow> (tref \<times> type_context) option" where
  "infer_ref_op node op op_name args ctx =
     (if length args \<noteq> 1 then fail_at node (op_name @ '' expects 1 arg, got '' @ nat_str (length args)) ctx
      else if hd args = None then fail_at node (op_name @ '': cannot infer argument type'') ctx
      else (let (mut_sym, ctx1) = intern_in (str_from ''$mut'') ctx;
                (inline_sym, ctx2) = intern_in (str_from ''$inline'') ctx1
            in make_type (morphl_type_ref (hd args) (op = mut_sym) (op = inline_sym)) ctx2))"

text \<open>\<open>$this\<close>, \<open>$file\<close>, \<open>$global\<close>: the type, or an error when there is none.\<close>

definition infer_special :: "ast \<Rightarrow> (type_context \<Rightarrow> tref) \<Rightarrow> string \<Rightarrow> type_context \<Rightarrow> (tref \<times> type_context) option" where
  "infer_special node get msg ctx =
     (if get ctx = None then fail_at node msg ctx else Some (get ctx, ctx))"

definition infer_forward_op :: "ast \<Rightarrow> tref list \<Rightarrow> type_context \<Rightarrow> (tref \<times> type_context) option" where
  "infer_forward_op node args ctx =
     (if length args \<noteq> 1 then fail_at node (''$forward expects 1 arg, got '' @ nat_str (length args)) ctx
      else if hd args = None then fail_at node ''$forward: cannot infer stub type'' ctx
      else if \<not> is_func ctx (hd args) then fail_at node ''$forward: stub must be a function'' ctx
      else Some (hd args, ctx))"

definition infer_comparison ::
    "nat \<Rightarrow> ast \<Rightarrow> string \<Rightarrow> tref list \<Rightarrow> type_context \<Rightarrow> (tref \<times> type_context) option" where
  "infer_comparison n node op_name args ctx =
     (if length args \<noteq> 2
      then fail_at node (''comparison '' @ op_name @ '' expects 2 args, got '' @ nat_str (length args)) ctx
      else do {
        left \<leftarrow> unwrap_ref n (tc_types ctx) (args ! 0);
        right \<leftarrow> unwrap_ref n (tc_types ctx) (args ! 1);
        ok \<leftarrow> types_comparable n (tc_types ctx) left right;
        if \<not> ok then fail_at node (op_name @ '': types not compatible'') ctx
        else make_type morphl_type_bool ctx
      })"

definition infer_logic ::
    "nat \<Rightarrow> ast \<Rightarrow> string \<Rightarrow> tref list \<Rightarrow> type_context \<Rightarrow> (tref \<times> type_context) option" where
  "infer_logic n node op_name args ctx =
     (if length args \<noteq> 2
      then fail_at node (''logic '' @ op_name @ '' expects 2 args, got '' @ nat_str (length args)) ctx
      else do {
        left \<leftarrow> unwrap_ref n (tc_types ctx) (args ! 0);
        if \<not> is_kind ctx left MORPHL_TYPE_BOOL then fail_at node (op_name @ '': arg 1 must be bool'') ctx
        else do {
          right \<leftarrow> unwrap_ref n (tc_types ctx) (args ! 1);
          if \<not> is_kind ctx right MORPHL_TYPE_BOOL then fail_at node (op_name @ '': arg 2 must be bool'') ctx
          else make_type morphl_type_bool ctx
        }
      })"

text \<open>\<open>$not\<close> and \<open>$bnot\<close>.\<close>

definition infer_unary ::
    "nat \<Rightarrow> ast \<Rightarrow> string \<Rightarrow> type_data \<Rightarrow> string \<Rightarrow> (type_arena \<Rightarrow> tref \<times> type_arena) \<Rightarrow> tref list \<Rightarrow>
     type_context \<Rightarrow> (tref \<times> type_context) option" where
  "infer_unary n node name want kind_text mk args ctx =
     (if length args \<noteq> 1 then fail_at node (name @ '' expects 1 arg, got '' @ nat_str (length args)) ctx
      else do {
        arg \<leftarrow> unwrap_ref n (tc_types ctx) (hd args);
        if \<not> is_kind ctx arg want then fail_at node (name @ '': argument must be '' @ kind_text) ctx
        else make_type mk ctx
      })"

text \<open>Integer, float and bitwise operators of two arguments.\<close>

definition infer_binary ::
    "nat \<Rightarrow> ast \<Rightarrow> string \<Rightarrow> string \<Rightarrow> type_data \<Rightarrow> string \<Rightarrow> (type_arena \<Rightarrow> tref \<times> type_arena) \<Rightarrow> tref list \<Rightarrow>
     type_context \<Rightarrow> (tref \<times> type_context) option" where
  "infer_binary n node label op_name want kind_text mk args ctx =
     (if length args \<noteq> 2
      then fail_at node (label @ '' '' @ op_name @ '' expects 2 args, got '' @ nat_str (length args)) ctx
      else do {
        left \<leftarrow> unwrap_ref n (tc_types ctx) (args ! 0);
        right \<leftarrow> unwrap_ref n (tc_types ctx) (args ! 1);
        if \<not> is_kind ctx left want \<or> \<not> is_kind ctx right want
        then fail_at node (op_name @ '': both arguments must be '' @ kind_text) ctx
        else make_type mk ctx
      })"

definition infer_func_op :: "ast \<Rightarrow> tref list \<Rightarrow> type_context \<Rightarrow> (tref \<times> type_context) option" where
  "infer_func_op node args ctx =
     (if length args \<noteq> 2 then fail_at node (''$func expects 2 args, got '' @ nat_str (length args)) ctx
      else if args ! 0 = None then fail_at node ''$func: cannot infer parameter type'' ctx
      else if args ! 1 = None then fail_at node ''$func: cannot infer return type'' ctx
      else make_type (morphl_type_func (args ! 0) (args ! 1)) ctx)"

text \<open>
  \<open>$ret\<close>: the first one of a function whose return type is still unknown fixes it, also in the
  type of the function itself; a later one must agree.
\<close>

definition set_func_return :: "tref \<Rightarrow> tref \<Rightarrow> type_context \<Rightarrow> type_context" where
  "set_func_return f t ctx =
     (case f of
        None \<Rightarrow> ctx
      | Some p \<Rightarrow> (case cell (tc_types ctx) p of
                    MORPHL_TYPE_FUNC ps r \<Rightarrow> set_type p (MORPHL_TYPE_FUNC ps t) ctx
                  | _ \<Rightarrow> ctx))"

definition infer_ret :: "nat \<Rightarrow> ast \<Rightarrow> tref list \<Rightarrow> type_context \<Rightarrow> (tref \<times> type_context) option" where
  "infer_ret n node args ctx =
     (if length args \<noteq> 1 then fail_at node (''$ret expects 1 arg, got '' @ nat_str (length args)) ctx
      else if tc_expected_return_type ctx = None then fail_at node ''$ret: not inside a function'' ctx
      else if hd args = None \<or> is_kind ctx (hd args) MORPHL_TYPE_UNKNOWN then make_type morphl_type_void ctx
      else if is_kind ctx (tc_expected_return_type ctx) MORPHL_TYPE_UNKNOWN
      then make_type morphl_type_void
             (set_func_return (type_context_get_current_func ctx) (hd args)
               (type_context_set_return_type (hd args) ctx))
      else do {
        t \<leftarrow> unwrap_ref n (tc_types ctx) (hd args);
        u \<leftarrow> unwrap_ref n (tc_types ctx) (tc_expected_return_type ctx);
        eq \<leftarrow> morphl_type_equals n (tc_types ctx) t u;
        if \<not> eq then fail_at node ''return type mismatch: expected different type'' ctx
        else make_type morphl_type_void ctx
      })"

definition infer_call :: "nat \<Rightarrow> ast \<Rightarrow> tref list \<Rightarrow> type_context \<Rightarrow> (tref \<times> type_context) option" where
  "infer_call n node args ctx =
     (if length args \<noteq> 2 then fail_at node (''$call expects 2 args, got '' @ nat_str (length args)) ctx
      else do {
        f \<leftarrow> unwrap_ref n (tc_types ctx) (args ! 0);
        (case map_option (cell (tc_types ctx)) f of
           Some (MORPHL_TYPE_FUNC ps r) \<Rightarrow> Some (r, ctx)
         | _ \<Rightarrow> fail_at node ''$call: first argument must be a function'' ctx)
      })"

text \<open>The branches of \<open>$if\<close>: a group of one or two types, or the type of the only branch.\<close>

definition infer_branches :: "nat \<Rightarrow> ast \<Rightarrow> tref \<Rightarrow> type_context \<Rightarrow> (tref \<times> type_context) option" where
  "infer_branches n node branches ctx =
     (case map_option (cell (tc_types ctx)) branches of
        None \<Rightarrow> None
      | Some (MORPHL_TYPE_GROUP elems) \<Rightarrow>
          (if length elems \<noteq> 1 \<and> length elems \<noteq> 2
           then fail_at node ''$if: second argument must be a group of (then_type, else_type)'' ctx
           else do {
             ok \<leftarrow> types_comparable n (tc_types ctx) (hd elems) (if length elems = 2 then elems ! 1 else None);
             if \<not> ok then fail_at node ''$if: then and else types are not compatible'' ctx
             else Some (hd elems, ctx)
           })
      | Some d \<Rightarrow> Some (branches, ctx))"

definition infer_if :: "nat \<Rightarrow> ast \<Rightarrow> tref list \<Rightarrow> type_context \<Rightarrow> (tref \<times> type_context) option" where
  "infer_if n node args ctx =
     (if length args \<noteq> 2 then fail_at node (''$if expects 2 args, got '' @ nat_str (length args)) ctx
      else do {
        cond \<leftarrow> unwrap_ref n (tc_types ctx) (args ! 0);
        if \<not> is_kind ctx cond MORPHL_TYPE_BOOL then fail_at node ''$if: condition must be bool'' ctx
        else infer_branches n node (args ! 1) ctx
      })"

text \<open>The operators the code tells apart, in its order, and the rule of each.\<close>

definition op_rules ::
    "nat \<Rightarrow> ast \<Rightarrow> nat \<Rightarrow> string \<Rightarrow> tref list \<Rightarrow>
     (string list \<times> (type_context \<Rightarrow> (tref \<times> type_context) option)) list" where
  "op_rules n node op op_name args =
     [([''$mut'', ''$const'', ''$inline''], infer_ref_op node op op_name args),
      ([''$this''], infer_special node type_context_get_this ''$this: no active block scope''),
      ([''$file''], infer_special node type_context_get_file ''$file: file scope unavailable''),
      ([''$global''], infer_special node type_context_get_global ''$global: global scope unavailable''),
      ([''$forward''], infer_forward_op node args),
      ([''$eq'', ''$neq'', ''$lt'', ''$gt'', ''$lte'', ''$gte''], infer_comparison n node op_name args),
      ([''$and'', ''$or''], infer_logic n node op_name args),
      ([''$not''], infer_unary n node ''$not'' MORPHL_TYPE_BOOL ''bool'' morphl_type_bool args),
      ([''$add'', ''$sub'', ''$mul'', ''$div''],
        infer_binary n node ''arithmetic'' op_name MORPHL_TYPE_INT ''int'' morphl_type_int args),
      ([''$fadd'', ''$fsub'', ''$fmul'', ''$fdiv''],
        infer_binary n node ''float arithmetic'' op_name MORPHL_TYPE_FLOAT ''float'' morphl_type_float args),
      ([''$band'', ''$bor'', ''$bxor'', ''$lshift'', ''$rshift''],
        infer_binary n node ''bitwise'' op_name MORPHL_TYPE_INT ''int'' morphl_type_int args),
      ([''$bnot''], infer_unary n node ''$bnot'' MORPHL_TYPE_INT ''int'' morphl_type_int args),
      ([''$group'', ''$block''], make_type morphl_type_void),
      ([''$func''], infer_func_op node args),
      ([''$ret''], infer_ret n node args),
      ([''$call''], infer_call n node args),
      ([''$if''], infer_if n node args)]"

fun dispatch_op ::
    "nat \<Rightarrow> (string list \<times> (type_context \<Rightarrow> (tref \<times> type_context) option)) list \<Rightarrow>
     (type_context \<Rightarrow> (tref \<times> type_context) option) \<Rightarrow> type_context \<Rightarrow> (tref \<times> type_context) option" where
  "dispatch_op op [] otherwise ctx = otherwise ctx"
| "dispatch_op op ((names, rule) # rules) otherwise ctx =
     (case op_is_any op names ctx of
        (True, ctx1) \<Rightarrow> rule ctx1
      | (False, ctx1) \<Rightarrow> dispatch_op op rules otherwise ctx1)"

definition infer_untyped :: "ast \<Rightarrow> string \<Rightarrow> type_context \<Rightarrow> (tref \<times> type_context) option" where
  "infer_untyped node op_name ctx =
     make_type morphl_type_void
       (warn_at node MORPHL_E_TYPE (''type inference not implemented for '' @ op_name) ctx)"

definition morphl_infer_type_for_op ::
    "operator_row list \<Rightarrow> nat \<Rightarrow> ast \<Rightarrow> nat \<Rightarrow> tref list \<Rightarrow> type_context \<Rightarrow> (tref \<times> type_context) option" where
  "morphl_infer_type_for_op ops n node op args ctx =
     (case (if op = 0 then None else operator_info_lookup ops op) of
        None \<Rightarrow> Some (None, ctx)
      | Some info \<Rightarrow>
          (let op_name = op_name_str op (tc_interns ctx) in
           if length args < i_min_args info \<or> length args > i_max_args info
           then fail_at node (''operator '' @ op_name @ '' expects '' @ nat_str (i_min_args info) @ ''-'' @
                  nat_str (i_max_args info) @ '' args, got '' @ nat_str (length args)) ctx
           else dispatch_op op (op_rules n node op op_name args) (infer_untyped node op_name) ctx))"
section \<open>Inference for a syntax tree\<close>

type_synonym inferred = "(tref \<times> ast \<times> type_context) option"

definition give :: "ast \<Rightarrow> (tref \<times> type_context) option \<Rightarrow> inferred" where
  "give node r = map_option (\<lambda>(t, ctx). (t, node, ctx)) r"

fun set_children :: "ast \<Rightarrow> ast list \<Rightarrow> ast" where
  "set_children (AstNode k op v cs cap fn row col) ds = AstNode k op v ds cap fn row col"

fun set_name :: "ast \<Rightarrow> nat \<Rightarrow> str \<Rightarrow> ast" where
  "set_name (AstNode k op v cs cap fn row col) sy s = AstNode k sy s cs cap fn row col"

text \<open>The loop over arguments: their types, up to the first that has none.\<close>

fun infer_args ::
    "(ast \<Rightarrow> type_context \<Rightarrow> inferred) \<Rightarrow> ast list \<Rightarrow> type_context \<Rightarrow>
     (tref list option \<times> ast list \<times> type_context) option" where
  "infer_args infer [] ctx = Some (Some [], [], ctx)"
| "infer_args infer (x # xs) ctx = do {
     (t, x', ctx1) \<leftarrow> infer x ctx;
     if t = None then Some (None, x' # xs, ctx1)
     else do {
       (ts, xs', ctx2) \<leftarrow> infer_args infer xs ctx1;
       Some (map_option (Cons t) ts, x' # xs', ctx2)
     }
   }"

subsection \<open>Declarations\<close>

text \<open>A property is declared under its name with a \<open>$\<close> in front, which its name node gets.\<close>

definition infer_prop_name :: "ast \<Rightarrow> type_context \<Rightarrow> ast option \<times> type_context" where
  "infer_prop_name name ctx =
     (if n_kind name \<noteq> AST_IDENT then (None, ctx)
      else (case (case interns_lookup (tc_interns ctx) (n_op name) of None \<Rightarrow> n_value name | Some b \<Rightarrow> Some b) of
              None \<Rightarrow> (None, ctx)
            | Some b \<Rightarrow>
                (case str_concat (ta_arena (tc_types ctx)) (str_from ''$'') (Some b) of
                   (full, a) \<Rightarrow>
                     (case intern_in full (ctx\<lparr>tc_types := (tc_types ctx)\<lparr>ta_arena := a\<rparr>\<rparr>) of
                        (sy, ctx1) \<Rightarrow> if sy = 0 then (None, ctx1) else (Some (set_name name sy full), ctx1)))))"

text \<open>The symbol of a name node, interning its text when it has none.\<close>

definition name_sym :: "ast \<Rightarrow> type_context \<Rightarrow> nat \<times> type_context" where
  "name_sym name ctx = (if n_op name = 0 then intern_in (n_value name) ctx else (n_op name, ctx))"

definition infer_forward_decl ::
    "(ast \<Rightarrow> type_context \<Rightarrow> inferred) \<Rightarrow> ast \<Rightarrow> nat \<Rightarrow> type_context \<Rightarrow> inferred" where
  "infer_forward_decl infer node var ctx =
     (let init = n_children node ! 1 in
      if length (n_children init) \<noteq> 1
      then give node (fail_at node ''$forward: expected 1 stub expression'' ctx)
      else do {
        (t, stub, ctx1) \<leftarrow> infer (hd (n_children init)) ctx;
        give (set_children node ((n_children node)[1 := set_children init [stub]]))
          (if \<not> is_func ctx1 t then fail_at node ''$forward: stub must be a function'' ctx1
           else if type_context_check_duplicate_var ctx1 var
           then fail_at node ''$forward: variable already declared'' ctx1
           else (case type_context_define_forward var t ctx1 of
                   (False, ctx2) \<Rightarrow> fail_at node ''$forward: duplicate stub in scope'' ctx2
                 | (True, ctx2) \<Rightarrow>
                     Some (t, snd (type_context_define_func var t (snd (type_context_define_var var t ctx2))))))
      })"

text \<open>A function is declared before its body is inferred, with unknown parameter and return type.\<close>

definition needs_placeholder :: "ast \<Rightarrow> type_context \<Rightarrow> bool" where
  "needs_placeholder init ctx \<longleftrightarrow>
     n_kind init = AST_FUNC \<or>
     n_kind init = AST_BUILTIN \<and> n_op init \<noteq> 0 \<and> op_name_str (n_op init) (tc_interns ctx) = ''$func''"

definition declare_placeholder :: "nat \<Rightarrow> type_context \<Rightarrow> type_context" where
  "declare_placeholder var ctx =
     (let (u, ctx1) = with_types morphl_type_unknown ctx;
          (v, ctx2) = with_types morphl_type_unknown ctx1;
          (p, ctx3) = with_types (morphl_type_func u v) ctx2
      in type_context_set_pending_func p
           (snd (type_context_define_var var p (snd (type_context_define_func var p ctx3)))))"

text \<open>A warning for a variable that is a mutable reference without an explicit \<open>$mut\<close> or \<open>$inline\<close>.\<close>

definition warn_implicit_mut :: "ast \<Rightarrow> ast \<Rightarrow> nat \<Rightarrow> tref \<Rightarrow> type_context \<Rightarrow> type_context" where
  "warn_implicit_mut name init var t ctx =
     (case map_option (cell (tc_types ctx)) t of
        Some (MORPHL_TYPE_REF u True i) \<Rightarrow>
          (case (if n_kind init = AST_BUILTIN then op_is_any (n_op init) [''$mut'', ''$inline''] ctx
                 else (False, ctx)) of
             (True, ctx1) \<Rightarrow> ctx1
           | (False, ctx1) \<Rightarrow>
               warn_at name MORPHL_E_PARSE
                 (''$decl: variable '' @ [CHR 0x27] @ c_str (str_bytes (interns_lookup (tc_interns ctx1) var)) @ [CHR 0x27] @
                  '' is implicitly mutable; use '' @ [CHR 0x27] @ ''$mut'' @ [CHR 0x27] @
                  '' to create new mutable referenceor '' @ [CHR 0x27] @ ''$inline'' @ [CHR 0x27] @
                  '' to create an alias'') ctx1)
      | _ \<Rightarrow> ctx)"

text \<open>The declaration once the type \<open>t\<close> of its initial value is known.\<close>

definition finish_decl ::
    "nat \<Rightarrow> bool \<Rightarrow> ast \<Rightarrow> nat \<Rightarrow> tref \<Rightarrow> type_context \<Rightarrow> (tref \<times> type_context) option" where
  "finish_decl n placeholder node var t ctx =
     (case type_context_lookup_forward ctx var of
        Some f \<Rightarrow>
          if fw_resolved f then fail_at node ''$forward: multiple bodies for stub'' ctx
          else do {
            (ok, ctx1) \<leftarrow> type_context_define_forward_body n var t ctx;
            if \<not> ok then fail_at node ''$forward: definition mismatch for stub'' ctx1 else Some (t, ctx1)
          }
      | None \<Rightarrow>
          if placeholder
          then Some (t, snd (type_context_update_func var t (snd (type_context_update_var var t ctx))))
          else if type_context_check_duplicate_var ctx var then
            (let existing = type_context_lookup_var ctx var in
             if existing = None then fail_at node ''$decl: variable already declared'' ctx
             else do {
               eq \<leftarrow> morphl_type_equals n (tc_types ctx) existing t;
               if \<not> eq then fail_at node ''$decl: variable already declared'' ctx else Some (existing, ctx)
             })
          else Some (t, snd (type_context_define_var var t
                 (warn_implicit_mut (n_children node ! 0) (n_children node ! 1) var t ctx))))"

definition infer_plain_decl ::
    "nat \<Rightarrow> (ast \<Rightarrow> type_context \<Rightarrow> inferred) \<Rightarrow> ast \<Rightarrow> nat \<Rightarrow> type_context \<Rightarrow> inferred" where
  "infer_plain_decl n infer node var ctx =
     (let placeholder = needs_placeholder (n_children node ! 1) ctx in do {
        (t, init, ctx1) \<leftarrow> infer (n_children node ! 1) (if placeholder then declare_placeholder var ctx else ctx);
        let ctx2 = (if placeholder then type_context_set_pending_func None ctx1 else ctx1);
        let node1 = set_children node ((n_children node)[1 := init]);
        give node1
          (if t = None then fail_at node ''$decl: cannot infer variable type'' ctx2
           else finish_decl n placeholder node1 var t ctx2)
      })"

definition infer_decl :: "nat \<Rightarrow> (ast \<Rightarrow> type_context \<Rightarrow> inferred) \<Rightarrow> ast \<Rightarrow> type_context \<Rightarrow> inferred" where
  "infer_decl n infer node ctx =
     (if length (n_children node) < 2 then Some (None, node, ctx)
      else (case (if n_kind node = AST_PROP then infer_prop_name (hd (n_children node)) ctx
                  else (Some (hd (n_children node)), ctx)) of
              (None, ctx1) \<Rightarrow> Some (None, node, ctx1)
            | (Some name, ctx1) \<Rightarrow>
                (let node1 = set_children node ((n_children node)[0 := name]) in
                 if n_kind name \<noteq> AST_IDENT then Some (None, node1, ctx1)
                 else (case name_sym name ctx1 of
                         (var, ctx2) \<Rightarrow>
                           if var = 0 then Some (None, node1, ctx2)
                           else (case intern_in (str_from ''$forward'') ctx2 of
                                   (forward_sym, ctx3) \<Rightarrow>
                                     if n_kind (n_children node ! 1) = AST_BUILTIN \<and>
                                        n_op (n_children node ! 1) = forward_sym
                                     then infer_forward_decl infer node1 var ctx3
                                     else infer_plain_decl n infer node1 var ctx3)))))"

subsection \<open>Groups and blocks\<close>

definition infer_group :: "(ast \<Rightarrow> type_context \<Rightarrow> inferred) \<Rightarrow> ast \<Rightarrow> type_context \<Rightarrow> inferred" where
  "infer_group infer node ctx = do {
     (ts, cs, ctx1) \<leftarrow> infer_args infer (n_children node) ctx;
     (case ts of
        None \<Rightarrow> Some (None, set_children node cs, ctx1)
      | Some ts \<Rightarrow> give (set_children node cs) (make_type (morphl_type_group ts) ctx1))
   }"

text \<open>
  The statements of the block whose type is the cell \<open>p\<close>, \<open>members\<close> being its fields so far.  A
  declaration adds a field, for which both arrays are allocated again.
\<close>

definition is_member :: "ast \<Rightarrow> bool" where
  "is_member stmt \<longleftrightarrow> (n_kind stmt = AST_DECL \<or> n_kind stmt = AST_PROP) \<and> n_children stmt \<noteq> []"

definition add_member ::
    "nat \<Rightarrow> (nat \<times> tref) list \<Rightarrow> ast \<Rightarrow> tref \<Rightarrow> type_context \<Rightarrow> (nat \<times> tref) list option \<times> ast \<times> type_context" where
  "add_member p members stmt t ctx =
     (case name_sym (hd (n_children stmt)) ctx of
        (sy, ctx1) \<Rightarrow>
          (let name = hd (n_children stmt);
               stmt1 = set_children stmt ((n_children stmt)[0 := set_name name sy (n_value name)]);
               members1 = members @ [(sy, t)]
           in if sy = 0 then (None, stmt1, ctx1)
              else (case alloc_all [length members1 * SIZEOF_SYM, length members1 * SIZEOF_POINTER] (tc_types ctx1) of
                      (False, h) \<Rightarrow> (None, stmt1, ctx1\<lparr>tc_types := h\<rparr>)
                    | (True, h) \<Rightarrow>
                        (Some members1, stmt1, set_type p (MORPHL_TYPE_BLOCK members1) (ctx1\<lparr>tc_types := h\<rparr>)))))"

fun infer_stmts ::
    "(ast \<Rightarrow> type_context \<Rightarrow> inferred) \<Rightarrow> nat \<Rightarrow> (nat \<times> tref) list \<Rightarrow> ast list \<Rightarrow> type_context \<Rightarrow>
     (bool \<times> ast list \<times> type_context) option" where
  "infer_stmts infer p members [] ctx = Some (True, [], ctx)"
| "infer_stmts infer p members (stmt # stmts) ctx = do {
     (t, stmt1, ctx1) \<leftarrow> infer stmt ctx;
     if t = None then Some (False, stmt1 # stmts, ctx1)
     else (case (if is_member stmt1 then add_member p members stmt1 t ctx1 else (Some members, stmt1, ctx1)) of
             (None, stmt2, ctx2) \<Rightarrow> Some (False, stmt2 # stmts, ctx2)
           | (Some members1, stmt2, ctx2) \<Rightarrow> do {
               (ok, stmts2, ctx3) \<leftarrow> infer_stmts infer p members1 stmts ctx2;
               Some (ok, stmt2 # stmts2, ctx3)
             })
   }"

text \<open>The first block of a file becomes its \<open>$file\<close>, and the global scope when there is none.\<close>

definition open_block :: "tref \<Rightarrow> type_context \<Rightarrow> type_context" where
  "open_block t ctx =
     (let ctx1 = (if tc_file_type ctx = None then ctx\<lparr>tc_file_type := t\<rparr> else ctx)
      in if tc_global_type ctx1 = None then ctx1\<lparr>tc_global_type := t\<rparr> else ctx1)"

definition infer_block :: "(ast \<Rightarrow> type_context \<Rightarrow> inferred) \<Rightarrow> ast \<Rightarrow> type_context \<Rightarrow> inferred" where
  "infer_block infer node ctx =
     (case type_context_push_scope ctx of
        (False, ctx1) \<Rightarrow> Some (None, node, ctx1)
      | (True, ctx1) \<Rightarrow>
          (case with_types (morphl_type_block []) ctx1 of
             (None, ctx2) \<Rightarrow> Some (None, node, snd (type_context_pop_scope ctx2))
           | (Some p, ctx2) \<Rightarrow>
               (case type_context_push_this (Some p) ctx2 of
                  (False, ctx3) \<Rightarrow> Some (None, node, snd (type_context_pop_scope ctx3))
                | (True, ctx3) \<Rightarrow> do {
                    (ok, stmts, ctx4) \<leftarrow> infer_stmts infer p [] (n_children node) (open_block (Some p) ctx3);
                    Some (if ok then Some p else None, set_children node stmts,
                      snd (type_context_pop_scope (snd (type_context_pop_this ctx4))))
                  })))"

subsection \<open>Functions\<close>

text \<open>
  The type of the function while its body is inferred: the one its declaration announced, with the
  parameter filled in, or a new one.
\<close>

definition current_func_type :: "tref \<Rightarrow> type_context \<Rightarrow> tref \<times> type_context" where
  "current_func_type param ctx =
     (case type_context_take_pending_func ctx of
        (None, ctx1) \<Rightarrow>
          (case with_types morphl_type_unknown ctx1 of
             (u, ctx2) \<Rightarrow> with_types (morphl_type_func param u) ctx2)
      | (Some p, ctx1) \<Rightarrow>
          (case cell (tc_types ctx1) p of
             MORPHL_TYPE_FUNC (q # qs) r \<Rightarrow> (Some p, set_type p (MORPHL_TYPE_FUNC (param # qs) r) ctx1)
           | _ \<Rightarrow> (Some p, ctx1)))"

definition func_failed :: "ast \<Rightarrow> string \<Rightarrow> type_context \<Rightarrow> (tref \<times> type_context) option" where
  "func_failed node msg ctx =
     fail_at node msg (type_context_set_return_type None
       (snd (type_context_pop_scope (snd (type_context_pop_func ctx)))))"

text \<open>After the body, of type \<open>body\<close>, of the function whose type is the cell \<open>f\<close>.\<close>

definition finish_func :: "nat \<Rightarrow> tref \<Rightarrow> ast \<Rightarrow> tref \<Rightarrow> type_context \<Rightarrow> (tref \<times> type_context) option" where
  "finish_func f param func_body body ctx =
     (if body = None then func_failed func_body ''$func: cannot infer body type'' ctx
      else (let return_type = type_context_get_return_type ctx;
                return_type = (if is_kind ctx return_type MORPHL_TYPE_UNKNOWN then body else return_type)
            in if return_type = None then func_failed func_body ''$func: cannot determine return type'' ctx
               else (case cell (tc_types ctx) f of
                       MORPHL_TYPE_FUNC ps r \<Rightarrow>
                         make_type (morphl_type_func param return_type)
                           (type_context_set_return_type None
                             (snd (type_context_pop_scope (snd (type_context_pop_func
                               (set_type f (MORPHL_TYPE_FUNC ps return_type) ctx))))))
                     | _ \<Rightarrow> None)))"

definition infer_func :: "(ast \<Rightarrow> type_context \<Rightarrow> inferred) \<Rightarrow> ast \<Rightarrow> type_context \<Rightarrow> inferred" where
  "infer_func infer node ctx =
     (case n_children node of
        param_expr # func_body # others \<Rightarrow> do {
          (param, param_expr1, ctx1) \<leftarrow> infer param_expr (snd (type_context_push_scope ctx));
          if param = None
          then give (set_children node (param_expr1 # func_body # others))
                 (fail_at param_expr1 ''$func: cannot infer parameter type'' (snd (type_context_pop_scope ctx1)))
          else (case (case current_func_type param ctx1 of
                        (None, ctx2) \<Rightarrow> (None, ctx2)
                      | (Some f, ctx2) \<Rightarrow>
                          (case type_context_push_func (Some f) ctx2 of
                             (ok, ctx3) \<Rightarrow> (if ok then Some f else None, ctx3))) of
                  (None, ctx3) \<Rightarrow>
                    give (set_children node (param_expr1 # func_body # others))
                      (fail_at node ''$func: cannot establish function context'' (snd (type_context_pop_scope ctx3)))
                | (Some f, ctx3) \<Rightarrow>
                    (case cell (tc_types ctx3) f of
                       MORPHL_TYPE_FUNC ps r \<Rightarrow> do {
                         (body, func_body1, ctx4) \<leftarrow> infer func_body (type_context_set_return_type r ctx3);
                         give (set_children node (param_expr1 # func_body1 # others))
                           (finish_func f param func_body1 body ctx4)
                       }
                     | _ \<Rightarrow> None))
        }
      | _ \<Rightarrow> None)"

subsection \<open>Operators\<close>

definition infer_import :: "(ast \<Rightarrow> type_context \<Rightarrow> inferred) \<Rightarrow> ast \<Rightarrow> type_context \<Rightarrow> inferred" where
  "infer_import infer node ctx =
     (if length (n_children node) \<noteq> 1 then give node (fail_at node ''$import expects 1 arg'' ctx)
      else (case type_context_push_file None ctx of
              (False, ctx1) \<Rightarrow> Some (None, node, ctx1)
            | (True, ctx1) \<Rightarrow>
                (case type_context_push_global None ctx1 of
                   (False, ctx2) \<Rightarrow> Some (None, node, snd (type_context_pop_file ctx2))
                 | (True, ctx2) \<Rightarrow> do {
                     (t, module, ctx3) \<leftarrow> infer (hd (n_children node)) ctx2;
                     let ctx4 = snd (type_context_pop_file (snd (type_context_pop_global ctx3)));
                     give (set_children node [module])
                       (case map_option (cell (tc_types ctx4)) t of
                          Some (MORPHL_TYPE_BLOCK members) \<Rightarrow> Some (t, ctx4)
                        | _ \<Rightarrow> fail_at node ''$import: module must be a block'' ctx4)
                   })))"

definition infer_idtstr :: "ast \<Rightarrow> type_context \<Rightarrow> (tref \<times> type_context) option" where
  "infer_idtstr node ctx =
     (if length (n_children node) \<noteq> 1 then fail_at node ''$idtstr expects 1 arg'' ctx
      else if n_kind (hd (n_children node)) \<noteq> AST_IDENT then fail_at node ''$idtstr expects identifier'' ctx
      else make_type morphl_type_string ctx)"

definition quoted :: "str \<Rightarrow> bool" where
  "quoted s \<longleftrightarrow> str_len s \<ge> 2 \<and> hd (str_bytes s) = CHR 0x22 \<and> last (str_bytes s) = CHR 0x22"

definition infer_strtid :: "ast \<Rightarrow> type_context \<Rightarrow> (tref \<times> type_context) option" where
  "infer_strtid node ctx =
     (if length (n_children node) \<noteq> 1 then fail_at node ''$strtid expects 1 arg'' ctx
      else if n_kind (hd (n_children node)) \<noteq> AST_LITERAL \<or> \<not> quoted (n_value (hd (n_children node)))
      then fail_at node ''$strtid expects string literal'' ctx
      else make_type morphl_type_ident ctx)"

definition infer_member :: "nat \<Rightarrow> (ast \<Rightarrow> type_context \<Rightarrow> inferred) \<Rightarrow> ast \<Rightarrow> type_context \<Rightarrow> inferred" where
  "infer_member n infer node ctx =
     (if length (n_children node) \<noteq> 2 then give node (fail_at node ''$member expects 2 args'' ctx)
      else (let field_node = n_children node ! 1 in
            if n_kind field_node \<noteq> AST_IDENT
            then give node (fail_at node ''$member expects identifier field'' ctx)
            else do {
              (t, target, ctx1) \<leftarrow> infer (hd (n_children node)) ctx;
              let node1 = set_children node [target, field_node];
              if t = None then Some (None, node1, ctx1)
              else do {
                u \<leftarrow> unwrap_ref n (tc_types ctx1) t;
                give node1
                  (case map_option (cell (tc_types ctx1)) u of
                     Some (MORPHL_TYPE_BLOCK members) \<Rightarrow>
                       (case name_sym field_node ctx1 of
                          (sy, ctx2) \<Rightarrow>
                            (case map_of members sy of
                               Some v \<Rightarrow> Some (v, ctx2)
                             | None \<Rightarrow> fail_at node ''$member: field not found'' ctx2))
                   | _ \<Rightarrow> fail_at node ''$member: target must be block'' ctx1)
              }
            }))"

text \<open>The rule of \<open>$set\<close> for the types of its target and its value.\<close>

definition assign_types :: "nat \<Rightarrow> ast \<Rightarrow> nat \<Rightarrow> tref \<Rightarrow> type_context \<Rightarrow> (tref \<times> type_context) option" where
  "assign_types n node target_type value_type ctx =
     (case (case cell (tc_types ctx) target_type of
              MORPHL_TYPE_REF u m i \<Rightarrow> if m then Some u else None
            | _ \<Rightarrow> Some (Some target_type)) of
        None \<Rightarrow> fail_at node ''$set: target is not mutable'' ctx
      | Some target \<Rightarrow> do {
          eq \<leftarrow> morphl_type_equals n (tc_types ctx) target value_type;
          if \<not> eq then fail_at node ''$set: type mismatch in assignment'' ctx else Some (value_type, ctx)
        })"

definition infer_set :: "nat \<Rightarrow> (ast \<Rightarrow> type_context \<Rightarrow> inferred) \<Rightarrow> ast \<Rightarrow> type_context \<Rightarrow> inferred" where
  "infer_set n infer node ctx =
     (if length (n_children node) \<noteq> 2 then give node (fail_at node ''$set expects 2 args'' ctx)
      else do {
        (target_type, target, ctx1) \<leftarrow> infer (n_children node ! 0) ctx;
        (value_type, val, ctx2) \<leftarrow> infer (n_children node ! 1) ctx1;
        give (set_children node [target, val])
          (case target_type of
             None \<Rightarrow> Some (None, ctx2)
           | Some p \<Rightarrow> if value_type = None then Some (None, ctx2) else assign_types n node p value_type ctx2)
      })"

fun intern_all :: "string list \<Rightarrow> type_context \<Rightarrow> nat list \<times> type_context" where
  "intern_all [] ctx = ([], ctx)"
| "intern_all (name # names) ctx =
     (case intern_in (str_from name) ctx of
        (sy, ctx1) \<Rightarrow> (case intern_all names ctx1 of (sys, ctx2) \<Rightarrow> (sy # sys, ctx2)))"

definition infer_operator ::
    "operator_row list \<Rightarrow> nat \<Rightarrow> (ast \<Rightarrow> type_context \<Rightarrow> inferred) \<Rightarrow> ast \<Rightarrow> type_context \<Rightarrow> inferred" where
  "infer_operator ops n infer node ctx =
     (if n_op node = 0 then Some (None, node, ctx)
      else (case intern_all [''$idtstr'', ''$strtid'', ''$member'', ''$set'', ''$import''] ctx of
              (sys, ctx1) \<Rightarrow>
                if n_op node = sys ! 4 then infer_import infer node ctx1
                else if n_op node = sys ! 0 then give node (infer_idtstr node ctx1)
                else if n_op node = sys ! 1 then give node (infer_strtid node ctx1)
                else if n_op node = sys ! 2 then infer_member n infer node ctx1
                else if n_op node = sys ! 3 then infer_set n infer node ctx1
                else do {
                  (ts, cs, ctx2) \<leftarrow> infer_args infer (n_children node) ctx1;
                  (case ts of
                     None \<Rightarrow> Some (None, set_children node cs, ctx2)
                   | Some ts \<Rightarrow>
                       give (set_children node cs)
                         (morphl_infer_type_for_op ops n (set_children node cs) (n_op node) ts ctx2))
                }))"

subsection \<open>Identifiers and literals\<close>

definition infer_ident :: "ast \<Rightarrow> type_context \<Rightarrow> (tref \<times> type_context) option" where
  "infer_ident node ctx =
     (case name_sym node ctx of
        (sy, ctx1) \<Rightarrow>
          if sy = 0 then Some (None, ctx1)
          else if type_context_lookup_var ctx1 sy = None
          then fail_at node (''undefined variable '' @ [CHR 0x27] @
                 view_text (interns_lookup (tc_interns ctx1) sy) @ [CHR 0x27]) ctx1
          else Some (type_context_lookup_var ctx1 sy, ctx1))"

text \<open>By the look of the text: a dot makes a float.\<close>

definition infer_number_text :: "ast \<Rightarrow> type_context \<Rightarrow> (tref \<times> type_context) option" where
  "infer_number_text node ctx =
     (if CHR ''.'' \<in> set (str_bytes (n_value node)) then make_type morphl_type_float ctx
      else make_type morphl_type_int ctx)"

definition infer_literal :: "ast \<Rightarrow> type_context \<Rightarrow> (tref \<times> type_context) option" where
  "infer_literal node ctx =
     (if str_len (n_value node) = 0 then make_type morphl_type_void ctx
      else if quoted (n_value node) then make_type morphl_type_string ctx
      else if n_op node = 0 then infer_number_text node ctx
      else (case intern_all [LEXER_KIND_NUMBER, LEXER_KIND_FLOAT, LEXER_KIND_STRING] ctx of
              (sys, ctx1) \<Rightarrow>
                if n_op node = sys ! 2 then make_type morphl_type_string ctx1
                else if n_op node = sys ! 1 then make_type morphl_type_float ctx1
                else if n_op node = sys ! 0 then make_type morphl_type_int ctx1
                else infer_number_text node ctx1))"

subsection \<open>Overloads\<close>

text \<open>
  The candidates in order, up to the first whose arguments and operator have a type: its type and
  its node, and all candidates as inference left them.
\<close>

fun try_candidates ::
    "operator_row list \<Rightarrow> nat \<Rightarrow> (ast \<Rightarrow> type_context \<Rightarrow> inferred) \<Rightarrow> ast list \<Rightarrow> type_context \<Rightarrow>
     ((tref \<times> ast) option \<times> ast list \<times> type_context) option" where
  "try_candidates ops n infer [] ctx = Some (None, [], ctx)"
| "try_candidates ops n infer (c # cs) ctx =
     (if n_op c = 0 \<or> operator_info_lookup ops (n_op c) = None
      then do {
        (choice, cs1, ctx1) \<leftarrow> try_candidates ops n infer cs ctx;
        Some (choice, c # cs1, ctx1)
      }
      else do {
        (ts, ds, ctx1) \<leftarrow> infer_args infer (n_children c) ctx;
        let c1 = set_children c ds;
        (t, ctx2) \<leftarrow> (case ts of
            None \<Rightarrow> Some (None, ctx1)
          | Some ts \<Rightarrow> morphl_infer_type_for_op ops n c1 (n_op c) ts ctx1);
        if t \<noteq> None then Some (Some (t, c1), c1 # cs, ctx2)
        else do {
          (choice, cs1, ctx3) \<leftarrow> try_candidates ops n infer cs ctx2;
          Some (choice, c1 # cs1, ctx3)
        }
      })"

definition morphl_error_swallow :: "morphl_error \<Rightarrow> string list" where
  "morphl_error_swallow err = []"

definition set_sink :: "error_sink \<Rightarrow> type_context \<Rightarrow> type_context" where
  "set_sink sink ctx = ctx\<lparr>tc_diagnostics := morphl_error_set_global_sink sink (tc_diagnostics ctx)\<rparr>"

definition get_sink :: "type_context \<Rightarrow> error_sink" where
  "get_sink ctx = morphl_error_get_global_sink (tc_diagnostics ctx)"

definition infer_overload ::
    "operator_row list \<Rightarrow> nat \<Rightarrow> (ast \<Rightarrow> type_context \<Rightarrow> inferred) \<Rightarrow> ast \<Rightarrow> type_context \<Rightarrow> inferred" where
  "infer_overload ops n infer node ctx =
     (if n_children node = [] then give node (fail_at node ''overload has no candidates'' ctx)
      else do {
        (choice, cs, ctx1) \<leftarrow>
          try_candidates ops n infer (n_children node) (set_sink (Some morphl_error_swallow) ctx);
        let ctx2 = set_sink (get_sink ctx) ctx1;
        (case choice of
           None \<Rightarrow> give (set_children node cs) (fail_at node ''no overload matches'' ctx2)
         | Some (t, chosen) \<Rightarrow> Some (t, chosen, ctx2))
      })"

subsection \<open>The tree walk\<close>

lemma infer_args_cong [fundef_cong]:
  assumes "xs = ys" and "ctx = ctx'" and "\<And>x c. x \<in> set ys \<Longrightarrow> f x c = g x c"
  shows "infer_args f xs ctx = infer_args g ys ctx'"
proof -
  have "infer_args f ys ctx' = infer_args g ys ctx'" if "\<forall>x\<in>set ys. \<forall>c. f x c = g x c" for ctx'
    using that
  proof (induction ys arbitrary: ctx')
    case (Cons y ys)
    then have eqs: "f y ctx' = g y ctx'" "\<And>c. infer_args f ys c = infer_args g ys c" by simp_all
    show ?case unfolding infer_args.simps eqs ..
  qed simp
  then show ?thesis using assms by simp
qed

lemma child_size: "x \<in> set (n_children node) \<Longrightarrow> size x < size node"
  by (cases node) (fastforce dest: size_list_estimation' [of x _ "size x" size])

lemma infer_stmts_cong:
  assumes "\<And>x c. x \<in> set stmts \<Longrightarrow> f x c = g x c"
  shows "infer_stmts f p members stmts ctx = infer_stmts g p members stmts ctx"
  using assms
proof (induction stmts arbitrary: members ctx)
  case (Cons x stmts)
  then have eqs: "f x ctx = g x ctx" "\<And>ms c. infer_stmts f p ms stmts c = infer_stmts g p ms stmts c" by simp_all
  show ?case unfolding infer_stmts.simps eqs ..
qed simp

lemma try_candidates_cong:
  assumes "\<And>c x ctx. c \<in> set cs \<Longrightarrow> x \<in> set (n_children c) \<Longrightarrow> f x ctx = g x ctx"
  shows "try_candidates ops n f cs ctx = try_candidates ops n g cs ctx"
  using assms
proof (induction cs arbitrary: ctx)
  case (Cons c cs)
  have args: "infer_args f (n_children c) ctx = infer_args g (n_children c) ctx"
    by (rule infer_args_cong) (use Cons.prems in auto)
  have rest: "\<And>ctx. try_candidates ops n f cs ctx = try_candidates ops n g cs ctx"
    using Cons.prems by (intro Cons.IH) auto
  show ?case unfolding try_candidates.simps args rest ..
qed simp

text \<open>Every case looks only at nodes smaller than its own.\<close>

lemma first_child_size: "n_children node = c # cs \<Longrightarrow> size c < size node"
  by (simp add: child_size)

lemma second_child_size: "n_children node = c # d # cs \<Longrightarrow> size d < size node"
  by (simp add: child_size)

lemma nth_child_size: "i < length (n_children node) \<Longrightarrow> size (n_children node ! i) < size node"
  by (simp add: child_size)

lemma n_children_set_children [simp]: "n_children (set_children node cs) = cs"
  by (cases node) simp

lemma grandchild_size:
  assumes "i < length (n_children node)" and "x \<in> set (n_children (n_children node ! i))"
  shows "size x < size node"
  using child_size [OF assms(2)] nth_child_size [OF assms(1)] by simp

lemma infer_decl_cong [fundef_cong]:
  assumes "n = n'" and "node = node'" and "ctx = ctx'" and f: "\<And>x c. size x < size node' \<Longrightarrow> f x c = g x c"
  shows "infer_decl n f node ctx = infer_decl n' g node' ctx'"
proof (cases "length (n_children node') < 2")
  case False
  have plain: "infer_plain_decl n' f (set_children node' ((n_children node')[0 := c])) =
      infer_plain_decl n' g (set_children node' ((n_children node')[0 := c]))" for c
    using False nth_child_size [of 1 node'] by (auto simp: infer_plain_decl_def Let_def fun_eq_iff f)
  have fwd: "infer_forward_decl f (set_children node' ((n_children node')[0 := c])) =
      infer_forward_decl g (set_children node' ((n_children node')[0 := c]))" for c
  proof (intro ext)
    fix var ctx
    show "infer_forward_decl f (set_children node' ((n_children node')[0 := c])) var ctx =
      infer_forward_decl g (set_children node' ((n_children node')[0 := c])) var ctx"
      using False f [OF grandchild_size [of 1 node' "hd (n_children (n_children node' ! 1))"]]
      by (cases "n_children (n_children node' ! 1)") (auto simp: infer_forward_decl_def Let_def)
  qed
  show ?thesis unfolding infer_decl_def assms(1-3) Let_def plain fwd ..
qed (simp add: infer_decl_def assms(1-3))

lemma infer_group_cong [fundef_cong]:
  assumes "node = node'" and "ctx = ctx'" and f: "\<And>x c. size x < size node' \<Longrightarrow> f x c = g x c"
  shows "infer_group f node ctx = infer_group g node' ctx'"
proof -
  have "infer_args f (n_children node') ctx' = infer_args g (n_children node') ctx'"
    by (rule infer_args_cong) (simp_all add: f child_size)
  then show ?thesis by (simp add: infer_group_def assms(1,2))
qed

lemma infer_block_cong [fundef_cong]:
  assumes "node = node'" and "ctx = ctx'" and f: "\<And>x c. size x < size node' \<Longrightarrow> f x c = g x c"
  shows "infer_block f node ctx = infer_block g node' ctx'"
proof -
  have eq: "\<And>p ms c. infer_stmts f p ms (n_children node') c = infer_stmts g p ms (n_children node') c"
    by (rule infer_stmts_cong) (simp add: f child_size)
  show ?thesis unfolding infer_block_def assms(1,2) eq ..
qed

lemma infer_func_cong [fundef_cong]:
  assumes "node = node'" and "ctx = ctx'" and f: "\<And>x c. size x < size node' \<Longrightarrow> f x c = g x c"
  shows "infer_func f node ctx = infer_func g node' ctx'"
proof -
  consider "length (n_children node') < 2" | a b cs where "n_children node' = a # b # cs"
    by (cases "n_children node'" rule: list.exhaust; cases "tl (n_children node')") auto
  then show ?thesis
  proof cases
    case 1
    then show ?thesis by (auto simp: infer_func_def assms(1,2) split: list.splits)
  next
    case (2 a b cs)
    have eqs: "\<And>c. f a c = g a c" "\<And>c. f b c = g b c"
      using first_child_size [OF 2] second_child_size [OF 2] by (simp_all add: f)
    show ?thesis unfolding infer_func_def assms(1,2) 2 list.case eqs ..
  qed
qed

lemma infer_operator_cong [fundef_cong]:
  assumes "ops = ops'" and "n = n'" and "node = node'" and "ctx = ctx'"
    and f: "\<And>x c. size x < size node' \<Longrightarrow> f x c = g x c"
  shows "infer_operator ops n f node ctx = infer_operator ops' n' g node' ctx'"
proof -
  have args: "\<And>c. infer_args f (n_children node') c = infer_args g (n_children node') c"
    by (rule infer_args_cong) (simp_all add: f child_size)
  have import: "infer_import f node' = infer_import g node'"
  proof (cases "n_children node'")
    case (Cons c cs)
    have eq: "f (hd (c # cs)) = g (hd (c # cs))" using first_child_size [OF Cons] by (simp add: f fun_eq_iff)
    show ?thesis unfolding infer_import_def Cons eq ..
  qed (simp add: infer_import_def fun_eq_iff)
  have mem: "infer_member n' f node' = infer_member n' g node'"
  proof (cases "n_children node'")
    case (Cons c cs)
    have eq: "f (hd (c # cs)) = g (hd (c # cs))" using first_child_size [OF Cons] by (simp add: f fun_eq_iff)
    show ?thesis unfolding infer_member_def Cons eq ..
  qed (simp add: infer_member_def fun_eq_iff)
  have set: "infer_set n' f node' = infer_set n' g node'"
  proof (cases "length (n_children node') = 2")
    case True
    then have eq: "f (n_children node' ! 0) = g (n_children node' ! 0)" "f (n_children node' ! 1) = g (n_children node' ! 1)"
      using nth_child_size [of 0 node'] nth_child_size [of 1 node'] by (simp_all add: f fun_eq_iff)
    show ?thesis unfolding infer_set_def eq ..
  qed (simp add: infer_set_def fun_eq_iff)
  show ?thesis unfolding infer_operator_def assms(1-4) args import mem set ..
qed

lemma infer_overload_cong [fundef_cong]:
  assumes "ops = ops'" and "n = n'" and "node = node'" and "ctx = ctx'"
    and f: "\<And>x c. size x < size node' \<Longrightarrow> f x c = g x c"
  shows "infer_overload ops n f node ctx = infer_overload ops' n' g node' ctx'"
proof -
  have eq: "\<And>c. try_candidates ops' n' f (n_children node') c = try_candidates ops' n' g (n_children node') c"
  proof (rule try_candidates_cong)
    fix c x ctx assume "c \<in> set (n_children node')" "x \<in> set (n_children c)"
    then show "f x ctx = g x ctx" using child_size [of c node'] child_size [of x c] by (simp add: f)
  qed
  show ?thesis unfolding infer_overload_def assms(1-4) eq ..
qed

function morphl_infer_type_of_ast :: "operator_row list \<Rightarrow> nat \<Rightarrow> ast \<Rightarrow> type_context \<Rightarrow> inferred" where
  "morphl_infer_type_of_ast ops n node ctx =
     (case n_kind node of
        AST_PROP \<Rightarrow> infer_decl n (morphl_infer_type_of_ast ops n) node ctx
      | AST_DECL \<Rightarrow> infer_decl n (morphl_infer_type_of_ast ops n) node ctx
      | AST_GROUP \<Rightarrow> infer_group (morphl_infer_type_of_ast ops n) node ctx
      | AST_FILE \<Rightarrow> infer_block (morphl_infer_type_of_ast ops n) node ctx
      | AST_BLOCK \<Rightarrow> infer_block (morphl_infer_type_of_ast ops n) node ctx
      | AST_FUNC \<Rightarrow> infer_func (morphl_infer_type_of_ast ops n) node ctx
      | AST_BUILTIN \<Rightarrow> infer_operator ops n (morphl_infer_type_of_ast ops n) node ctx
      | AST_CALL \<Rightarrow> infer_operator ops n (morphl_infer_type_of_ast ops n) node ctx
      | AST_IF \<Rightarrow> infer_operator ops n (morphl_infer_type_of_ast ops n) node ctx
      | AST_SET \<Rightarrow> infer_operator ops n (morphl_infer_type_of_ast ops n) node ctx
      | AST_IDENT \<Rightarrow> give node (infer_ident node ctx)
      | AST_LITERAL \<Rightarrow> give node (infer_literal node ctx)
      | AST_OVERLOAD \<Rightarrow> infer_overload ops n (morphl_infer_type_of_ast ops n) node ctx
      | AST_UNKNOWN \<Rightarrow> give node (make_type morphl_type_void ctx))"
  by pat_completeness auto
termination
  by (relation "measure (\<lambda>(ops, n, node, ctx). size node)") auto

declare morphl_infer_type_of_ast.simps [simp del]

end
