(* ===== verification/Inference_Laws.thy ===== *)
theory Inference_Laws
  imports Inference
begin

text \<open>
  What type inference does to the context it runs in.  The locale \<open>inference_frame\<close> states what a
  relation between contexts needs to be kept by inference: it holds for each operation of the context
  inference uses, and survives entering and leaving a scope, block, function or module around
  something that keeps it.  The interpretations give the properties: contexts stay well formed,
  symbols keep their meaning, and every scope and stack that was entered is left again.
\<close>

section \<open>Growth of the arena\<close>

definition arena_grows :: "type_arena \<Rightarrow> type_arena \<Rightarrow> bool" where
  "arena_grows h h' \<longleftrightarrow>
     a_cap (ta_arena h') = a_cap (ta_arena h) \<and> a_off (ta_arena h) \<le> a_off (ta_arena h') \<and>
     (arena_ok h \<longrightarrow> arena_ok h') \<and> length (ta_cells h) \<le> length (ta_cells h')"

lemma arena_grows_refl [simp]: "arena_grows h h"
  by (simp add: arena_grows_def)

lemma arena_grows_trans: "arena_grows h h1 \<Longrightarrow> arena_grows h1 h2 \<Longrightarrow> arena_grows h h2"
  by (simp add: arena_grows_def)

lemma arena_alloc_grows: "arena_alloc h n = Some h' \<Longrightarrow> arena_grows h h'"
  by (auto simp: arena_alloc_Some arena_grows_def arena_ok_def)

lemma alloc_all_grows: "arena_grows h (snd (alloc_all ns h))"
  by (induction ns h rule: alloc_all.induct)
    (auto split: option.splits dest: arena_alloc_grows intro: arena_grows_trans)

lemma alloc_type_grows: "arena_grows h (snd (alloc_type sz al d h))"
  by (auto simp: alloc_type_def arena_grows_def arena_ok_def dest!: arena_alloc_grows split: option.splits)

lemma with_arrays_grows: "arena_grows (snd r) (snd (with_arrays ns r))"
  by (induction ns r rule: with_arrays.induct)
    (auto split: option.splits dest: arena_alloc_grows intro: arena_grows_trans)

lemma set_cell_grows [simp]: "arena_grows h (set_cell h p d)"
  by (simp add: set_cell_def arena_grows_def arena_ok_def)

text \<open>Every constructor of types only takes room.\<close>

definition grows :: "(type_arena \<Rightarrow> tref \<times> type_arena) \<Rightarrow> bool" where
  "grows mk \<longleftrightarrow> (\<forall>h. arena_grows h (snd (mk h)))"

lemma constructors_grow [simp, intro]:
  "grows morphl_type_unknown" "grows morphl_type_void" "grows morphl_type_int" "grows morphl_type_float"
  "grows morphl_type_string" "grows morphl_type_ident" "grows morphl_type_bool"
  "grows (morphl_type_func p r)" "grows (morphl_type_ref t m i)" "grows (morphl_type_group ts)"
  "grows (morphl_type_block ms)"
proof -
  have arrays: "arena_grows h (snd (with_arrays ns (alloc_type sz al d h)))" for ns sz al d h
    using with_arrays_grows [of "alloc_type sz al d h" ns] alloc_type_grows arena_grows_trans by blast
  show "grows morphl_type_unknown" "grows morphl_type_void" "grows morphl_type_int" "grows morphl_type_float"
    "grows morphl_type_string" "grows morphl_type_ident" "grows morphl_type_bool"
    by (simp_all add: grows_def morphl_type_unknown_def morphl_type_void_def morphl_type_int_def
        morphl_type_float_def morphl_type_string_def morphl_type_ident_def morphl_type_bool_def alloc_type_grows)
  show "grows (morphl_type_func p r)" "grows (morphl_type_ref t m i)" "grows (morphl_type_group ts)"
    "grows (morphl_type_block ms)"
    by (auto simp: grows_def morphl_type_func_def morphl_type_ref_def morphl_type_group_def
        morphl_type_block_def alloc_type_grows arrays simp del: with_arrays.simps split: option.splits)
qed

section \<open>The frame of inference\<close>

text \<open>Inference keeps \<open>R\<close> on the trees in \<open>S\<close>.\<close>

definition keeps_on ::
    "(type_context \<Rightarrow> type_context \<Rightarrow> bool) \<Rightarrow> (ast \<Rightarrow> type_context \<Rightarrow> inferred) \<Rightarrow> ast set \<Rightarrow> bool" where
  "keeps_on R infer S \<longleftrightarrow> (\<forall>x\<in>S. \<forall>c t x' c'. infer x c = Some (t, x', c') \<longrightarrow> R c c')"

lemma keeps_onD: "keeps_on R infer S \<Longrightarrow> infer x c = Some (t, x', c') \<Longrightarrow> x \<in> S \<Longrightarrow> R c c'"
  by (auto simp: keeps_on_def)

lemma keeps_on_subset: "keeps_on R infer S \<Longrightarrow> T \<subseteq> S \<Longrightarrow> keeps_on R infer T"
  by (auto simp: keeps_on_def)

lemma give_Some: "give node r = Some (t, node', c) \<longleftrightarrow> r = Some (t, c) \<and> node' = node"
  by (auto simp: give_def)

text \<open>The trees below a node.\<close>

definition below :: "ast \<Rightarrow> ast set" where
  "below node = {x. size x < size node}"

lemma below_child: "x \<in> set (n_children node) \<Longrightarrow> x \<in> below node"
  by (simp add: below_def child_size)

lemma below_nth: "i < length (n_children node) \<Longrightarrow> n_children node ! i \<in> below node"
  by (simp add: below_child)

lemma below_trans: "x \<in> below y \<Longrightarrow> y \<in> below node \<Longrightarrow> x \<in> below node"
  by (simp add: below_def)

locale inference_frame =
  fixes R :: "type_context \<Rightarrow> type_context \<Rightarrow> bool"
  assumes refl [simp, intro]: "R c c"
    and trans: "R a b \<Longrightarrow> R b c \<Longrightarrow> R a c"
    and types: "arena_grows (tc_types c) h \<Longrightarrow> R c (c\<lparr>tc_types := h\<rparr>)"
    and emits: "R c (emit e c)"
    and interns: "R c (snd (intern_in s c))"
    and define_var: "R c (snd (type_context_define_var v t c))"
    and update_var: "R c (snd (type_context_update_var v t c))"
    and define_func: "R c (snd (type_context_define_func v t c))"
    and update_func: "R c (snd (type_context_update_func v t c))"
    and define_forward: "R c (snd (type_context_define_forward v t c))"
    and forward_body: "type_context_define_forward_body n v t c = Some (done_flag, c') \<Longrightarrow> R c c'"
    and set_return: "R c (type_context_set_return_type t c)"
    and set_pending: "R c (type_context_set_pending_func t c)"
    and opened: "R c (open_block (Some p) c)"
    and push_failed: "\<not> fst (type_context_push_scope c) \<Longrightarrow> R c (snd (type_context_push_scope c))"
    and in_scope: "R (snd (type_context_push_scope c)) c' \<Longrightarrow> R c (snd (type_context_pop_scope c'))"
    and in_block: "fst (type_context_push_this (Some p) c) \<Longrightarrow> R (snd (type_context_push_this (Some p) c)) c' \<Longrightarrow>
          R c (snd (type_context_pop_this c'))"
    and in_func: "fst (type_context_push_func t c) \<Longrightarrow> R (snd (type_context_push_func t c)) c' \<Longrightarrow>
          R c (snd (type_context_pop_func c'))"
    and in_file: "fst (type_context_push_file None c) \<Longrightarrow> R (snd (type_context_push_file None c)) c' \<Longrightarrow>
          R c (snd (type_context_pop_file c'))"
    and in_global: "fst (type_context_push_global None c) \<Longrightarrow> R (snd (type_context_push_global None c)) c' \<Longrightarrow>
          R c (snd (type_context_pop_global c'))"
    and silenced: "R (set_sink (Some morphl_error_swallow) c) c' \<Longrightarrow> R c (set_sink (get_sink c) c')"
begin

lemma error_kept: "R c (error_at node msg c)"
  by (simp add: error_at_def emits)

lemma warn_kept: "R c (warn_at node code msg c)"
  by (simp add: warn_at_def emits)

lemma intern_kept: "intern_in s c = (sy, c') \<Longrightarrow> R c c'"
  using interns [of c s] by simp

lemma op_is_any_kept: "op_is_any op names c = (b, c') \<Longrightarrow> R c c'"
  by (induction op names c rule: op_is_any.induct)
    (auto split: prod.splits if_splits dest!: intern_kept intro: trans)

lemma intern_all_kept: "intern_all names c = (sys, c') \<Longrightarrow> R c c'"
  by (induction names c arbitrary: sys rule: intern_all.induct)
    (auto split: prod.splits dest!: intern_kept intro: trans)

lemma with_types_kept: "with_types mk c = (t, c') \<Longrightarrow> grows mk \<Longrightarrow> R c c'"
  by (auto simp: with_types_def grows_def split: prod.splits intro!: types) (metis snd_conv)

lemma make_type_kept: "make_type mk c = Some (t, c') \<Longrightarrow> grows mk \<Longrightarrow> R c c'"
  by (simp add: make_type_def with_types_kept)

lemma fail_kept: "fail_at node msg c = Some (t, c') \<Longrightarrow> R c c'"
  by (auto simp: fail_at_def error_kept)

lemma set_type_kept: "R c (set_type p d c)"
  by (simp add: set_type_def types)

lemma name_sym_kept: "name_sym node c = (sy, c') \<Longrightarrow> R c c'"
  by (auto simp: name_sym_def split: if_splits dest: intern_kept)

lemma set_func_return_kept: "R c (set_func_return f t c)"
  by (simp add: set_func_return_def set_type_kept split: option.split type_data.split)

text \<open>Inference for an operator.\<close>

lemma simple_rules_kept:
  "infer_ref_op node op op_name args c = Some (t, c') \<Longrightarrow> R c c'"
  "infer_special node get msg c = Some (t, c') \<Longrightarrow> R c c'"
  "infer_forward_op node args c = Some (t, c') \<Longrightarrow> R c c'"
  "infer_func_op node args c = Some (t, c') \<Longrightarrow> R c c'"
  "infer_untyped node op_name c = Some (t, c') \<Longrightarrow> R c c'"
  by (auto simp: infer_ref_op_def infer_special_def infer_forward_op_def infer_func_op_def infer_untyped_def
      split: if_splits prod.splits
      dest!: fail_kept make_type_kept intern_kept intro: trans warn_kept)

lemma binary_rules_kept:
  "infer_comparison n node op_name args c = Some (t, c') \<Longrightarrow> R c c'"
  "infer_logic n node op_name args c = Some (t, c') \<Longrightarrow> R c c'"
  by (auto simp: infer_comparison_def infer_logic_def bind_eq_Some_conv
      split: if_splits dest!: fail_kept make_type_kept)

lemma call_kept: "infer_call n node args c = Some (t, c') \<Longrightarrow> R c c'"
proof -
  have "R c c'" if "(case map_option (cell (tc_types c)) f of
      Some (MORPHL_TYPE_FUNC ps r) \<Rightarrow> Some (r, c) | _ \<Rightarrow> fail_at node msg c) = Some (t, c')" for f msg
    using that by (cases "map_option (cell (tc_types c)) f" rule: option.exhaust;
        cases "the (map_option (cell (tc_types c)) f)"; simp; auto dest: fail_kept)
  then show "infer_call n node args c = Some (t, c') \<Longrightarrow> R c c'"
    by (auto simp: infer_call_def bind_eq_Some_conv split: if_splits dest: fail_kept)
qed

lemma branches_kept: "infer_branches n node branches c = Some (t, c') \<Longrightarrow> R c c'"
  unfolding infer_branches_def
  by (cases "map_option (cell (tc_types c)) branches" rule: option.exhaust;
      cases "the (map_option (cell (tc_types c)) branches)";
      simp split: if_splits; auto simp: bind_eq_Some_conv split: if_splits dest: fail_kept)

lemma if_kept: "infer_if n node args c = Some (t, c') \<Longrightarrow> R c c'"
  by (auto simp: infer_if_def bind_eq_Some_conv split: if_splits dest: fail_kept branches_kept)

lemma ret_kept: "infer_ret n node args c = Some (t, c') \<Longrightarrow> R c c'"
  by (auto simp: infer_ret_def bind_eq_Some_conv split: if_splits dest!: fail_kept make_type_kept
      intro: trans [OF trans [OF set_return set_func_return_kept]])

lemma kind_rules_kept:
  "grows mk \<Longrightarrow> infer_unary n node name want kind_text mk args c = Some (t, c') \<Longrightarrow> R c c'"
  "grows mk \<Longrightarrow> infer_binary n node label op_name want kind_text mk args c = Some (t, c') \<Longrightarrow> R c c'"
  by (auto simp: infer_unary_def infer_binary_def bind_eq_Some_conv split: if_splits dest!: fail_kept make_type_kept)

lemma dispatch_kept:
  assumes "dispatch_op op rules otherwise c = Some (t, c')"
    and "\<forall>rule\<in>set (map snd rules). \<forall>c t c'. rule c = Some (t, c') \<longrightarrow> R c c'"
    and "\<forall>c t c'. otherwise c = Some (t, c') \<longrightarrow> R c c'"
  shows "R c c'"
  using assms(1,2)
proof (induction rules arbitrary: c)
  case (Cons r rules)
  obtain names rule where r: "r = (names, rule)" by (rule prod.exhaust)
  obtain b c1 where b: "op_is_any op names c = (b, c1)" by (rule prod.exhaust)
  have "R c1 c'" using Cons r b by (cases b) auto
  then show ?case by (rule trans [OF op_is_any_kept [OF b]])
qed (use assms(3) in simp)

lemma op_rules_kept:
  "\<forall>rule\<in>set (map snd (op_rules n node op op_name args)). \<forall>c t c'. rule c = Some (t, c') \<longrightarrow> R c c'"
  unfolding op_rules_def list.map snd_conv list.set ball_simps
  by (intro conjI allI impI;
      (rule TrueI | erule simple_rules_kept binary_rules_kept ret_kept call_kept if_kept
        kind_rules_kept [rotated] make_type_kept; (rule constructors_grow)?))

lemma infer_for_op_kept:
  assumes "morphl_infer_type_for_op ops n node op args c = Some (t, c')"
  shows "R c c'"
proof -
  let ?name = "op_name_str op (tc_interns c)"
  have "\<forall>c t c'. infer_untyped node ?name c = Some (t, c') \<longrightarrow> R c c'"
    using simple_rules_kept(5) by blast
  note d = dispatch_kept [OF _ op_rules_kept this]
  show ?thesis
    using assms unfolding morphl_infer_type_for_op_def Let_def
    by (auto split: if_splits option.splits dest: fail_kept d simp del: dispatch_op.simps)
qed

end

text \<open>Inference for a syntax tree.\<close>

context inference_frame
begin

lemma args_kept:
  "infer_args f xs c = Some (ts, xs', c') \<Longrightarrow> keeps_on R f (set xs) \<Longrightarrow> R c c'"
proof (induction xs arbitrary: c ts xs')
  case (Cons x xs)
  obtain t x' c1 where x: "f x c = Some (t, x', c1)" using Cons.prems(1) by (auto simp: bind_eq_Some_conv)
  then have "R c c1" using keeps_onD [OF Cons.prems(2)] by simp
  moreover have "keeps_on R f (set xs)" using Cons.prems(2) by (rule keeps_on_subset) auto
  ultimately show ?case
    using Cons.prems(1) x Cons.IH by (auto simp: bind_eq_Some_conv split: if_splits intro: trans)
qed simp

lemma prop_name_kept: "infer_prop_name name c = (r, c') \<Longrightarrow> R c c'"
proof -
  have "arena_grows h (h\<lparr>ta_arena := a\<rparr>)" if "str_concat (ta_arena h) s u = (full, a)" for h :: type_arena and s u full a
    using that by (auto simp: str_concat_def arena_push_Some arena_grows_def arena_ok_def split: option.splits)
  then have room: "R c c1"
    if "str_concat (ta_arena (tc_types c)) s u = (full, a)"
      "intern_in full (c\<lparr>tc_types := (tc_types c)\<lparr>ta_arena := a\<rparr>\<rparr>) = (sy, c1)" for s u full a sy c1
    using trans [OF types intern_kept [OF that(2)]] that(1) by blast
  show "infer_prop_name name c = (r, c') \<Longrightarrow> R c c'"
    unfolding infer_prop_name_def by (auto split: if_splits option.splits prod.splits dest: room)
qed

lemma snd_kept:
  "type_context_define_forward v t c = (b, c') \<Longrightarrow> R c c'"
  using define_forward [of c v t] by simp

lemma forward_decl_kept:
  assumes "infer_forward_decl f node v c = Some (t, node', c')"
    and "keeps_on R f (set (n_children (n_children node ! 1)))"
  shows "R c c'"
proof (cases "length (n_children (n_children node ! 1)) = 1")
  case True
  then have x: "hd (n_children (n_children node ! 1)) \<in> set (n_children (n_children node ! 1))"
    by (intro hd_in_set) auto
  obtain u stub c1 where s: "f (hd (n_children (n_children node ! 1))) c = Some (u, stub, c1)"
    using assms(1) True by (auto simp: infer_forward_decl_def Let_def bind_eq_Some_conv)
  have "R c c1" using keeps_onD [OF assms(2) s x] .
  moreover have "R c1 c'"
    using assms(1) True s
    by (auto simp: infer_forward_decl_def Let_def give_Some split: if_splits prod.splits bool.splits
        dest!: fail_kept snd_kept intro: trans [OF trans [OF _ define_var] define_func] trans)
  ultimately show ?thesis by (rule trans)
qed (use assms(1) in \<open>auto simp: infer_forward_decl_def Let_def give_Some dest: fail_kept\<close>)

lemma placeholder_kept: "R c (declare_placeholder v c)"
  by (auto simp: declare_placeholder_def Let_def split: prod.splits dest!: with_types_kept
      intro: trans [OF trans [OF trans [OF _ define_func] define_var] set_pending] trans)

lemma implicit_mut_kept: "R c (warn_implicit_mut name init v t c)"
proof -
  obtain b c1 where o: "(if n_kind init = AST_BUILTIN then op_is_any (n_op init) [''$mut'', ''$inline''] c
      else (False, c)) = (b, c1)" by (rule prod.exhaust)
  then have 1: "R c c1" by (auto split: if_splits dest: op_is_any_kept simp del: op_is_any.simps)
  show ?thesis
    unfolding warn_implicit_mut_def o using 1 trans [OF 1 warn_kept]
    by (auto split: option.split type_data.split bool.split)
qed

lemma finish_decl_kept: "finish_decl n placeholder node v t c = Some (u, c') \<Longrightarrow> R c c'"
  by (auto simp: finish_decl_def Let_def bind_eq_Some_conv split: option.splits if_splits
      dest!: fail_kept forward_body intro: trans [OF update_var update_func] trans [OF implicit_mut_kept define_var] trans)

lemma plain_decl_kept:
  assumes "infer_plain_decl n f node v c = Some (t, node', c')" and "keeps_on R f {n_children node ! 1}"
  shows "R c c'"
proof -
  let ?p = "needs_placeholder (n_children node ! 1) c"
  obtain u init c1 where i: "f (n_children node ! 1) (if ?p then declare_placeholder v c else c) = Some (u, init, c1)"
    using assms(1) by (auto simp: infer_plain_decl_def Let_def bind_eq_Some_conv split: if_splits)
  have "R (if ?p then declare_placeholder v c else c) c1"
    using keeps_onD [OF assms(2) i] by simp
  then have "R c c1" using trans [OF placeholder_kept] by (cases ?p) simp_all
  moreover have "R c1 (if ?p then type_context_set_pending_func None c1 else c1)" by (simp add: set_pending)
  moreover have "R (if ?p then type_context_set_pending_func None c1 else c1) c'"
    using assms(1) i by (auto simp: infer_plain_decl_def Let_def give_Some split: if_splits
        dest: fail_kept finish_decl_kept)
  ultimately show ?thesis by (blast intro: trans)
qed

lemma decl_kept:
  assumes "infer_decl n f node c = Some (t, node', c')" and "keeps_on R f (below node)"
  shows "R c c'"
proof (cases "length (n_children node) < 2")
  case False
  obtain r c1 where r: "(if n_kind node = AST_PROP then infer_prop_name (hd (n_children node)) c
      else (Some (hd (n_children node)), c)) = (r, c1)" by (rule prod.exhaust)
  have 1: "R c c1" using r by (auto split: if_splits dest: prop_name_kept)
  show ?thesis
  proof (cases r)
    case (Some name)
    let ?node = "set_children node ((n_children node)[0 := name])"
    have sub: "keeps_on R f {n_children ?node ! 1}" "keeps_on R f (set (n_children (n_children ?node ! 1)))"
      using False below_nth [of 1 node] below_trans [OF below_child below_nth [of 1 node]]
      by (auto intro: keeps_on_subset [OF assms(2)])
    have "infer_plain_decl n f ?node v c2 = Some (t, node', c') \<Longrightarrow> R c2 c'"
      "infer_forward_decl f ?node v c2 = Some (t, node', c') \<Longrightarrow> R c2 c'" for v c2
      using plain_decl_kept sub(1) forward_decl_kept sub(2) by blast+
    then have "R c1 c'"
      using assms(1) False r Some
      by (auto simp: infer_decl_def Let_def split: if_splits prod.splits dest!: name_sym_kept intern_kept intro: trans)
    with 1 show ?thesis by (rule trans)
  qed (use assms(1) False r 1 in \<open>simp add: infer_decl_def\<close>)
qed (use assms(1) in \<open>simp add: infer_decl_def\<close>)

lemma group_kept:
  assumes "infer_group f node c = Some (t, node', c')" and "keeps_on R f (below node)"
  shows "R c c'"
proof -
  have sub: "keeps_on R f (set (n_children node))"
    by (rule keeps_on_subset [OF assms(2)]) (auto intro: below_child)
  obtain ts cs c1 where a: "infer_args f (n_children node) c = Some (ts, cs, c1)"
    using assms(1) by (auto simp: infer_group_def bind_eq_Some_conv)
  have "R c1 c'" using assms(1) a by (cases ts) (auto simp: infer_group_def give_Some dest: make_type_kept)
  then show ?thesis by (rule trans [OF args_kept [OF a sub]])
qed

lemma add_member_kept:
  assumes "add_member p ms stmt t c = (r, stmt', c')"
  shows "R c c'"
proof -
  obtain sy c1 where n: "name_sym (hd (n_children stmt)) c = (sy, c1)" by (rule prod.exhaust)
  let ?ns = "[length (ms @ [(sy, t)]) * SIZEOF_SYM, length (ms @ [(sy, t)]) * SIZEOF_POINTER]"
  obtain b h where h: "alloc_all ?ns (tc_types c1) = (b, h)" by (rule prod.exhaust)
  have 2: "R c1 (c1\<lparr>tc_types := h\<rparr>)" using alloc_all_grows [of "tc_types c1" ?ns] h by (intro types) simp
  then have "R c1 c'"
    using assms n h trans [OF 2 set_type_kept]
    by (cases b) (auto simp: add_member_def Let_def simp del: alloc_all.simps split: if_splits)
  then show ?thesis by (rule trans [OF name_sym_kept [OF n]])
qed

lemma stmts_kept:
  "infer_stmts f p ms xs c = Some (ok, xs', c') \<Longrightarrow> keeps_on R f (set xs) \<Longrightarrow> R c c'"
proof (induction xs arbitrary: ms c ok xs')
  case (Cons x xs)
  obtain t x1 c1 where x: "f x c = Some (t, x1, c1)" using Cons.prems(1) by (auto simp: bind_eq_Some_conv)
  have 1: "R c c1" using keeps_onD [OF Cons.prems(2) x] by simp
  have sub: "keeps_on R f (set xs)" using Cons.prems(2) by (rule keeps_on_subset) auto
  obtain r x2 c2 where a: "(if is_member x1 then add_member p ms x1 t c1 else (Some ms, x1, c1)) = (r, x2, c2)"
    by (rule prod_cases3)
  have 2: "R c1 c2" using a by (auto split: if_splits dest: add_member_kept)
  show ?case
  proof (cases "t = None")
    case False
    then have "R c2 c'"
      using Cons.prems(1) x a sub by (cases r) (auto simp: bind_eq_Some_conv intro: Cons.IH)
    then show ?thesis using trans [OF 1 trans [OF 2]] by blast
  qed (use Cons.prems(1) x 1 in simp)
qed simp

lemma block_kept:
  assumes "infer_block f node c = Some (t, node', c')" and "keeps_on R f (below node)"
  shows "R c c'"
proof (cases "type_context_push_scope c")
  case (Pair b c1)
  show ?thesis
  proof (cases b)
    case True
    obtain u c2 where u: "with_types (morphl_type_block []) c1 = (u, c2)" by (rule prod.exhaust)
    have 2: "R c1 c2" by (rule with_types_kept [OF u]) auto
    have out: "R c1 c3 \<Longrightarrow> R c (snd (type_context_pop_scope c3))" for c3
      using in_scope [of c c3] Pair by simp
    show ?thesis
    proof (cases u)
      case (Some p)
      obtain d c3 where d: "type_context_push_this (Some p) c2 = (d, c3)" by (rule prod.exhaust)
      show ?thesis
      proof (cases d)
        case True
        then obtain ok stmts c4 where
          s: "infer_stmts f p [] (n_children node) (open_block (Some p) c3) = Some (ok, stmts, c4)" and
          c': "c' = snd (type_context_pop_scope (snd (type_context_pop_this c4)))"
          using assms(1) Pair \<open>b\<close> u Some d by (auto simp: infer_block_def bind_eq_Some_conv)
        have "R (open_block (Some p) c3) c4"
          by (rule stmts_kept [OF s keeps_on_subset [OF assms(2)]]) (auto intro: below_child)
        then have "R c3 c4" by (rule trans [OF opened])
        then have "R c2 (snd (type_context_pop_this c4))" using in_block [of p c2 c4] d True by simp
        then show ?thesis unfolding c' by (intro out trans [OF 2])
      next
        case False
        then have "c3 = c2" using d by (auto simp: type_context_push_this_def split: option.splits)
        then show ?thesis using assms(1) Pair \<open>b\<close> u Some d False out [OF 2] by (simp add: infer_block_def)
      qed
    qed (use assms(1) Pair True u out [OF 2] in \<open>simp add: infer_block_def\<close>)
  next
    case False
    then show ?thesis using assms(1) Pair push_failed [of c] by (simp add: infer_block_def)
  qed
qed

lemma current_func_kept: "current_func_type param c = (f, c') \<Longrightarrow> R c c'"
proof -
  have take: "R c (snd (type_context_take_pending_func c))"
    using set_pending [of c None] by (simp add: type_context_take_pending_func_def type_context_set_pending_func_def)
  then have "type_context_take_pending_func c = (x, c1) \<Longrightarrow> R c c1" for x c1 by simp
  then show "current_func_type param c = (f, c') \<Longrightarrow> R c c'"
    by (auto simp: current_func_type_def split: prod.splits option.splits type_data.splits list.splits
        dest!: with_types_kept intro: trans set_type_kept)
qed

lemma func_failed_kept:
  assumes "fst (type_context_push_func g c2)" and "R (snd (type_context_push_scope c)) c2"
    and "R (snd (type_context_push_func g c2)) c4" and "func_failed node msg c4 = Some (t, c')"
  shows "R c c'"
proof -
  have "R (snd (type_context_push_scope c)) (snd (type_context_pop_func c4))"
    using trans [OF assms(2) in_func [OF assms(1,3)]] .
  then have "R c (type_context_set_return_type None (snd (type_context_pop_scope (snd (type_context_pop_func c4)))))"
    using trans [OF in_scope set_return] by blast
  then show ?thesis using assms(4) by (auto simp: func_failed_def dest: fail_kept intro: trans)
qed

lemma finish_func_kept:
  assumes "fst (type_context_push_func g c2)" and "R (snd (type_context_push_scope c)) c2"
    and "R (snd (type_context_push_func g c2)) c4"
    and "finish_func f param func_body body c4 = Some (t, c')"
  shows "R c c'"
proof -
  have "R (snd (type_context_push_func g c2)) (set_type f d c4)" for d
    using trans [OF assms(3) set_type_kept] .
  then have "R (snd (type_context_push_scope c)) (snd (type_context_pop_func (set_type f d c4)))" for d
    using trans [OF assms(2) in_func [OF assms(1)]] by blast
  then have "R c (type_context_set_return_type None
      (snd (type_context_pop_scope (snd (type_context_pop_func (set_type f d c4))))))" for d
    using trans [OF in_scope set_return] by blast
  then have made: "make_type (morphl_type_func u v) (type_context_set_return_type None
      (snd (type_context_pop_scope (snd (type_context_pop_func (set_type f d c4)))))) = Some (t, c') \<Longrightarrow> R c c'" for d u v
    using trans [OF _ make_type_kept] by blast
  show ?thesis
    using assms(4) func_failed_kept [OF assms(1-3)] made
    unfolding finish_func_def Let_def by (auto split: if_splits type_data.splits)
qed

lemma func_kept:
  assumes "infer_func f node c = Some (t, node', c')" and "keeps_on R f (below node)"
  shows "R c c'"
proof -
  obtain x y zs where xy: "n_children node = x # y # zs"
    using assms(1) by (auto simp: infer_func_def split: list.splits)
  have sub: "x \<in> below node" "y \<in> below node" using below_child [of _ node] xy by auto
  obtain param x1 c1 where x: "f x (snd (type_context_push_scope c)) = Some (param, x1, c1)"
    using assms(1) xy by (auto simp: infer_func_def bind_eq_Some_conv)
  note 1 = keeps_onD [OF assms(2) x sub(1)]
  show ?thesis
  proof (cases "param = None")
    case False
    obtain g c2 where g: "current_func_type param c1 = (g, c2)" by (rule prod.exhaust)
    have 2: "R (snd (type_context_push_scope c)) c2" by (rule trans [OF 1 current_func_kept [OF g]])
    show ?thesis
    proof (cases "g \<noteq> None \<and> fst (type_context_push_func g c2)")
      case True
      then obtain h c3 where h: "g = Some h" "type_context_push_func g c2 = (True, c3)"
        by (cases "type_context_push_func g c2") auto
      obtain ps r body y1 c4 where b: "cell (tc_types c3) h = MORPHL_TYPE_FUNC ps r"
        "f y (type_context_set_return_type r c3) = Some (body, y1, c4)"
        "finish_func h param y1 body c4 = Some (t, c')"
        using assms(1) xy x False g h
        by (auto simp: infer_func_def bind_eq_Some_conv give_Some split: type_data.splits)
      have "R c3 c4" by (rule trans [OF set_return keeps_onD [OF assms(2) b(2) sub(2)]])
      then show ?thesis using finish_func_kept [of g c2 c c4] h(2) 2 b(3) by simp
    next
      case False
      then have "snd (type_context_push_func g c2) = c2 \<or> g = None"
        by (auto simp: type_context_push_func_def split: option.splits)
      then have "fail_at node ''$func: cannot establish function context'' (snd (type_context_pop_scope c2)) = Some (t, c')"
        using assms(1) xy x \<open>param \<noteq> None\<close> g False
        by (cases "type_context_push_func g c2") (auto simp: infer_func_def give_Some split: option.splits)
      then show ?thesis using trans [OF in_scope [OF 2] fail_kept] by blast
    qed
  next
    case True
    then show ?thesis using assms(1) xy x trans [OF in_scope [OF 1] fail_kept]
      by (auto simp: infer_func_def give_Some)
  qed
qed

lemma import_kept:
  assumes "infer_import f node c = Some (t, node', c')" and "keeps_on R f (below node)"
  shows "R c c'"
proof (cases "length (n_children node) = 1")
  case True
  then have sub: "hd (n_children node) \<in> below node" by (intro below_child hd_in_set) auto
  obtain b1 c1 where p1: "type_context_push_file None c = (b1, c1)" by (rule prod.exhaust)
  obtain b2 c2 where p2: "type_context_push_global None c1 = (b2, c2)" by (rule prod.exhaust)
  have stay: "\<not> b1 \<Longrightarrow> c1 = c" "\<not> b2 \<Longrightarrow> c2 = c1"
    using p1 p2 by (auto simp: type_context_push_file_def type_context_push_global_def split: option.splits)
  have out: "R c1 c3 \<Longrightarrow> R c (snd (type_context_pop_file c3))" if b1 for c3
    using in_file [of c c3] p1 that by simp
  show ?thesis
  proof (cases "b1 \<and> b2")
    case True
    then obtain u m c3 where m: "f (hd (n_children node)) c2 = Some (u, m, c3)"
      using assms(1) \<open>length (n_children node) = 1\<close> p1 p2 by (auto simp: infer_import_def bind_eq_Some_conv)
    have "R c1 (snd (type_context_pop_global c3))"
      using in_global [of c1 c3] p2 True keeps_onD [OF assms(2) m sub] by simp
    then have 3: "R c (snd (type_context_pop_file (snd (type_context_pop_global c3))))" using True by (intro out) simp_all
    have "(case map_option (cell (tc_types c4)) u of Some (MORPHL_TYPE_BLOCK ms) \<Rightarrow> Some (u, c4)
      | _ \<Rightarrow> fail_at node msg c4) = Some (t, c') \<Longrightarrow> R c4 c'" for c4 msg
      by (cases "map_option (cell (tc_types c4)) u" rule: option.exhaust;
          cases "the (map_option (cell (tc_types c4)) u)"; simp; auto dest: fail_kept)
    then show ?thesis
      using assms(1) \<open>length (n_children node) = 1\<close> p1 p2 True m trans [OF 3]
      by (auto simp: infer_import_def give_Some Let_def)
  next
    case False
    then show ?thesis using assms(1) True p1 p2 stay out [of c2] by (cases b1; cases b2) (simp_all add: infer_import_def)
  qed
qed (use assms(1) in \<open>auto simp: infer_import_def give_Some dest: fail_kept\<close>)

lemma leaf_rules_kept:
  "infer_idtstr node c = Some (t, c') \<Longrightarrow> R c c'"
  "infer_strtid node c = Some (t, c') \<Longrightarrow> R c c'"
  "infer_ident node c = Some (t, c') \<Longrightarrow> R c c'"
  "infer_number_text node c = Some (t, c') \<Longrightarrow> R c c'"
  by (auto simp: infer_idtstr_def infer_strtid_def infer_ident_def infer_number_text_def
      split: if_splits prod.splits dest!: fail_kept make_type_kept name_sym_kept intro: trans)

lemma literal_kept: "infer_literal node c = Some (t, c') \<Longrightarrow> R c c'"
  by (auto simp: infer_literal_def simp del: intern_all.simps split: if_splits prod.splits
      dest!: leaf_rules_kept(4) make_type_kept intern_all_kept intro: trans)

lemma member_kept:
  assumes "infer_member n f node c = Some (t, node', c')" and "keeps_on R f (below node)"
  shows "R c c'"
proof (cases "length (n_children node) = 2 \<and> n_kind (n_children node ! 1) = AST_IDENT")
  case True
  have sub: "hd (n_children node) \<in> below node" using True by (intro below_child hd_in_set) auto
  obtain u x c1 where x: "f (hd (n_children node)) c = Some (u, x, c1)"
    using assms(1) True by (auto simp: infer_member_def Let_def bind_eq_Some_conv)
  note 1 = keeps_onD [OF assms(2) x sub]
  have field: "(case map_of ms sy of Some v \<Rightarrow> Some (v, c2) | None \<Rightarrow> fail_at node msg c2) = Some (t, c') \<Longrightarrow>
      R c2 c'" for ms sy c2 msg
    by (auto split: option.splits dest: fail_kept)
  have "(case d of Some (MORPHL_TYPE_BLOCK ms) \<Rightarrow>
        (case name_sym field c1 of (sy, c2) \<Rightarrow>
           (case map_of ms sy of Some v \<Rightarrow> Some (v, c2) | None \<Rightarrow> fail_at node msg c2))
      | _ \<Rightarrow> fail_at node msg' c1) = Some (t, c') \<Longrightarrow> R c1 c'" for d msg msg' field
    by (cases d rule: option.exhaust; cases "the d"; simp split: prod.splits)
      (auto dest: fail_kept intro: trans [OF name_sym_kept field])
  then show ?thesis
    using assms(1) True x 1 trans [OF 1]
    by (auto simp: infer_member_def Let_def bind_eq_Some_conv give_Some simp del: case_map_option split: if_splits)
qed (use assms(1) in \<open>auto simp: infer_member_def Let_def give_Some dest: fail_kept split: if_splits\<close>)

lemma assign_kept: "assign_types n node p v c = Some (t, c') \<Longrightarrow> R c c'"
  by (auto simp: assign_types_def bind_eq_Some_conv split: option.splits if_splits dest: fail_kept)

lemma set_kept:
  assumes "infer_set n f node c = Some (t, node', c')" and "keeps_on R f (below node)"
  shows "R c c'"
proof (cases "length (n_children node) = 2")
  case True
  then obtain u x c1 v y c2 where x: "f (n_children node ! 0) c = Some (u, x, c1)"
    and y: "f (n_children node ! 1) c1 = Some (v, y, c2)"
    using assms(1) by (auto simp: infer_set_def bind_eq_Some_conv)
  have 2: "R c c2"
    using trans [OF keeps_onD [OF assms(2) x] keeps_onD [OF assms(2) y]] below_nth [of _ node] True by simp
  then show ?thesis
    using assms(1) True x y trans [OF 2 assign_kept]
    by (auto simp: infer_set_def give_Some split: option.splits if_splits)
qed (use assms(1) in \<open>auto simp: infer_set_def give_Some dest: fail_kept\<close>)

lemma operator_kept:
  assumes "infer_operator ops n f node c = Some (t, node', c')" and "keeps_on R f (below node)"
  shows "R c c'"
proof -
  obtain sys c1 where i: "intern_all [''$idtstr'', ''$strtid'', ''$member'', ''$set'', ''$import''] c = (sys, c1)"
    by (rule prod.exhaust)
  note 1 = intern_all_kept [OF i]
  have sub: "keeps_on R f (set (n_children node))"
    by (rule keeps_on_subset [OF assms(2)]) (auto intro: below_child)
  have args: "R c1 c'" if "infer_args f (n_children node) c1 \<bind> (\<lambda>(ts, cs, c2).
      case ts of None \<Rightarrow> Some (None, set_children node cs, c2)
      | Some ts \<Rightarrow> give (set_children node cs)
          (morphl_infer_type_for_op ops n (set_children node cs) (n_op node) ts c2)) = Some (t, node', c')"
  proof -
    note r = that
    obtain ts cs c2 where a: "infer_args f (n_children node) c1 = Some (ts, cs, c2)"
      using r by (cases "infer_args f (n_children node) c1") auto
    have "R c2 c'" using r a by (cases ts) (auto simp: give_Some dest: infer_for_op_kept)
    then show ?thesis by (rule trans [OF args_kept [OF a sub]])
  qed
  have "R c1 c'" if "n_op node \<noteq> 0"
    using assms(1) i that
    by (auto simp: infer_operator_def give_Some simp del: intern_all.simps split: if_splits
        intro: import_kept [OF _ assms(2)] member_kept [OF _ assms(2)] set_kept [OF _ assms(2)] leaf_rules_kept args)
  then show ?thesis using assms(1) trans [OF 1] by (cases "n_op node = 0") (auto simp: infer_operator_def)
qed

lemma candidates_kept:
  "try_candidates ops n f cs c = Some (choice, cs', c') \<Longrightarrow> keeps_on R f (\<Union>x\<in>set cs. set (n_children x)) \<Longrightarrow> R c c'"
proof (induction cs arbitrary: c choice cs')
  case (Cons x cs)
  have sub: "keeps_on R f (set (n_children x))" "keeps_on R f (\<Union>x\<in>set cs. set (n_children x))"
    using Cons.prems(2) by (auto intro: keeps_on_subset)
  show ?case
  proof (cases "n_op x = 0 \<or> operator_info_lookup ops (n_op x) = None")
    case True
    then show ?thesis using Cons.prems(1) Cons.IH [OF _ sub(2)] by (auto simp: bind_eq_Some_conv)
  next
    case False
    then obtain ts ds c1 where a: "infer_args f (n_children x) c = Some (ts, ds, c1)"
      using Cons.prems(1) by (auto simp: bind_eq_Some_conv)
    obtain t c2 where o: "(case ts of None \<Rightarrow> Some (None, c1)
        | Some ts \<Rightarrow> morphl_infer_type_for_op ops n (set_children x ds) (n_op x) ts c1) = Some (t, c2)"
      using Cons.prems(1) False a by (auto simp: bind_eq_Some_conv Let_def)
    have "R c1 c2" using o by (cases ts) (auto dest: infer_for_op_kept)
    then have 2: "R c c2" by (rule trans [OF args_kept [OF a sub(1)]])
    show ?thesis
    proof (cases "t = None")
      case True
      then have "R c2 c'" using Cons.prems(1) False a o Cons.IH [OF _ sub(2)] by (auto simp: bind_eq_Some_conv Let_def)
      then show ?thesis by (rule trans [OF 2])
    qed (use Cons.prems(1) False a o 2 in \<open>auto simp: Let_def\<close>)
  qed
qed simp

lemma overload_kept:
  assumes "infer_overload ops n f node c = Some (t, node', c')" and "keeps_on R f (below node)"
  shows "R c c'"
proof (cases "n_children node = []")
  case False
  obtain choice cs c1 where a:
    "try_candidates ops n f (n_children node) (set_sink (Some morphl_error_swallow) c) = Some (choice, cs, c1)"
    using assms(1) False by (auto simp: infer_overload_def bind_eq_Some_conv)
  have "keeps_on R f (\<Union>x\<in>set (n_children node). set (n_children x))"
    by (rule keeps_on_subset [OF assms(2)]) (auto intro: below_trans below_child)
  then have "R (set_sink (Some morphl_error_swallow) c) c1" by (rule candidates_kept [OF a])
  then have 2: "R c (set_sink (get_sink c) c1)" by (rule silenced)
  then show ?thesis using assms(1) False a trans [OF 2 fail_kept]
    by (cases choice) (auto simp: infer_overload_def give_Some)
qed (use assms(1) in \<open>auto simp: infer_overload_def give_Some dest: fail_kept\<close>)

text \<open>Everything that satisfies the laws is kept by inference.\<close>

lemma infer_kept: "morphl_infer_type_of_ast ops n node c = Some (t, node', c') \<Longrightarrow> R c c'"
proof (induction node arbitrary: c t node' c' rule: measure_induct_rule [where f = size])
  case (less node)
  have sub: "keeps_on R (morphl_infer_type_of_ast ops n) (below node)"
    using less.IH unfolding keeps_on_def below_def by blast
  note eq = less.prems [unfolded morphl_infer_type_of_ast.simps [of ops n node]]
  show ?case
    using eq decl_kept [OF _ sub] group_kept [OF _ sub] block_kept [OF _ sub] func_kept [OF _ sub]
      operator_kept [OF _ sub] overload_kept [OF _ sub] leaf_rules_kept(3) literal_kept make_type_kept
    by (cases "n_kind node") (auto simp: give_Some)
qed

end

section \<open>Contexts stay well formed\<close>

lemma intern_in_fields [simp]:
  "snd (intern_in s c) = c\<lparr>tc_interns := snd (interns_intern (tc_interns c) s)\<rparr>"
  by (simp add: intern_in_def split: prod.split)

lemma open_block_fields [simp]:
  "tc_types (open_block u c) = tc_types c" "tc_interns (open_block u c) = tc_interns c"
  "tc_diagnostics (open_block u c) = tc_diagnostics c" "tc_functions (open_block u c) = tc_functions c"
  "tc_func_capacity (open_block u c) = tc_func_capacity c" "tc_scopes (open_block u c) = tc_scopes c"
  "tc_scope_capacity (open_block u c) = tc_scope_capacity c" "tc_func_stack (open_block u c) = tc_func_stack c"
  "tc_file_stack (open_block u c) = tc_file_stack c" "tc_global_stack (open_block u c) = tc_global_stack c"
  "tc_this_stack (open_block u c) = tc_this_stack c"
  "tc_file_type (open_block u c) = (if tc_file_type c = None then u else tc_file_type c)"
  "tc_global_type (open_block u c) = (if tc_global_type c = None then u else tc_global_type c)"
  by (cases "tc_file_type c"; cases "tc_global_type c"; simp add: open_block_def)+

lemma context_ok_same:
  "context_ok (c\<lparr>tc_interns := t\<rparr>) = context_ok c" "context_ok (c\<lparr>tc_diagnostics := d\<rparr>) = context_ok c"
  "context_ok (open_block u c) = context_ok c"
  "context_ok (c\<lparr>tc_expected_return_type := u\<rparr>) = context_ok c"
  "context_ok (c\<lparr>tc_pending_func_type := u\<rparr>) = context_ok c"
  by (simp_all add: context_ok_def)

definition stays_ok :: "type_context \<Rightarrow> type_context \<Rightarrow> bool" where
  "stays_ok c c' \<longleftrightarrow> (context_ok c \<longrightarrow> context_ok c')"

lemma stays_ok_grows: "arena_grows (tc_types c) h \<Longrightarrow> stays_ok c (c\<lparr>tc_types := h\<rparr>)"
  by (auto simp: stays_ok_def arena_grows_def context_ok_def)

interpretation well_formed: inference_frame stays_ok
proof
  show "arena_grows (tc_types c) h \<Longrightarrow> stays_ok c (c\<lparr>tc_types := h\<rparr>)" for c h
    by (rule stays_ok_grows)
qed (auto simp: stays_ok_def emit_def set_sink_def context_ok_same type_context_set_return_type_def
    type_context_set_pending_func_def
    intro: push_scope_ok pop_scope_ok define_var_ok update_var_ok define_forward_ok functions_ok push_ok pop_ok
      forward_body_ok)

section \<open>Symbols keep their meaning\<close>

definition symbols_kept :: "type_context \<Rightarrow> type_context \<Rightarrow> bool" where
  "symbols_kept c c' \<longleftrightarrow>
     (table_inv (tc_interns c) \<longrightarrow> table_inv (tc_interns c') \<and> table_le (tc_interns c) (tc_interns c'))"

lemma interns_unchanged [simp]:
  "tc_interns (snd (type_context_push_scope c)) = tc_interns c"
  "tc_interns (snd (type_context_pop_scope c)) = tc_interns c"
  "tc_interns (snd (type_context_define_var v t c)) = tc_interns c"
  "tc_interns (snd (type_context_update_var v t c)) = tc_interns c"
  "tc_interns (snd (type_context_define_func v t c)) = tc_interns c"
  "tc_interns (snd (type_context_update_func v t c)) = tc_interns c"
  "tc_interns (snd (type_context_define_forward v t c)) = tc_interns c"
  "tc_interns (snd (type_context_push_this t c)) = tc_interns c"
  "tc_interns (snd (type_context_pop_this c)) = tc_interns c"
  "tc_interns (snd (type_context_push_func t c)) = tc_interns c"
  "tc_interns (snd (type_context_pop_func c)) = tc_interns c"
  "tc_interns (snd (type_context_push_file t c)) = tc_interns c"
  "tc_interns (snd (type_context_pop_file c)) = tc_interns c"
  "tc_interns (snd (type_context_push_global t c)) = tc_interns c"
  "tc_interns (snd (type_context_pop_global c)) = tc_interns c"
  "tc_interns (type_context_set_return_type t c) = tc_interns c"
  "tc_interns (type_context_set_pending_func t c) = tc_interns c"
  "tc_interns (set_sink s c) = tc_interns c"
  "type_context_define_forward_body n v t c = Some (b, c') \<Longrightarrow> tc_interns c' = tc_interns c"
  by (auto simp: type_context_push_scope_def type_context_pop_scope_def type_context_define_var_def
      type_context_update_var_def type_context_define_func_def type_context_update_func_def
      type_context_define_forward_def type_context_push_this_def type_context_pop_this_def
      type_context_push_func_def type_context_pop_func_def type_context_push_file_def type_context_pop_file_def
      type_context_push_global_def type_context_pop_global_def type_context_set_return_type_def
      type_context_set_pending_func_def type_context_define_forward_body_def set_current_def Let_def emits_context
      set_sink_def simp del: alloc_all.simps
      split: option.splits prod.splits list.splits bool.splits if_splits)

interpretation symbols: inference_frame symbols_kept
  by unfold_locales
    (auto simp: symbols_kept_def intro: table_le_trans table_le_intern st.intern_inv)

end
