(* ===== verification/Inference_Scopes.thy ===== *)
theory Inference_Scopes
  imports Inference_Laws
begin

text \<open>
  Scopes, stacks and diagnostics across type inference: while the arena has room for one more scope,
  inference leaves every scope, block, function and module it enters, so that the enclosing ones are
  untouched but for new variables of the current scope; it only adds to the diagnostics, and trying
  the candidates of an overload writes nothing.
\<close>

section \<open>Room for a scope\<close>

definition scope_room :: "type_context \<Rightarrow> bool" where
  "scope_room c \<longleftrightarrow>
     a_off (ta_arena (tc_types c)) + tc_scope_capacity c * 2 * SIZEOF_SCOPE +
       INITIAL_VAR_CAPACITY * SIZEOF_ENTRY + INITIAL_FORWARD_CAPACITY * SIZEOF_FORWARD
     \<le> a_cap (ta_arena (tc_types c))"

lemma push_scope_accepted: "scope_room c \<Longrightarrow> 0 < tc_scope_capacity c \<Longrightarrow> fst (type_context_push_scope c)"
  by (simp add: type_context_push_scope_def grow_array_def arena_alloc_def arena_push_def scope_room_def
      initial_capacities sizes)

text \<open>The arena and the capacity of the scope array only grow.\<close>

definition context_grows :: "type_context \<Rightarrow> type_context \<Rightarrow> bool" where
  "context_grows c c' \<longleftrightarrow> arena_grows (tc_types c) (tc_types c') \<and> tc_scope_capacity c \<le> tc_scope_capacity c'"

lemma scope_room_before: "context_grows c c' \<Longrightarrow> scope_room c' \<Longrightarrow> scope_room c"
  by (simp add: context_grows_def arena_grows_def scope_room_def sizes)

lemma context_grows_refl [simp]: "context_grows c c"
  by (simp add: context_grows_def)

lemma context_grows_trans: "context_grows a b \<Longrightarrow> context_grows b c \<Longrightarrow> context_grows a c"
  by (auto simp: context_grows_def intro: arena_grows_trans)

lemma grow_array_grows:
  "grow_array used capacity elem_size h = Some (cap, h') \<Longrightarrow> arena_grows h h' \<and> capacity \<le> cap"
  by (auto simp: grow_array_Some dest: arena_alloc_grows)

lemma push_ref_grows: "push_ref t rs h = Some (rs', h') \<Longrightarrow> arena_grows h h'"
  by (auto simp: push_ref_def dest: grow_array_grows)

lemma push_scope_grows: "context_grows c (snd (type_context_push_scope c))"
proof (cases "grow_array (length (tc_scopes c)) (tc_scope_capacity c) SIZEOF_SCOPE (tc_types c)")
  case (Some r)
  obtain cap h where r: "r = (cap, h)" by (rule prod.exhaust)
  let ?ns = "[INITIAL_VAR_CAPACITY * SIZEOF_ENTRY, INITIAL_FORWARD_CAPACITY * SIZEOF_FORWARD]"
  obtain b h' where a: "alloc_all ?ns h = (b, h')" by (rule prod.exhaust)
  have g: "arena_grows (tc_types c) h \<and> tc_scope_capacity c \<le> cap" using grow_array_grows Some r by blast
  then have "arena_grows (tc_types c) h'" using arena_grows_trans alloc_all_grows [of h ?ns] a by fastforce
  with g show ?thesis using Some r a
    by (cases b) (simp_all add: type_context_push_scope_def context_grows_def del: alloc_all.simps)
qed (simp add: type_context_push_scope_def)

lemma operations_grow:
  "context_grows c (snd (type_context_define_var v t c))"
  "context_grows c (snd (type_context_update_var v t c))"
  "context_grows c (snd (type_context_define_func v t c))"
  "context_grows c (snd (type_context_update_func v t c))"
  "context_grows c (snd (type_context_define_forward v t c))"
  "context_grows c (snd (type_context_push_this t c))"
  "context_grows c (snd (type_context_push_func t c))"
  "context_grows c (snd (type_context_push_file t c))"
  "context_grows c (snd (type_context_push_global t c))"
  by (auto simp: context_grows_def type_context_define_var_def type_context_update_var_def type_context_define_func_def
      type_context_update_func_def type_context_define_forward_def set_current_def Let_def
      type_context_push_this_def type_context_push_func_def type_context_push_file_def type_context_push_global_def
      dest: grow_array_grows push_ref_grows split: option.splits)

lemma operations_stay [simp]:
  "tc_types (snd (type_context_pop_scope c)) = tc_types c"
  "tc_scope_capacity (snd (type_context_pop_scope c)) = tc_scope_capacity c"
  "tc_types (snd (type_context_pop_this c)) = tc_types c"
  "tc_scope_capacity (snd (type_context_pop_this c)) = tc_scope_capacity c"
  "tc_types (snd (type_context_pop_func c)) = tc_types c"
  "tc_scope_capacity (snd (type_context_pop_func c)) = tc_scope_capacity c"
  "tc_types (snd (type_context_pop_file c)) = tc_types c"
  "tc_scope_capacity (snd (type_context_pop_file c)) = tc_scope_capacity c"
  "tc_types (snd (type_context_pop_global c)) = tc_types c"
  "tc_scope_capacity (snd (type_context_pop_global c)) = tc_scope_capacity c"
  by (auto simp: type_context_pop_scope_def type_context_pop_this_def type_context_pop_func_def
      type_context_pop_file_def type_context_pop_global_def Let_def emits_context split: list.splits)

lemma forward_body_stays:
  "type_context_define_forward_body n v t c = Some (b, c') \<Longrightarrow>
     tc_types c' = tc_types c \<and> tc_scope_capacity c' = tc_scope_capacity c"
  by (auto simp: type_context_define_forward_body_def set_current_def Let_def
      split: option.splits prod.splits bool.splits if_splits)

section \<open>What is restored\<close>

definition var_names :: "scope \<Rightarrow> nat list" where
  "var_names sc = map fst (sc_vars sc)"

text \<open>
  The enclosing scopes and the stacks are as before, \<open>$file\<close> and \<open>$global\<close> too unless they were
  not set, and the current scope has at most more variables.
\<close>

definition balanced :: "type_context \<Rightarrow> type_context \<Rightarrow> bool" where
  "balanced c c' \<longleftrightarrow>
     tc_scopes c' \<noteq> [] \<and> tl (tc_scopes c') = tl (tc_scopes c) \<and>
     (\<exists>more. var_names (hd (tc_scopes c')) = var_names (hd (tc_scopes c)) @ more) \<and>
     rs_items (tc_func_stack c') = rs_items (tc_func_stack c) \<and>
     rs_items (tc_this_stack c') = rs_items (tc_this_stack c) \<and>
     rs_items (tc_file_stack c') = rs_items (tc_file_stack c) \<and>
     rs_items (tc_global_stack c') = rs_items (tc_global_stack c) \<and>
     (tc_file_type c \<noteq> None \<longrightarrow> tc_file_type c' = tc_file_type c) \<and>
     (tc_global_type c \<noteq> None \<longrightarrow> tc_global_type c' = tc_global_type c)"

definition scoped :: "type_context \<Rightarrow> type_context \<Rightarrow> bool" where
  "scoped c c' \<longleftrightarrow> context_grows c c' \<and>
     (scope_room c' \<longrightarrow> 0 < tc_scope_capacity c \<longrightarrow> tc_scopes c \<noteq> [] \<longrightarrow> balanced c c')"

lemma balanced_refl: "tc_scopes c \<noteq> [] \<Longrightarrow> balanced c c"
  by (simp add: balanced_def)

lemma balanced_trans: "balanced a b \<Longrightarrow> balanced b c \<Longrightarrow> balanced a c"
  unfolding balanced_def by (metis append_assoc)

lemma scopedI:
  "context_grows c c' \<Longrightarrow> (tc_scopes c \<noteq> [] \<Longrightarrow> balanced c c') \<Longrightarrow> scoped c c'"
  by (simp add: scoped_def)

lemma scoped_trans: "scoped a b \<Longrightarrow> scoped b c \<Longrightarrow> scoped a c"
proof -
  assume ab: "scoped a b" and bc: "scoped b c"
  show "scoped a c"
    unfolding scoped_def
  proof (intro conjI impI)
    show "context_grows a c" using ab bc by (auto simp: scoped_def intro: context_grows_trans)
    assume r: "scope_room c" "0 < tc_scope_capacity a" "tc_scopes a \<noteq> []"
    have "scope_room b" using bc r(1) by (auto simp: scoped_def intro: scope_room_before)
    moreover have "0 < tc_scope_capacity b" using ab r(2) by (auto simp: scoped_def context_grows_def)
    ultimately have 1: "balanced a b" using ab r by (simp add: scoped_def)
    then have "tc_scopes b \<noteq> []" by (simp add: balanced_def)
    then have "balanced b c" using bc r(1) \<open>0 < tc_scope_capacity b\<close> by (simp add: scoped_def)
    with 1 show "balanced a c" by (rule balanced_trans)
  qed
qed

lemma update_first_same_names: "update_first vs name t = Some us \<Longrightarrow> map fst us = map fst vs"
  by (induction vs name t arbitrary: us rule: update_first.induct) (auto split: if_splits)

text \<open>The operations one by one.\<close>

lemma define_var_balanced:
  "tc_scopes c \<noteq> [] \<Longrightarrow> balanced c (snd (type_context_define_var v t c))"
  "tc_scopes c \<noteq> [] \<Longrightarrow> balanced c (snd (type_context_update_var v t c))"
  "tc_scopes c \<noteq> [] \<Longrightarrow> balanced c (snd (type_context_define_func v t c))"
  "tc_scopes c \<noteq> [] \<Longrightarrow> balanced c (snd (type_context_update_func v t c))"
  "tc_scopes c \<noteq> [] \<Longrightarrow> balanced c (snd (type_context_define_forward v t c))"
  by (auto simp: balanced_def var_names_def type_context_define_var_def type_context_update_var_def
      type_context_define_func_def type_context_update_func_def type_context_define_forward_def set_current_def Let_def
      dest: update_first_same_names split: option.splits)

lemma forward_body_balanced:
  "type_context_define_forward_body n v t c = Some (b, c') \<Longrightarrow> tc_scopes c \<noteq> [] \<Longrightarrow> balanced c c'"
  by (auto simp: balanced_def var_names_def type_context_define_forward_body_def set_current_def Let_def
      split: option.splits prod.splits bool.splits if_splits)

text \<open>Popping what was pushed.\<close>

lemma in_scope_scoped:
  assumes "scoped (snd (type_context_push_scope c)) c'"
  shows "scoped c (snd (type_context_pop_scope c'))"
  unfolding scoped_def
proof (intro conjI impI)
  let ?c = "snd (type_context_push_scope c)"
  have g: "context_grows c c'"
    using context_grows_trans [OF push_scope_grows] assms by (auto simp: scoped_def)
  then show "context_grows c (snd (type_context_pop_scope c'))" by (simp add: context_grows_def)
  assume r: "scope_room (snd (type_context_pop_scope c'))" "0 < tc_scope_capacity c" "tc_scopes c \<noteq> []"
  then have room: "scope_room c'" by (simp add: scope_room_def)
  then have ok: "fst (type_context_push_scope c)"
    using push_scope_accepted scope_room_before [OF g] r(2) by blast
  have "balanced ?c c'"
    using assms room r(2) push_scope_grows [of c] scopes.push_accepted [OF ok]
    by (auto simp: scoped_def context_grows_def)
  then have b: "tl (tc_scopes c') = tc_scopes c" "tc_scopes c' \<noteq> []"
    "rs_items (tc_func_stack c') = rs_items (tc_func_stack ?c)" "rs_items (tc_this_stack c') = rs_items (tc_this_stack ?c)"
    "rs_items (tc_file_stack c') = rs_items (tc_file_stack ?c)" "rs_items (tc_global_stack c') = rs_items (tc_global_stack ?c)"
    "tc_file_type ?c \<noteq> None \<longrightarrow> tc_file_type c' = tc_file_type ?c"
    "tc_global_type ?c \<noteq> None \<longrightarrow> tc_global_type c' = tc_global_type ?c"
    using scopes.push_accepted [OF ok] by (simp_all add: balanced_def)
  have same: "tc_func_stack ?c = tc_func_stack c" "tc_this_stack ?c = tc_this_stack c" "tc_file_stack ?c = tc_file_stack c"
    "tc_global_stack ?c = tc_global_stack c" "tc_file_type ?c = tc_file_type c" "tc_global_type ?c = tc_global_type c"
    by (simp_all add: type_context_push_scope_def Let_def del: alloc_all.simps split: option.split prod.split bool.split)
  have popped: "tc_scopes (snd (type_context_pop_scope c')) = tl (tc_scopes c')"
    using scopes.pop_items [of c'] b(1,2) r(3) by (cases "tc_scopes c'") auto
  have "tc_func_stack (snd (type_context_pop_scope c')) = tc_func_stack c'"
    "tc_this_stack (snd (type_context_pop_scope c')) = tc_this_stack c'"
    "tc_file_stack (snd (type_context_pop_scope c')) = tc_file_stack c'"
    "tc_global_stack (snd (type_context_pop_scope c')) = tc_global_stack c'"
    "tc_file_type (snd (type_context_pop_scope c')) = tc_file_type c'"
    "tc_global_type (snd (type_context_pop_scope c')) = tc_global_type c'"
    by (simp_all add: type_context_pop_scope_def Let_def emits_context split: list.split)
  with b same popped r(3) show "balanced c (snd (type_context_pop_scope c'))"
    by (simp add: balanced_def)
qed

lemma bracket_scoped:
  assumes "scoped c1 c'" and "context_grows c c1" and "tc_scopes c1 = tc_scopes c"
    and "tc_types c2 = tc_types c'" and "tc_scope_capacity c2 = tc_scope_capacity c'"
    and "balanced c1 c' \<Longrightarrow> balanced c c2"
  shows "scoped c c2"
proof -
  have "scope_room c2 = scope_room c'" using assms(4,5) by (simp add: scope_room_def)
  then show ?thesis
    using assms context_grows_trans [OF assms(2), of c'] by (auto simp: scoped_def context_grows_def)
qed

lemma stack_fields [simp]:
  "tc_scopes (snd (type_context_push_this t c)) = tc_scopes c"
  "tc_scopes (snd (type_context_push_func t c)) = tc_scopes c"
  "tc_scopes (snd (type_context_push_file t c)) = tc_scopes c"
  "tc_scopes (snd (type_context_push_global t c)) = tc_scopes c"
  by (simp_all add: type_context_push_this_def type_context_push_func_def type_context_push_file_def
      type_context_push_global_def split: option.split)

lemma in_block_scoped:
  assumes "fst (type_context_push_this t c)" and "scoped (snd (type_context_push_this t c)) c'"
  shows "scoped c (snd (type_context_pop_this c'))"
  using assms(2)
proof (rule bracket_scoped)
  assume b: "balanced (snd (type_context_push_this t c)) c'"
  have "rs_items (tc_this_stack (snd (type_context_pop_this c'))) = rs_items (tc_this_stack c)"
    using this.bracket [OF assms(1)] b by (simp add: balanced_def)
  with b show "balanced c (snd (type_context_pop_this c'))"
    by (auto simp: balanced_def type_context_push_this_def type_context_pop_this_def split: option.splits if_splits)
qed (simp_all add: operations_grow)

lemma in_func_scoped:
  assumes "fst (type_context_push_func t c)" and "scoped (snd (type_context_push_func t c)) c'"
  shows "scoped c (snd (type_context_pop_func c'))"
  using assms(2)
proof (rule bracket_scoped)
  assume b: "balanced (snd (type_context_push_func t c)) c'"
  have "rs_items (tc_func_stack (snd (type_context_pop_func c'))) = rs_items (tc_func_stack c)"
    using funcs.bracket [OF assms(1)] b by (simp add: balanced_def)
  with b show "balanced c (snd (type_context_pop_func c'))"
    by (auto simp: balanced_def type_context_push_func_def type_context_pop_func_def split: option.splits if_splits)
qed (simp_all add: operations_grow)

lemma in_file_scoped:
  assumes "fst (type_context_push_file None c)" and "scoped (snd (type_context_push_file None c)) c'"
  shows "scoped c (snd (type_context_pop_file c'))"
  using assms(2)
proof (rule bracket_scoped)
  assume b: "balanced (snd (type_context_push_file None c)) c'"
  obtain rs h where p: "push_ref (tc_file_type c) (tc_file_stack c) (tc_types c) = Some (rs, h)"
    using assms(1) by (auto simp: type_context_push_file_def split: option.splits)
  have items: "rs_items (tc_file_stack c') = tc_file_type c # rs_items (tc_file_stack c)"
    using files.push_accepted [OF assms(1)] b by (simp add: balanced_def file_items_def)
  then have "type_context_pop_file c' = (True, c'\<lparr>tc_file_type := tc_file_type c, tc_file_stack := pop_ref (tc_file_stack c')\<rparr>)"
    by (simp add: type_context_pop_file_def)
  with b items show "balanced c (snd (type_context_pop_file c'))"
    by (auto simp: balanced_def type_context_push_file_def p push_ref_items [OF p])
qed (simp_all add: operations_grow)

lemma in_global_scoped:
  assumes "fst (type_context_push_global None c)" and "scoped (snd (type_context_push_global None c)) c'"
  shows "scoped c (snd (type_context_pop_global c'))"
  using assms(2)
proof (rule bracket_scoped)
  assume b: "balanced (snd (type_context_push_global None c)) c'"
  obtain rs h where p: "push_ref (tc_global_type c) (tc_global_stack c) (tc_types c) = Some (rs, h)"
    using assms(1) by (auto simp: type_context_push_global_def split: option.splits)
  have items: "rs_items (tc_global_stack c') = tc_global_type c # rs_items (tc_global_stack c)"
    using globals.push_accepted [OF assms(1)] b by (simp add: balanced_def global_items_def)
  then have "type_context_pop_global c' = (True, c'\<lparr>tc_global_type := tc_global_type c, tc_global_stack := pop_ref (tc_global_stack c')\<rparr>)"
    by (simp add: type_context_pop_global_def)
  with b items show "balanced c (snd (type_context_pop_global c'))"
    by (auto simp: balanced_def type_context_push_global_def p push_ref_items [OF p])
qed (simp_all add: operations_grow)

lemma push_failed_scoped:
  assumes "\<not> fst (type_context_push_scope c)"
  shows "scoped c (snd (type_context_push_scope c))"
proof -
  have "\<not> scope_room (snd (type_context_push_scope c)) \<or> \<not> 0 < tc_scope_capacity c"
    using assms push_scope_accepted scope_room_before [OF push_scope_grows] by blast
  then show ?thesis by (auto simp: scoped_def push_scope_grows)
qed

interpretation scoping: inference_frame scoped
proof
  show "scoped a b \<Longrightarrow> scoped b c \<Longrightarrow> scoped a c" for a b c by (rule scoped_trans)
  show "scoped (snd (type_context_push_scope c)) c' \<Longrightarrow> scoped c (snd (type_context_pop_scope c'))" for c c'
    by (rule in_scope_scoped)
  show "fst (type_context_push_this (Some p) c) \<Longrightarrow> scoped (snd (type_context_push_this (Some p) c)) c' \<Longrightarrow>
      scoped c (snd (type_context_pop_this c'))" for p c c' by (rule in_block_scoped)
  show "fst (type_context_push_func t c) \<Longrightarrow> scoped (snd (type_context_push_func t c)) c' \<Longrightarrow>
      scoped c (snd (type_context_pop_func c'))" for t c c' by (rule in_func_scoped)
  show "fst (type_context_push_file None c) \<Longrightarrow> scoped (snd (type_context_push_file None c)) c' \<Longrightarrow>
      scoped c (snd (type_context_pop_file c'))" for c c' by (rule in_file_scoped)
  show "fst (type_context_push_global None c) \<Longrightarrow> scoped (snd (type_context_push_global None c)) c' \<Longrightarrow>
      scoped c (snd (type_context_pop_global c'))" for c c' by (rule in_global_scoped)
  show "\<not> fst (type_context_push_scope c) \<Longrightarrow> scoped c (snd (type_context_push_scope c))" for c
    by (rule push_failed_scoped)
  show "scoped (set_sink (Some morphl_error_swallow) c) c' \<Longrightarrow> scoped c (set_sink (get_sink c) c')" for c c'
    by (simp add: scoped_def balanced_def context_grows_def scope_room_def set_sink_def)
  show "type_context_define_forward_body n v t c = Some (b, c') \<Longrightarrow> scoped c c'" for n v t c b c'
    by (rule scopedI) (auto dest: forward_body_balanced forward_body_stays simp: context_grows_def)
qed (auto intro!: scopedI operations_grow define_var_balanced balanced_refl
    simp: context_grows_def balanced_def emit_def type_context_set_return_type_def type_context_set_pending_func_def)

section \<open>Diagnostics\<close>

text \<open>The sink is the same afterwards, and it was written to; the swallowing sink writes nothing.\<close>

definition reports :: "type_context \<Rightarrow> type_context \<Rightarrow> bool" where
  "reports c c' \<longleftrightarrow>
     dg_files (tc_diagnostics c') = dg_files (tc_diagnostics c) \<and> get_sink c' = get_sink c \<and>
     (\<exists>more. dg_output (tc_diagnostics c') = dg_output (tc_diagnostics c) @ more) \<and>
     (get_sink c = Some morphl_error_swallow \<longrightarrow> dg_output (tc_diagnostics c') = dg_output (tc_diagnostics c))"

lemma reports_refl: "reports c c"
  by (simp add: reports_def)

lemma reports_trans: "reports a b \<Longrightarrow> reports b c \<Longrightarrow> reports a c"
  by (auto simp: reports_def)

lemma reports_emit: "reports c (emit e c)"
  by (simp add: reports_def emit_def morphl_error_emit_def Let_def get_sink_def
      morphl_error_get_global_sink_def morphl_error_swallow_def)

lemma reports_emits: "reports c (fold (emit \<circ> g) es c)"
  by (induction es arbitrary: c) (auto intro: reports_refl reports_trans reports_emit)

lemma reports_silent: "tc_diagnostics c' = tc_diagnostics c \<Longrightarrow> reports c c'"
  by (simp add: reports_def get_sink_def)

lemma reports_between:
  "reports c1 c' \<Longrightarrow> tc_diagnostics c1 = tc_diagnostics c \<Longrightarrow> tc_diagnostics c2 = tc_diagnostics c' \<Longrightarrow> reports c c2"
  by (simp add: reports_def get_sink_def)

lemma diagnostics_unchanged [simp]:
  "tc_diagnostics (snd (type_context_push_scope c)) = tc_diagnostics c"
  "tc_diagnostics (snd (type_context_define_var v t c)) = tc_diagnostics c"
  "tc_diagnostics (snd (type_context_update_var v t c)) = tc_diagnostics c"
  "tc_diagnostics (snd (type_context_define_func v t c)) = tc_diagnostics c"
  "tc_diagnostics (snd (type_context_update_func v t c)) = tc_diagnostics c"
  "tc_diagnostics (snd (type_context_define_forward v t c)) = tc_diagnostics c"
  "tc_diagnostics (snd (type_context_push_this t c)) = tc_diagnostics c"
  "tc_diagnostics (snd (type_context_pop_this c)) = tc_diagnostics c"
  "tc_diagnostics (snd (type_context_push_func t c)) = tc_diagnostics c"
  "tc_diagnostics (snd (type_context_pop_func c)) = tc_diagnostics c"
  "tc_diagnostics (snd (type_context_push_file t c)) = tc_diagnostics c"
  "tc_diagnostics (snd (type_context_pop_file c)) = tc_diagnostics c"
  "tc_diagnostics (snd (type_context_push_global t c)) = tc_diagnostics c"
  "tc_diagnostics (snd (type_context_pop_global c)) = tc_diagnostics c"
  "tc_diagnostics (type_context_set_return_type t c) = tc_diagnostics c"
  "tc_diagnostics (type_context_set_pending_func t c) = tc_diagnostics c"
  "type_context_define_forward_body n v t c = Some (b, c') \<Longrightarrow> tc_diagnostics c' = tc_diagnostics c"
  by (auto simp: type_context_push_scope_def type_context_define_var_def
      type_context_update_var_def type_context_define_func_def type_context_update_func_def
      type_context_define_forward_def type_context_push_this_def type_context_pop_this_def
      type_context_push_func_def type_context_pop_func_def type_context_push_file_def type_context_pop_file_def
      type_context_push_global_def type_context_pop_global_def type_context_set_return_type_def
      type_context_set_pending_func_def type_context_define_forward_body_def set_current_def Let_def
      simp del: alloc_all.simps
      split: option.splits prod.splits list.splits bool.splits if_splits)

lemma reports_pop_scope: "reports c (snd (type_context_pop_scope c))"
proof (cases "tc_scopes c" rule: list.exhaust)
  case (Cons sc scs)
  have "reports c ((fold (emit \<circ> missing_body (tc_interns c)) (unresolved sc) c)\<lparr>tc_scopes := scs\<rparr>)"
    by (rule reports_trans [OF reports_emits reports_silent]) simp
  then show ?thesis using Cons
    by (cases scs) (simp_all add: type_context_pop_scope_def Let_def reports_refl)
qed (simp add: type_context_pop_scope_def reports_refl)

lemma reports_silenced:
  assumes "reports (set_sink (Some morphl_error_swallow) c) c'"
  shows "reports c (set_sink (get_sink c) c')" and "dg_output (tc_diagnostics c') = dg_output (tc_diagnostics c)"
  using assms by (simp_all add: reports_def set_sink_def get_sink_def morphl_error_set_global_sink_def
      morphl_error_get_global_sink_def)

interpretation reporting: inference_frame reports
proof
  show "reports a b \<Longrightarrow> reports b c \<Longrightarrow> reports a c" for a b c by (rule reports_trans)
  show "reports c (emit e c)" for e c by (rule reports_emit)
  show "reports (snd (type_context_push_scope c)) c' \<Longrightarrow> reports c (snd (type_context_pop_scope c'))" for c c'
    using reports_trans [OF reports_silent [of "snd (type_context_push_scope c)" c] reports_trans [OF _ reports_pop_scope]]
    by simp
  show "reports (set_sink (Some morphl_error_swallow) c) c' \<Longrightarrow> reports c (set_sink (get_sink c) c')" for c c'
    by (rule reports_silenced)
  show "fst (type_context_push_this (Some p) c) \<Longrightarrow> reports (snd (type_context_push_this (Some p) c)) c' \<Longrightarrow>
      reports c (snd (type_context_pop_this c'))" for p c c' by (erule reports_between) simp_all
  show "fst (type_context_push_func t c) \<Longrightarrow> reports (snd (type_context_push_func t c)) c' \<Longrightarrow>
      reports c (snd (type_context_pop_func c'))" for t c c' by (erule reports_between) simp_all
  show "fst (type_context_push_file None c) \<Longrightarrow> reports (snd (type_context_push_file None c)) c' \<Longrightarrow>
      reports c (snd (type_context_pop_file c'))" for c c' by (erule reports_between) simp_all
  show "fst (type_context_push_global None c) \<Longrightarrow> reports (snd (type_context_push_global None c)) c' \<Longrightarrow>
      reports c (snd (type_context_pop_global c'))" for c c' by (erule reports_between) simp_all
qed (auto intro!: reports_silent)

section \<open>Properties\<close>

definition literal_node :: "string \<Rightarrow> ast" where
  "literal_node s = AstNode AST_LITERAL 0 (Some s) [] 0 None 0 0"

text \<open>\<open>{ () -> 1 }\<close>: a block around a function without parameters.\<close>

definition sample_func :: ast where
  "sample_func = AstNode AST_FUNC 0 None [AstNode AST_GROUP 0 None [] 0 None 0 0, literal_node ''1''] 0 None 0 0"

definition sample_block :: ast where
  "sample_block = AstNode AST_BLOCK 0 None [sample_func] 0 None 0 0"

lemmas inference_defs = infer_block_def infer_func_def infer_group_def infer_literal_def infer_number_text_def
  current_func_type_def finish_func_def func_failed_def make_type_def with_types_def set_type_def set_cell_def
  morphl_type_block_def morphl_type_group_def morphl_type_func_def morphl_type_unknown_def morphl_type_int_def
  alloc_type_def arena_alloc_def arena_push_def grow_array_def push_ref_def pop_ref_def open_block_def
  type_context_push_scope_def type_context_pop_scope_def type_context_push_this_def type_context_pop_this_def
  type_context_push_func_def type_context_pop_func_def type_context_set_return_type_def type_context_get_return_type_def
  type_context_take_pending_func_def

lemmas sample_defs = sample_func_def literal_node_def quoted_def give_def is_kind_def cell_def is_member_def
  unresolved_def empty_scope_def scope_room_def initial_capacities sizes arena_init_def

lemma sample_block_inferred:
  obtains t node ctx where
    "morphl_infer_type_of_ast [] 0 sample_block sample_context = Some (Some t, node, ctx)" "scope_room ctx"
proof -
  have "\<exists>t node ctx. morphl_infer_type_of_ast [] 0 sample_block sample_context = Some (Some t, node, ctx) \<and> scope_room ctx"
    by (simp add: morphl_infer_type_of_ast.simps sample_block_def inference_defs sample_defs sample_context_def
        type_context_new_def context_sizes_def Let_def)
  with that show thesis by blast
qed

lemma sample_context_ok: "context_ok sample_context" "table_inv (tc_interns sample_context)"
proof -
  have "context_reach sample_context"
    by (rule reach_new [OF _ sample_context_new]) (simp add: arena_ok_def arena_init_def)
  then show "context_ok sample_context" by (induction rule: context_reach.induct) (auto intro: context_new_ok context_step_ok)
  show "table_inv (tc_interns sample_context)" by (simp add: sample_context_fields interns_new_inv)
qed

text \<open>C14: inference keeps the context well formed and the meaning of every symbol.  Whatever it infers and
  wherever it fails, there is a current scope, every array has the room for its elements, no scope
  declares a name forward twice and the arena is within its capacity; the intern table keeps its
  invariant, and a symbol that had a name keeps it.\<close>

theorem inference_keeps_context:
  assumes "morphl_infer_type_of_ast ops n node ctx = Some (t, node', ctx')"
    and "context_ok ctx" and "table_inv (tc_interns ctx)"
  shows "context_ok ctx' \<and> table_inv (tc_interns ctx') \<and>
    (\<forall>sy name. interns_lookup (tc_interns ctx) sy = Some name \<longrightarrow> interns_lookup (tc_interns ctx') sy = Some name)"
  using well_formed.infer_kept [OF assms(1)] symbols.infer_kept [OF assms(1)] assms(2,3)
  by (auto simp: stays_ok_def symbols_kept_def intro: table_le_lookup)

theorem inference_keeps_context_witness:
  "\<exists>t node ctx. morphl_infer_type_of_ast [] 0 sample_block sample_context = Some (Some t, node, ctx) \<and> context_ok ctx"
  using sample_block_inferred inference_keeps_context sample_context_ok by metis

text \<open>C13: inference leaves every scope it enters.  As long as the arena still has room for one more scope
  afterwards, the enclosing scopes are untouched, the current \<open>$this\<close> and the current function are the
  ones before, \<open>$file\<close> and \<open>$global\<close> too once they are set, and every variable of the current scope
  is still declared in it, however the tree is nested and whether inference succeeds or not.\<close>

theorem inference_leaves_scopes:
  assumes "morphl_infer_type_of_ast ops n node ctx = Some (t, node', ctx')"
    and "context_ok ctx" and "scope_room ctx'"
  shows "tl (tc_scopes ctx') = tl (tc_scopes ctx) \<and>
    type_context_get_this ctx' = type_context_get_this ctx \<and>
    type_context_get_current_func ctx' = type_context_get_current_func ctx \<and>
    (type_context_get_file ctx \<noteq> None \<longrightarrow> type_context_get_file ctx' = type_context_get_file ctx) \<and>
    (type_context_get_global ctx \<noteq> None \<longrightarrow> type_context_get_global ctx' = type_context_get_global ctx) \<and>
    (\<forall>x. type_context_check_duplicate_var ctx x \<longrightarrow> type_context_check_duplicate_var ctx' x)"
proof -
  have "0 < tc_scope_capacity ctx \<and> tc_scopes ctx \<noteq> []" using assms(2) by (cases "tc_scopes ctx") (auto simp: context_ok_def)
  then have b: "balanced ctx ctx'" using scoping.infer_kept [OF assms(1)] assms(3) by (simp add: scoped_def)
  then obtain more where m: "var_names (hd (tc_scopes ctx')) = var_names (hd (tc_scopes ctx)) @ more"
    by (auto simp: balanced_def)
  have "x \<in> set (var_names (hd (tc_scopes ctx')))" if "x \<in> set (var_names (hd (tc_scopes ctx)))" for x
    using that unfolding m by simp
  then show ?thesis
    using b by (simp add: balanced_def type_context_get_this_def type_context_get_current_func_def top_ref_def
        type_context_get_file_def type_context_get_global_def type_context_check_duplicate_var_def var_names_def image_iff)
qed

theorem inference_leaves_scopes_witness:
  "\<exists>t node ctx. morphl_infer_type_of_ast [] 0 sample_block sample_context = Some (Some t, node, ctx) \<and>
     tl (tc_scopes ctx) = [] \<and> type_context_get_this ctx = None"
proof -
  obtain t node ctx where i: "morphl_infer_type_of_ast [] 0 sample_block sample_context = Some (Some t, node, ctx)"
    "scope_room ctx" by (rule sample_block_inferred)
  show ?thesis
    using inference_leaves_scopes [OF i(1) sample_context_ok(1) i(2)] i(1)
    by (auto simp: sample_context_fields type_context_get_this_def top_ref_def)
qed

section \<open>Without room for a scope\<close>

text \<open>Expressions that open no scope: identifiers, literals and groups of them.\<close>

fun plain_expr :: "ast \<Rightarrow> bool" where
  "plain_expr (AstNode kind op v cs cap fn row col) \<longleftrightarrow>
     kind = AST_IDENT \<or> kind = AST_LITERAL \<or> kind = AST_GROUP \<and> list_all plain_expr cs"

definition stays_quiet :: "(ast \<Rightarrow> type_context \<Rightarrow> inferred) \<Rightarrow> ast \<Rightarrow> bool" where
  "stays_quiet infer x \<longleftrightarrow>
     (\<forall>c t x' c'. infer x c = Some (t, x', c') \<longrightarrow>
        tc_scopes c' = tc_scopes c \<and> (t \<noteq> None \<longrightarrow> tc_diagnostics c' = tc_diagnostics c))"

lemma stays_quietD:
  "stays_quiet infer x \<Longrightarrow> infer x c = Some (t, x', c') \<Longrightarrow> tc_scopes c' = tc_scopes c"
  "stays_quiet infer x \<Longrightarrow> infer x c = Some (t, x', c') \<Longrightarrow> t \<noteq> None \<Longrightarrow> tc_diagnostics c' = tc_diagnostics c"
  unfolding stays_quiet_def by blast+

lemma with_types_fields:
  "with_types mk c = (t, c') \<Longrightarrow> tc_scopes c' = tc_scopes c \<and> tc_diagnostics c' = tc_diagnostics c"
  by (auto simp: with_types_def split: prod.splits)

lemma intern_in_stays:
  "intern_in s c = (sy, c') \<Longrightarrow> tc_scopes c' = tc_scopes c \<and> tc_diagnostics c' = tc_diagnostics c"
  by (auto simp: intern_in_def split: prod.splits)

lemma intern_all_stays:
  "intern_all names c = (sys, c') \<Longrightarrow> tc_scopes c' = tc_scopes c \<and> tc_diagnostics c' = tc_diagnostics c"
  by (induction names c arbitrary: sys c' rule: intern_all.induct)
    (fastforce split: prod.splits if_splits dest: intern_in_stays)+

lemma infer_args_quiet:
  assumes "\<And>x. x \<in> set xs \<Longrightarrow> stays_quiet infer x" and "infer_args infer xs c = Some (ts, xs', c')"
  shows "tc_scopes c' = tc_scopes c \<and> (ts \<noteq> None \<longrightarrow> tc_diagnostics c' = tc_diagnostics c)"
  using assms
proof (induction xs arbitrary: c ts xs' c')
  case (Cons x xs)
  then have x: "stays_quiet infer x" by simp
  obtain t x' c1 where 1: "infer x c = Some (t, x', c1)" using Cons.prems(2) by (auto split: bind_splits)
  note q = stays_quietD [OF x 1]
  show ?case
  proof (cases t)
    case (Some p)
    then obtain us ys c2 where 2: "infer_args infer xs c1 = Some (us, ys, c2)" "c' = c2" "ts = map_option (Cons t) us"
      using Cons.prems(2) 1 by (auto split: bind_splits)
    have "tc_scopes c2 = tc_scopes c1 \<and> (us \<noteq> None \<longrightarrow> tc_diagnostics c2 = tc_diagnostics c1)"
      by (rule Cons.IH [OF _ 2(1)]) (use Cons.prems(1) in simp)
    with q Some 2(2,3) show ?thesis by auto
  qed (use Cons.prems(2) 1 q in auto)
qed simp

lemma plain_expr_quiet: "plain_expr x \<Longrightarrow> stays_quiet (morphl_infer_type_of_ast ops n) x"
proof (induction x rule: plain_expr.induct)
  case (1 kind op v cs cap fn row col)
  let ?x = "AstNode kind op v cs cap fn row col"
  show ?case
    unfolding stays_quiet_def
  proof (intro allI impI)
    fix c t x' c' assume run: "morphl_infer_type_of_ast ops n ?x c = Some (t, x', c')"
    consider "kind = AST_IDENT" | "kind = AST_LITERAL" | "kind = AST_GROUP" "list_all plain_expr cs" using "1.prems" by auto
    then show "tc_scopes c' = tc_scopes c \<and> (t \<noteq> None \<longrightarrow> tc_diagnostics c' = tc_diagnostics c)"
    proof cases
      case 1
      then show ?thesis
        using run
        by (auto simp: morphl_infer_type_of_ast.simps give_Some infer_ident_def name_sym_def fail_at_def
            error_at_def split: prod.splits if_splits dest!: intern_in_stays)
    next
      case 2
      then have "infer_literal ?x c = Some (t, c')"
        using run by (simp add: morphl_infer_type_of_ast.simps give_Some)
      then show ?thesis
        by (auto simp: infer_literal_def infer_number_text_def make_type_def split: prod.splits if_splits
            dest!: intern_all_stays intern_in_stays with_types_fields)
    next
      case 3
      then have "stays_quiet (morphl_infer_type_of_ast ops n) y" if "y \<in> set cs" for y
        using 1 that by (auto simp: list_all_iff)
      moreover obtain ts ys c1 where "infer_args (morphl_infer_type_of_ast ops n) cs c = Some (ts, ys, c1)"
        and r: "(case ts of None \<Rightarrow> Some (None, set_children ?x ys, c1)
          | Some ts \<Rightarrow> give (set_children ?x ys) (make_type (morphl_type_group ts) c1)) = Some (t, x', c')"
        using run morphl_infer_type_of_ast.simps [of ops n ?x c] 3(1) by (auto simp: infer_group_def split: bind_splits)
      ultimately have "tc_scopes c1 = tc_scopes c \<and> (ts \<noteq> None \<longrightarrow> tc_diagnostics c1 = tc_diagnostics c)"
        using infer_args_quiet by blast
      with r show ?thesis
        by (auto simp: give_Some make_type_def split: option.splits dest!: with_types_fields)
    qed
  qed
qed

lemma push_refused:
  "\<not> fst (type_context_push_scope c) \<Longrightarrow> tc_scopes (snd (type_context_push_scope c)) = tc_scopes c"
  by (rule scopes.push_refused)

lemma finish_func_scopes:
  assumes "finish_func f param b body c = Some (Some t, c')" and "tc_scopes c = current # outer # rest"
  shows "tc_scopes c' = outer # rest \<and> (unresolved current = [] \<longrightarrow> tc_diagnostics c' = tc_diagnostics c)"
  using assms
  by (auto simp: finish_func_def func_failed_def fail_at_def make_type_def Let_def set_type_def
      type_context_set_return_type_def type_context_pop_scope_def type_context_pop_func_def emits_context
      split: if_splits type_data.splits dest!: with_types_fields)

lemma current_func_fields:
  "current_func_type p c = (f, c') \<Longrightarrow> tc_scopes c' = tc_scopes c \<and> tc_diagnostics c' = tc_diagnostics c"
  by (auto simp: current_func_type_def type_context_take_pending_func_def set_type_def
      split: option.splits prod.splits list.splits type_data.splits dest!: with_types_fields)

text \<open>C33: without that room inference closes a scope it has not opened.  Take any function whose parameter
  and body are identifiers, literals or groups of these, in any context with an enclosing scope, where
  the arena has no room for the function's own scope.  If inference gives the function a type, it has
  closed the enclosing scope in place of its own, so that the variables declared there are no longer
  found, and nothing is reported, unless a forward declaration of that scope has no body.\<close>

theorem full_arena_closes_enclosing_scope:
  assumes "\<not> fst (type_context_push_scope ctx)" and "tc_scopes ctx = current # outer # rest"
    and "n_kind node = AST_FUNC" and "n_children node = param # body # others"
    and "plain_expr param" and "plain_expr body"
    and "morphl_infer_type_of_ast ops n node ctx = Some (Some t, node', ctx')"
  shows "tc_scopes ctx' = outer # rest \<and>
    (\<forall>x. type_context_lookup_var ctx' x = (if x = 0 then None else lookup_scopes (outer # rest) x)) \<and>
    (unresolved current = [] \<longrightarrow> tc_diagnostics ctx' = tc_diagnostics ctx)"
proof -
  let ?f = "morphl_infer_type_of_ast ops n" and ?c = "snd (type_context_push_scope ctx)"
  have run: "infer_func ?f node ctx = Some (Some t, node', ctx')"
    using assms(3,7) by (simp add: morphl_infer_type_of_ast.simps [of ops n node])
  obtain p param' c1 where 1: "?f param ?c = Some (p, param', c1)"
    using run assms(4) by (auto simp: infer_func_def split: bind_splits)
  have p: "p \<noteq> None" using run 1 assms(4) by (cases p) (auto simp: infer_func_def give_Some fail_at_def)
  obtain g c2 where 2: "current_func_type p c1 = (g, c2)" by fastforce
  obtain f where f: "g = Some f" using run 1 2 p assms(4)
    by (cases g) (auto simp: infer_func_def give_Some fail_at_def)
  obtain ok c3 where 3: "type_context_push_func (Some f) c2 = (ok, c3)" by fastforce
  have ok: ok using run 1 2 3 f p assms(4) by (cases ok) (auto simp: infer_func_def give_Some fail_at_def)
  obtain ps r where 4: "cell (tc_types c3) f = MORPHL_TYPE_FUNC ps r"
    using run 1 2 3 f p ok assms(4) by (auto simp: infer_func_def split: type_data.splits)
  obtain b body' c4 where 5: "?f body (type_context_set_return_type r c3) = Some (b, body', c4)"
    using run 1 2 3 4 f p ok assms(4) by (auto simp: infer_func_def split: bind_splits)
  have 6: "finish_func f p body' b c4 = Some (Some t, ctx')"
    using run 1 2 3 4 5 f p ok assms(4) by (auto simp: infer_func_def give_Some)
  then have b: "b \<noteq> None" by (cases b) (auto simp: finish_func_def func_failed_def fail_at_def)
  have c3: "tc_scopes c3 = tc_scopes c2 \<and> tc_diagnostics c3 = tc_diagnostics c2"
    using stack_fields(2) [of "Some f" c2] diagnostics_unchanged(9) [of "Some f" c2] 3 by simp
  note q1 = stays_quietD [OF plain_expr_quiet [OF assms(5)] 1] and q2 = stays_quietD [OF plain_expr_quiet [OF assms(6)] 5]
  have "tc_scopes c4 = tc_scopes ctx \<and> tc_diagnostics c4 = tc_diagnostics ctx"
    using q1 q2 p b c3 current_func_fields [OF 2] push_refused [OF assms(1)]
    by (simp add: type_context_set_return_type_def)
  with finish_func_scopes [OF 6] assms(2) show ?thesis by (auto simp: type_context_lookup_var_def)
qed

text \<open>
  \<open>x -> x\<close>, in a context with two scopes, after 1130 types have been made and the inner scope
  declares \<open>x\<close> (symbol 5, of type \<open>int\<close>): there is room for function types but not for a scope.
\<close>

definition identity_func :: ast where
  "identity_func = AstNode AST_FUNC 0 None
     [AstNode AST_IDENT 5 None [] 0 None 0 0, AstNode AST_IDENT 5 None [] 0 None 0 0] 0 None 0 0"

definition filled :: "nat \<Rightarrow> type_context \<Rightarrow> type_context" where
  "filled k ctx = ((\<lambda>c. snd (with_types morphl_type_int c)) ^^ k) ctx"

definition full_context :: type_context where
  "full_context = snd (type_context_define_var 5 (Some 0) (filled 1130 (snd (type_context_push_scope sample_context))))"

lemma filled_eq:
  assumes "tc_types ctx = \<lparr>ta_arena = \<lparr>a_cap = cap, a_off = off\<rparr>, ta_cells = cs\<rparr>" and "off + 56 * k \<le> cap"
  shows "filled k ctx = ctx\<lparr>tc_types := \<lparr>ta_arena = \<lparr>a_cap = cap, a_off = off + 56 * k\<rparr>,
    ta_cells = cs @ replicate k \<lparr>ty_size = 8, ty_align = 8, ty_data = MORPHL_TYPE_INT\<rparr>\<rparr>\<rparr>"
  using assms(2)
proof (induction k)
  case 0
  then show ?case using assms(1) by (cases ctx) (simp add: filled_def)
next
  case (Suc k)
  then have eq: "filled k ctx = ctx\<lparr>tc_types := \<lparr>ta_arena = \<lparr>a_cap = cap, a_off = off + 56 * k\<rparr>,
      ta_cells = cs @ replicate k \<lparr>ty_size = 8, ty_align = 8, ty_data = MORPHL_TYPE_INT\<rparr>\<rparr>\<rparr>" by simp
  have "filled (Suc k) ctx = snd (with_types morphl_type_int (filled k ctx))" by (simp add: filled_def)
  with Suc.prems show ?case
    unfolding eq
    by (simp add: with_types_def morphl_type_int_def alloc_type_def arena_alloc_def arena_push_def sizes
        replicate_append_same)
qed

lemma full_context_eq:
  obtains cs where "full_context = sample_defined\<lparr>tc_types := \<lparr>ta_arena = \<lparr>a_cap = 65536, a_off = 65296\<rparr>, ta_cells = cs\<rparr>\<rparr>"
    and "cs \<noteq> []" and "ty_data (cs ! 0) = MORPHL_TYPE_INT"
proof
  let ?p = "snd (type_context_push_scope sample_context)"
  let ?cs = "replicate 1130 \<lparr>ty_size = 8, ty_align = 8, ty_data = MORPHL_TYPE_INT\<rparr>"
  have p: "tc_types ?p = \<lparr>ta_arena = \<lparr>a_cap = 65536, a_off = 2016\<rparr>, ta_cells = []\<rparr>"
    by (simp add: type_context_push_scope_def sample_context_fields grow_array_def arena_alloc_def arena_push_def
        initial_capacities sizes)
  have "filled 1130 ?p = ?p\<lparr>tc_types := \<lparr>ta_arena = \<lparr>a_cap = 65536, a_off = 65296\<rparr>, ta_cells = ?cs\<rparr>\<rparr>"
    using filled_eq [OF p, of 1130] by (simp)
  moreover have "length (sc_vars (hd (tc_scopes ?p))) < sc_var_capacity (hd (tc_scopes ?p))" "tc_scopes ?p \<noteq> []"
    using scopes.push_accepted [OF sample_pushed] by (simp_all add: empty_scope_def initial_capacities)
  ultimately show "full_context = sample_defined\<lparr>tc_types := \<lparr>ta_arena = \<lparr>a_cap = 65536, a_off = 65296\<rparr>, ta_cells = ?cs\<rparr>\<rparr>"
    by (simp add: full_context_def sample_defined_def type_context_define_var_def grow_array_def set_current_def Let_def
       )
  show "?cs \<noteq> []" "ty_data (?cs ! 0) = MORPHL_TYPE_INT" by (simp_all)
qed

lemma filled_reach: "context_reach ctx \<Longrightarrow> arena_ok (tc_types ctx) \<Longrightarrow> context_reach (filled k ctx) \<and> arena_ok (tc_types (filled k ctx))"
proof (induction k)
  case (Suc k)
  let ?c = "filled k ctx"
  obtain t h where m: "morphl_type_int (tc_types ?c) = (t, h)" by fastforce
  have s: "filled (Suc k) ctx = ?c\<lparr>tc_types := h, tc_interns := tc_interns ?c, tc_diagnostics := tc_diagnostics ?c\<rparr>"
    using m by (simp add: filled_def with_types_def)
  have ok: "arena_ok h"
    using m Suc by (auto simp: morphl_type_int_def alloc_type_def arena_alloc_Some arena_ok_def split: option.splits)
  then have "context_step ?c (filled (Suc k) ctx)" unfolding s by (rule context_step.intros)
  moreover have "context_reach ?c" using Suc by simp
  ultimately have "context_reach (filled (Suc k) ctx)" by (rule reach_step [rotated])
  with ok show ?case by (simp add: s)
qed (simp add: filled_def)

lemma full_context_reach: "context_reach full_context"
proof -
  have "context_reach sample_context"
    by (rule reach_new [OF _ sample_context_new]) (simp add: arena_ok_def arena_init_def)
  then have "context_reach (snd (type_context_push_scope sample_context))"
    by (rule reach_step) (rule context_step.intros)
  moreover have "arena_ok (tc_types (snd (type_context_push_scope sample_context)))"
    using push_scope_ok [OF sample_context_ok(1)] by (simp add: context_ok_def)
  ultimately have "context_reach (filled 1130 (snd (type_context_push_scope sample_context)))"
    using filled_reach by blast
  then show ?thesis unfolding full_context_def by (rule reach_step) (rule context_step.intros)
qed

theorem full_arena_closes_enclosing_scope_witness:
  "context_reach full_context \<and>
   (\<exists>t node ctx. morphl_infer_type_of_ast [] 0 identity_func full_context = Some (Some t, node, ctx) \<and>
     type_context_lookup_var full_context 5 = Some 0 \<and> type_context_lookup_var ctx 5 = None \<and>
     length (tc_scopes full_context) = 2 \<and> tc_scopes ctx = [empty_scope] \<and>
     tc_diagnostics ctx = tc_diagnostics full_context)"
proof -
  obtain cs where eq: "full_context = sample_defined\<lparr>tc_types := \<lparr>ta_arena = \<lparr>a_cap = 65536, a_off = 65296\<rparr>, ta_cells = cs\<rparr>\<rparr>"
    and cs: "cs \<noteq> []" "ty_data (cs ! 0) = MORPHL_TYPE_INT" by (rule full_context_eq)
  let ?sc = "empty_scope\<lparr>sc_vars := [(5, Some 0)]\<rparr>"
  have scopes: "tc_scopes full_context = [?sc, empty_scope]" "type_context_lookup_var full_context 5 = Some 0"
    by (simp_all add: eq sample_defined_def type_context_define_var_def set_current_def type_context_push_scope_def
        grow_array_def arena_alloc_def arena_push_def initial_capacities sizes sample_context_fields empty_scope_def
        type_context_lookup_var_def)
  have refused: "\<not> fst (type_context_push_scope full_context)"
    by (simp add: eq type_context_push_scope_def grow_array_def arena_alloc_def arena_push_def initial_capacities sizes
        sample_defined_def type_context_define_var_def set_current_def sample_context_fields empty_scope_def)
  have "\<exists>t node ctx. morphl_infer_type_of_ast [] 0 identity_func full_context = Some (Some t, node, ctx)"
    using cs
    by (simp add: eq identity_func_def sample_defined_def type_context_define_var_def set_current_def
        infer_ident_def name_sym_def type_context_lookup_var_def nth_append
        morphl_infer_type_of_ast.simps inference_defs sample_defs sample_context_def
        type_context_new_def context_sizes_def Let_def)
  then obtain t node ctx where run: "morphl_infer_type_of_ast [] 0 identity_func full_context = Some (Some t, node, ctx)"
    by blast
  have "n_kind identity_func = AST_FUNC"
    "n_children identity_func = AstNode AST_IDENT 5 None [] 0 None 0 0 # AstNode AST_IDENT 5 None [] 0 None 0 0 # []"
    by (simp_all add: identity_func_def)
  from full_arena_closes_enclosing_scope [OF refused scopes(1) this _ _ run]
  have "tc_scopes ctx = [empty_scope]" "type_context_lookup_var ctx 5 = None" "tc_diagnostics ctx = tc_diagnostics full_context"
    by (simp_all add: empty_scope_def unresolved_def)
  with run scopes full_context_reach show ?thesis by auto
qed

text \<open>C34: a function definition ends the function around it as far as \<open>$ret\<close> is concerned.  Inference for a
  function with a type always forgets the expected return type, also when the definition stands in the
  body of another function, so that any later \<open>$ret\<close> of that body is refused as being outside of a
  function.\<close>

theorem nested_function_ends_return:
  assumes "morphl_infer_type_of_ast ops n node ctx = Some (Some t, node', ctx')" and "n_kind node = AST_FUNC"
  shows "type_context_get_return_type ctx' = None \<and>
    infer_ret m ret_node [u] ctx' = fail_at ret_node ''$ret: not inside a function'' ctx'"
proof -
  have "infer_func (morphl_infer_type_of_ast ops n) node ctx = Some (Some t, node', ctx')"
    using assms by (simp add: morphl_infer_type_of_ast.simps [of ops n node])
  then have "tc_expected_return_type ctx' = None"
    by (auto simp: infer_func_def finish_func_def func_failed_def fail_at_def make_type_def with_types_def
        type_context_set_return_type_def give_Some bind_eq_Some_conv Let_def
        split: list.splits if_splits prod.splits option.splits type_data.splits)
  then show ?thesis by (simp add: infer_ret_def type_context_get_return_type_def)
qed

text \<open>Inside of a function whose return type is the cell 0.\<close>

definition in_function :: type_context where
  "in_function = sample_context\<lparr>tc_expected_return_type := Some 0,
     tc_func_stack := \<lparr>rs_items = [Some 1], rs_capacity = 4\<rparr>\<rparr>"

theorem nested_function_ends_return_witness:
  "\<exists>t node ctx. morphl_infer_type_of_ast [] 0 sample_func in_function = Some (Some t, node, ctx) \<and>
     type_context_get_return_type in_function = Some 0 \<and>
     type_context_get_current_func ctx = type_context_get_current_func in_function \<and>
     (\<forall>ret_node u. infer_ret 1 ret_node [u] ctx = fail_at ret_node ''$ret: not inside a function'' ctx)"
proof -
  have "\<exists>t node ctx. morphl_infer_type_of_ast [] 0 sample_func in_function = Some (Some t, node, ctx) \<and>
      type_context_get_return_type in_function = Some 0 \<and>
      type_context_get_current_func ctx = type_context_get_current_func in_function"
    by (simp add: in_function_def morphl_infer_type_of_ast.simps inference_defs sample_defs sample_context_def
        type_context_new_def context_sizes_def type_context_get_current_func_def top_ref_def Let_def)
  then show ?thesis using nested_function_ends_return [of "[]" 0 sample_func in_function] by (auto simp: sample_func_def)
qed

lemma candidate_typed:
  "try_candidates ops n f cs c = Some (Some (u, x), cs', c') \<Longrightarrow> u \<noteq> None"
  by (induction cs arbitrary: c cs') (auto simp: bind_eq_Some_conv Let_def split: if_splits)

text \<open>C35: resolving an overload is silent.  Nothing that goes wrong in a candidate is reported; when no
  candidate has a type, exactly one error says so, to the sink that was installed before, which is
  installed again in either case.\<close>

theorem overload_resolution_silent:
  assumes "morphl_infer_type_of_ast ops n node ctx = Some (t, node', ctx')" and "n_kind node = AST_OVERLOAD"
    and "n_children node \<noteq> []"
  shows "get_sink ctx' = get_sink ctx \<and>
    dg_output (tc_diagnostics ctx') = dg_output (tc_diagnostics ctx) @
      (if t = None
       then written (tc_diagnostics ctx) (morphl_error_make MORPHL_E_TYPE MORPHL_SEV_ERROR (span_from_node node)
              ''no overload matches'')
       else [])"
proof -
  let ?f = "morphl_infer_type_of_ast ops n" and ?c = "set_sink (Some morphl_error_swallow) ctx"
  obtain choice cs c1 where a: "try_candidates ops n ?f (n_children node) ?c = Some (choice, cs, c1)"
    and r: "(case choice of
        None \<Rightarrow> give (set_children node cs) (fail_at node ''no overload matches'' (set_sink (get_sink ctx) c1))
      | Some (u, chosen) \<Rightarrow> Some (u, chosen, set_sink (get_sink ctx) c1)) = Some (t, node', ctx')"
    using assms by (auto simp: morphl_infer_type_of_ast.simps [of ops n node] infer_overload_def bind_eq_Some_conv Let_def)
  have "reports ?c c1"
    by (rule reporting.candidates_kept [OF a]) (auto simp: keeps_on_def intro: reporting.infer_kept)
  note 1 = reports_silenced [OF this]
  let ?d = "tc_diagnostics (set_sink (get_sink ctx) c1)"
  have d: "dg_output ?d = dg_output (tc_diagnostics ctx)" "dg_global_sink ?d = dg_global_sink (tc_diagnostics ctx)"
    "dg_files ?d = dg_files (tc_diagnostics ctx)"
    using 1 by (simp_all add: reports_def set_sink_def get_sink_def morphl_error_set_global_sink_def
        morphl_error_get_global_sink_def)
  then have w: "written ?d e = written (tc_diagnostics ctx) e" for e by (simp add: written_def split: option.split)
  show ?thesis
  proof (cases choice)
    case None
    then show ?thesis using r d w
      by (auto simp: give_Some fail_at_def error_at_def emit_def morphl_error_emit_def morphl_error_make_def written_def
          get_sink_def morphl_error_get_global_sink_def Let_def split: option.split)
  next
    case (Some p)
    then obtain u x where c: "choice = Some (u, x)" by (cases p) simp
    then have "u \<noteq> None" using a candidate_typed by blast
    then show ?thesis using r d c by (auto simp: get_sink_def morphl_error_get_global_sink_def)
  qed
qed

text \<open>One candidate, \<open>$not\<close> (symbol 9) of an undefined variable (symbol 7).\<close>

definition sample_overload :: ast where
  "sample_overload = AstNode AST_OVERLOAD 0 None
     [AstNode AST_BUILTIN 9 None [AstNode AST_IDENT 7 None [] 0 None 0 0] 0 None 0 0] 0 None 0 0"

definition sample_row :: operator_row where
  "sample_row = (builtin_row ''$not'' AST_BUILTIN False 1 1 None OP_PP_KEEP_NODE OP_NOT)\<lparr>r_sym := 9\<rparr>"

theorem overload_resolution_silent_witness:
  "\<exists>node ctx. morphl_infer_type_of_ast [sample_row] 0 sample_overload sample_context = Some (None, node, ctx) \<and>
     get_sink ctx = None \<and> length (dg_output (tc_diagnostics ctx)) = 1"
proof -
  have "\<exists>node ctx. morphl_infer_type_of_ast [sample_row] 0 sample_overload sample_context = Some (None, node, ctx)"
    by (simp add: morphl_infer_type_of_ast.simps sample_overload_def sample_row_def builtin_row_def infer_overload_def
        operator_info_lookup_def infer_ident_def name_sym_def fail_at_def type_context_lookup_var_def give_def Let_def
        sample_context_fields set_sink_def empty_scope_def)
  then show ?thesis
    using overload_resolution_silent [of "[sample_row]" 0 sample_overload sample_context None]
    by (auto simp: sample_overload_def sample_context_fields quiet_def get_sink_def
        morphl_error_get_global_sink_def written_def fallback_sink_def)
qed

end
