(* ===== verification/Typing_Rules.thy ===== *)
theory Typing_Rules
  imports Inference_Laws
begin

text \<open>
  What inference computes for expressions.  \<open>type_of\<close> gives the typing rules of the expressions
  built from literals, variables, groups and the operators that neither declare nor assign nor look
  at the enclosing block or function, as a function from the types of the variables to the tree of a
  type.  The main theorem: inference finds a type exactly when the rules give one, and it is that
  one; the rest of the context stays as it is.
\<close>

section \<open>Typing rules\<close>

definition base :: "type_data \<Rightarrow> type_tree" where
  "base d = T_Node d []"

text \<open>Operators look through references.\<close>

fun unref :: "type_tree \<Rightarrow> type_tree" where
  "unref (T_Node (MORPHL_TYPE_REF t m i) [x]) = unref x"
| "unref x = x"

definition ref_ops :: "string list" where
  "ref_ops = [''$mut'', ''$const'', ''$inline'']"

definition comparison_ops :: "string list" where
  "comparison_ops = [''$eq'', ''$neq'', ''$lt'', ''$gt'', ''$lte'', ''$gte'']"

definition logic_ops :: "string list" where
  "logic_ops = [''$and'', ''$or'']"

definition int_ops :: "string list" where
  "int_ops = [''$add'', ''$sub'', ''$mul'', ''$div'', ''$band'', ''$bor'', ''$bxor'', ''$lshift'', ''$rshift'']"

definition float_ops :: "string list" where
  "float_ops = [''$fadd'', ''$fsub'', ''$fmul'', ''$fdiv'']"

definition unary_ops :: "string list" where
  "unary_ops = ref_ops @ [''$not'', ''$bnot'']"

definition expression_ops :: "string list" where
  "expression_ops = unary_ops @ comparison_ops @ logic_ops @ int_ops @ float_ops @ [''$call'', ''$if'']"

lemmas op_lists = ref_ops_def comparison_ops_def logic_ops_def int_ops_def float_ops_def unary_ops_def
  expression_ops_def

text \<open>The type of a branch, and of a group of two branches of equal type.\<close>

fun branch_type :: "type_tree \<Rightarrow> type_tree option" where
  "branch_type (T_Node (MORPHL_TYPE_GROUP ts) xs) =
     (case xs of [x, y] \<Rightarrow> if x = y then Some x else None | _ \<Rightarrow> None)"
| "branch_type x = Some x"

fun call_type :: "type_tree \<Rightarrow> type_tree option" where
  "call_type (T_Node (MORPHL_TYPE_FUNC ps r) xs) = Some (last xs)"
| "call_type x = None"

definition unary_type :: "string \<Rightarrow> type_tree \<Rightarrow> type_tree option" where
  "unary_type b x =
     (if b \<in> set ref_ops then Some (T_Node (MORPHL_TYPE_REF None (b = ''$mut'') (b = ''$inline'')) [x])
      else if b = ''$not'' then (if unref x = base MORPHL_TYPE_BOOL then Some (base MORPHL_TYPE_BOOL) else None)
      else if b = ''$bnot'' then (if unref x = base MORPHL_TYPE_INT then Some (base MORPHL_TYPE_INT) else None)
      else None)"

definition binary_type :: "string \<Rightarrow> type_tree \<Rightarrow> type_tree \<Rightarrow> type_tree option" where
  "binary_type b x y =
     (if b \<in> set comparison_ops then (if unref x = unref y then Some (base MORPHL_TYPE_BOOL) else None)
      else if b \<in> set logic_ops
      then (if unref x = base MORPHL_TYPE_BOOL \<and> unref y = base MORPHL_TYPE_BOOL then Some (base MORPHL_TYPE_BOOL) else None)
      else if b \<in> set int_ops
      then (if unref x = base MORPHL_TYPE_INT \<and> unref y = base MORPHL_TYPE_INT then Some (base MORPHL_TYPE_INT) else None)
      else if b \<in> set float_ops
      then (if unref x = base MORPHL_TYPE_FLOAT \<and> unref y = base MORPHL_TYPE_FLOAT then Some (base MORPHL_TYPE_FLOAT) else None)
      else if b = ''$call'' then call_type (unref x)
      else if b = ''$if'' then (if unref x = base MORPHL_TYPE_BOOL then branch_type y else None)
      else None)"

definition op_type :: "string \<Rightarrow> type_tree list \<Rightarrow> type_tree option" where
  "op_type b xs =
     (case xs of
        [x] \<Rightarrow> if b \<in> set unary_ops then unary_type b x else None
      | [x, y] \<Rightarrow> if b \<in> set unary_ops then None else binary_type b x y
      | _ \<Rightarrow> None)"

text \<open>A literal: empty, in quotes, or a number, by the kind of its token and otherwise by its look.\<close>

definition literal_type :: "str \<Rightarrow> string \<Rightarrow> type_data" where
  "literal_type kind s =
     (if s = [] then MORPHL_TYPE_VOID
      else if quoted (Some s) \<or> kind = Some LEXER_KIND_STRING then MORPHL_TYPE_STRING
      else if kind = Some LEXER_KIND_FLOAT then MORPHL_TYPE_FLOAT
      else if kind = Some LEXER_KIND_NUMBER then MORPHL_TYPE_INT
      else if CHR ''.'' \<in> set s then MORPHL_TYPE_FLOAT else MORPHL_TYPE_INT)"

fun type_of :: "intern_table \<Rightarrow> (string \<Rightarrow> type_tree option) \<Rightarrow> ast \<Rightarrow> type_tree option" where
  "type_of t env (AstNode k op v cs cap fn row col) =
     (if k = AST_LITERAL then Some (base (literal_type (interns_lookup t op) (str_bytes v)))
      else if k = AST_IDENT then (case v of None \<Rightarrow> None | Some x \<Rightarrow> env x)
      else (case those (map (type_of t env) cs) of
              None \<Rightarrow> None
            | Some xs \<Rightarrow>
                if k = AST_GROUP then Some (T_Node (MORPHL_TYPE_GROUP (map (\<lambda>x. None) xs)) xs)
                else op_type (str_bytes (interns_lookup t op)) xs))"

text \<open>Where these rules apply: the names of variables are in the table, as those in a parsed file are.\<close>

fun expression :: "intern_table \<Rightarrow> ast \<Rightarrow> bool" where
  "expression t (AstNode k op v cs cap fn row col) \<longleftrightarrow>
     (case k of
        AST_LITERAL \<Rightarrow> True
      | AST_IDENT \<Rightarrow> op = 0 \<and> (\<exists>x\<in>set (t_index t). v = Some x)
      | AST_GROUP \<Rightarrow> list_all (expression t) cs
      | AST_BUILTIN \<Rightarrow> (\<exists>b\<in>set expression_ops. interns_lookup t op = Some b) \<and> list_all (expression t) cs
      | AST_CALL \<Rightarrow> (\<exists>b\<in>set expression_ops. interns_lookup t op = Some b) \<and> list_all (expression t) cs
      | AST_IF \<Rightarrow> (\<exists>b\<in>set expression_ops. interns_lookup t op = Some b) \<and> list_all (expression t) cs
      | _ \<Rightarrow> False)"

text \<open>The room inference takes from the arena: a cell for each node, and the array of a group.\<close>

fun type_room :: "ast \<Rightarrow> nat" where
  "type_room (AstNode k op v cs cap fn row col) =
     SIZEOF_TYPE + length cs * SIZEOF_POINTER + (\<Sum>c\<leftarrow>cs. type_room c)"

section \<open>Names that are known\<close>

text \<open>Interning a known name gives its symbol and may rebuild the hash slots.\<close>

lemma known_symbol:
  assumes "b \<in> set (t_index t)" obtains sy where "interns_lookup t sy = Some b" "sy \<noteq> 0"
proof -
  obtain i where "i < length (t_index t)" "t_index t ! i = b" using assms by (auto simp: in_set_conv_nth)
  then show thesis by (intro that [of "Suc i"]) (simp_all add: interns_lookup_def)
qed

lemma intern_in_known:
  assumes "table_inv (tc_interns c)" and "interns_lookup (tc_interns c) sy = Some b"
  obtains t' where "intern_in (str_from b) c = (sy, c\<lparr>tc_interns := t'\<rparr>)" "same_names (tc_interns c) t'"
proof -
  obtain t' where "interns_intern (tc_interns c) (Some b) = (sy, t')" "table_inv t'" "t_index t' = t_index (tc_interns c)"
    by (rule intern_same [OF assms])
  then show thesis by (intro that [of t']) (simp_all add: intern_in_def same_names_def str_from_def)
qed

lemma op_is_any_known:
  assumes "table_inv (tc_interns c)" and "interns_lookup (tc_interns c) op = Some b"
    and "set names \<subseteq> set (t_index (tc_interns c))"
  obtains t' where "op_is_any op names c = (b \<in> set names, c\<lparr>tc_interns := t'\<rparr>)" "same_names (tc_interns c) t'"
  using assms
proof (induction names arbitrary: c thesis)
  case Nil
  then show ?case by (intro Nil.prems(1) [of "tc_interns c"]) (simp_all add: same_names_refl)
next
  case (Cons a names)
  then obtain sy where sy: "interns_lookup (tc_interns c) sy = Some a" by (auto elim: known_symbol)
  then obtain t1 where t1: "intern_in (str_from a) c = (sy, c\<lparr>tc_interns := t1\<rparr>)" "same_names (tc_interns c) t1"
    using intern_in_known [OF Cons.prems(2)] by blast
  have eq: "op = sy \<longleftrightarrow> b = a"
    using sy Cons.prems(3) st.lookup_inj [OF Cons.prems(2)] by (metis option.inject)
  show ?case
  proof (cases "b = a")
    case False
    obtain t2 where "op_is_any op names (c\<lparr>tc_interns := t1\<rparr>) = (b \<in> set names, c\<lparr>tc_interns := t1\<rparr>\<lparr>tc_interns := t2\<rparr>)"
      "same_names (tc_interns (c\<lparr>tc_interns := t1\<rparr>)) t2"
      using Cons.prems(2-4) same_names_inv [OF t1(2)] same_names_lookup [OF t1(2)]
      by (rule_tac Cons.IH [of "c\<lparr>tc_interns := t1\<rparr>"]) auto
    then show ?thesis using t1 eq False by (intro Cons.prems(1) [of t2]) (auto intro: same_names_trans)
  next
    case True
    then show ?thesis using t1 eq by (intro Cons.prems(1) [of t1]) auto
  qed
qed

lemma dispatch_known:
  assumes "table_inv (tc_interns c)" and "interns_lookup (tc_interns c) op = Some b"
    and "\<forall>r\<in>set rules. set (fst r) \<subseteq> set (t_index (tc_interns c))"
  obtains t' where "same_names (tc_interns c) t'"
    "dispatch_op op rules otherwise c =
      (case find (\<lambda>r. b \<in> set (fst r)) rules of None \<Rightarrow> otherwise | Some r \<Rightarrow> snd r) (c\<lparr>tc_interns := t'\<rparr>)"
  using assms
proof (induction rules arbitrary: c thesis)
  case Nil
  then show ?case by (intro Nil.prems(1) [of "tc_interns c"]) (simp_all add: same_names_refl)
next
  case (Cons r rules)
  obtain names rule where r: "r = (names, rule)" by (rule prod.exhaust)
  then obtain t1 where t1: "op_is_any op names c = (b \<in> set names, c\<lparr>tc_interns := t1\<rparr>)" "same_names (tc_interns c) t1"
    using op_is_any_known [OF Cons.prems(2,3), of names] Cons.prems(4) by auto
  show ?case
  proof (cases "b \<in> set names")
    case False
    obtain t2 where "same_names (tc_interns (c\<lparr>tc_interns := t1\<rparr>)) t2"
      "dispatch_op op rules otherwise (c\<lparr>tc_interns := t1\<rparr>) =
      (case find (\<lambda>r. b \<in> set (fst r)) rules of None \<Rightarrow> otherwise | Some r \<Rightarrow> snd r) (c\<lparr>tc_interns := t1\<rparr>\<lparr>tc_interns := t2\<rparr>)"
      using Cons.prems(2-4) same_names_inv [OF t1(2)] same_names_lookup [OF t1(2)]
      by (rule_tac Cons.IH [of "c\<lparr>tc_interns := t1\<rparr>"]) auto
    then show ?thesis using t1 r False by (intro Cons.prems(1) [of t2]) (auto intro: same_names_trans)
  next
    case True
    then show ?thesis using t1 r by (intro Cons.prems(1) [of t1]) auto
  qed
qed

lemma intern_all_known:
  assumes "table_inv (tc_interns c)" and "list_all2 (\<lambda>name sy. interns_lookup (tc_interns c) sy = Some name) names sys"
  obtains t' where "intern_all names c = (sys, c\<lparr>tc_interns := t'\<rparr>)" "same_names (tc_interns c) t'"
  using assms(2,1)
proof (induction names arbitrary: sys c thesis)
  case Nil
  then show ?case by (intro Nil.prems(1) [of "tc_interns c"]) (simp_all add: same_names_refl)
next
  case (Cons a names)
  then obtain sy sys' where sys: "sys = sy # sys'" "interns_lookup (tc_interns c) sy = Some a"
    "list_all2 (\<lambda>name sy. interns_lookup (tc_interns c) sy = Some name) names sys'" by (auto simp: list_all2_Cons1)
  obtain t1 where t1: "intern_in (str_from a) c = (sy, c\<lparr>tc_interns := t1\<rparr>)" "same_names (tc_interns c) t1"
    using intern_in_known [OF Cons.prems(3) sys(2)] by blast
  obtain t2 where "intern_all names (c\<lparr>tc_interns := t1\<rparr>) = (sys', c\<lparr>tc_interns := t1\<rparr>\<lparr>tc_interns := t2\<rparr>)"
      "same_names (tc_interns (c\<lparr>tc_interns := t1\<rparr>)) t2"
    using sys(3) same_names_inv [OF t1(2)] same_names_lookup [OF t1(2)]
    by (rule_tac Cons.IH [of "c\<lparr>tc_interns := t1\<rparr>"]) auto
  then show ?case using t1 sys(1) by (intro Cons.prems(1) [of t2]) (auto intro: same_names_trans)
qed

lemma registry_names:
  assumes "registry_inv ops t" and "b \<in> r_name ` set kBuiltinOps"
  shows "b \<in> set (t_index t)"
proof -
  have "set kBuiltinOps = row_shape ` set ops" using assms(1) by (metis registry_inv_def set_map)
  then obtain q where q: "q \<in> set ops" "r_name q = b" using assms(2) by auto
  then show ?thesis using st.lookup_mem [OF registry_row(2) [OF assms(1) q(1)]] by simp
qed

text \<open>The names of the operators and the numbers of their arguments, from the table.\<close>

definition arity :: "string \<Rightarrow> nat" where
  "arity b = (if b \<in> set unary_ops then 1 else 2)"

lemma expression_ops_arity:
  "\<forall>b\<in>set expression_ops. \<exists>r. find (\<lambda>r. r_name r = b) kBuiltinOps = Some r \<and> r_min_args r = arity b \<and> r_max_args r = arity b"
  unfolding op_lists arity_def kBuiltinOps_def builtin_row_def by simp

lemma rule_names: "\<forall>r\<in>set (op_rules n node op op_name args). set (fst r) \<subseteq> r_name ` set kBuiltinOps"
  unfolding op_rules_def kBuiltinOps_def builtin_row_def by simp

lemma op_type_arity: "length xs \<noteq> arity b \<Longrightarrow> op_type b xs = None"
  by (auto simp: op_type_def arity_def split: list.split)

section \<open>Types in the heap\<close>

text \<open>A pointer to a cell with the finite tree \<open>x\<close>, which has no \<open>NULL\<close>.\<close>

definition denotes :: "nat \<Rightarrow> type_arena \<Rightarrow> nat \<Rightarrow> type_tree \<Rightarrow> bool" where
  "denotes n h p x \<longleftrightarrow> p < length (ta_cells h) \<and> abs_type n h (Some p) = Some x \<and> complete x"

text \<open>The context with new cells, and hash slots that may have been rebuilt.\<close>

definition extends :: "type_context \<Rightarrow> type_context \<Rightarrow> bool" where
  "extends c c' \<longleftrightarrow> (\<exists>h t. c' = c\<lparr>tc_types := h, tc_interns := t\<rparr> \<and> heap_ext (tc_types c) h \<and>
     closed_from 0 h \<and> same_names (tc_interns c) t)"

definition room_used :: "type_context \<Rightarrow> nat" where
  "room_used c = a_off (ta_arena (tc_types c))"

definition room_total :: "type_context \<Rightarrow> nat" where
  "room_total c = a_cap (ta_arena (tc_types c))"

lemma denotes_ext:
  "denotes n h p x \<Longrightarrow> heap_ext h h' \<Longrightarrow> closed_from 0 h \<Longrightarrow> n \<le> m \<Longrightarrow> denotes m h' p x"
  using abs_type_ext [of h h' 0 "Some p" n] heap_ext_length [of h h'] abs_type_mono [of n h' "Some p" x m]
  by (auto simp: denotes_def)

lemma extends_same:
  "closed_from 0 (tc_types c) \<Longrightarrow> same_names (tc_interns c) t \<Longrightarrow> extends c (c\<lparr>tc_interns := t\<rparr>)"
  by (auto simp: extends_def intro!: exI [of _ "tc_types c"])

lemma extends_trans: "extends a b \<Longrightarrow> extends b c \<Longrightarrow> extends a c"
  by (force simp: extends_def intro: heap_ext_trans same_names_trans)

lemma extendsD:
  assumes "extends c c'"
  shows "heap_ext (tc_types c) (tc_types c')" "closed_from 0 (tc_types c')" "same_names (tc_interns c) (tc_interns c')"
    "room_total c' = room_total c" "type_context_lookup_var c' = type_context_lookup_var c"
  using assms by (auto simp: extends_def room_total_def heap_ext_def type_context_lookup_var_def fun_eq_iff)

text \<open>A constructor with room for the cell and its arrays.\<close>

lemma with_arrays_fits:
  assumes "0 \<notin> set ns" and "a_off (ta_arena h) + sum_list ns \<le> a_cap (ta_arena h)"
  shows "\<exists>h'. with_arrays ns (Some p, h) = (Some p, h') \<and> ta_cells h' = ta_cells h \<and>
    a_cap (ta_arena h') = a_cap (ta_arena h) \<and> a_off (ta_arena h') = a_off (ta_arena h) + sum_list ns"
  using assms
proof (induction ns arbitrary: h)
  case (Cons n ns)
  then obtain h1 where h1: "arena_alloc h n = Some h1" by (simp add: arena_alloc_def arena_push_def)
  note f = h1 [unfolded arena_alloc_Some]
  have "a_off (ta_arena h1) + sum_list ns \<le> a_cap (ta_arena h1)" using f Cons.prems(2) by simp
  then obtain h2 where "with_arrays ns (Some p, h1) = (Some p, h2)" "ta_cells h2 = ta_cells h1"
      "a_cap (ta_arena h2) = a_cap (ta_arena h1)" "a_off (ta_arena h2) = a_off (ta_arena h1) + sum_list ns"
    using Cons.IH [of h1] Cons.prems(1) by auto
  then show ?case using f by (intro exI [of _ h2]) (simp add: h1)
qed simp

lemma alloc_fits:
  assumes "0 \<notin> set ns" and "a_off (ta_arena h) + SIZEOF_TYPE + sum_list ns \<le> a_cap (ta_arena h)"
    and "closed_from 0 h" and "\<forall>q. Some q \<in> set (all_refs d) \<longrightarrow> q < length (ta_cells h)"
  obtains h' where "with_arrays ns (alloc_type sz al d h) = (Some (length (ta_cells h)), h')"
    "heap_ext h h'" "closed_from 0 h'" "length (ta_cells h') = Suc (length (ta_cells h))"
    "cell h' (length (ta_cells h)) = d" "a_off (ta_arena h') = a_off (ta_arena h) + SIZEOF_TYPE + sum_list ns"
proof -
  obtain t h1 where a: "alloc_type sz al d h = (t, h1)" by (rule prod.exhaust)
  have h1: "t = Some (length (ta_cells h))" "heap_ext h h1" "length (ta_cells h1) = Suc (length (ta_cells h))"
    "cell h1 (length (ta_cells h)) = d" "a_off (ta_arena h1) = a_off (ta_arena h) + SIZEOF_TYPE"
    using alloc_type_cases [OF a] assms(2) by auto
  then have "a_off (ta_arena h1) + sum_list ns \<le> a_cap (ta_arena h1)" using assms(2) by (simp add: heap_ext_def)
  from with_arrays_fits [OF assms(1) this, of "length (ta_cells h)"]
  obtain h2 where h2: "with_arrays ns (Some (length (ta_cells h)), h1) = (Some (length (ta_cells h)), h2)"
    "ta_cells h2 = ta_cells h1" "a_cap (ta_arena h2) = a_cap (ta_arena h1)"
    "a_off (ta_arena h2) = a_off (ta_arena h1) + sum_list ns" by blast
  have e: "heap_ext h h2" using h1(2) h2 by (simp add: heap_ext_def)
  have c: "cell h2 (length (ta_cells h)) = d" using h1(4) h2(2) by (simp add: cell_def)
  have "closed_from 0 h2" using assms(3) e by (rule closed_snoc) (use h1(3) h2(2) c assms(4) in auto)
  then show thesis using that [of h2] h1 h2 e c a by simp
qed

lemma denotes_new:
  assumes "heap_ext h h'" and "closed_from 0 h" and "length (ta_cells h') = Suc (length (ta_cells h))"
    and "cell h' (length (ta_cells h)) = d"
    and "list_all2 (\<lambda>r x. \<exists>q. r = Some q \<and> denotes n h q x) (all_refs d) xs"
  shows "denotes (Suc n) h' (length (ta_cells h)) (T_Node (erase d) xs)"
proof -
  have "list_all2 (\<lambda>r x. abs_type n h' r = Some x) (all_refs d) xs"
    using assms(5) by (rule list.rel_mono_strong) (use denotes_ext [OF _ assms(1,2)] in \<open>auto simp: denotes_def\<close>)
  then have "those (map (abs_type n h') (all_refs d)) = Some xs" by (simp add: those_map_Some)
  moreover have "\<forall>x\<in>set xs. complete x"
    using assms(5) by (auto simp: list_all2_conv_all_nth in_set_conv_nth denotes_def)
  ultimately show ?thesis using assms(3,4) by (simp add: denotes_def)
qed

text \<open>References are looked through.\<close>

lemma unwrap_denotes:
  "denotes n h p x \<Longrightarrow> closed_from 0 h \<Longrightarrow> \<exists>q. unwrap_ref n h (Some p) = Some (Some q) \<and> denotes n h q (unref x)"
proof (induction n arbitrary: p x)
  case (Suc n)
  obtain xs where x: "x = T_Node (erase (cell h p)) xs" "those (map (abs_type n h) (all_refs (cell h p))) = Some xs"
    using Suc.prems(1) by (auto simp: denotes_def)
  have p: "p < length (ta_cells h)" "\<forall>x\<in>set xs. complete x" using Suc.prems(1) x by (auto simp: denotes_def)
  show ?case
  proof (cases "cell h p")
    case (MORPHL_TYPE_REF t m i)
    then obtain y where y: "abs_type n h t = Some y" "xs = [y]" using x(2) by (auto split: option.splits)
    then obtain q where q: "t = Some q" using p(2) by (cases t; cases n) auto
    have "q < length (ta_cells h)" using closed_fromD [OF Suc.prems(2), of p q] p(1) MORPHL_TYPE_REF q by simp
    then have "denotes n h q y" using y p(2) q by (simp add: denotes_def)
    then obtain r where r: "unwrap_ref n h (Some q) = Some (Some r)" "denotes n h r (unref y)"
      using Suc.IH Suc.prems(2) by blast
    have "denotes (Suc n) h r (unref y)" using denotes_ext [OF r(2) heap_ext_refl Suc.prems(2)] by simp
    then show ?thesis using r(1) MORPHL_TYPE_REF q x(1) y(2) by simp
  qed (use Suc.prems(1) x in simp_all)
qed (simp add: denotes_def)

lemma unwrap_more: "unwrap_ref n h t = Some u \<Longrightarrow> n \<le> N \<Longrightarrow> unwrap_ref N h t = Some u"
proof (induction n arbitrary: N t)
  case (Suc n)
  then obtain M where M: "N = Suc M" "n \<le> M" by (cases N) auto
  show ?case
  proof (cases t)
    case (Some p)
    show ?thesis
    proof (cases "cell h p")
      case (MORPHL_TYPE_REF q m i)
      then show ?thesis using Some M Suc.prems(1) Suc.IH [of q M] by (cases q) auto
    qed (use Some M Suc.prems(1) in auto)
  qed (use M Suc.prems(1) in simp)
qed simp

lemma equals_denotes:
  assumes "denotes n h p x" and "denotes n h q y" and "closed_from 0 h" and "n \<le> N"
  shows "morphl_type_equals N h (Some p) (Some q) = Some (x = y)"
  using denotes_ext [OF assms(1) heap_ext_refl assms(3,4)] denotes_ext [OF assms(2) heap_ext_refl assms(3,4)]
  by (simp add: denotes_def equals_abs_same)

section \<open>The rules of the operators\<close>

text \<open>
  A result of inference in \<open>c\<close>: none, reported or not, when the rules give none, and otherwise a
  pointer that denotes the type, in an extension of \<open>c\<close> that took at most \<open>room\<close> bytes.
\<close>

definition op_result ::
    "nat \<Rightarrow> type_context \<Rightarrow> nat \<Rightarrow> type_tree option \<Rightarrow> (tref \<times> type_context) option \<Rightarrow> bool" where
  "op_result m c room xo r \<longleftrightarrow>
     (case xo of
        None \<Rightarrow> \<exists>c'. r = Some (None, c')
      | Some x \<Rightarrow> \<exists>p c'. r = Some (Some p, c') \<and> extends c c' \<and> denotes m (tc_types c') p x \<and>
                    room_used c' \<le> room_used c + room)"

text \<open>A context in which there is room for \<open>room\<close> bytes.\<close>

definition ready :: "type_context \<Rightarrow> nat \<Rightarrow> bool" where
  "ready c room \<longleftrightarrow> table_inv (tc_interns c) \<and> closed_from 0 (tc_types c) \<and> room_used c + room \<le> room_total c"

lemma op_result_fail: "op_result m c room None (fail_at node msg c')"
  by (simp add: op_result_def fail_at_def)

lemma op_result_mono:
  assumes "op_result m c room xo r" and "m \<le> m'" and "room \<le> room'"
  shows "op_result m' c room' xo r"
proof (cases xo)
  case (Some x)
  then obtain p c' where p: "r = Some (Some p, c')" "extends c c'" "denotes m (tc_types c') p x"
    "room_used c' \<le> room_used c + room" using assms(1) by (auto simp: op_result_def)
  have "denotes m' (tc_types c') p x"
    by (rule denotes_ext [OF p(3) heap_ext_refl extendsD(2) [OF p(2)] assms(2)])
  then show ?thesis using p Some assms(3) by (auto simp: op_result_def)
qed (use assms in \<open>simp add: op_result_def\<close>)

lemma op_result_same:
  assumes "op_result m (c\<lparr>tc_interns := t\<rparr>) room xo r" and "same_names (tc_interns c) t" and "closed_from 0 (tc_types c)"
  shows "op_result m c room xo r"
  using assms extends_trans [OF extends_same [OF assms(3,2)]]
  by (auto simp: op_result_def room_used_def split: option.splits)

lemma op_result_made:
  assumes "ready c (SIZEOF_TYPE + sum_list ns)" and "0 \<notin> set ns"
    and "list_all2 (\<lambda>r x. \<exists>q. r = Some q \<and> denotes n (tc_types c) q x) (all_refs d) xs"
    and "mk = (\<lambda>h. with_arrays ns (alloc_type sz al d h))" and "x = T_Node (erase d) xs"
  shows "op_result (Suc n) c (SIZEOF_TYPE + sum_list ns) (Some x) (make_type mk c)"
proof -
  let ?h = "tc_types c"
  have r: "a_off (ta_arena ?h) + SIZEOF_TYPE + sum_list ns \<le> a_cap (ta_arena ?h)" and cl: "closed_from 0 ?h"
    using assms(1) by (simp_all add: ready_def room_used_def room_total_def)
  have v: "\<forall>q. Some q \<in> set (all_refs d) \<longrightarrow> q < length (ta_cells ?h)"
    using assms(3) by (fastforce simp: list_all2_conv_all_nth in_set_conv_nth denotes_def)
  obtain h' where h': "with_arrays ns (alloc_type sz al d ?h) = (Some (length (ta_cells ?h)), h')"
    "heap_ext ?h h'" "closed_from 0 h'" "length (ta_cells h') = Suc (length (ta_cells ?h))"
    "cell h' (length (ta_cells ?h)) = d" "a_off (ta_arena h') = a_off (ta_arena ?h) + SIZEOF_TYPE + sum_list ns"
    by (rule alloc_fits [OF assms(2) r cl v])
  have "extends c (c\<lparr>tc_types := h'\<rparr>)"
    using h'(2,3) assms(1) by (auto simp: extends_def ready_def intro!: exI [of _ h'] exI [of _ "tc_interns c"] same_names_refl)
  moreover have "denotes (Suc n) h' (length (ta_cells ?h)) x"
    unfolding assms(5) by (rule denotes_new [OF h'(2) cl h'(4,5) assms(3)])
  ultimately show ?thesis
    using h'(1,6) assms(4) by (auto simp: op_result_def make_type_def with_types_def room_used_def)
qed

lemma op_result_base:
  assumes "ready c SIZEOF_TYPE" and "all_refs d = []" and "erase d = d"
    and "mk = alloc_type sz al d" and "0 < m"
  shows "op_result m c SIZEOF_TYPE (Some (base d)) (make_type mk c)"
proof -
  have "op_result (Suc 0) c (SIZEOF_TYPE + sum_list []) (Some (base d)) (make_type mk c)"
    by (rule op_result_made [where sz = sz and al = al and d = d and xs = "[]"])
      (use assms in \<open>simp_all add: base_def\<close>)
  then show ?thesis using assms(5) by (auto intro: op_result_mono)
qed

lemma op_result_bases:
  assumes "ready c SIZEOF_TYPE" and "0 < m"
  shows "op_result m c SIZEOF_TYPE (Some (base MORPHL_TYPE_BOOL)) (make_type morphl_type_bool c)"
    "op_result m c SIZEOF_TYPE (Some (base MORPHL_TYPE_INT)) (make_type morphl_type_int c)"
    "op_result m c SIZEOF_TYPE (Some (base MORPHL_TYPE_FLOAT)) (make_type morphl_type_float c)"
    "op_result m c SIZEOF_TYPE (Some (base MORPHL_TYPE_STRING)) (make_type morphl_type_string c)"
    "op_result m c SIZEOF_TYPE (Some (base MORPHL_TYPE_VOID)) (make_type morphl_type_void c)"
  by (rule op_result_base [OF assms(1) _ _ _ assms(2)];
      simp add: morphl_type_bool_def morphl_type_int_def morphl_type_float_def morphl_type_string_def morphl_type_void_def)+

lemma is_kind_denotes:
  assumes "denotes n (tc_types c) p x" and "all_refs d = []" and "erase d = d" and "d \<noteq> MORPHL_TYPE_TRAIT 0"
  shows "is_kind c (Some p) d \<longleftrightarrow> x = base d"
proof -
  obtain k xs where k: "n = Suc k" "x = T_Node (erase (cell (tc_types c) p)) xs"
    "those (map (abs_type k (tc_types c)) (all_refs (cell (tc_types c) p))) = Some xs"
    using assms(1) by (cases n) (auto simp: denotes_def)
  have "erase d' = d \<longleftrightarrow> d' = d" for d' using assms(2-4) by (cases d'; cases d) auto
  then show ?thesis using k assms by (auto simp: is_kind_def base_def)
qed

lemma unwrap_args:
  assumes "denotes n (tc_types c) p x" and "closed_from 0 (tc_types c)" and "n \<le> N"
  obtains q where "unwrap_ref N (tc_types c) (Some p) = Some (Some q)" "denotes n (tc_types c) q (unref x)"
  using unwrap_denotes [OF assms(1,2)] unwrap_more [OF _ assms(3)] by blast

text \<open>Two arguments, \<open>p\<close> of type \<open>x\<close> and \<open>q\<close> of type \<open>y\<close>; one argument, \<open>p\<close> of type \<open>x\<close>.\<close>

lemma rule_binary:
  assumes nN: "n \<le> N" and p: "denotes n (tc_types c) p x" and q: "denotes n (tc_types c) q y" and c: "ready c SIZEOF_TYPE"
    and d: "all_refs d = []" "erase d = d" "d \<noteq> MORPHL_TYPE_TRAIT 0"
    and mk: "op_result (Suc n) c SIZEOF_TYPE (Some (base d)) (make_type mk c)"
  shows "op_result (Suc n) c SIZEOF_TYPE
      (if unref x = base d \<and> unref y = base d then Some (base d) else None)
      (infer_binary N node label op_name d kind_text mk [Some p, Some q] c)"
proof -
  have cl: "closed_from 0 (tc_types c)" using c by (simp add: ready_def)
  obtain p' where p': "unwrap_ref N (tc_types c) (Some p) = Some (Some p')" "denotes n (tc_types c) p' (unref x)"
    by (rule unwrap_args [OF p cl nN])
  obtain q' where q': "unwrap_ref N (tc_types c) (Some q) = Some (Some q')" "denotes n (tc_types c) q' (unref y)"
    by (rule unwrap_args [OF q cl nN])
  show ?thesis
    using p'(1) q'(1) is_kind_denotes [OF p'(2) d] is_kind_denotes [OF q'(2) d] mk op_result_fail
    by (auto simp: infer_binary_def)
qed

lemma rule_comparison:
  assumes nN: "n \<le> N" and p: "denotes n (tc_types c) p x" and q: "denotes n (tc_types c) q y" and c: "ready c SIZEOF_TYPE"
  shows "op_result (Suc n) c SIZEOF_TYPE
      (if unref x = unref y then Some (base MORPHL_TYPE_BOOL) else None)
      (infer_comparison N node op_name [Some p, Some q] c)"
proof -
  have cl: "closed_from 0 (tc_types c)" using c by (simp add: ready_def)
  obtain p' where p': "unwrap_ref N (tc_types c) (Some p) = Some (Some p')" "denotes n (tc_types c) p' (unref x)"
    by (rule unwrap_args [OF p cl nN])
  obtain q' where q': "unwrap_ref N (tc_types c) (Some q) = Some (Some q')" "denotes n (tc_types c) q' (unref y)"
    by (rule unwrap_args [OF q cl nN])
  show ?thesis
    using p'(1) q'(1) equals_denotes [OF p'(2) q'(2) cl nN] op_result_bases(1) [OF c] op_result_fail
    by (auto simp: infer_comparison_def types_comparable_def)
qed

lemma rule_logic:
  assumes nN: "n \<le> N" and p: "denotes n (tc_types c) p x" and q: "denotes n (tc_types c) q y" and c: "ready c SIZEOF_TYPE"
  shows "op_result (Suc n) c SIZEOF_TYPE
      (if unref x = base MORPHL_TYPE_BOOL \<and> unref y = base MORPHL_TYPE_BOOL then Some (base MORPHL_TYPE_BOOL) else None)
      (infer_logic N node op_name [Some p, Some q] c)"
proof -
  have cl: "closed_from 0 (tc_types c)" using c by (simp add: ready_def)
  obtain p' where p': "unwrap_ref N (tc_types c) (Some p) = Some (Some p')" "denotes n (tc_types c) p' (unref x)"
    by (rule unwrap_args [OF p cl nN])
  obtain q' where q': "unwrap_ref N (tc_types c) (Some q) = Some (Some q')" "denotes n (tc_types c) q' (unref y)"
    by (rule unwrap_args [OF q cl nN])
  show ?thesis
    using p'(1) q'(1) is_kind_denotes [OF p'(2), of MORPHL_TYPE_BOOL] is_kind_denotes [OF q'(2), of MORPHL_TYPE_BOOL]
      op_result_bases(1) [OF c] op_result_fail
    by (auto simp: infer_logic_def)
qed

lemma rule_unary:
  assumes nN: "n \<le> N" and p: "denotes n (tc_types c) p x" and c: "ready c SIZEOF_TYPE"
    and d: "all_refs d = []" "erase d = d" "d \<noteq> MORPHL_TYPE_TRAIT 0"
    and mk: "op_result (Suc n) c SIZEOF_TYPE (Some (base d)) (make_type mk c)"
  shows "op_result (Suc n) c SIZEOF_TYPE (if unref x = base d then Some (base d) else None)
      (infer_unary N node name d kind_text mk [Some p] c)"
proof -
  have cl: "closed_from 0 (tc_types c)" using c by (simp add: ready_def)
  obtain p' where p': "unwrap_ref N (tc_types c) (Some p) = Some (Some p')" "denotes n (tc_types c) p' (unref x)"
    by (rule unwrap_args [OF p cl nN])
  show ?thesis using p'(1) is_kind_denotes [OF p'(2) d] mk op_result_fail by (auto simp: infer_unary_def)
qed

lemma rule_ref:
  assumes p: "denotes n (tc_types c) p x" and c: "ready c SIZEOF_TYPE"
    and b: "interns_lookup (tc_interns c) op = Some b" "{''$mut'', ''$inline''} \<subseteq> set (t_index (tc_interns c))"
  shows "op_result (Suc n) c SIZEOF_TYPE
      (Some (T_Node (MORPHL_TYPE_REF None (b = ''$mut'') (b = ''$inline'')) [x]))
      (infer_ref_op node op op_name [Some p] c)"
proof -
  have inv: "table_inv (tc_interns c)" and cl: "closed_from 0 (tc_types c)" using c by (simp_all add: ready_def)
  have known: "''$mut'' \<in> set (t_index (tc_interns c))" "''$inline'' \<in> set (t_index (tc_interns c))" using b(2) by simp_all
  obtain m where m: "interns_lookup (tc_interns c) m = Some ''$mut''" by (rule known_symbol [OF known(1)])
  obtain i where i: "interns_lookup (tc_interns c) i = Some ''$inline''" by (rule known_symbol [OF known(2)])
  note mi = m i
  obtain t1 where t1: "intern_in (str_from ''$mut'') c = (m, c\<lparr>tc_interns := t1\<rparr>)" "same_names (tc_interns c) t1"
    by (rule intern_in_known [OF inv mi(1)])
  have i1: "interns_lookup (tc_interns (c\<lparr>tc_interns := t1\<rparr>)) i = Some ''$inline''"
    and inv1: "table_inv (tc_interns (c\<lparr>tc_interns := t1\<rparr>))"
    using mi(2) same_names_lookup [OF t1(2)] same_names_inv(1) [OF t1(2)] by simp_all
  obtain t2 where t2: "intern_in (str_from ''$inline'') (c\<lparr>tc_interns := t1\<rparr>) = (i, c\<lparr>tc_interns := t1\<rparr>\<lparr>tc_interns := t2\<rparr>)"
    "same_names (tc_interns (c\<lparr>tc_interns := t1\<rparr>)) t2" by (rule intern_in_known [OF inv1 i1])
  have same: "same_names (tc_interns c) t2" using t1(2) t2(2) by (simp add: same_names_def)
  have ops: "op = m \<longleftrightarrow> b = ''$mut''" "op = i \<longleftrightarrow> b = ''$inline''"
    using b(1) mi st.lookup_inj [OF inv] by (metis option.inject)+
  have "ready (c\<lparr>tc_interns := t2\<rparr>) (SIZEOF_TYPE + sum_list [])"
    using c same_names_inv(1) [OF same] by (simp add: ready_def room_used_def room_total_def)
  then have "op_result (Suc n) (c\<lparr>tc_interns := t2\<rparr>) (SIZEOF_TYPE + sum_list [])
      (Some (T_Node (MORPHL_TYPE_REF None (b = ''$mut'') (b = ''$inline'')) [x]))
      (make_type (morphl_type_ref (Some p) (b = ''$mut'') (b = ''$inline'')) (c\<lparr>tc_interns := t2\<rparr>))"
    by (rule op_result_made [where sz = 8 and al = 8 and
          d = "MORPHL_TYPE_REF (Some p) (b = ''$mut'') (b = ''$inline'')" and xs = "[x]" and n = n])
      (use p in \<open>simp_all add: morphl_type_ref_def fun_eq_iff\<close>)
  then show ?thesis using op_result_same [OF _ same cl] t1 t2 ops by (simp add: infer_ref_op_def)
qed

lemma op_result_given:
  assumes "denotes n (tc_types c) p x" and "ready c 0"
  shows "op_result (Suc n) c room (Some x) (Some (Some p, c))"
  using assms denotes_ext [OF assms(1) heap_ext_refl, of "Suc n"] extends_same [of c "tc_interns c"] same_names_refl
  by (auto simp: op_result_def ready_def)

lemma denotes_child:
  assumes "denotes n h p x" and "closed_from 0 h" and "x = T_Node d xs" and "i < length xs"
  obtains q where "all_refs (cell h p) ! i = Some q" "denotes n h q (xs ! i)"
proof -
  obtain k where k: "n = Suc k" "those (map (abs_type k h) (all_refs (cell h p))) = Some xs"
    using assms(1,3) by (cases n) (auto simp: denotes_def)
  then have i: "abs_type k h (all_refs (cell h p) ! i) = Some (xs ! i)" "i < length (all_refs (cell h p))"
    using assms(4) by (auto simp: those_map_Some list_all2_conv_all_nth)
  have "complete (xs ! i)" using assms(1,3,4) by (simp add: denotes_def)
  then obtain q where q: "all_refs (cell h p) ! i = Some q" using i by (cases "all_refs (cell h p) ! i"; cases k) auto
  then have "Some q \<in> set (all_refs (cell h p))" using i(2) nth_mem by metis
  then have "q < length (ta_cells h)" using closed_fromD [OF assms(2), of p q] assms(1) by (simp add: denotes_def)
  then have "denotes k h q (xs ! i)" using i q \<open>complete (xs ! i)\<close> by (simp add: denotes_def)
  then have "denotes n h q (xs ! i)" using denotes_ext [OF _ heap_ext_refl assms(2)] k(1) by simp
  with q show thesis by (rule that)
qed

lemma denotes_node:
  assumes "denotes n h p x"
  obtains xs where "x = T_Node (erase (cell h p)) xs" "length xs = length (all_refs (cell h p))"
  using assms by (cases n) (auto simp: denotes_def those_map_Some dest: list_all2_lengthD)

lemma rule_call:
  assumes nN: "n \<le> N" and p: "denotes n (tc_types c) p x" and c: "ready c 0"
  shows "op_result (Suc n) c room (call_type (unref x)) (infer_call N node [Some p, a] c)"
proof -
  have cl: "closed_from 0 (tc_types c)" using c by (simp add: ready_def)
  obtain f where f: "unwrap_ref N (tc_types c) (Some p) = Some (Some f)" "denotes n (tc_types c) f (unref x)"
    by (rule unwrap_args [OF p cl nN])
  obtain xs where xs: "unref x = T_Node (erase (cell (tc_types c) f)) xs" "length xs = length (all_refs (cell (tc_types c) f))"
    by (rule denotes_node [OF f(2)])
  show ?thesis
  proof (cases "cell (tc_types c) f")
    case (MORPHL_TYPE_FUNC ps r)
    then have len: "length xs = Suc (length ps)" using xs(2) by simp
    then obtain q where "all_refs (cell (tc_types c) f) ! length ps = Some q" "denotes n (tc_types c) q (xs ! length ps)"
      using denotes_child [OF f(2) cl xs(1), of "length ps"] by auto
    moreover have "xs \<noteq> []" using len by auto
    moreover have "last xs = xs ! length ps" using len \<open>xs \<noteq> []\<close> by (simp add: last_conv_nth)
    ultimately have "r = Some q" "denotes n (tc_types c) q (last xs)" "xs \<noteq> []"
      using MORPHL_TYPE_FUNC by simp_all
    then show ?thesis using MORPHL_TYPE_FUNC f(1) xs(1) op_result_given [OF _ c] by (simp add: infer_call_def)
  qed (use f(1) xs(1) op_result_fail in \<open>simp_all add: infer_call_def\<close>)
qed

lemma rule_branches:
  assumes nN: "n \<le> N" and q: "denotes n (tc_types c) q y" and c: "ready c 0"
  shows "op_result (Suc n) c room (branch_type y) (infer_branches N node (Some q) c)"
proof -
  have cl: "closed_from 0 (tc_types c)" using c by (simp add: ready_def)
  obtain xs where xs: "y = T_Node (erase (cell (tc_types c) q)) xs" "length xs = length (all_refs (cell (tc_types c) q))"
    by (rule denotes_node [OF q])
  show ?thesis
  proof (cases "cell (tc_types c) q")
    case (MORPHL_TYPE_GROUP es)
    then have len: "length xs = length es" using xs(2) by simp
    have child: "\<exists>r. es ! i = Some r \<and> denotes n (tc_types c) r (xs ! i)" if "i < length es" for i
      using denotes_child [OF q cl xs(1), of i] that len MORPHL_TYPE_GROUP by auto
    consider "length es = 1" | "length es = 2" | "length es \<noteq> 1" "length es \<noteq> 2" by blast
    then show ?thesis
    proof cases
      case 1
      then have "branch_type y = None" using xs(1) MORPHL_TYPE_GROUP len by (auto simp: length_Suc_conv)
      then show ?thesis using 1 MORPHL_TYPE_GROUP op_result_fail by (simp add: infer_branches_def types_comparable_def)
    next
      case 2
      obtain r s where r: "es ! 0 = Some r" "denotes n (tc_types c) r (xs ! 0)"
        and s: "es ! 1 = Some s" "denotes n (tc_types c) s (xs ! 1)"
        using child [of 0] child [of 1] 2 by auto
      obtain u v where "xs = [u, v]" using 2 len by (auto simp: numeral_2_eq_2 length_Suc_conv)
      then have "branch_type y = (if xs ! 0 = xs ! 1 then Some (xs ! 0) else None)"
        using xs(1) MORPHL_TYPE_GROUP by simp
      moreover have "es \<noteq> []" using 2 by auto
      ultimately show ?thesis
        using 2 MORPHL_TYPE_GROUP r s equals_denotes [OF r(2) s(2) cl nN] op_result_given [OF r(2) c] op_result_fail
        by (auto simp: infer_branches_def types_comparable_def hd_conv_nth)
    next
      case 3
      then have "branch_type y = None" using xs(1) MORPHL_TYPE_GROUP len by (auto split: list.split)
      then show ?thesis using 3 MORPHL_TYPE_GROUP op_result_fail by (simp add: infer_branches_def)
    qed
  qed (use q xs(1) op_result_given [OF q c] in \<open>simp_all add: infer_branches_def\<close>)
qed

lemma rule_if:
  assumes nN: "n \<le> N" and p: "denotes n (tc_types c) p x" and q: "denotes n (tc_types c) q y" and c: "ready c 0"
  shows "op_result (Suc n) c room (if unref x = base MORPHL_TYPE_BOOL then branch_type y else None)
    (infer_if N node [Some p, Some q] c)"
proof -
  have cl: "closed_from 0 (tc_types c)" using c by (simp add: ready_def)
  obtain p' where p': "unwrap_ref N (tc_types c) (Some p) = Some (Some p')" "denotes n (tc_types c) p' (unref x)"
    by (rule unwrap_args [OF p cl nN])
  show ?thesis
    using p'(1) is_kind_denotes [OF p'(2), of MORPHL_TYPE_BOOL] rule_branches [OF nN q c] op_result_fail
    by (auto simp: infer_if_def)
qed

text \<open>Which rule an operator of an expression gets.\<close>

lemma ref_rule_found:
  "b \<in> set ref_ops \<Longrightarrow> map_option snd (find (\<lambda>r. b \<in> set (fst r)) (op_rules N node op nm args)) =
     Some (infer_ref_op node op nm args)"
  unfolding op_lists list.set by (elim insertE emptyE; simp add: op_rules_def)

lemma binary_rules_found:
  "b \<in> set comparison_ops \<Longrightarrow> map_option snd (find (\<lambda>r. b \<in> set (fst r)) (op_rules N node op nm args)) =
     Some (infer_comparison N node nm args)"
  "b \<in> set logic_ops \<Longrightarrow> map_option snd (find (\<lambda>r. b \<in> set (fst r)) (op_rules N node op nm args)) =
     Some (infer_logic N node nm args)"
  "b \<in> set float_ops \<Longrightarrow> map_option snd (find (\<lambda>r. b \<in> set (fst r)) (op_rules N node op nm args)) =
     Some (infer_binary N node ''float arithmetic'' nm MORPHL_TYPE_FLOAT ''float'' morphl_type_float args)"
  "b \<in> set int_ops \<Longrightarrow> map_option snd (find (\<lambda>r. b \<in> set (fst r)) (op_rules N node op nm args)) =
     Some (infer_binary N node (if b \<in> {''$add'', ''$sub'', ''$mul'', ''$div''} then ''arithmetic'' else ''bitwise'') nm MORPHL_TYPE_INT ''int'' morphl_type_int args)"
  unfolding op_lists list.set by (elim insertE emptyE; simp add: op_rules_def)+

lemma other_rules_found:
  "map_option snd (find (\<lambda>r. ''$not'' \<in> set (fst r)) (op_rules N node op nm args)) =
     Some (infer_unary N node ''$not'' MORPHL_TYPE_BOOL ''bool'' morphl_type_bool args)"
  "map_option snd (find (\<lambda>r. ''$bnot'' \<in> set (fst r)) (op_rules N node op nm args)) =
     Some (infer_unary N node ''$bnot'' MORPHL_TYPE_INT ''int'' morphl_type_int args)"
  "map_option snd (find (\<lambda>r. ''$call'' \<in> set (fst r)) (op_rules N node op nm args)) = Some (infer_call N node args)"
  "map_option snd (find (\<lambda>r. ''$if'' \<in> set (fst r)) (op_rules N node op nm args)) = Some (infer_if N node args)"
  by (simp_all add: op_rules_def)

text \<open>The groups of operators share no name.\<close>

lemma ops_disjoint:
  "\<forall>b\<in>set comparison_ops. b \<notin> set unary_ops"
  "\<forall>b\<in>set logic_ops. b \<notin> set unary_ops \<and> b \<notin> set comparison_ops"
  "\<forall>b\<in>set int_ops. b \<notin> set unary_ops \<and> b \<notin> set comparison_ops \<and> b \<notin> set logic_ops"
  "\<forall>b\<in>set float_ops. b \<notin> set unary_ops \<and> b \<notin> set comparison_ops \<and> b \<notin> set logic_ops \<and> b \<notin> set int_ops"
  "\<forall>b\<in>{''$call'', ''$if''}. b \<notin> set unary_ops \<and> b \<notin> set comparison_ops \<and> b \<notin> set logic_ops \<and> b \<notin> set int_ops \<and>
     b \<notin> set float_ops"
  by (simp_all add: op_lists)

lemma expression_op_cases:
  assumes "b \<in> set expression_ops"
  obtains "b \<in> set ref_ops" | "b = ''$not''" | "b = ''$bnot''" | "b \<in> set comparison_ops" | "b \<in> set logic_ops"
    | "b \<in> set int_ops" | "b \<in> set float_ops" | "b = ''$call''" | "b = ''$if''"
  using assms unfolding expression_ops_def unary_ops_def by auto

lemma one_denoted:
  "list_all2 P ps xs \<Longrightarrow> length ps = 1 \<Longrightarrow> \<exists>p x. ps = [p] \<and> xs = [x] \<and> P p x"
  by (auto simp: length_Suc_conv list_all2_Cons1)

lemma two_denoted:
  "list_all2 P ps xs \<Longrightarrow> length ps = 2 \<Longrightarrow> \<exists>p q x y. ps = [p, q] \<and> xs = [x, y] \<and> P p x \<and> P q y"
  by (auto simp: numeral_2_eq_2 length_Suc_conv list_all2_Cons1)

text \<open>Inference for an operator follows the typing rules.\<close>

lemma unary_rule_typed:
  assumes nN: "n \<le> N" and p: "denotes n (tc_types c) p x" and c: "ready c SIZEOF_TYPE" and op: "interns_lookup (tc_interns c) op = Some b"
    and known: "{''$mut'', ''$inline''} \<subseteq> set (t_index (tc_interns c))"
    and r: "map_option snd (find (\<lambda>r. b \<in> set (fst r)) (op_rules N node op nm [Some p])) = Some rule"
    and b: "b \<in> set unary_ops"
  shows "op_result (Suc n) c SIZEOF_TYPE (unary_type b x) (rule c)"
proof -
  consider "b \<in> set ref_ops" | "b = ''$not''" | "b = ''$bnot''" using b by (auto simp: unary_ops_def)
  then show ?thesis
  proof cases
    case 1
    have "rule = infer_ref_op node op nm [Some p]" using r ref_rule_found [OF 1] by simp
    then show ?thesis using rule_ref [OF p c op known] 1 by (simp add: unary_type_def)
  next
    case 2
    have "rule = infer_unary N node ''$not'' MORPHL_TYPE_BOOL ''bool'' morphl_type_bool [Some p]"
      using r other_rules_found(1) 2 by simp
    then show ?thesis using rule_unary [OF nN p c _ _ _ op_result_bases(1) [OF c]] 2
      by (simp add: unary_type_def ref_ops_def)
  next
    case 3
    have "rule = infer_unary N node ''$bnot'' MORPHL_TYPE_INT ''int'' morphl_type_int [Some p]"
      using r other_rules_found(2) 3 by simp
    then show ?thesis using rule_unary [OF nN p c _ _ _ op_result_bases(2) [OF c]] 3
      by (simp add: unary_type_def ref_ops_def)
  qed
qed

lemma binary_rule_typed:
  assumes nN: "n \<le> N" and p: "denotes n (tc_types c) p x" and q: "denotes n (tc_types c) q y" and c: "ready c SIZEOF_TYPE"
    and r: "map_option snd (find (\<lambda>r. b \<in> set (fst r)) (op_rules N node op nm [Some p, Some q])) = Some rule"
    and b: "b \<in> set expression_ops" "b \<notin> set unary_ops"
  shows "op_result (Suc n) c SIZEOF_TYPE (binary_type b x y) (rule c)"
proof -
  have c0: "ready c 0" using c by (simp add: ready_def)
  consider "b \<in> set comparison_ops" | "b \<in> set logic_ops" | "b \<in> set int_ops" | "b \<in> set float_ops"
    | "b = ''$call''" | "b = ''$if''" using b by (auto simp: expression_ops_def)
  then show ?thesis
  proof cases
    case 1
    have "rule = infer_comparison N node nm [Some p, Some q]" using r binary_rules_found(1) [OF 1] by simp
    then show ?thesis using rule_comparison [OF nN p q c] 1 by (simp add: binary_type_def)
  next
    case 2
    have "rule = infer_logic N node nm [Some p, Some q]" using r binary_rules_found(2) [OF 2] by simp
    then show ?thesis using rule_logic [OF nN p q c] 2 ops_disjoint(2) by (simp add: binary_type_def)
  next
    case 3
    obtain label where "rule = infer_binary N node label nm MORPHL_TYPE_INT ''int'' morphl_type_int [Some p, Some q]"
      using r binary_rules_found(4) [OF 3] by (metis option.inject)
    moreover have "binary_type b x y =
        (if unref x = base MORPHL_TYPE_INT \<and> unref y = base MORPHL_TYPE_INT then Some (base MORPHL_TYPE_INT) else None)"
      using 3 ops_disjoint(3) by (simp add: binary_type_def)
    ultimately show ?thesis using rule_binary [OF nN p q c _ _ _ op_result_bases(2) [OF c]] by simp
  next
    case 4
    have "rule = infer_binary N node ''float arithmetic'' nm MORPHL_TYPE_FLOAT ''float'' morphl_type_float [Some p, Some q]"
      using r binary_rules_found(3) [OF 4] by simp
    moreover have "binary_type b x y =
        (if unref x = base MORPHL_TYPE_FLOAT \<and> unref y = base MORPHL_TYPE_FLOAT then Some (base MORPHL_TYPE_FLOAT) else None)"
      using 4 ops_disjoint(4) by (simp add: binary_type_def)
    ultimately show ?thesis using rule_binary [OF nN p q c _ _ _ op_result_bases(3) [OF c]] by simp
  next
    case 5
    have "rule = infer_call N node [Some p, Some q]" using r other_rules_found(3) 5 by simp
    then show ?thesis using rule_call [OF nN p c0] 5 ops_disjoint(5) by (simp add: binary_type_def)
  next
    case 6
    have "rule = infer_if N node [Some p, Some q]" using r other_rules_found(4) 6 by simp
    then show ?thesis using rule_if [OF nN p q c0] 6 ops_disjoint(5) by (simp add: binary_type_def)
  qed
qed

lemma rule_typed:
  assumes nN: "n \<le> N" and b: "b \<in> set expression_ops" and ps: "list_all2 (denotes n (tc_types c)) ps xs" and len: "length ps = arity b"
    and c: "ready c SIZEOF_TYPE" and op: "interns_lookup (tc_interns c) op = Some b"
    and known: "{''$mut'', ''$inline''} \<subseteq> set (t_index (tc_interns c))"
    and r: "map_option snd (find (\<lambda>r. b \<in> set (fst r)) (op_rules N node op nm (map Some ps))) = Some rule"
  shows "op_result (Suc n) c SIZEOF_TYPE (op_type b xs) (rule c)"
proof (cases "b \<in> set unary_ops")
  case True
  then obtain p x where p: "ps = [p]" "xs = [x]" "denotes n (tc_types c) p x"
    using one_denoted [OF ps] len by (auto simp: arity_def)
  show ?thesis using unary_rule_typed [OF nN p(3) c op known _ True] r p(1,2) True by (simp add: op_type_def)
next
  case False
  then obtain p q x y where p: "ps = [p, q]" "xs = [x, y]" "denotes n (tc_types c) p x" "denotes n (tc_types c) q y"
    using two_denoted [OF ps] len by (auto simp: arity_def)
  show ?thesis using binary_rule_typed [OF nN p(3,4) c _ b False] r p(1,2) False by (simp add: op_type_def)
qed

lemma find_rule:
  assumes "b \<in> set expression_ops"
  obtains r where "find (\<lambda>r. b \<in> set (fst r)) (op_rules N node op nm args) = Some r"
proof -
  have "map_option snd (find (\<lambda>r. b \<in> set (fst r)) (op_rules N node op nm args)) \<noteq> None"
    by (cases rule: expression_op_cases [OF assms])
      (simp_all only: ref_rule_found binary_rules_found other_rules_found option.distinct not_False_eq_True)
  then show thesis using that by (cases "find (\<lambda>r. b \<in> set (fst r)) (op_rules N node op nm args)") simp_all
qed

lemma infer_for_op_typed:
  assumes nN: "n \<le> N" and b: "b \<in> set expression_ops" and ps: "list_all2 (denotes n (tc_types c)) ps xs"
    and c: "ready c SIZEOF_TYPE" and op: "interns_lookup (tc_interns c) op = Some b"
    and reg: "registry_inv ops (tc_interns c)"
  shows "op_result (Suc n) c SIZEOF_TYPE (op_type b xs) (morphl_infer_type_for_op ops N node op (map Some ps) c)"
proof -
  have inv: "table_inv (tc_interns c)" and cl: "closed_from 0 (tc_types c)" using c by (simp_all add: ready_def)
  have nz: "op \<noteq> 0" using op by (metis lookup_zero option.distinct(1))
  obtain info where info: "operator_info_lookup ops op = Some info" "i_min_args info = arity b" "i_max_args info = arity b"
    using registry_info_lookup [OF reg inv op] expression_ops_arity b by (fastforce simp: info_of_row_def)
  show ?thesis
  proof (cases "length ps = arity b")
    case True
    let ?nm = "op_name_str op (tc_interns c)"
    let ?rules = "op_rules N node op ?nm (map Some ps)"
    have known: "\<forall>r\<in>set ?rules. set (fst r) \<subseteq> set (t_index (tc_interns c))"
      using rule_names registry_names [OF reg] by blast
    obtain t where t: "same_names (tc_interns c) t"
      "dispatch_op op ?rules (infer_untyped node ?nm) c =
        (case find (\<lambda>r. b \<in> set (fst r)) ?rules of None \<Rightarrow> infer_untyped node ?nm | Some r \<Rightarrow> snd r) (c\<lparr>tc_interns := t\<rparr>)"
      by (rule dispatch_known [OF inv op known])
    obtain r where r: "find (\<lambda>r. b \<in> set (fst r)) ?rules = Some r" by (rule find_rule [OF b])
    then have r': "map_option snd (find (\<lambda>r. b \<in> set (fst r)) ?rules) = Some (snd r)" by simp
    have "{''$mut'', ''$inline''} \<subseteq> set (t_index (tc_interns c))"
      using known by (simp add: op_rules_def)
    then have "op_result (Suc n) (c\<lparr>tc_interns := t\<rparr>) SIZEOF_TYPE (op_type b xs) (snd r (c\<lparr>tc_interns := t\<rparr>))"
      using same_names_inv [OF t(1)] same_names_lookup [OF t(1)] c ps op True
      by (intro rule_typed [OF nN b _ _ _ _ _ r']) (simp_all add: ready_def room_used_def room_total_def)
    then have "op_result (Suc n) c SIZEOF_TYPE (op_type b xs) (snd r (c\<lparr>tc_interns := t\<rparr>))"
      using op_result_same t(1) cl by blast
    then show ?thesis using info nz t(2) r True by (simp add: morphl_infer_type_for_op_def del: dispatch_op.simps)
  next
    case False
    moreover have "length xs = length ps" using list_all2_lengthD [OF ps] by simp
    ultimately show ?thesis using info nz op_type_arity [of xs b] op_result_fail
      by (auto simp: morphl_infer_type_for_op_def Let_def)
  qed
qed

section \<open>Inference computes the types of the rules\<close>

text \<open>
  Inference may start: the operators and token kinds are known, the heap is closed, and the names of
  variables in scope are those of \<open>env\<close>, with types of depth at most \<open>d\<close>.
\<close>

definition bound_to :: "nat \<Rightarrow> type_arena \<Rightarrow> tref \<Rightarrow> type_tree option \<Rightarrow> bool" where
  "bound_to d h u xo \<longleftrightarrow>
     (case xo of None \<Rightarrow> u = None | Some x \<Rightarrow> \<exists>p. u = Some p \<and> denotes d h p x)"

definition typing_context :: "operator_row list \<Rightarrow> nat \<Rightarrow> (string \<Rightarrow> type_tree option) \<Rightarrow> type_context \<Rightarrow> bool" where
  "typing_context ops d env c \<longleftrightarrow>
     table_inv (tc_interns c) \<and> registry_inv ops (tc_interns c) \<and> closed_from 0 (tc_types c) \<and>
     {LEXER_KIND_NUMBER, LEXER_KIND_FLOAT, LEXER_KIND_STRING} \<subseteq> set (t_index (tc_interns c)) \<and>
     (\<forall>sy name. interns_lookup (tc_interns c) sy = Some name \<longrightarrow>
        bound_to d (tc_types c) (type_context_lookup_var c sy) (env name))"

lemma typing_context_extends:
  assumes "typing_context ops d env c" and "extends c c'"
  shows "typing_context ops d env c'"
proof -
  note e = extendsD [OF assms(2)]
  have look: "interns_lookup (tc_interns c') = interns_lookup (tc_interns c)" by (rule same_names_lookup [OF e(3)])
  have "registry_inv ops (tc_interns c')"
    using assms(1) look by (simp add: typing_context_def registry_inv_def)
  moreover have "bound_to d (tc_types c') u xo" if "bound_to d (tc_types c) u xo" for u xo
    using that denotes_ext [OF _ e(1)] assms(1) by (auto simp: typing_context_def bound_to_def split: option.splits)
  ultimately show ?thesis
    using assms(1) e(2,5) look same_names_inv [OF e(3)] by (simp add: typing_context_def)
qed

text \<open>The result for a syntax tree, which stays as it is.\<close>

definition ast_result ::
    "nat \<Rightarrow> type_context \<Rightarrow> nat \<Rightarrow> type_tree option \<Rightarrow> ast \<Rightarrow> inferred \<Rightarrow> bool" where
  "ast_result m c room xo node r \<longleftrightarrow>
     (case xo of
        None \<Rightarrow> \<exists>c'. r = Some (None, node, c')
      | Some x \<Rightarrow> \<exists>p c'. r = Some (Some p, node, c') \<and> extends c c' \<and> denotes m (tc_types c') p x \<and>
                    room_used c' \<le> room_used c + room)"

lemma ast_result_give: "op_result m c room xo r \<Longrightarrow> ast_result m c room xo node (give node r)"
  by (auto simp: op_result_def ast_result_def give_def split: option.splits)

lemma ready_extends:
  assumes "ready c (r1 + r2)" and "extends c c'" and "room_used c' \<le> room_used c + r1"
  shows "ready c' r2"
  using assms extendsD [OF assms(2)] same_names_inv by (auto simp: ready_def)

text \<open>The arguments, from the first to the last or the first without a type.\<close>

definition args_result ::
    "nat \<Rightarrow> type_context \<Rightarrow> nat \<Rightarrow> type_tree list option \<Rightarrow> ast list \<Rightarrow>
     (tref list option \<times> ast list \<times> type_context) option \<Rightarrow> bool" where
  "args_result m c room xso es r \<longleftrightarrow>
     (case xso of
        None \<Rightarrow> \<exists>c'. r = Some (None, es, c')
      | Some xs \<Rightarrow> \<exists>ps c'. r = Some (Some (map Some ps), es, c') \<and> extends c c' \<and>
          list_all2 (denotes m (tc_types c')) ps xs \<and> room_used c' \<le> room_used c + room)"

lemma args_typed:
  assumes "\<And>e c. e \<in> set es \<Longrightarrow> typing_context ops d env c \<Longrightarrow> ready c (type_room e) \<Longrightarrow> t_index (tc_interns c) = ns \<Longrightarrow>
      ast_result m c (type_room e) (type_of t env e) e (f e c)"
    and "typing_context ops d env c" and "ready c (\<Sum>e\<leftarrow>es. type_room e)" and "t_index (tc_interns c) = ns"
  shows "args_result m c (\<Sum>e\<leftarrow>es. type_room e) (those (map (type_of t env) es)) es (infer_args f es c)"
  using assms
proof (induction es arbitrary: c)
  case Nil
  then show ?case using extends_same [of c "tc_interns c"]
    by (auto simp: args_result_def typing_context_def same_names_refl)
next
  case (Cons e es)
  have "ready c (type_room e)" using Cons.prems(3) by (simp add: ready_def)
  then have r: "ast_result m c (type_room e) (type_of t env e) e (f e c)" using Cons.prems by simp
  show ?case
  proof (cases "type_of t env e")
    case None
    then show ?thesis using r by (auto simp: args_result_def ast_result_def)
  next
    case (Some x)
    then obtain p c1 where p: "f e c = Some (Some p, e, c1)" "extends c c1" "denotes m (tc_types c1) p x"
      "room_used c1 \<le> room_used c + type_room e" using r by (auto simp: ast_result_def)
    have "ready c1 (\<Sum>e\<leftarrow>es. type_room e)"
      by (rule ready_extends [OF _ p(2,4)]) (use Cons.prems(3) in simp)
    moreover have "t_index (tc_interns c1) = ns"
      using extendsD(3) [OF p(2)] Cons.prems(4) by (simp add: same_names_def)
    ultimately have IH: "args_result m c1 (\<Sum>e\<leftarrow>es. type_room e) (those (map (type_of t env) es)) es (infer_args f es c1)"
      using Cons.prems(1) typing_context_extends [OF Cons.prems(2) p(2)] by (intro Cons.IH) auto
    show ?thesis
    proof (cases "those (map (type_of t env) es)")
      case None
      then show ?thesis using IH p Some by (auto simp: args_result_def)
    next
      case xs: (Some xs)
      then obtain ps c2 where ps: "infer_args f es c1 = Some (Some (map Some ps), es, c2)" "extends c1 c2"
        "list_all2 (denotes m (tc_types c2)) ps xs" "room_used c2 \<le> room_used c1 + (\<Sum>e\<leftarrow>es. type_room e)"
        using IH by (auto simp: args_result_def)
      have "denotes m (tc_types c2) p x"
        by (rule denotes_ext [OF p(3) extendsD(1) [OF ps(2)] extendsD(2) [OF p(2)]]) simp
      then have "infer_args f (e # es) c = Some (Some (map Some (p # ps)), e # es, c2) \<and> extends c c2 \<and>
          list_all2 (denotes m (tc_types c2)) (p # ps) (x # xs) \<and>
          room_used c2 \<le> room_used c + (\<Sum>e\<leftarrow>e # es. type_room e)"
        using ps p(1,4) extends_trans [OF p(2) ps(2)] by simp
      then show ?thesis using Some xs
        by (auto simp: args_result_def intro!: exI [of _ "p # ps"] exI [of _ c2] simp del: infer_args.simps)
    qed
  qed
qed

lemma type_of_same_names: "interns_lookup t' = interns_lookup t \<Longrightarrow> type_of t' env e = type_of t env e"
proof (induction e)
  case (AstNode k op v cs cap fn row col)
  then have eq: "map (type_of t' env) cs = map (type_of t env) cs" by simp
  show ?case unfolding type_of.simps eq AstNode.prems ..
qed

text \<open>Literals and variables.\<close>

lemma literal_typed:
  assumes "typing_context ops d env c" and "ready c SIZEOF_TYPE" and "0 < m"
  shows "op_result m c SIZEOF_TYPE
    (Some (base (literal_type (interns_lookup (tc_interns c) (n_op node)) (str_bytes (n_value node)))))
    (infer_literal node c)"
proof -
  let ?kind = "interns_lookup (tc_interns c) (n_op node)"
  have inv: "table_inv (tc_interns c)" and cl: "closed_from 0 (tc_types c)" using assms(2) by (simp_all add: ready_def)
  have known: "LEXER_KIND_NUMBER \<in> set (t_index (tc_interns c))" "LEXER_KIND_FLOAT \<in> set (t_index (tc_interns c))"
    "LEXER_KIND_STRING \<in> set (t_index (tc_interns c))" using assms(1) by (simp_all add: typing_context_def)
  obtain nu where nu: "interns_lookup (tc_interns c) nu = Some LEXER_KIND_NUMBER" by (rule known_symbol [OF known(1)])
  obtain fl where fl: "interns_lookup (tc_interns c) fl = Some LEXER_KIND_FLOAT" by (rule known_symbol [OF known(2)])
  obtain st where st: "interns_lookup (tc_interns c) st = Some LEXER_KIND_STRING" by (rule known_symbol [OF known(3)])
  have "list_all2 (\<lambda>name sy. interns_lookup (tc_interns c) sy = Some name)
      [LEXER_KIND_NUMBER, LEXER_KIND_FLOAT, LEXER_KIND_STRING] [nu, fl, st]" using nu fl st by simp
  then obtain t where t: "intern_all [LEXER_KIND_NUMBER, LEXER_KIND_FLOAT, LEXER_KIND_STRING] c =
      ([nu, fl, st], c\<lparr>tc_interns := t\<rparr>)" "same_names (tc_interns c) t" by (rule intern_all_known [OF inv])
  have kinds: "n_op node = nu \<longleftrightarrow> ?kind = Some LEXER_KIND_NUMBER" "n_op node = fl \<longleftrightarrow> ?kind = Some LEXER_KIND_FLOAT"
    "n_op node = st \<longleftrightarrow> ?kind = Some LEXER_KIND_STRING"
    using nu fl st st.lookup_inj [OF inv] by metis+
  have ready: "ready (c\<lparr>tc_interns := t\<rparr>) SIZEOF_TYPE"
    using assms(2) same_names_inv(1) [OF t(2)] by (simp add: ready_def room_used_def room_total_def)
  note here = op_result_bases [OF assms(2,3)] and there = op_result_same [OF _ t(2) cl, OF op_result_bases(2) [OF ready assms(3)]]
    op_result_same [OF _ t(2) cl, OF op_result_bases(3) [OF ready assms(3)]]
    op_result_same [OF _ t(2) cl, OF op_result_bases(4) [OF ready assms(3)]]
  have "str_len (n_value node) = 0 \<longleftrightarrow> str_bytes (n_value node) = []" by (simp add: str_len_bytes)
  moreover have "quoted (n_value node) \<longleftrightarrow> quoted (Some (str_bytes (n_value node)))" by (simp add: quoted_def str_len_bytes)
  moreover have "n_op node = 0 \<Longrightarrow> ?kind = None" by simp
  ultimately show ?thesis
    using here there t(1) kinds
    by (auto simp: infer_literal_def infer_number_text_def literal_type_def simp del: intern_all.simps)
qed

lemma ident_typed:
  assumes "typing_context ops d env c" and "n_op node = 0" and "n_value node = Some x" and "x \<in> set (t_index (tc_interns c))"
    and "d \<le> m"
  shows "op_result m c room (env x) (infer_ident node c)"
proof -
  have inv: "table_inv (tc_interns c)" and cl: "closed_from 0 (tc_types c)" using assms(1) by (simp_all add: typing_context_def)
  obtain sy where sy: "interns_lookup (tc_interns c) sy = Some x" "sy \<noteq> 0" by (rule known_symbol [OF assms(4)])
  obtain t where t: "intern_in (str_from x) c = (sy, c\<lparr>tc_interns := t\<rparr>)" "same_names (tc_interns c) t"
    by (rule intern_in_known [OF inv sy(1)])
  have look: "type_context_lookup_var (c\<lparr>tc_interns := t\<rparr>) sy = type_context_lookup_var c sy"
    by (simp add: type_context_lookup_var_def)
  have b: "bound_to d (tc_types c) (type_context_lookup_var c sy) (env x)"
    using assms(1) sy(1) by (simp add: typing_context_def)
  have i: "infer_ident node c = (if type_context_lookup_var c sy = None
      then fail_at node (''undefined variable '' @ [CHR 0x27] @ view_text (interns_lookup t sy) @ [CHR 0x27]) (c\<lparr>tc_interns := t\<rparr>)
      else Some (type_context_lookup_var c sy, c\<lparr>tc_interns := t\<rparr>))"
    using assms(2,3) t(1) sy(2) look by (simp add: infer_ident_def name_sym_def str_from_def)
  show ?thesis
  proof (cases "env x")
    case (Some y)
    then obtain p where p: "type_context_lookup_var c sy = Some p" "denotes d (tc_types c) p y"
      using b by (auto simp: bound_to_def)
    have "denotes m (tc_types c) p y" by (rule denotes_ext [OF p(2) heap_ext_refl cl assms(5)])
    then show ?thesis using i p(1) Some extends_same [OF cl t(2)] by (simp add: op_result_def room_used_def)
  qed (use b i op_result_fail in \<open>simp add: bound_to_def\<close>)
qed

text \<open>An operator node whose name is none of the special ones.\<close>

lemma operator_plain:
  assumes "typing_context ops d env c" and "interns_lookup (tc_interns c) (n_op node) = Some b" and "b \<in> set expression_ops"
  obtains t where "same_names (tc_interns c) t"
    "infer_operator ops n f node c = infer_args f (n_children node) (c\<lparr>tc_interns := t\<rparr>) \<bind> (\<lambda>(ts, cs, ctx2).
       case ts of
         None \<Rightarrow> Some (None, set_children node cs, ctx2)
       | Some ts \<Rightarrow> give (set_children node cs)
           (morphl_infer_type_for_op ops n (set_children node cs) (n_op node) ts ctx2))"
proof -
  let ?special = "[''$idtstr'', ''$strtid'', ''$member'', ''$set'', ''$import'']"
  have inv: "table_inv (tc_interns c)" and reg: "registry_inv ops (tc_interns c)"
    using assms(1) by (simp_all add: typing_context_def)
  have "set ?special \<subseteq> r_name ` set kBuiltinOps" unfolding kBuiltinOps_def builtin_row_def by simp
  then have known: "set ?special \<subseteq> set (t_index (tc_interns c))" using registry_names [OF reg] by blast
  have "\<exists>sys. list_all2 (\<lambda>name sy. interns_lookup (tc_interns c) sy = Some name) names sys"
    if "set names \<subseteq> set (t_index (tc_interns c))" for names
    using that
  proof (induction names)
    case (Cons a names)
    then obtain sys where sys: "list_all2 (\<lambda>name sy. interns_lookup (tc_interns c) sy = Some name) names sys" by auto
    have "a \<in> set (t_index (tc_interns c))" using Cons.prems by simp
    then obtain sy where "interns_lookup (tc_interns c) sy = Some a" by (rule known_symbol)
    with sys show ?case by (intro exI [of _ "sy # sys"]) simp
  qed (intro exI [of _ "[]"], simp)
  then obtain sys where sys: "list_all2 (\<lambda>name sy. interns_lookup (tc_interns c) sy = Some name) ?special sys"
    using known by blast
  obtain t where t: "intern_all ?special c = (sys, c\<lparr>tc_interns := t\<rparr>)" "same_names (tc_interns c) t"
    by (rule intern_all_known [OF inv sys])
  have other: "b \<notin> set ?special" using assms(3) unfolding op_lists by auto
  have "n_op node \<noteq> sys ! i" if "i < 5" for i
  proof
    assume "n_op node = sys ! i"
    moreover have "interns_lookup (tc_interns c) (sys ! i) = Some (?special ! i)"
      using list_all2_nthD [OF sys, of i] that by simp
    ultimately have "b = ?special ! i" using assms(2) by simp
    then show False using other that nth_mem [of i ?special] by simp
  qed
  moreover have "n_op node \<noteq> 0" using assms(2) by (metis lookup_zero option.distinct(1))
  ultimately show thesis using t by (intro that [OF t(2)]) (simp add: infer_operator_def del: intern_all.simps)
qed

lemma expression_children:
  assumes "expression t node" and "n_kind node \<noteq> AST_LITERAL" and "n_kind node \<noteq> AST_IDENT"
  shows "\<forall>e\<in>set (n_children node). expression t e"
  using assms by (cases node) (auto simp: list_all_iff split: ast_kind.splits)

lemma type_room_node: "type_room node = SIZEOF_TYPE + length (n_children node) * SIZEOF_POINTER + (\<Sum>e\<leftarrow>n_children node. type_room e)"
  by (cases node) simp

lemma node_count_node: "node_count node = 1 + (\<Sum>e\<leftarrow>n_children node. node_count e)"
  by (cases node) simp

lemma group_typed:
  assumes "list_all2 (denotes n (tc_types c)) ps xs" and "ready c (SIZEOF_TYPE + length ps * SIZEOF_POINTER)"
  shows "op_result (Suc n) c (SIZEOF_TYPE + length ps * SIZEOF_POINTER)
    (Some (T_Node (MORPHL_TYPE_GROUP (map (\<lambda>x. None) xs)) xs)) (make_type (morphl_type_group (map Some ps)) c)"
proof -
  have len: "length xs = length ps" using list_all2_lengthD [OF assms(1)] by simp
  let ?ns = "if ps = [] then [] else [length ps * SIZEOF_POINTER]"
  have "op_result (Suc n) c (SIZEOF_TYPE + sum_list ?ns)
      (Some (T_Node (MORPHL_TYPE_GROUP (map (\<lambda>x. None) xs)) xs)) (make_type (morphl_type_group (map Some ps)) c)"
  proof (rule op_result_made [where sz = 0 and al = 1 and d = "MORPHL_TYPE_GROUP (map Some ps)" and xs = xs and n = n])
    show "list_all2 (\<lambda>r x. \<exists>q. r = Some q \<and> denotes n (tc_types c) q x) (all_refs (MORPHL_TYPE_GROUP (map Some ps))) xs"
      using assms(1) by (simp add: list_all2_map1)
    show "morphl_type_group (map Some ps) = (\<lambda>h. with_arrays ?ns (alloc_type 0 1 (MORPHL_TYPE_GROUP (map Some ps)) h))"
      by (auto simp: morphl_type_group_def fun_eq_iff)
    show "T_Node (MORPHL_TYPE_GROUP (map (\<lambda>x. None) xs)) xs = T_Node (erase (MORPHL_TYPE_GROUP (map Some ps))) xs"
      using len by (simp add: map_replicate_const)
  qed (use assms(2) in \<open>auto simp: ready_def SIZEOF_POINTER_def\<close>)
  then show ?thesis by (rule op_result_mono) auto
qed

lemma lookup_same_index: "t_index t' = t_index t \<Longrightarrow> interns_lookup t' = interns_lookup t"
  by (simp add: interns_lookup_def fun_eq_iff Let_def)

lemma expression_same: "t_index t' = t_index t \<Longrightarrow> expression t' e = expression t e"
proof (induction e)
  case (AstNode k op v cs cap fn row col)
  then have "list_all (expression t') cs = list_all (expression t) cs" by (simp add: list_all_iff)
  then show ?case using AstNode.prems lookup_same_index [OF AstNode.prems] by (cases k) auto
qed

lemma ast_result_mono:
  assumes "ast_result m c room xo node r" and "m \<le> m'"
  shows "ast_result m' c room xo node r"
proof (cases xo)
  case (Some x)
  then obtain p c' where p: "r = Some (Some p, node, c')" "extends c c'" "denotes m (tc_types c') p x"
    "room_used c' \<le> room_used c + room" using assms(1) by (auto simp: ast_result_def)
  have "denotes m' (tc_types c') p x"
    by (rule denotes_ext [OF p(3) heap_ext_refl extendsD(2) [OF p(2)] assms(2)])
  then show ?thesis using p Some by (auto simp: ast_result_def)
qed (use assms in \<open>simp add: ast_result_def\<close>)

lemma infer_args_length: "infer_args f es c = Some (Some ts, es', c') \<Longrightarrow> length ts = length es"
  by (induction es arbitrary: c ts es') (auto simp: bind_eq_Some_conv split: if_splits)

text \<open>The last step of a node: from its arguments to its type.\<close>

lemma finish_node:
  assumes args: "args_result m c1 room xso es (infer_args f es c1)"
    and es: "es = n_children node" and c: "extends c c1" "room_used c1 = room_used c"
    and ready: "ready c (room + own)"
    and step: "\<And>ps xs c'. xso = Some xs \<Longrightarrow> extends c c' \<Longrightarrow> list_all2 (denotes m (tc_types c')) ps xs \<Longrightarrow>
      length ps = length es \<Longrightarrow> ready c' own \<Longrightarrow>
      op_result m' c' own (g xs) (step_of node (map Some ps) c')"
  shows "ast_result m' c (room + own) (case xso of None \<Rightarrow> None | Some xs \<Rightarrow> g xs) node
    (infer_args f es c1 \<bind> (\<lambda>(ts, cs, c2). case ts of
       None \<Rightarrow> Some (None, set_children node cs, c2)
     | Some ts \<Rightarrow> give (set_children node cs) (step_of (set_children node cs) ts c2)))"
proof -
  have same: "set_children node es = node" unfolding es by (cases node) simp
  show ?thesis
  proof (cases xso)
    case None
    then show ?thesis using args same by (auto simp: args_result_def ast_result_def)
  next
    case (Some xs)
    then obtain ps c2 where ps: "infer_args f es c1 = Some (Some (map Some ps), es, c2)" "extends c1 c2"
      "list_all2 (denotes m (tc_types c2)) ps xs" "room_used c2 \<le> room_used c1 + room" using args by (auto simp: args_result_def)
    have e: "extends c c2" by (rule extends_trans [OF c(1) ps(2)])
    have "length ps = length es" using ps(1) infer_args_length by fastforce
    moreover have "ready c2 own" by (rule ready_extends [OF ready e]) (use ps(4) c(2) in simp)
    ultimately have "op_result m' c2 own (g xs) (step_of node (map Some ps) c2)" using step Some e ps(3) by blast
    then show ?thesis using ps(1,4) Some same e c(2)
      by (auto simp: op_result_def ast_result_def give_def intro: extends_trans split: option.splits)
  qed
qed

lemma type_of_node: "type_of t env node =
      (if n_kind node = AST_LITERAL then Some (base (literal_type (interns_lookup t (n_op node)) (str_bytes (n_value node))))
       else if n_kind node = AST_IDENT then (case n_value node of None \<Rightarrow> None | Some x \<Rightarrow> env x)
       else (case those (map (type_of t env) (n_children node)) of None \<Rightarrow> None
         | Some xs \<Rightarrow> if n_kind node = AST_GROUP then Some (T_Node (MORPHL_TYPE_GROUP (map (\<lambda>x. None) xs)) xs)
              else op_type (str_bytes (interns_lookup t (n_op node))) xs))"
  by (cases node) (simp cong: option.case_cong if_cong)

text \<open>The children of a node, given that inference types each of them.\<close>

lemma children_typed:
  assumes "typing_context ops d env c" and "ready c (\<Sum>e\<leftarrow>es. type_room e)"
    and kids: "\<forall>e\<in>set es. expression (tc_interns c) e"
    and child: "\<And>e c2. e \<in> set es \<Longrightarrow> typing_context ops d env c2 \<Longrightarrow> expression (tc_interns c2) e \<Longrightarrow>
      ready c2 (type_room e) \<Longrightarrow>
      ast_result (d + node_count e) c2 (type_room e) (type_of (tc_interns c2) env e) e (f e c2)"
    and c1: "extends c c1" "room_used c1 = room_used c"
  shows "args_result (d + (\<Sum>e\<leftarrow>es. node_count e)) c1 (\<Sum>e\<leftarrow>es. type_room e)
    (those (map (type_of (tc_interns c) env) es)) es (infer_args f es c1)"
proof (rule args_typed [where ns = "t_index (tc_interns c)" and ops = ops and d = d])
  show "typing_context ops d env c1" by (rule typing_context_extends [OF assms(1) c1(1)])
  show "ready c1 (\<Sum>e\<leftarrow>es. type_room e)"
    by (rule ready_extends [of c 0, OF _ c1(1)]) (use assms(2) c1(2) in simp_all)
  show "t_index (tc_interns c1) = t_index (tc_interns c)" using extendsD(3) [OF c1(1)] by (simp add: same_names_def)
  fix e c2 assume e: "e \<in> set es" "typing_context ops d env c2" "ready c2 (type_room e)"
    "t_index (tc_interns c2) = t_index (tc_interns c)"
  have le: "d + node_count e \<le> d + (\<Sum>e\<leftarrow>es. node_count e)"
    using member_le_sum_list [of "node_count e" "map node_count es"] e(1) by simp
  have "ast_result (d + node_count e) c2 (type_room e) (type_of (tc_interns c2) env e) e (f e c2)"
    using e kids expression_same [OF e(4)] by (intro child) simp_all
  then show "ast_result (d + (\<Sum>e\<leftarrow>es. node_count e)) c2 (type_room e) (type_of (tc_interns c) env e) e (f e c2)"
    using ast_result_mono [OF _ le] type_of_same_names [OF lookup_same_index [OF e(4)]] by simp
qed

text \<open>A group and an operator, given that inference types their children.\<close>

abbreviation kids_room :: "ast \<Rightarrow> nat" where
  "kids_room node \<equiv> \<Sum>e\<leftarrow>n_children node. type_room e"

abbreviation own_room :: "ast \<Rightarrow> nat" where
  "own_room node \<equiv> SIZEOF_TYPE + length (n_children node) * SIZEOF_POINTER"

lemma group_node_typed:
  assumes args: "args_result m c (kids_room node) xso (n_children node) (infer_args f (n_children node) c)"
    and room: "ready c (kids_room node + own_room node)" and self: "extends c c"
  shows "ast_result (Suc m) c (kids_room node + own_room node)
    (case xso of None \<Rightarrow> None | Some xs \<Rightarrow> Some (T_Node (MORPHL_TYPE_GROUP (map (\<lambda>x. None) xs)) xs)) node
    (infer_group f node c)"
proof -
  have step: "op_result (Suc m) c' (own_room node)
      (Some (T_Node (MORPHL_TYPE_GROUP (map (\<lambda>x. None) xs)) xs)) (make_type (morphl_type_group (map Some ps)) c')"
    if "list_all2 (denotes m (tc_types c')) ps xs" "length ps = length (n_children node)" "ready c' (own_room node)"
    for ps xs c'
    using group_typed [OF that(1)] that(2,3) by simp
  show ?thesis
    unfolding infer_group_def
    using finish_node [OF args refl self refl room, where m' = "Suc m"
        and step_of = "\<lambda>node ts. make_type (morphl_type_group ts)"
        and g = "\<lambda>xs. Some (T_Node (MORPHL_TYPE_GROUP (map (\<lambda>x. None) xs)) xs)"] step
    by (simp cong: option.case_cong)
qed

lemma operator_node_typed:
  assumes args: "\<And>t. same_names (tc_interns c) t \<Longrightarrow>
      args_result m (c\<lparr>tc_interns := t\<rparr>) (kids_room node) xso (n_children node) (infer_args f (n_children node) (c\<lparr>tc_interns := t\<rparr>))"
    and tc: "typing_context ops d env c" and room: "ready c (kids_room node + own_room node)" and "m \<le> n"
    and op: "b \<in> set expression_ops" "interns_lookup (tc_interns c) (n_op node) = Some b"
  shows "ast_result (Suc m) c (kids_room node + own_room node)
    (case xso of None \<Rightarrow> None | Some xs \<Rightarrow> op_type b xs) node (infer_operator ops n f node c)"
proof -
  obtain t where t: "same_names (tc_interns c) t" "infer_operator ops n f node c = infer_args f (n_children node) (c\<lparr>tc_interns := t\<rparr>) \<bind>
    (\<lambda>(ts, cs, ctx2). case ts of None \<Rightarrow> Some (None, set_children node cs, ctx2)
     | Some ts \<Rightarrow> give (set_children node cs)
         (morphl_infer_type_for_op ops n (set_children node cs) (n_op node) ts ctx2))"
    by (rule operator_plain [OF tc op(2,1)])
  have e: "extends c (c\<lparr>tc_interns := t\<rparr>)" "room_used (c\<lparr>tc_interns := t\<rparr>) = room_used c"
    by (rule extends_same [OF _ t(1)]) (use room in \<open>simp_all add: ready_def room_used_def\<close>)
  have step: "op_result (Suc m) c' (own_room node) (op_type b xs)
      (morphl_infer_type_for_op ops n node (n_op node) (map Some ps) c')"
    if "extends c c'" "list_all2 (denotes m (tc_types c')) ps xs" "ready c' (own_room node)" for ps xs c'
  proof -
    have "interns_lookup (tc_interns c') (n_op node) = Some b" "registry_inv ops (tc_interns c')"
      using typing_context_extends [OF tc that(1)] op(2) same_names_lookup [OF extendsD(3) [OF that(1)]]
      by (simp_all add: typing_context_def)
    moreover have "ready c' SIZEOF_TYPE" using that(3) by (simp add: ready_def)
    ultimately have "op_result (Suc m) c' SIZEOF_TYPE (op_type b xs)
        (morphl_infer_type_for_op ops n node (n_op node) (map Some ps) c')"
      using infer_for_op_typed [OF \<open>m \<le> n\<close> op(1) that(2)] by blast
    then show ?thesis by (rule op_result_mono) simp_all
  qed
  show ?thesis
    unfolding t(2)
    using finish_node [OF args [OF t(1)] refl e room, where m' = "Suc m"
        and step_of = "\<lambda>x ts. morphl_infer_type_for_op ops n x (n_op node) ts" and g = "op_type b"] step
    by simp
qed

lemma infer_typed:
  assumes "typing_context ops d env c" and "expression (tc_interns c) node" and "ready c (type_room node)"
    and "d + node_count node \<le> n"
  shows "ast_result (d + node_count node) c (type_room node) (type_of (tc_interns c) env node) node
    (morphl_infer_type_of_ast ops n node c)"
  using assms
proof (induction node arbitrary: c rule: measure_induct_rule [where f = size])
  case (less node)
  let ?t = "tc_interns c" and ?f = "morphl_infer_type_of_ast ops n" and ?k = "d + (\<Sum>e\<leftarrow>n_children node. node_count e)"
  have k: "d + node_count node = Suc ?k" using node_count_node [of node] by simp
  have n: "?k \<le> n" using less.prems(4) k by simp
  have own: "type_room node = kids_room node + own_room node" using type_room_node [of node] by simp
  have room: "ready c (kids_room node + own_room node)" using less.prems(3) own by simp
  have inv: "table_inv ?t" and cl: "closed_from 0 (tc_types c)" using less.prems(3) by (simp_all add: ready_def)
  have small: "d + node_count e \<le> n" if "e \<in> set (n_children node)" for e
    using member_le_sum_list [of "node_count e" "map node_count (n_children node)"] that n by simp
  have args: "args_result ?k (c\<lparr>tc_interns := t\<rparr>) (kids_room node) (those (map (type_of ?t env) (n_children node)))
      (n_children node) (infer_args ?f (n_children node) (c\<lparr>tc_interns := t\<rparr>))"
    if "\<forall>e\<in>set (n_children node). expression ?t e" and "same_names ?t t" for t
    by (rule children_typed [OF less.prems(1) _ that(1) less.IH extends_same [OF cl that(2)]])
      (use room small in \<open>simp_all add: ready_def room_used_def child_size\<close>)
  note kids = expression_children [OF less.prems(2)] and type = type_of_node [of ?t env node]
    and infer = morphl_infer_type_of_ast.simps [of ops n node]
  have self: "extends c c" using extends_same [OF cl same_names_refl [OF inv]] by simp
  consider "n_kind node = AST_LITERAL" | x where "n_kind node = AST_IDENT" "n_op node = 0" "n_value node = Some x" "x \<in> set (t_index ?t)"
    | "n_kind node = AST_GROUP" | b where "n_kind node \<in> {AST_BUILTIN, AST_CALL, AST_IF}" "b \<in> set expression_ops"
        "interns_lookup ?t (n_op node) = Some b"
    using less.prems(2) by (cases node) (auto split: ast_kind.splits)
  then show ?case
  proof cases
    case 1
    have "ready c SIZEOF_TYPE" using room by (simp add: ready_def)
    then have "op_result (Suc ?k) c (type_room node) (type_of ?t env node) (infer_literal node c)"
      using literal_typed [OF less.prems(1), of "Suc ?k" node] own type 1 by (auto intro: op_result_mono)
    then show ?thesis using 1 k by (simp add: infer ast_result_give)
  next
    case (2 x)
    have "op_result (Suc ?k) c (type_room node) (type_of ?t env node) (infer_ident node c)"
      using ident_typed [OF less.prems(1) 2(2-4), of "Suc ?k"] type 2 by simp
    then show ?thesis using 2 k by (simp add: infer ast_result_give)
  next
    case 3
    then have "type_of ?t env node = (case those (map (type_of ?t env) (n_children node)) of
        None \<Rightarrow> None | Some xs \<Rightarrow> Some (T_Node (MORPHL_TYPE_GROUP (map (\<lambda>x. None) xs)) xs))"
      using type by (simp cong: option.case_cong)
    moreover have "args_result ?k c (kids_room node) (those (map (type_of ?t env) (n_children node))) (n_children node)
        (infer_args ?f (n_children node) c)"
      using args [OF _ same_names_refl [OF inv]] kids 3 by simp
    ultimately show ?thesis using group_node_typed [OF _ room self] 3 k own by (simp add: infer)
  next
    case (4 b)
    then have "ast_result (Suc ?k) c (type_room node) (type_of ?t env node) node (infer_operator ops n ?f node c)"
      using operator_node_typed [OF args less.prems(1) room n 4(2,3)] kids type own
      by (auto cong: option.case_cong)
    then show ?thesis using 4(1) k by (auto simp: infer)
  qed
qed


lemma sample_typing_context:
  obtains ops t where "typing_context ops 0 (\<lambda>x. None) (sample_context\<lparr>tc_interns := t\<rparr>)" "table_inv t" "registry_inv ops t"
proof -
  obtain t1 where t1: "table_inv t1" "t_index t1 = [LEXER_KIND_IDENT, LEXER_KIND_NUMBER, LEXER_KIND_FLOAT,
      LEXER_KIND_STRING, LEXER_KIND_SYMBOL, LEXER_KIND_EOF]" by (rule intern_kinds_new)
  obtain ok ops t where e: "init_rows kBuiltinOps t1 = (ok, ops, t)" using prod_cases3 by blast
  have "fst (init_rows kBuiltinOps t1)"
    using bytes_builtin by (intro init_rows_total [OF t1(1)]) (simp add: t1(2) bytes_used_def kind_names)
  then have r: "operator_registry_init kBuiltinOps t1 = (True, ops, t)" using e by (simp add: operator_registry_init_def)
  note i = registry_init_inv [OF r t1(1)]
  have "set (t_index t1) \<subseteq> set (t_index t)"
  proof
    fix x assume "x \<in> set (t_index t1)"
    then obtain sy where "interns_lookup t1 sy = Some x" by (rule known_symbol)
    then show "x \<in> set (t_index t)" using i table_le_lookup st.lookup_mem by blast
  qed
  then have "typing_context ops 0 (\<lambda>x. None) (sample_context\<lparr>tc_interns := t\<rparr>)"
    using i by (simp add: typing_context_def t1(2) closed_from_def bound_to_def type_context_lookup_var_def
        sample_context_fields empty_scope_def)
  then show thesis using i by (intro that) auto
qed


end
