(* ===== verification/Grammar.thy ===== *)
theory Grammar
  imports Intern_Table Diagnostics
begin

text \<open>
  The grammar of \<open>include/parser/parser.h\<close> and its loader, the first half of
  \<open>src/parser/parser.c\<close>.

  An atom is a constructor per \<open>GrammarAtomKind\<close> with the fields its kind uses and its capture
  (0 for none); arrays are lists, whose capacities nothing observes.  The loader works on the
  interns, the arena and the diagnostics of \<open>parser_env\<close>.  \<open>strstr\<close> looks for the arrow
  of a production in the whole rest of the file: a line without an arrow that is followed by one
  with an arrow makes the template length wrap around and the C code read outside its buffer, and
  has no value here.
\<close>

section \<open>Grammars\<close>

datatype grammar_atom =
    GRAMMAR_ATOM_LITERAL (at_literal: string) (at_capture: nat)
  | GRAMMAR_ATOM_TOKEN_KIND (at_symbol: nat) (at_capture: nat)
  | GRAMMAR_ATOM_RULE (at_symbol: nat) (at_min_bp: nat) (at_capture: nat)
  | GRAMMAR_ATOM_REPEAT (at_subatoms: "grammar_atom list") (at_min_occurs: nat) (at_max_occurs: nat)
      (at_capture: nat)

record production =
  pr_atoms :: "grammar_atom list"
  pr_templates :: "string list"
  pr_starts_with_expr :: bool

record grammar_rule =
  gr_name :: nat
  gr_productions :: "production list"

record grammar =
  gm_rules :: "grammar_rule list"
  gm_start_rule :: nat

definition grammar_free :: grammar where
  "grammar_free = \<lparr>gm_rules = [], gm_start_rule = 0\<rparr>"

record parser_env =
  pe_interns :: intern_table
  pe_arena :: arena
  pe_diagnostics :: diagnostics

definition intern_env :: "string \<Rightarrow> parser_env \<Rightarrow> nat \<times> parser_env" where
  "intern_env s env =
     (case interns_intern (pe_interns env) (Some s) of (sy, t) \<Rightarrow> (sy, env\<lparr>pe_interns := t\<rparr>))"

text \<open>\<open>arena_push\<close> of a text and its terminating NUL.\<close>

definition store_env :: "string \<Rightarrow> parser_env \<Rightarrow> bool \<times> parser_env" where
  "store_env s env =
     (case arena_push (pe_arena env) (length s + 1) of
        None \<Rightarrow> (False, env)
      | Some (p, a) \<Rightarrow> (True, env\<lparr>pe_arena := a\<rparr>))"

section \<open>Patterns\<close>

definition trim_right :: "string \<Rightarrow> string" where
  "trim_right s = rev (dropWhile isspace (rev s))"

definition trim_whitespace :: "string \<Rightarrow> string" where
  "trim_whitespace line = trim_right (dropWhile isspace line)"

definition escaped :: "char \<Rightarrow> char" where
  "escaped c = (if c = CHR ''n'' then CHR 0x0A else if c = CHR ''t'' then CHR 0x09 else c)"

text \<open>The text of a quoted literal up to the closing quote, and the rest of the line.\<close>

fun parse_quoted :: "string \<Rightarrow> (string \<times> string) option" where
  "parse_quoted [] = None"
| "parse_quoted (c # cs) =
     (if c = CHR 0x22 then Some ([], cs)
      else if c = CHR 0x5C
      then (case cs of
              [] \<Rightarrow> None
            | e # es \<Rightarrow> map_option (\<lambda>(s, r). (escaped e # s, r)) (parse_quoted es))
      else map_option (\<lambda>(s, r). (c # s, r)) (parse_quoted cs))"

text \<open>The next word: its text, whether it was quoted, and the rest of the line.\<close>

definition parse_literal :: "string \<Rightarrow> (string \<times> bool \<times> string) option" where
  "parse_literal line =
     (case line of
        [] \<Rightarrow> None
      | c # cs \<Rightarrow>
          if c = CHR 0x22 then map_option (\<lambda>(s, r). (s, True, r)) (parse_quoted cs)
          else if isspace c then None
          else Some (takeWhile (\<lambda>d. \<not> isspace d) line, False, dropWhile (\<lambda>d. \<not> isspace d) line))"

text \<open>The text up to the parenthesis that closes the one before it, and the text after that.\<close>

fun split_group :: "nat \<Rightarrow> string \<Rightarrow> (string \<times> string) option" where
  "split_group depth [] = None"
| "split_group depth (c # cs) =
     (let d = (if c = CHR 0x28 then depth + 1 else if c = CHR 0x29 then depth - 1 else depth)
      in if d = 0 then Some ([], cs) else map_option (\<lambda>(inner, after). (c # inner, after)) (split_group d cs))"

text \<open>The quantifier after a group: least and greatest number of repetitions, and the rest.\<close>

definition quantifier :: "string \<Rightarrow> nat \<times> nat \<times> string" where
  "quantifier after =
     (case after of
        [] \<Rightarrow> (1, 1, [])
      | q # rest \<Rightarrow>
          if q = CHR ''+'' then (1, size_max, rest)
          else if q = CHR ''*'' then (0, size_max, rest)
          else if q = CHR ''?'' then (0, 1, rest)
          else (1, 1, after))"

definition ident_like :: "string \<Rightarrow> bool" where
  "ident_like raw \<longleftrightarrow>
     (case raw of [] \<Rightarrow> False
      | c # cs \<Rightarrow> (isalpha c \<or> c = CHR ''_'') \<and> list_all (\<lambda>d. isalnum d \<or> d = CHR ''_'') cs)"

definition digits_value :: "string \<Rightarrow> nat" where
  "digits_value ds = foldl (\<lambda>n d. n * 10 + (of_char d - 48)) 0 ds"

text \<open>\<open>strtoul(buffer, &endptr, 10)\<close> where the conversion must end at the terminating NUL.\<close>

definition strtoul :: "string \<Rightarrow> nat option" where
  "strtoul buffer =
     (let b = c_str buffer;
          s = dropWhile isspace b;
          neg = (s \<noteq> [] \<and> hd s = CHR ''-'');
          t = (if s \<noteq> [] \<and> (hd s = CHR ''-'' \<or> hd s = CHR ''+'') then tl s else s);
          ds = takeWhile isdigit t;
          v = digits_value ds
      in if ds = [] then (if b = [] then Some 0 else None)
         else if ds \<noteq> t then None
         else Some (if v > size_max then size_max else if neg then (2 ^ 64 - v) mod 2 ^ 64 else v))"

text \<open>The name and the binding power of \<open>$name[bp]\<close>, whose dollar sign is gone.\<close>

definition rule_reference :: "string \<Rightarrow> (string \<times> nat) option" where
  "rule_reference s =
     (let name = takeWhile (\<lambda>c. c \<noteq> CHR ''['') s; suffix = dropWhile (\<lambda>c. c \<noteq> CHR ''['') s
      in if name = [] then None
         else if suffix = [] then Some (name, 0)
         else if last suffix \<noteq> CHR '']'' then None
         else map_option (\<lambda>bp. (name, bp)) (strtoul (butlast (tl suffix))))"

text \<open>The atom a word that is no capture label stands for, quoted or not.\<close>

definition word_atom :: "string \<Rightarrow> nat \<Rightarrow> parser_env \<Rightarrow> grammar_atom option \<times> parser_env" where
  "word_atom raw capture env =
     (if length raw > 1 \<and> hd raw = CHR ''$''
      then (case rule_reference (tl raw) of
              None \<Rightarrow> (None, env)
            | Some (name, bp) \<Rightarrow>
                (case intern_env name env of
                   (sy, env1) \<Rightarrow> (if sy = 0 then None else Some (GRAMMAR_ATOM_RULE sy bp capture), env1)))
      else if raw \<noteq> [] \<and> hd raw = CHR ''%''
      then (case intern_env (tl raw) env of
              (sy, env1) \<Rightarrow> (if sy = 0 then None else Some (GRAMMAR_ATOM_TOKEN_KIND sy capture), env1))
      else (case store_env raw env of
              (ok, env1) \<Rightarrow> (if ok then Some (GRAMMAR_ATOM_LITERAL raw capture) else None, env1)))"

fun set_capture :: "nat \<Rightarrow> grammar_atom \<Rightarrow> grammar_atom" where
  "set_capture cap (GRAMMAR_ATOM_LITERAL s c) = GRAMMAR_ATOM_LITERAL s cap"
| "set_capture cap (GRAMMAR_ATOM_TOKEN_KIND k c) = GRAMMAR_ATOM_TOKEN_KIND k cap"
| "set_capture cap (GRAMMAR_ATOM_RULE r bp c) = GRAMMAR_ATOM_RULE r bp cap"
| "set_capture cap (GRAMMAR_ATOM_REPEAT subs mn mx c) = GRAMMAR_ATOM_REPEAT subs mn mx cap"

text \<open>
  A capture label goes to the last atom when that has none, and otherwise to the next atom: the
  atoms and the pending capture.
\<close>

definition attach_capture :: "nat \<Rightarrow> grammar_atom list \<Rightarrow> nat \<Rightarrow> grammar_atom list \<times> nat" where
  "attach_capture cap atoms pending =
     (if atoms \<noteq> [] \<and> at_capture (last atoms) = 0
      then (butlast atoms @ [set_capture cap (last atoms)], pending)
      else (atoms, cap))"

lemma length_trim: "length (trim_whitespace s) \<le> length s"
  using length_dropWhile_le [of isspace "rev (dropWhile isspace s)"] length_dropWhile_le [of isspace s]
  by (simp add: trim_whitespace_def trim_right_def)

lemma split_group_length:
  "split_group d s = Some (inner, after) \<Longrightarrow> length inner + length after < length s"
  by (induction d s arbitrary: inner after rule: split_group.induct)
    (auto simp: Let_def split: if_splits)

lemma quantifier_length: "quantifier after = (mn, mx, rest) \<Longrightarrow> length rest \<le> length after"
  by (auto simp: quantifier_def split: list.splits if_splits)

lemma parse_quoted_length: "parse_quoted s = Some (t, r) \<Longrightarrow> length r < length s"
  by (induction s arbitrary: t r rule: parse_quoted.induct) (auto split: if_splits list.splits, fastforce+)

lemma parse_literal_length: "parse_literal line = Some (raw, q, rest) \<Longrightarrow> length rest < length line"
  by (auto simp: parse_literal_def split: list.splits if_splits dest!: parse_quoted_length
      intro: le_less_trans [OF length_dropWhile_le])

text \<open>
  \<open>parse_pattern\<close>, the loop over the atoms of a line; the atoms of a group are parsed with the
  same loop (\<open>parse_subpattern_atoms\<close>).
\<close>

function parse_atoms ::
    "string \<Rightarrow> nat \<Rightarrow> grammar_atom list \<Rightarrow> parser_env \<Rightarrow> grammar_atom list option \<times> parser_env" where
  "parse_atoms line0 pending atoms env =
     (let line = trim_whitespace line0 in
      if line = [] then (Some atoms, env)
      else if take 2 line = [CHR ''$'', CHR 0x28]
      then (case split_group 1 (drop 2 line) of
              None \<Rightarrow> (None, env)
            | Some (inner, after) \<Rightarrow>
                (case parse_atoms inner 0 [] env of
                   (None, env1) \<Rightarrow> (None, env1)
                 | (Some subatoms, env1) \<Rightarrow>
                     (case quantifier (trim_whitespace after) of
                        (mn, mx, rest) \<Rightarrow>
                          parse_atoms rest 0 (atoms @ [GRAMMAR_ATOM_REPEAT subatoms mn mx pending]) env1)))
      else (case parse_literal line of
              None \<Rightarrow> (None, env)
            | Some (raw, quoted, rest) \<Rightarrow>
                if ident_like raw \<and> \<not> quoted
                then (case intern_env raw env of
                        (cap, env1) \<Rightarrow>
                          if cap = 0 then (None, env1)
                          else (case attach_capture cap atoms pending of
                                  (atoms1, pending1) \<Rightarrow> parse_atoms rest pending1 atoms1 env1))
                else (case word_atom raw pending env of
                        (None, env1) \<Rightarrow> (None, env1)
                      | (Some atom, env1) \<Rightarrow> parse_atoms rest 0 (atoms @ [atom]) env1)))"
  by pat_completeness auto
termination
proof (relation "measure (\<lambda>(line, pending, atoms, env). length line)", goal_cases)
  case 1
  then show ?case by simp
next
  case (2 line0 pending atoms env line ia inner after)
  then have "length inner < length line" using split_group_length [of 1 "drop 2 line" inner after] by simp
  then show ?case using length_trim [of line0] 2(1) by simp
next
  case (3 line0 pending atoms env line ia inner after p env1 subatoms mn q mx rest)
  then have "length rest \<le> length (trim_whitespace after)"
    using quantifier_length [of "trim_whitespace after" mn mx rest] by simp
  moreover have "length after < length line"
    using 3 split_group_length [of 1 "drop 2 line" inner after] by simp
  ultimately show ?case using length_trim [of after] length_trim [of line0] 3(1) by simp
next
  case (4 line0 pending atoms env line)
  then show ?case using parse_literal_length [of line] length_trim [of line0] by fastforce
next
  case (5 line0 pending atoms env line)
  then show ?case using parse_literal_length [of line] length_trim [of line0] by fastforce
qed

declare parse_atoms.simps [simp del]

definition starts_with_rule :: "nat \<Rightarrow> grammar_atom list \<Rightarrow> bool" where
  "starts_with_rule rule_name atoms \<longleftrightarrow>
     (case atoms of GRAMMAR_ATOM_RULE sy bp c # rest \<Rightarrow> sy = rule_name | _ \<Rightarrow> False)"

definition parse_pattern ::
    "string \<Rightarrow> nat \<Rightarrow> string list \<Rightarrow> parser_env \<Rightarrow> production option \<times> parser_env" where
  "parse_pattern line rule_name templates env =
     (case parse_atoms line 0 [] env of
        (None, env1) \<Rightarrow> (None, env1)
      | (Some atoms, env1) \<Rightarrow>
          (Some \<lparr>pr_atoms = atoms, pr_templates = templates,
                 pr_starts_with_expr = starts_with_rule rule_name atoms\<rparr>, env1))"

section \<open>Templates\<close>

text \<open>The alternatives of a template, which bars separate.\<close>

function split_bars :: "string \<Rightarrow> string list" where
  "split_bars s =
     takeWhile (\<lambda>c. c \<noteq> CHR 0x7C) s #
     (case dropWhile (\<lambda>c. c \<noteq> CHR 0x7C) s of [] \<Rightarrow> [] | bar # rest \<Rightarrow> split_bars rest)"
  by pat_completeness auto
termination
proof (relation "measure length", goal_cases)
  case (2 s bar rest)
  then show ?case using length_dropWhile_le [of "\<lambda>c. c \<noteq> CHR 0x7C" s] by simp
qed simp

declare split_bars.simps [simp del]

fun store_all :: "string list \<Rightarrow> parser_env \<Rightarrow> bool \<times> parser_env" where
  "store_all [] env = (True, env)"
| "store_all (s # ss) env =
     (case store_env s env of (ok, env1) \<Rightarrow> if ok then store_all ss env1 else (False, env1))"

definition split_templates :: "string \<Rightarrow> parser_env \<Rightarrow> string list option \<times> parser_env" where
  "split_templates text0 env =
     (if text0 = [] then (None, env)
      else (let ts = map trim_whitespace (split_bars text0) in
            case store_all ts env of (ok, env1) \<Rightarrow> (if ok then Some ts else None, env1)))"

section \<open>The loader\<close>

text \<open>\<open>strstr(s, "=>")\<close>: the offset of the arrow.\<close>

fun find_arrow :: "string \<Rightarrow> nat option" where
  "find_arrow [] = None"
| "find_arrow (c # cs) =
     (if c = CHR ''='' \<and> cs \<noteq> [] \<and> hd cs = CHR 0x3E then Some 0 else map_option Suc (find_arrow cs))"

text \<open>
  A production: \<open>line\<close> is the trimmed line and \<open>here\<close> the file from its first character on.  No
  value when the arrow is not on the line.
\<close>

definition load_production ::
    "string \<Rightarrow> string \<Rightarrow> nat \<Rightarrow> parser_env \<Rightarrow> (production option \<times> parser_env) option" where
  "load_production line here rule_name env =
     (case find_arrow (c_str here) of
        None \<Rightarrow> Some (None, env)
      | Some pos \<Rightarrow>
          if pos + 2 > length line then None
          else (case split_templates (trim_whitespace (drop (pos + 2) line)) env of
                  (None, env1) \<Rightarrow> Some (None, env1)
                | (Some templates, env1) \<Rightarrow>
                    Some (parse_pattern (trim_whitespace (take pos line)) rule_name templates env1)))"

text \<open>The position of the rule with a name, added at the end when there is none.\<close>

definition find_or_add_rule :: "nat \<Rightarrow> grammar \<Rightarrow> nat \<times> grammar" where
  "find_or_add_rule name g =
     (let i = length (takeWhile (\<lambda>r. gr_name r \<noteq> name) (gm_rules g)) in
      if i < length (gm_rules g) then (i, g)
      else (i, g\<lparr>gm_rules := gm_rules g @ [\<lparr>gr_name = name, gr_productions = []\<rparr>],
                 gm_start_rule := (if gm_start_rule g = 0 then name else gm_start_rule g)\<rparr>))"

definition reset_rule :: "nat \<Rightarrow> nat \<Rightarrow> grammar \<Rightarrow> grammar" where
  "reset_rule i name g = g\<lparr>gm_rules := (gm_rules g)[i := \<lparr>gr_name = name, gr_productions = []\<rparr>]\<rparr>"

definition add_production :: "nat \<Rightarrow> production \<Rightarrow> grammar \<Rightarrow> grammar" where
  "add_production i p g =
     g\<lparr>gm_rules := (gm_rules g)[i := (gm_rules g ! i)\<lparr>gr_productions := gr_productions (gm_rules g ! i) @ [p]\<rparr>]\<rparr>"

definition warn_env :: "string \<Rightarrow> parser_env \<Rightarrow> parser_env" where
  "warn_env msg env =
     env\<lparr>pe_diagnostics := morphl_error_emit None
       (morphl_error_make MORPHL_E_PARSE MORPHL_SEV_WARN morphl_span_unknown msg) (pe_diagnostics env)\<rparr>"

definition warn_builtin_name :: "string \<Rightarrow> parser_env \<Rightarrow> parser_env" where
  "warn_builtin_name name env =
     (if name \<noteq> [] \<and> hd name = CHR ''$''
      then warn_env (''custom rule '' @ [CHR 0x27] @ view_text (Some name) @ [CHR 0x27] @
             '' redefines builtin operator namespace'') env
      else env)"

text \<open>The name of a \<open>rule name:\<close> line.\<close>

definition rule_header :: "string \<Rightarrow> string option" where
  "rule_header line =
     (let name = trim_whitespace (drop 4 line)
      in if name = [] \<or> last name \<noteq> CHR '':'' then None else Some (trim_right (butlast name)))"

text \<open>
  The loop over the lines; \<open>current\<close> is the position of the rule that is being read.  Every
  failure leaves the empty grammar behind.
\<close>

function load_lines ::
    "string \<Rightarrow> nat option \<Rightarrow> grammar \<Rightarrow> parser_env \<Rightarrow> (bool \<times> grammar \<times> parser_env) option" where
  "load_lines buf current g env =
     (if buf = [] then Some (gm_rules g \<noteq> [], g, env)
      else (let raw = takeWhile (\<lambda>c. c \<noteq> newline) buf;
                rest = drop (length raw + 1) buf;
                line = trim_whitespace raw
            in if line = [] \<or> hd line = CHR ''#'' then load_lines rest current g env
               else if take 3 line = ''end'' then load_lines rest None g env
               else if length line \<ge> 5 \<and> take 4 line = ''rule''
               then (case rule_header line of
                       None \<Rightarrow> Some (False, grammar_free, env)
                     | Some name \<Rightarrow>
                         (case intern_env name (warn_builtin_name name env) of
                            (sy, env1) \<Rightarrow>
                              if sy = 0 then Some (False, grammar_free, env1)
                              else (case find_or_add_rule sy g of
                                      (i, g1) \<Rightarrow> load_lines rest (Some i) (reset_rule i sy g1) env1)))
               else (case current of
                       None \<Rightarrow> Some (False, grammar_free, env)
                     | Some i \<Rightarrow>
                         (case load_production line (drop (length (takeWhile isspace raw)) buf)
                                 (gr_name (gm_rules g ! i)) env of
                            None \<Rightarrow> None
                          | Some (None, env1) \<Rightarrow> Some (False, grammar_free, env1)
                          | Some (Some p, env1) \<Rightarrow> load_lines rest current (add_production i p g) env1))))"
  by pat_completeness auto
termination
  by (relation "measure (\<lambda>(buf, current, g, env). length buf)") auto

declare load_lines.simps [simp del]

definition grammar_load_file :: "string \<Rightarrow> parser_env \<Rightarrow> (bool \<times> grammar \<times> parser_env) option" where
  "grammar_load_file path env =
     (case morphl_file_read_all (dg_files (pe_diagnostics env)) path of
        None \<Rightarrow> Some (False, grammar_free, env)
      | Some (contents, len) \<Rightarrow> load_lines contents None grammar_free env)"

definition find_rule :: "grammar \<Rightarrow> nat \<Rightarrow> grammar_rule option" where
  "find_rule g name = find (\<lambda>r. gr_name r = name) (gm_rules g)"

end
