(* ===== verification/Grammar_Parser.thy ===== *)
theory Grammar_Parser
  imports Grammar Ast Operators Lexer "HOL-Library.Monad_Syntax"
begin

text \<open>
  Parsing with a grammar, the second half of \<open>src/parser/parser.c\<close>: the recogniser and the
  parser that builds a tree from templates.

  A cursor is a position in the token list.  A step returns the new cursor, or \<open>None\<close> when
  it does not match, and the state it changes: the furthest failure, and for the tree builder the
  interns and the captures, which stay when a match fails half way.  The loop that extends a left
  operand gets one round per token left and one more; a run that needed more would have no value,
  and \<open>Grammar_Derivations\<close> proves that none does.  Releasing memory is not modelled, except
  that a template that fails after it has taken captured nodes over, which it then frees although
  they are shared or still in use, has no value.
\<close>

definition PARSER_MAX_DEPTH :: nat where "PARSER_MAX_DEPTH = 128"

record parse_failure =
  pf_best_cursor :: nat
  pf_best_rule :: nat
  pf_has_failure :: bool

definition no_failure :: parse_failure where
  "no_failure = \<lparr>pf_best_cursor = 0, pf_best_rule = 0, pf_has_failure = False\<rparr>"

definition record_parse_failure :: "nat \<Rightarrow> nat \<Rightarrow> parse_failure \<Rightarrow> parse_failure" where
  "record_parse_failure cursor rule pf =
     (if \<not> pf_has_failure pf \<or> cursor > pf_best_cursor pf
      then \<lparr>pf_best_cursor = cursor, pf_best_rule = rule, pf_has_failure = True\<rparr>
      else pf)"

definition span_from_token :: "token \<Rightarrow> morphl_span" where
  "span_from_token tok = morphl_span_from_loc (Some (tk_filename tok)) (tk_row tok) (tk_col tok)"

section \<open>The recogniser\<close>

type_synonym matched = "(nat option \<times> parse_failure) option"

text \<open>The parser of a rule: depth, rule, least binding power, cursor.\<close>

type_synonym rule_parser = "nat \<Rightarrow> grammar_rule \<Rightarrow> nat \<Rightarrow> nat \<Rightarrow> parse_failure \<Rightarrow> matched"

fun match_atoms :: "(grammar_atom \<Rightarrow> nat \<Rightarrow> parse_failure \<Rightarrow> matched) \<Rightarrow> grammar_atom list \<Rightarrow> nat \<Rightarrow> parse_failure \<Rightarrow> matched" where
  "match_atoms m [] cursor pf = Some (Some cursor, pf)"
| "match_atoms m (a # as) cursor pf = do {
     (c, pf1) \<leftarrow> m a cursor pf;
     (case c of None \<Rightarrow> Some (None, pf1) | Some cursor1 \<Rightarrow> match_atoms m as cursor1 pf1)
   }"

text \<open>The repetitions from the \<open>k\<close>-th on: how many there were, the cursor after them.\<close>

function repeat_match ::
    "(nat \<Rightarrow> parse_failure \<Rightarrow> matched) \<Rightarrow> nat \<Rightarrow> nat \<Rightarrow> nat \<Rightarrow> parse_failure \<Rightarrow> (nat \<times> nat \<times> parse_failure) option" where
  "repeat_match m max_occurs k cursor pf =
     (if k < max_occurs then do {
        (c, pf1) \<leftarrow> m cursor pf;
        (case c of
           None \<Rightarrow> Some (k, cursor, pf1)
         | Some cursor1 \<Rightarrow> repeat_match m max_occurs (k + 1) cursor1 pf1)
      } else Some (k, cursor, pf))"
  by pat_completeness auto
termination
  by (relation "measure (\<lambda>(m, max_occurs, k, cursor, pf). max_occurs - k)") auto

declare repeat_match.simps [simp del]

lemma match_atoms_cong [fundef_cong]:
  assumes "as = bs" and "c = c'" and "pf = pf'" and "\<And>a c pf. a \<in> set bs \<Longrightarrow> m a c pf = m' a c pf"
  shows "match_atoms m as c pf = match_atoms m' bs c' pf'"
proof -
  have "match_atoms m bs c' pf' = match_atoms m' bs c' pf'" if "\<forall>a\<in>set bs. \<forall>c pf. m a c pf = m' a c pf" for c' pf'
    using that
  proof (induction bs arbitrary: c' pf')
    case (Cons b bs)
    then have eqs: "m b c' pf' = m' b c' pf'" "\<And>c pf. match_atoms m bs c pf = match_atoms m' bs c pf"
      by simp_all
    show ?case unfolding match_atoms.simps eqs ..
  qed simp
  then show ?thesis using assms by simp
qed

lemma repeat_match_cong [fundef_cong]:
  assumes "mx = mx'" and "k = k'" and "c = c'" and "pf = pf'" and "\<And>c pf. m c pf = m' c pf"
  shows "repeat_match m mx k c pf = repeat_match m' mx' k' c' pf'"
proof -
  have "m = m'" by (intro ext assms(5))
  then show ?thesis by (simp add: assms(1-4))
qed

fun match_atom ::
    "rule_parser \<Rightarrow> grammar \<Rightarrow> token list \<Rightarrow> nat \<Rightarrow> grammar_atom \<Rightarrow> nat \<Rightarrow> parse_failure \<Rightarrow> matched" where
  "match_atom rules g tokens depth (GRAMMAR_ATOM_LITERAL lit capture) cursor pf =
     (if cursor \<ge> length tokens then Some (None, pf)
      else if \<not> str_eq (tk_lexeme (tokens ! cursor)) (Some lit) then Some (None, pf)
      else Some (Some (cursor + 1), pf))"
| "match_atom rules g tokens depth (GRAMMAR_ATOM_TOKEN_KIND kind capture) cursor pf =
     (if cursor \<ge> length tokens then Some (None, pf)
      else if tk_kind (tokens ! cursor) \<noteq> kind then Some (None, pf)
      else Some (Some (cursor + 1), pf))"
| "match_atom rules g tokens depth (GRAMMAR_ATOM_RULE name bp capture) cursor pf =
     (case find_rule g name of
        None \<Rightarrow> Some (None, pf)
      | Some rule \<Rightarrow> rules (depth + 1) rule bp cursor pf)"
| "match_atom rules g tokens depth (GRAMMAR_ATOM_REPEAT subatoms min_occurs max_occurs capture) cursor pf = do {
     (k, cursor1, pf1) \<leftarrow>
       repeat_match (\<lambda>c pf. match_atoms (\<lambda>a. match_atom rules g tokens (depth + 1) a) subatoms c pf) max_occurs 0 cursor pf;
     if k < min_occurs then Some (None, pf1) else Some (Some cursor1, pf1)
   }"

text \<open>The \<open>min_bp\<close> field, which is zero for atoms of other kinds.\<close>

fun min_bp_of :: "grammar_atom \<Rightarrow> nat" where
  "min_bp_of (GRAMMAR_ATOM_RULE name bp capture) = bp"
| "min_bp_of _ = 0"

text \<open>The atoms of a production, where a failure is recorded.\<close>

definition record_match ::
    "nat \<Rightarrow> (grammar_atom \<Rightarrow> nat \<Rightarrow> parse_failure \<Rightarrow> matched) \<Rightarrow> grammar_atom \<Rightarrow> nat \<Rightarrow> parse_failure \<Rightarrow> matched" where
  "record_match name m a cursor pf = do {
     (c, pf1) \<leftarrow> m a cursor pf;
     Some (c, if c = None then record_parse_failure cursor name pf1 else pf1)
   }"

definition match_pattern ::
    "rule_parser \<Rightarrow> grammar \<Rightarrow> token list \<Rightarrow> nat \<Rightarrow> production \<Rightarrow> nat \<Rightarrow> bool \<Rightarrow> nat \<Rightarrow> nat \<Rightarrow> parse_failure \<Rightarrow> matched" where
  "match_pattern rules g tokens name p min_bp consume_leading_expr depth cursor pf =
     (let leading = pr_atoms p \<noteq> [] \<and> pr_starts_with_expr p \<and> consume_leading_expr in
      if depth > PARSER_MAX_DEPTH then Some (None, pf)
      else if leading \<and> min_bp_of (hd (pr_atoms p)) < min_bp then Some (None, pf)
      else do {
        (c, pf1) \<leftarrow> match_atoms (record_match name (match_atom rules g tokens depth))
          (if leading then tl (pr_atoms p) else pr_atoms p) cursor pf;
        (case c of
           None \<Rightarrow> Some (None, pf1)
         | Some cursor1 \<Rightarrow>
             if consume_leading_expr \<and> length (pr_atoms p) \<le> 1 then Some (None, pf1)
             else if cursor1 = cursor then Some (None, pf1)
             else Some (Some cursor1, pf1))
      })"

text \<open>The first production that matches.\<close>

fun first_match ::
    "('p \<Rightarrow> 'c \<Rightarrow> 's \<Rightarrow> ('r option \<times> 's) option) \<Rightarrow> 'p list \<Rightarrow> 'c \<Rightarrow> 's \<Rightarrow> ('r option \<times> 's) option" where
  "first_match m [] cursor pf = Some (None, pf)"
| "first_match m (p # ps) cursor pf = do {
     (c, pf1) \<leftarrow> m p cursor pf;
     (case c of None \<Rightarrow> first_match m ps cursor pf1 | Some r \<Rightarrow> Some (Some r, pf1))
   }"

text \<open>The loop that extends a match, with the rounds it may use.\<close>

fun extend_match :: "nat \<Rightarrow> ('c \<Rightarrow> 's \<Rightarrow> ('c option \<times> 's) option) \<Rightarrow> 'c \<Rightarrow> 's \<Rightarrow> ('c option \<times> 's) option" where
  "extend_match 0 m cursor pf = None"
| "extend_match (Suc n) m cursor pf = do {
     (c, pf1) \<leftarrow> m cursor pf;
     (case c of None \<Rightarrow> Some (Some cursor, pf1) | Some cursor1 \<Rightarrow> extend_match n m cursor1 pf1)
   }"

definition rule_step ::
    "rule_parser \<Rightarrow> grammar \<Rightarrow> token list \<Rightarrow> nat \<Rightarrow> grammar_rule \<Rightarrow> nat \<Rightarrow> nat \<Rightarrow> parse_failure \<Rightarrow> matched" where
  "rule_step rules g tokens depth rule min_bp cursor pf =
     (let prefix = [p \<leftarrow> gr_productions rule. \<not> pr_starts_with_expr p];
          infix' = [p \<leftarrow> gr_productions rule. pr_starts_with_expr p];
          match = (\<lambda>leading p. match_pattern rules g tokens (gr_name rule) p min_bp leading (depth + 1))
      in do {
        (c, pf1) \<leftarrow> first_match (match False) prefix cursor pf;
        (case c of
           None \<Rightarrow> Some (None, record_parse_failure cursor (gr_name rule) pf1)
         | Some cursor1 \<Rightarrow>
             extend_match (length tokens - cursor1 + 1) (first_match (match True) infix') cursor1 pf1)
      })"

text \<open>Rules are called one level deeper at least.\<close>

lemma match_atom_deeper:
  assumes "\<And>d. d > depth \<Longrightarrow> rules d = rules' d"
  shows "match_atom rules g tokens depth a = match_atom rules' g tokens depth a"
  using assms
proof (induction a arbitrary: depth)
  case (GRAMMAR_ATOM_RULE name bp capture)
  then show ?case by (intro ext) (simp split: option.split)
next
  case (GRAMMAR_ATOM_REPEAT subatoms mn mx capture)
  have "match_atoms (match_atom rules g tokens (depth + 1)) subatoms =
      match_atoms (match_atom rules' g tokens (depth + 1)) subatoms"
  proof (intro ext match_atoms_cong refl)
    fix a c pf
    assume "a \<in> set subatoms"
    then show "match_atom rules g tokens (depth + 1) a c pf = match_atom rules' g tokens (depth + 1) a c pf"
      using GRAMMAR_ATOM_REPEAT.IH [of a "depth + 1"] GRAMMAR_ATOM_REPEAT.prems by simp
  qed
  then show ?case by (intro ext) simp
qed (intro ext, simp)+

lemma match_pattern_deeper:
  assumes "\<And>d. d > depth \<Longrightarrow> rules d = rules' d"
  shows "match_pattern rules g tokens name p min_bp leading depth = match_pattern rules' g tokens name p min_bp leading depth"
proof -
  have eq: "match_atom rules g tokens depth = match_atom rules' g tokens depth"
    by (intro ext) (simp add: match_atom_deeper [OF assms])
  show ?thesis by (intro ext) (simp only: match_pattern_def eq)
qed

lemma rule_step_cong [fundef_cong]:
  assumes "g = g'" and "tokens = tokens'" and "depth = depth'" and "rule = rule'" and "min_bp = min_bp'"
    and "cursor = cursor'" and "pf = pf'"
    and "\<And>d r bp c pf. d > depth' \<Longrightarrow> rules d r bp c pf = rules' d r bp c pf"
  shows "rule_step rules g tokens depth rule min_bp cursor pf =
    rule_step rules' g' tokens' depth' rule' min_bp' cursor' pf'"
proof -
  have eq: "match_pattern rules g' tokens' name p min_bp' leading (depth' + 1) =
      match_pattern rules' g' tokens' name p min_bp' leading (depth' + 1)" for name p leading
    by (rule match_pattern_deeper) (intro ext, simp add: assms(8))
  show ?thesis unfolding assms(1-7) rule_step_def eq ..
qed

function parse_rule_internal ::
    "grammar \<Rightarrow> token list \<Rightarrow> nat \<Rightarrow> grammar_rule \<Rightarrow> nat \<Rightarrow> nat \<Rightarrow> parse_failure \<Rightarrow> matched" where
  "parse_rule_internal g tokens depth rule min_bp cursor pf =
     (if depth > PARSER_MAX_DEPTH then Some (None, pf)
      else rule_step (parse_rule_internal g tokens) g tokens depth rule min_bp cursor pf)"
  by pat_completeness auto
termination
  by (relation "measure (\<lambda>(g, tokens, depth, rule, min_bp, cursor, pf). Suc PARSER_MAX_DEPTH - depth)") auto

declare parse_rule_internal.simps [simp del]

definition error_env :: "morphl_span \<Rightarrow> string \<Rightarrow> parser_env \<Rightarrow> parser_env" where
  "error_env sp msg env =
     env\<lparr>pe_diagnostics := morphl_error_emit None
       (morphl_error_make MORPHL_E_PARSE MORPHL_SEV_ERROR sp msg) (pe_diagnostics env)\<rparr>"

text \<open>The tokens without a final end-of-file token.\<close>

definition strip_eof :: "token list \<Rightarrow> parser_env \<Rightarrow> token list \<times> parser_env" where
  "strip_eof tokens env =
     (case intern_env LEXER_KIND_EOF env of
        (eof_sym, env1) \<Rightarrow>
          (if tokens \<noteq> [] \<and> tk_kind (last tokens) = eof_sym then butlast tokens else tokens, env1))"

definition lexeme_at :: "token list \<Rightarrow> nat \<Rightarrow> string" where
  "lexeme_at tokens i = (if i < length tokens then view_text (tk_lexeme (tokens ! i)) else [])"

definition span_at :: "token list \<Rightarrow> nat \<Rightarrow> morphl_span" where
  "span_at tokens i = (if i < length tokens then span_from_token (tokens ! i) else morphl_span_unknown)"

definition rule_text :: "nat \<Rightarrow> parser_env \<Rightarrow> string" where
  "rule_text rule env = [CHR 0x27] @ view_text (interns_lookup (pe_interns env) rule) @ [CHR 0x27]"

definition report_parse_failed :: "token list \<Rightarrow> nat \<Rightarrow> nat \<Rightarrow> parser_env \<Rightarrow> parser_env" where
  "report_parse_failed tokens cursor rule env =
     error_env (span_at tokens cursor)
       (''parse failed near rule '' @ rule_text rule env @ '' at token '' @ nat_str cursor @ '' of '' @
        nat_str (length tokens) @ '': '' @ [CHR 0x27] @ lexeme_at tokens cursor @ [CHR 0x27]) env"

definition report_parse_stopped :: "token list \<Rightarrow> nat \<Rightarrow> nat \<Rightarrow> parser_env \<Rightarrow> parser_env" where
  "report_parse_stopped tokens cursor rule env =
     error_env (span_at tokens cursor)
       (''parse stopped at token '' @ nat_str cursor @ '' of '' @ nat_str (length tokens) @ '' near rule '' @
        rule_text rule env @ '': '' @ [CHR 0x27] @ lexeme_at tokens cursor @ [CHR 0x27]) env"

text \<open>The report of a parse that failed: at the furthest failure, if one was recorded.\<close>

definition report_furthest :: "token list \<Rightarrow> nat \<Rightarrow> parse_failure \<Rightarrow> parser_env \<Rightarrow> parser_env" where
  "report_furthest tokens rule pf env =
     (if pf_has_failure pf then report_parse_failed tokens (pf_best_cursor pf) (pf_best_rule pf) env
      else report_parse_failed tokens 0 rule env)"

definition grammar_parse :: "grammar \<Rightarrow> nat \<Rightarrow> token list \<Rightarrow> parser_env \<Rightarrow> (bool \<times> parser_env) option" where
  "grammar_parse g start_rule all_tokens env =
     (if gm_rules g = [] then Some (False, env)
      else (case strip_eof all_tokens env of
              (tokens, env1) \<Rightarrow>
                (case find_rule g (if start_rule \<noteq> 0 then start_rule else gm_start_rule g) of
                   None \<Rightarrow> Some (False, env1)
                 | Some rule \<Rightarrow> do {
                     (c, pf) \<leftarrow> parse_rule_internal g tokens 0 rule 0 0 no_failure;
                     Some (case c of
                        None \<Rightarrow> (False, report_furthest tokens (gr_name rule) pf env1)
                      | Some cursor \<Rightarrow>
                          if cursor \<noteq> length tokens
                          then (False, report_parse_stopped tokens cursor (gr_name rule) env1)
                          else (True, env1))
                   })))"

section \<open>Templates\<close>

type_synonym captures = "(nat \<times> ast list) list"

fun capture_append :: "nat \<Rightarrow> ast \<Rightarrow> captures \<Rightarrow> captures" where
  "capture_append name node [] = [(name, [node])]"
| "capture_append name node ((n, nodes) # caps) =
     (if n = name then (n, nodes @ [node]) # caps else (n, nodes) # capture_append name node caps)"

fun set_location :: "ast \<Rightarrow> ast \<Rightarrow> ast" where
  "set_location from (AstNode k op v cs cap fn row col) =
     AstNode k op v cs cap (n_filename from) (n_row from) (n_col from)"

fun set_op :: "nat \<Rightarrow> ast \<Rightarrow> ast" where
  "set_op op1 (AstNode k op v cs cap fn row col) = AstNode k op1 v cs cap fn row col"

definition append_children :: "ast \<Rightarrow> ast list \<Rightarrow> ast" where
  "append_children node cs = foldl ast_append_child node cs"

definition ast_group_from_list :: "ast list \<Rightarrow> ast" where
  "ast_group_from_list nodes =
     (let g = append_children (ast_new AST_GROUP) nodes
      in if nodes = [] then g else set_location (hd nodes) g)"

text \<open>What \<open>flatten_and_append\<close> appends for a node.\<close>

fun flattened :: "ast \<Rightarrow> ast list" where
  "flattened (AstNode k op v cs cap fn row col) =
     (if k = AST_GROUP then concat (map flattened cs) else [AstNode k op v cs cap fn row col])"

definition flatten_and_append :: "ast \<Rightarrow> ast \<Rightarrow> ast" where
  "flatten_and_append parent node = append_children parent (flattened node)"

fun ast_clone_tree :: "ast \<Rightarrow> ast" where
  "ast_clone_tree (AstNode k op v cs cap fn row col) =
     append_children (AstNode k op v [] 0 fn row col) (map ast_clone_tree cs)"

definition clone_captures :: "captures \<Rightarrow> captures" where
  "clone_captures caps = map (\<lambda>(name, nodes). (name, map ast_clone_tree nodes)) caps"

text \<open>\<open>NEXT_TOKEN\<close>: the word at the start, and the text from the next word on.\<close>

definition next_token :: "string \<Rightarrow> string \<times> string" where
  "next_token s =
     (takeWhile (\<lambda>c. \<not> isspace c) s, dropWhile isspace (dropWhile (\<lambda>c. \<not> isspace c) s))"

text \<open>
  The result of building a template: a node, \<open>None\<close> for a failure that has taken no node over,
  and no value for one that has.
\<close>

definition refuse :: "ast \<Rightarrow> intern_table \<Rightarrow> (ast option \<times> intern_table) option" where
  "refuse root names = (if n_children root = [] then Some (None, names) else None)"

text \<open>The nodes of the capture that the next word names, interned: none without a word.\<close>

definition named_capture :: "string \<Rightarrow> captures \<Rightarrow> intern_table \<Rightarrow> (nat \<times> ast list) \<times> intern_table" where
  "named_capture name caps names =
     (if name = [] then ((0, []), names)
      else (case interns_intern names (Some name) of
              (sy, names1) \<Rightarrow>
                ((sy, if sy = 0 then [] else (case map_of caps sy of None \<Rightarrow> [] | Some nodes \<Rightarrow> nodes)), names1)))"

definition append_capture :: "ast \<Rightarrow> ast list \<Rightarrow> ast" where
  "append_capture root nodes =
     (if length nodes = 1 then ast_append_child root (hd nodes)
      else ast_append_child root (ast_group_from_list nodes))"

lemma next_token_length: "next_token s = (word, rest) \<Longrightarrow> length rest \<le> length s"
  by (auto simp: next_token_def intro: le_trans [OF length_dropWhile_le length_dropWhile_le])

lemma next_token_shorter:
  "next_token s = (word, rest) \<Longrightarrow> s \<noteq> [] \<Longrightarrow> \<not> isspace (hd s) \<Longrightarrow> length rest < length s"
  by (cases s)
    (auto simp: next_token_def less_Suc_eq_le intro: le_trans [OF length_dropWhile_le length_dropWhile_le])

function template_args ::
    "string \<Rightarrow> captures \<Rightarrow> intern_table \<Rightarrow> ast \<Rightarrow> (ast option \<times> intern_table) option" where
  "template_args text0 caps names root =
     (if text0 = [] \<or> isspace (hd text0) then Some (Some root, names)
      else (case next_token text0 of
              (word, rest) \<Rightarrow>
                if word = ''$$spread'' \<or> word = ''$spread''
                then (case next_token rest of
                        (name, rest1) \<Rightarrow>
                          (case named_capture name caps names of
                             ((sy, nodes), names1) \<Rightarrow>
                               if nodes = [] then refuse root names1
                               else template_args rest1 caps names1 (foldl flatten_and_append root nodes)))
                else if word = ''$$maybe''
                then (case next_token rest of
                        (name, rest1) \<Rightarrow>
                          (case named_capture name caps names of
                             ((sy, nodes), names1) \<Rightarrow>
                               if sy = 0 then refuse root names1
                               else template_args rest1 caps names1
                                      (if nodes = [] then root else append_capture root nodes)))
                else if word = ''$$delim'' then template_args rest caps names root
                else (case named_capture word caps names of
                        ((sy, nodes), names1) \<Rightarrow>
                          if nodes = [] then refuse root names1
                          else template_args rest caps names1 (append_capture root nodes))))"
  by pat_completeness auto

termination
proof (relation "measure (\<lambda>(text0, caps, names, root). length text0)", goal_cases)
  case 1
  then show ?case by simp
next
  case (2 text0 caps names root word rest name rest1)
  then show ?case using next_token_shorter [of text0 word rest] next_token_length [of rest name rest1] by simp
next
  case (3 text0 caps names root word rest name rest1)
  then show ?case using next_token_shorter [of text0 word rest] next_token_length [of rest name rest1] by simp
next
  case (4 text0 caps names root word rest)
  then show ?case using next_token_shorter [of text0 word rest] by simp
next
  case (5 text0 caps names root word rest)
  then show ?case using next_token_shorter [of text0 word rest] by simp
qed

declare template_args.simps [simp del]

text \<open>The operator of a template, and the text after it; \<open>$$op\<close> takes the text of a captured node.\<close>

definition template_op :: "string \<Rightarrow> captures \<Rightarrow> intern_table \<Rightarrow> (nat \<times> string) option \<times> intern_table" where
  "template_op tmpl caps names =
     (case next_token tmpl of
        (word, rest) \<Rightarrow>
          if word = [] then (None, names)
          else (case interns_intern names (Some word) of
                  (sy, names1) \<Rightarrow>
                    if sy = 0 then (None, names1)
                    else if word = ''$$op''
                    then (case next_token rest of
                            (name, rest1) \<Rightarrow>
                              (case named_capture name caps names1 of
                                 ((cap, nodes), names2) \<Rightarrow>
                                   if length nodes \<noteq> 1 then (None, names2)
                                   else (case interns_intern names2 (n_value (hd nodes)) of
                                           (op, names3) \<Rightarrow> (Some (op, rest1), names3))))
                    else (Some (sy, rest), names1)))"

definition template_kind :: "operator_row list \<Rightarrow> nat \<Rightarrow> ast_kind" where
  "template_kind ops op =
     (case operator_info_lookup ops op of
        Some info \<Rightarrow> if i_ast_kind info \<noteq> AST_UNKNOWN then i_ast_kind info else AST_BUILTIN
      | None \<Rightarrow> AST_BUILTIN)"

definition build_template_ast ::
    "operator_row list \<Rightarrow> string \<Rightarrow> captures \<Rightarrow> intern_table \<Rightarrow> (ast option \<times> intern_table) option" where
  "build_template_ast ops tmpl caps names =
     (case template_op tmpl caps names of
        (None, names1) \<Rightarrow> Some (None, names1)
      | (Some (op, rest), names1) \<Rightarrow> do {
          (node, names2) \<leftarrow> template_args rest caps names1 (set_op op (ast_new (template_kind ops op)));
          Some (map_option (\<lambda>root.
            if n_children root = [] then root else set_location (hd (n_children root)) root) node, names2)
        })"

definition template_is_leaf :: "production \<Rightarrow> bool" where
  "template_is_leaf p \<longleftrightarrow>
     (case pr_templates p of
        [] \<Rightarrow> False
      | tmpl # _ \<Rightarrow> (case next_token (dropWhile isspace tmpl) of (word, rest) \<Rightarrow> word \<noteq> [] \<and> rest = []))"

text \<open>The candidates of an overload, each from its own copy of the captures.\<close>

fun build_candidates ::
    "operator_row list \<Rightarrow> string list \<Rightarrow> captures \<Rightarrow> intern_table \<Rightarrow> ast \<Rightarrow> (ast option \<times> intern_table) option" where
  "build_candidates ops [] caps names overload = Some (Some overload, names)"
| "build_candidates ops (tmpl # tmpls) caps names overload = do {
     (cand, names1) \<leftarrow> build_template_ast ops tmpl (clone_captures caps) names;
     (case cand of
        None \<Rightarrow> Some (None, names1)
      | Some node \<Rightarrow> build_candidates ops tmpls caps names1 (ast_append_child overload node))
   }"

definition build_prod_result ::
    "operator_row list \<Rightarrow> production \<Rightarrow> captures \<Rightarrow> intern_table \<Rightarrow> ast option \<Rightarrow> (ast option \<times> intern_table) option" where
  "build_prod_result ops p caps names first_node =
     (case pr_templates p of
        [] \<Rightarrow> Some (None, names)
      | [tmpl] \<Rightarrow>
          if template_is_leaf p \<and> first_node \<noteq> None then Some (first_node, names)
          else build_template_ast ops tmpl caps names
      | tmpls \<Rightarrow> build_candidates ops tmpls caps names (ast_new AST_OVERLOAD))"

section \<open>The tree builder\<close>

record ast_state =
  as_failure :: parse_failure
  as_names :: intern_table
  as_captures :: captures

definition capture_node :: "nat \<Rightarrow> ast \<Rightarrow> ast_state \<Rightarrow> ast_state" where
  "capture_node capture node st =
     (if capture = 0 then st else st\<lparr>as_captures := capture_append capture node (as_captures st)\<rparr>)"

definition intern_name :: "string \<Rightarrow> ast_state \<Rightarrow> nat \<times> ast_state" where
  "intern_name s st =
     (case interns_intern (as_names st) (Some s) of (sy, t) \<Rightarrow> (sy, st\<lparr>as_names := t\<rparr>))"

text \<open>An atom's result: the cursor and the node it produced, if one was wanted.\<close>

type_synonym built = "((nat \<times> ast option) option \<times> ast_state) option"

text \<open>A rule's result: the cursor and the node; the captures of the caller stay.\<close>

type_synonym rule_builder =
  "nat \<Rightarrow> grammar_rule \<Rightarrow> nat \<Rightarrow> nat \<Rightarrow> ast_state \<Rightarrow> ((nat \<times> ast) option \<times> ast_state) option"

fun match_atoms_ast ::
    "(grammar_atom \<Rightarrow> nat \<Rightarrow> ast_state \<Rightarrow> built) \<Rightarrow> grammar_atom list \<Rightarrow> nat \<Rightarrow> ast_state \<Rightarrow>
     ((nat \<times> ast list) option \<times> ast_state) option" where
  "match_atoms_ast m [] cursor st = Some (Some (cursor, []), st)"
| "match_atoms_ast m (a # as) cursor st = do {
     (c, st1) \<leftarrow> m a cursor st;
     (case c of
        None \<Rightarrow> Some (None, st1)
      | Some (cursor1, produced) \<Rightarrow> do {
          (r, st2) \<leftarrow> match_atoms_ast m as cursor1 st1;
          Some (map_option (\<lambda>(cursor2, nodes).
            (cursor2, (case produced of None \<Rightarrow> nodes | Some node \<Rightarrow> node # nodes))) r, st2)
        })
   }"

text \<open>The repetitions from the \<open>k\<close>-th on: how many, the cursor, a group for each.\<close>

function repeat_match_ast ::
    "(nat \<Rightarrow> ast_state \<Rightarrow> ((nat \<times> ast list) option \<times> ast_state) option) \<Rightarrow> nat \<Rightarrow> nat \<Rightarrow> nat \<Rightarrow> ast_state \<Rightarrow>
     (nat \<times> nat \<times> ast list \<times> ast_state) option" where
  "repeat_match_ast m max_occurs k cursor st =
     (if k < max_occurs then do {
        (c, st1) \<leftarrow> m cursor st;
        (case c of
           None \<Rightarrow> Some (k, cursor, [], st1)
         | Some (cursor1, nodes) \<Rightarrow> do {
             (k1, cursor2, groups, st2) \<leftarrow> repeat_match_ast m max_occurs (k + 1) cursor1 st1;
             Some (k1, cursor2, ast_group_from_list nodes # groups, st2)
           })
      } else Some (k, cursor, [], st))"
  by pat_completeness auto
termination
  by (relation "measure (\<lambda>(m, max_occurs, k, cursor, st). max_occurs - k)") auto

declare repeat_match_ast.simps [simp del]

lemma match_atoms_ast_cong [fundef_cong]:
  assumes "as = bs" and "c = c'" and "st = st'" and "\<And>a c st. a \<in> set bs \<Longrightarrow> m a c st = m' a c st"
  shows "match_atoms_ast m as c st = match_atoms_ast m' bs c' st'"
proof -
  have "match_atoms_ast m bs c' st' = match_atoms_ast m' bs c' st'"
    if "\<forall>a\<in>set bs. \<forall>c st. m a c st = m' a c st" for c' st'
    using that
  proof (induction bs arbitrary: c' st')
    case (Cons b bs)
    then have eqs: "m b c' st' = m' b c' st'" "\<And>c st. match_atoms_ast m bs c st = match_atoms_ast m' bs c st"
      by simp_all
    show ?case unfolding match_atoms_ast.simps eqs ..
  qed simp
  then show ?thesis using assms by simp
qed

lemma repeat_match_ast_cong [fundef_cong]:
  assumes "mx = mx'" and "k = k'" and "c = c'" and "st = st'" and "\<And>c st. m c st = m' c st"
  shows "repeat_match_ast m mx k c st = repeat_match_ast m' mx' k' c' st'"
proof -
  have "m = m'" by (intro ext assms(5))
  then show ?thesis by (simp add: assms(1-4))
qed

text \<open>A leaf for a token.\<close>

definition token_leaf :: "ast_kind \<Rightarrow> token \<Rightarrow> ast" where
  "token_leaf kind tok =
     (let leaf = ast_make_leaf kind (tk_lexeme tok) (Some (tk_filename tok)) (tk_row tok) (tk_col tok)
      in if kind = AST_LITERAL then set_op (tk_kind tok) leaf else leaf)"

definition match_kind_ast ::
    "token list \<Rightarrow> bool \<Rightarrow> nat \<Rightarrow> nat \<Rightarrow> nat \<Rightarrow> ast_state \<Rightarrow> built" where
  "match_kind_ast tokens want kind capture cursor st =
     (case intern_name LEXER_KIND_NUMBER st of
        (number_sym, st1) \<Rightarrow>
          (case intern_name LEXER_KIND_FLOAT st1 of
             (float_sym, st2) \<Rightarrow>
               let tok = tokens ! cursor in
               if tk_kind tok \<noteq> kind \<and>
                  \<not> (number_sym \<noteq> 0 \<and> float_sym \<noteq> 0 \<and> kind = number_sym \<and> tk_kind tok = float_sym)
               then Some (None, st2)
               else if \<not> want then Some (Some (cursor + 1, None), st2)
               else (case intern_name LEXER_KIND_IDENT st2 of
                       (ident_sym, st3) \<Rightarrow>
                         let leaf = token_leaf
                               (if ident_sym \<noteq> 0 \<and> tk_kind tok = ident_sym then AST_IDENT else AST_LITERAL) tok
                         in Some (Some (cursor + 1, Some leaf), capture_node capture leaf st3))))"

fun match_atom_ast ::
    "rule_builder \<Rightarrow> grammar \<Rightarrow> token list \<Rightarrow> nat \<Rightarrow> bool \<Rightarrow> grammar_atom \<Rightarrow> nat \<Rightarrow> ast_state \<Rightarrow> built" where
  "match_atom_ast rules g tokens depth want (GRAMMAR_ATOM_LITERAL lit capture) cursor st =
     (if cursor \<ge> length tokens then Some (None, st)
      else if \<not> str_eq (tk_lexeme (tokens ! cursor)) (Some lit) then Some (None, st)
      else if want \<and> capture \<noteq> 0
      then (let leaf = token_leaf AST_LITERAL (tokens ! cursor)
            in Some (Some (cursor + 1, Some leaf), capture_node capture leaf st))
      else Some (Some (cursor + 1, None), st))"
| "match_atom_ast rules g tokens depth want (GRAMMAR_ATOM_TOKEN_KIND kind capture) cursor st =
     (if cursor \<ge> length tokens then Some (None, st)
      else match_kind_ast tokens want kind capture cursor st)"
| "match_atom_ast rules g tokens depth want (GRAMMAR_ATOM_RULE name bp capture) cursor st =
     (case find_rule g name of
        None \<Rightarrow> Some (None, st)
      | Some rule \<Rightarrow> do {
          (r, st1) \<leftarrow> rules (depth + 1) rule bp cursor st;
          Some (case r of
             None \<Rightarrow> (None, st1)
           | Some (cursor1, sub) \<Rightarrow>
               if want then (Some (cursor1, Some sub), capture_node capture sub st1)
               else (Some (cursor1, None), st1))
        })"
| "match_atom_ast rules g tokens depth want (GRAMMAR_ATOM_REPEAT subatoms min_occurs max_occurs capture) cursor st = do {
     (k, cursor1, groups, st1) \<leftarrow>
       repeat_match_ast (\<lambda>c st. match_atoms_ast (\<lambda>a. match_atom_ast rules g tokens (depth + 1) True a) subatoms c st)
         max_occurs 0 cursor st;
     if k < min_occurs then Some (None, st1)
     else (let produced = ast_group_from_list groups
           in Some (Some (cursor1, if want then Some produced else None), capture_node capture produced st1))
   }"

definition record_match_ast ::
    "nat \<Rightarrow> (grammar_atom \<Rightarrow> nat \<Rightarrow> ast_state \<Rightarrow> built) \<Rightarrow> grammar_atom \<Rightarrow> nat \<Rightarrow> ast_state \<Rightarrow> built" where
  "record_match_ast name m a cursor st = do {
     (c, st1) \<leftarrow> m a cursor st;
     Some (c, if c = None then st1\<lparr>as_failure := record_parse_failure cursor name (as_failure st1)\<rparr> else st1)
   }"

text \<open>The result: the cursor and the nodes produced, in order.\<close>

definition match_pattern_ast ::
    "rule_builder \<Rightarrow> grammar \<Rightarrow> token list \<Rightarrow> nat \<Rightarrow> production \<Rightarrow> nat \<Rightarrow> bool \<Rightarrow> bool \<Rightarrow> nat \<Rightarrow> nat \<Rightarrow> ast_state \<Rightarrow>
     ((nat \<times> ast list) option \<times> ast_state) option" where
  "match_pattern_ast rules g tokens name p min_bp consume_leading_expr collect_all depth cursor st =
     (let leading = pr_atoms p \<noteq> [] \<and> pr_starts_with_expr p \<and> consume_leading_expr in
      if depth > PARSER_MAX_DEPTH then Some (None, st)
      else if leading \<and> min_bp_of (hd (pr_atoms p)) < min_bp then Some (None, st)
      else do {
        (r, st1) \<leftarrow> match_atoms_ast
          (record_match_ast name (\<lambda>a. match_atom_ast rules g tokens depth (collect_all \<or> at_capture a \<noteq> 0) a))
          (if leading then tl (pr_atoms p) else pr_atoms p) cursor st;
        (case r of
           None \<Rightarrow> Some (None, st1)
         | Some (cursor1, nodes) \<Rightarrow>
             if consume_leading_expr \<and> length (pr_atoms p) \<le> 1 then Some (None, st1)
             else if cursor1 = cursor then Some (None, st1)
             else Some (Some (cursor1, nodes), st1))
      })"

text \<open>A match turned into a node with the captures it made, for the rule's next step.\<close>

definition build_match ::
    "operator_row list \<Rightarrow> production \<Rightarrow> bool \<Rightarrow> (nat \<times> ast list) option \<times> ast_state \<Rightarrow>
     ((nat \<times> ast) option \<times> ast_state) option" where
  "build_match ops p want_first r =
     (case r of
        (None, st) \<Rightarrow> Some (None, st)
      | (Some (cursor, nodes), st) \<Rightarrow> do {
          (node, names) \<leftarrow> build_prod_result ops p (as_captures st) (as_names st)
            (if want_first \<and> nodes \<noteq> [] then Some (hd nodes) else None);
          Some (map_option (Pair cursor) node, st\<lparr>as_names := names\<rparr>)
        })"

definition try_prefix ::
    "operator_row list \<Rightarrow> rule_builder \<Rightarrow> grammar \<Rightarrow> token list \<Rightarrow> nat \<Rightarrow> nat \<Rightarrow> nat \<Rightarrow> production \<Rightarrow> nat \<Rightarrow> ast_state \<Rightarrow>
     ((nat \<times> ast) option \<times> ast_state) option" where
  "try_prefix ops rules g tokens depth name min_bp p cursor st =
     match_pattern_ast rules g tokens name p min_bp False (template_is_leaf p) depth cursor
       (st\<lparr>as_captures := []\<rparr>) \<bind> build_match ops p (template_is_leaf p)"

text \<open>A production that extends the left operand \<open>lhs\<close>, which its first capture gets.\<close>

definition try_infix ::
    "operator_row list \<Rightarrow> rule_builder \<Rightarrow> grammar \<Rightarrow> token list \<Rightarrow> nat \<Rightarrow> nat \<Rightarrow> nat \<Rightarrow> production \<Rightarrow> nat \<times> ast \<Rightarrow> ast_state \<Rightarrow>
     ((nat \<times> ast) option \<times> ast_state) option" where
  "try_infix ops rules g tokens depth name min_bp p left st =
     (case left of
        (cursor, lhs) \<Rightarrow>
          if pr_atoms p = [] then Some (None, st)
          else match_pattern_ast rules g tokens name p min_bp True False depth cursor
            (capture_node (at_capture (hd (pr_atoms p))) lhs (st\<lparr>as_captures := []\<rparr>)) \<bind> build_match ops p False)"

definition rule_step_ast ::
    "operator_row list \<Rightarrow> rule_builder \<Rightarrow> grammar \<Rightarrow> token list \<Rightarrow> nat \<Rightarrow> grammar_rule \<Rightarrow> nat \<Rightarrow> nat \<Rightarrow> ast_state \<Rightarrow>
     ((nat \<times> ast) option \<times> ast_state) option" where
  "rule_step_ast ops rules g tokens depth rule min_bp cursor st = do {
     (r, st1) \<leftarrow> first_match (try_prefix ops rules g tokens (depth + 1) (gr_name rule) min_bp)
       [p \<leftarrow> gr_productions rule. \<not> pr_starts_with_expr p] cursor st;
     (r, st1) \<leftarrow> (case r of
        None \<Rightarrow> Some (None, st1\<lparr>as_failure := record_parse_failure cursor (gr_name rule) (as_failure st1)\<rparr>)
      | Some (cursor1, lhs) \<Rightarrow>
          extend_match (length tokens - cursor1 + 1)
            (first_match (try_infix ops rules g tokens (depth + 1) (gr_name rule) min_bp)
              [p \<leftarrow> gr_productions rule. pr_starts_with_expr p]) (cursor1, lhs) st1);
     Some (r, st1\<lparr>as_captures := as_captures st\<rparr>)
   }"

lemma match_atom_ast_deeper:
  assumes "\<And>d. d > depth \<Longrightarrow> rules d = rules' d"
  shows "match_atom_ast rules g tokens depth want a = match_atom_ast rules' g tokens depth want a"
  using assms
proof (induction a arbitrary: depth want)
  case (GRAMMAR_ATOM_RULE name bp capture)
  then show ?case by (intro ext) (simp split: option.split)
next
  case (GRAMMAR_ATOM_REPEAT subatoms mn mx capture)
  have "match_atoms_ast (match_atom_ast rules g tokens (depth + 1) True) subatoms =
      match_atoms_ast (match_atom_ast rules' g tokens (depth + 1) True) subatoms"
  proof (intro ext match_atoms_ast_cong refl)
    fix a c st
    assume "a \<in> set subatoms"
    then show "match_atom_ast rules g tokens (depth + 1) True a c st = match_atom_ast rules' g tokens (depth + 1) True a c st"
      using GRAMMAR_ATOM_REPEAT.IH [of a "depth + 1" True] GRAMMAR_ATOM_REPEAT.prems by simp
  qed
  then show ?case by (intro ext) simp
qed (intro ext, simp)+

lemma match_pattern_ast_deeper:
  assumes "\<And>d. d > depth \<Longrightarrow> rules d = rules' d"
  shows "match_pattern_ast rules g tokens name p min_bp leading all depth =
    match_pattern_ast rules' g tokens name p min_bp leading all depth"
proof -
  have eq: "match_atom_ast rules g tokens depth = match_atom_ast rules' g tokens depth"
    by (intro ext) (simp add: match_atom_ast_deeper [OF assms])
  show ?thesis by (intro ext) (simp only: match_pattern_ast_def eq)
qed

lemma rule_step_ast_cong [fundef_cong]:
  assumes "ops = ops'" and "g = g'" and "tokens = tokens'" and "depth = depth'" and "rule = rule'" and "min_bp = min_bp'"
    and "cursor = cursor'" and "st = st'"
    and "\<And>d r bp c st. d > depth' \<Longrightarrow> rules d r bp c st = rules' d r bp c st"
  shows "rule_step_ast ops rules g tokens depth rule min_bp cursor st =
    rule_step_ast ops' rules' g' tokens' depth' rule' min_bp' cursor' st'"
proof -
  have eq: "match_pattern_ast rules g' tokens' name p min_bp' leading all (depth' + 1) =
      match_pattern_ast rules' g' tokens' name p min_bp' leading all (depth' + 1)" for name p leading all
    by (rule match_pattern_ast_deeper) (intro ext, simp add: assms(9))
  have prefix: "try_prefix ops' rules g' tokens' (depth' + 1) name min_bp' =
      try_prefix ops' rules' g' tokens' (depth' + 1) name min_bp'" for name
    by (intro ext) (simp only: try_prefix_def eq)
  have ext: "try_infix ops' rules g' tokens' (depth' + 1) name min_bp' =
      try_infix ops' rules' g' tokens' (depth' + 1) name min_bp'" for name
    by (intro ext) (simp only: try_infix_def eq)
  show ?thesis unfolding assms(1-8) rule_step_ast_def prefix ext ..
qed

function parse_rule_internal_ast ::
    "operator_row list \<Rightarrow> grammar \<Rightarrow> token list \<Rightarrow> nat \<Rightarrow> grammar_rule \<Rightarrow> nat \<Rightarrow> nat \<Rightarrow> ast_state \<Rightarrow>
     ((nat \<times> ast) option \<times> ast_state) option" where
  "parse_rule_internal_ast ops g tokens depth rule min_bp cursor st =
     (if depth > PARSER_MAX_DEPTH then Some (None, st)
      else rule_step_ast ops (parse_rule_internal_ast ops g tokens) g tokens depth rule min_bp cursor st)"
  by pat_completeness auto
termination
  by (relation "measure (\<lambda>(ops, g, tokens, depth, rule, min_bp, cursor, st). Suc PARSER_MAX_DEPTH - depth)") auto

declare parse_rule_internal_ast.simps [simp del]

definition grammar_parse_ast ::
    "operator_row list \<Rightarrow> grammar \<Rightarrow> nat \<Rightarrow> token list \<Rightarrow> parser_env \<Rightarrow> (ast option \<times> parser_env) option" where
  "grammar_parse_ast ops g start_rule all_tokens env =
     (if gm_rules g = [] then Some (None, env)
      else (case strip_eof all_tokens env of
              (tokens, env1) \<Rightarrow>
                (case find_rule g (if start_rule \<noteq> 0 then start_rule else gm_start_rule g) of
                   None \<Rightarrow> Some (None, error_env morphl_span_unknown ''start rule not found in grammar'' env1)
                 | Some rule \<Rightarrow> do {
                     (r, st) \<leftarrow> parse_rule_internal_ast ops g tokens 0 rule 0 0
                       \<lparr>as_failure = no_failure, as_names = pe_interns env1, as_captures = []\<rparr>;
                     let env2 = env1\<lparr>pe_interns := as_names st\<rparr>;
                     Some (case r of
                        None \<Rightarrow> (None, report_furthest tokens (gr_name rule) (as_failure st) env2)
                      | Some (cursor, root) \<Rightarrow>
                          if cursor \<noteq> length tokens
                          then (None, report_parse_stopped tokens cursor (gr_name rule) env2)
                          else (Some root, env2))
                   })))"

end
