(* ===== verification/Grammar_Derivations.thy ===== *)
theory Grammar_Derivations
  imports Grammar_Parser
begin

text \<open>
  What a grammar means, independently of the parser: the token sequences its rules derive at a
  binding power.  The recogniser always returns, and accepts only what the grammar derives; so does
  the tree builder, whose leaves are tokens of the input.
\<close>

section \<open>Derivations\<close>

text \<open>
  \<open>K\<close> says which tokens a token-kind atom accepts.  A rule derives a sequence with a
  production that does not start with the rule itself, and extends it with productions that do, as
  long as the left binding power of these is at least the one asked for.
\<close>

inductive
  atom_derives :: "(nat \<Rightarrow> token \<Rightarrow> bool) \<Rightarrow> grammar \<Rightarrow> grammar_atom \<Rightarrow> token list \<Rightarrow> bool" and
  atoms_derive :: "(nat \<Rightarrow> token \<Rightarrow> bool) \<Rightarrow> grammar \<Rightarrow> grammar_atom list \<Rightarrow> token list \<Rightarrow> bool" and
  repeats_derive :: "(nat \<Rightarrow> token \<Rightarrow> bool) \<Rightarrow> grammar \<Rightarrow> grammar_atom list \<Rightarrow> nat \<Rightarrow> token list \<Rightarrow> bool" and
  rule_derives :: "(nat \<Rightarrow> token \<Rightarrow> bool) \<Rightarrow> grammar \<Rightarrow> grammar_rule \<Rightarrow> nat \<Rightarrow> token list \<Rightarrow> bool"
  for K g where
  literal: "str_eq (tk_lexeme tok) (Some lit) \<Longrightarrow> atom_derives K g (GRAMMAR_ATOM_LITERAL lit c) [tok]"
| token_kind: "K kind tok \<Longrightarrow> atom_derives K g (GRAMMAR_ATOM_TOKEN_KIND kind c) [tok]"
| rule: "find_rule g name = Some r \<Longrightarrow> rule_derives K g r bp ts \<Longrightarrow> atom_derives K g (GRAMMAR_ATOM_RULE name bp c) ts"
| repeat: "repeats_derive K g subatoms k ts \<Longrightarrow> mn \<le> k \<Longrightarrow> k \<le> mx \<Longrightarrow>
    atom_derives K g (GRAMMAR_ATOM_REPEAT subatoms mn mx c) ts"
| no_atoms: "atoms_derive K g [] []"
| more_atoms: "atom_derives K g a ts \<Longrightarrow> atoms_derive K g as us \<Longrightarrow> atoms_derive K g (a # as) (ts @ us)"
| no_repeats: "repeats_derive K g as 0 []"
| more_repeats: "repeats_derive K g as k ts \<Longrightarrow> atoms_derive K g as us \<Longrightarrow> repeats_derive K g as (Suc k) (ts @ us)"
| operand: "p \<in> set (gr_productions r) \<Longrightarrow> \<not> pr_starts_with_expr p \<Longrightarrow> atoms_derive K g (pr_atoms p) ts \<Longrightarrow>
    ts \<noteq> [] \<Longrightarrow> rule_derives K g r bp ts"
| extended: "rule_derives K g r bp left \<Longrightarrow> p \<in> set (gr_productions r) \<Longrightarrow> pr_starts_with_expr p \<Longrightarrow>
    pr_atoms p = a # as \<Longrightarrow> as \<noteq> [] \<Longrightarrow> bp \<le> min_bp_of a \<Longrightarrow> atoms_derive K g as ts \<Longrightarrow> ts \<noteq> [] \<Longrightarrow>
    rule_derives K g r bp (left @ ts)"

lemmas derives_intros = literal token_kind rule repeat no_atoms more_atoms no_repeats more_repeats operand extended

inductive_cases atom_derives_LITERAL: "atom_derives K g (GRAMMAR_ATOM_LITERAL lit c) ts"
inductive_cases atom_derives_RULE: "atom_derives K g (GRAMMAR_ATOM_RULE name bp c) ts"

text \<open>A rule derives no empty sequence.\<close>

lemma rule_derives_nonempty: "rule_derives K g r bp ts \<Longrightarrow> ts \<noteq> []"
  by (induction rule: atom_derives_atoms_derive_repeats_derive_rule_derives.inducts(4)
      [where ?P1.0 = "\<lambda>a ts. True" and ?P2.0 = "\<lambda>as ts. True" and ?P3.0 = "\<lambda>as k ts. True"]) auto

section \<open>Segments\<close>

text \<open>The tokens from one cursor to another.\<close>

definition segment :: "token list \<Rightarrow> nat \<Rightarrow> nat \<Rightarrow> token list" where
  "segment tokens c c' = take (c' - c) (drop c tokens)"

lemma segment_self [simp]: "segment tokens c c = []"
  by (simp add: segment_def)

lemma segment_all [simp]: "segment tokens 0 (length tokens) = tokens"
  by (simp add: segment_def)

lemma segment_one: "c < length tokens \<Longrightarrow> segment tokens c (Suc c) = [tokens ! c]"
  by (simp add: segment_def take_Suc_conv_app_nth)

lemma segment_append: "a \<le> b \<Longrightarrow> b \<le> c \<Longrightarrow> segment tokens a b @ segment tokens b c = segment tokens a c"
  using take_add [of "b - a" "c - b" "drop a tokens"] by (simp add: segment_def add.commute)

lemma segment_Nil_iff: "c' \<le> length tokens \<Longrightarrow> segment tokens c c' = [] \<longleftrightarrow> c' \<le> c"
  by (auto simp: segment_def)

lemma set_segment: "set (segment tokens c c') \<subseteq> set tokens"
  unfolding segment_def using set_take_subset set_drop_subset by (metis subset_trans)

section \<open>The recogniser\<close>

text \<open>A matcher that always returns and consumes only what \<open>D\<close> holds of.\<close>

definition recognises :: "token list \<Rightarrow> (token list \<Rightarrow> bool) \<Rightarrow> (nat \<Rightarrow> parse_failure \<Rightarrow> matched) \<Rightarrow> bool" where
  "recognises tokens D m \<longleftrightarrow>
     (\<forall>c pf. c \<le> length tokens \<longrightarrow>
       (\<exists>r pf'. m c pf = Some (r, pf') \<and>
         (\<forall>c'. r = Some c' \<longrightarrow> c \<le> c' \<and> c' \<le> length tokens \<and> D (segment tokens c c'))))"

lemma recognisesI:
  assumes "\<And>c pf. c \<le> length tokens \<Longrightarrow> \<exists>r pf'. m c pf = Some (r, pf') \<and>
      (\<forall>c'. r = Some c' \<longrightarrow> c \<le> c' \<and> c' \<le> length tokens \<and> D (segment tokens c c'))"
  shows "recognises tokens D m"
  using assms by (simp add: recognises_def)

lemma recognisesE:
  assumes "recognises tokens D m" and "c \<le> length tokens"
  obtains (no) pf' where "m c pf = Some (None, pf')"
  | (yes) c' pf' where "m c pf = Some (Some c', pf')" "c \<le> c'" "c' \<le> length tokens" "D (segment tokens c c')"
proof -
  obtain r pf' where "m c pf = Some (r, pf')" and
    "\<forall>c'. r = Some c' \<longrightarrow> c \<le> c' \<and> c' \<le> length tokens \<and> D (segment tokens c c')"
    using assms unfolding recognises_def by blast
  then show thesis using no yes by (cases r) auto
qed

lemma match_atoms_recognises:
  assumes "\<And>a. a \<in> set as \<Longrightarrow> recognises tokens (atom_derives K g a) (m a)"
  shows "recognises tokens (atoms_derive K g as) (match_atoms m as)"
  using assms
proof (induction as)
  case Nil
  then show ?case by (intro recognisesI) (simp add: derives_intros)
next
  case (Cons a as)
  show ?case
  proof (rule recognisesI)
    fix c pf
    assume c: "c \<le> length tokens"
    have a: "recognises tokens (atom_derives K g a) (m a)" using Cons.prems by simp
    show "\<exists>r pf'. match_atoms m (a # as) c pf = Some (r, pf') \<and>
        (\<forall>c'. r = Some c' \<longrightarrow> c \<le> c' \<and> c' \<le> length tokens \<and> atoms_derive K g (a # as) (segment tokens c c'))"
    proof (cases rule: recognisesE [OF a c, where pf = pf, case_names no yes])
      case (yes c1 pf1)
      have as: "recognises tokens (atoms_derive K g as) (match_atoms m as)" using Cons by simp
      show ?thesis
      proof (cases rule: recognisesE [OF as yes(3), where pf = pf1, case_names no yes'])
        case (yes' c2 pf2)
        then show ?thesis
          using yes more_atoms [OF yes(4) yes'(4)] by (auto simp: segment_append)
      qed (simp add: yes)
    qed simp
  qed
qed

lemma repeat_match_recognises:
  assumes m: "recognises tokens (atoms_derive K g as) m"
  shows "c \<le> length tokens \<Longrightarrow> k \<le> mx \<Longrightarrow> \<exists>k' c' pf'. repeat_match m mx k c pf = Some (k', c', pf') \<and>
    c \<le> c' \<and> c' \<le> length tokens \<and> k' \<le> mx \<and>
    (\<forall>ts. repeats_derive K g as k ts \<longrightarrow> repeats_derive K g as k' (ts @ segment tokens c c'))"
proof (induction "mx - k" arbitrary: k c pf)
  case 0
  then show ?case by (subst repeat_match.simps) simp
next
  case (Suc n)
  show ?case
  proof (cases rule: recognisesE [OF m Suc.prems(1), where pf = pf, case_names no yes])
    case no
    then show ?thesis using Suc.prems Suc.hyps(2) by (subst repeat_match.simps) simp
  next
    case (yes c1 pf1)
    have "n = mx - (k + 1)" "k + 1 \<le> mx" and k: "k < mx" using Suc.hyps(2) by simp_all
    from Suc.hyps(1) [OF this(1) yes(3) this(2), of pf1] obtain k' c' pf' where
      r: "repeat_match m mx (k + 1) c1 pf1 = Some (k', c', pf')" "c1 \<le> c'" "c' \<le> length tokens" "k' \<le> mx"
        "\<And>ts. repeats_derive K g as (k + 1) ts \<Longrightarrow> repeats_derive K g as k' (ts @ segment tokens c1 c')"
      by blast
    have "repeats_derive K g as k' (ts @ segment tokens c c')" if "repeats_derive K g as k ts" for ts
      using r(5) [of "ts @ segment tokens c c1"] more_repeats [OF that yes(4)] yes(2) r(2)
      by (simp add: segment_append)
    moreover have "repeat_match m mx k c pf = Some (k', c', pf')"
      using yes(1) r(1) k by (subst repeat_match.simps) simp
    ultimately show ?thesis using yes(2) r(2-4) by auto
  qed
qed

definition rules_recognise ::
    "(nat \<Rightarrow> token \<Rightarrow> bool) \<Rightarrow> grammar \<Rightarrow> token list \<Rightarrow> rule_parser \<Rightarrow> bool" where
  "rules_recognise K g tokens rules \<longleftrightarrow>
     (\<forall>d r bp. recognises tokens (rule_derives K g r bp) (rules d r bp))"

text \<open>The kinds a recogniser accepts.\<close>

definition same_kind :: "nat \<Rightarrow> token \<Rightarrow> bool" where
  "same_kind kind tok \<longleftrightarrow> tk_kind tok = kind"

lemma match_atom_recognises:
  assumes rules: "\<And>d r bp. d > depth \<Longrightarrow> recognises tokens (rule_derives same_kind g r bp) (rules d r bp)"
  shows "recognises tokens (atom_derives same_kind g a) (match_atom rules g tokens depth a)"
  using assms
proof (induction a arbitrary: depth)
  case (GRAMMAR_ATOM_LITERAL lit c)
  then show ?case
    by (intro recognisesI) (auto simp: segment_one intro: derives_intros)
next
  case (GRAMMAR_ATOM_TOKEN_KIND kind c)
  then show ?case
    by (intro recognisesI) (auto simp: segment_one same_kind_def intro: derives_intros)
next
  case (GRAMMAR_ATOM_RULE name bp capture)
  show ?case
  proof (rule recognisesI)
    fix c pf
    assume c: "c \<le> length tokens"
    show "\<exists>r pf'. match_atom rules g tokens depth (GRAMMAR_ATOM_RULE name bp capture) c pf = Some (r, pf') \<and>
        (\<forall>c'. r = Some c' \<longrightarrow> c \<le> c' \<and> c' \<le> length tokens \<and>
          atom_derives same_kind g (GRAMMAR_ATOM_RULE name bp capture) (segment tokens c c'))"
    proof (cases "find_rule g name")
      case (Some r)
      have rec: "recognises tokens (rule_derives same_kind g r bp) (rules (depth + 1) r bp)"
        using GRAMMAR_ATOM_RULE by simp
      show ?thesis
        by (cases rule: recognisesE [OF rec c, where pf = pf])
          (auto simp: Some intro: derives_intros)
    qed simp
  qed
next
  case (GRAMMAR_ATOM_REPEAT subatoms mn mx capture)
  have sub: "recognises tokens (atoms_derive same_kind g subatoms)
      (match_atoms (match_atom rules g tokens (depth + 1)) subatoms)"
    using GRAMMAR_ATOM_REPEAT by (intro match_atoms_recognises) auto
  show ?case
  proof (rule recognisesI)
    fix c pf
    assume c: "c \<le> length tokens"
    from repeat_match_recognises [OF sub c, of 0 mx pf] obtain k' c' pf' where
      r: "repeat_match (match_atoms (match_atom rules g tokens (depth + 1)) subatoms) mx 0 c pf = Some (k', c', pf')"
        "c \<le> c'" "c' \<le> length tokens" "k' \<le> mx" "repeats_derive same_kind g subatoms k' (segment tokens c c')"
      using no_repeats by force
    then show "\<exists>r pf'. match_atom rules g tokens depth (GRAMMAR_ATOM_REPEAT subatoms mn mx capture) c pf = Some (r, pf') \<and>
        (\<forall>c'. r = Some c' \<longrightarrow> c \<le> c' \<and> c' \<le> length tokens \<and>
          atom_derives same_kind g (GRAMMAR_ATOM_REPEAT subatoms mn mx capture) (segment tokens c c'))"
      using repeat [OF r(5), of mn mx capture] by simp
  qed
qed

lemma record_match_recognises:
  assumes "recognises tokens D (m a)"
  shows "recognises tokens D (record_match name m a)"
proof (rule recognisesI)
  fix c pf
  assume "c \<le> length tokens"
  with assms show "\<exists>r pf'. record_match name m a c pf = Some (r, pf') \<and>
      (\<forall>c'. r = Some c' \<longrightarrow> c \<le> c' \<and> c' \<le> length tokens \<and> D (segment tokens c c'))"
    by (cases rule: recognisesE [where pf = pf]) (simp_all add: record_match_def)
qed

text \<open>What a production adds: to nothing, or to a left operand.\<close>

definition production_derives ::
    "(nat \<Rightarrow> token \<Rightarrow> bool) \<Rightarrow> grammar \<Rightarrow> production \<Rightarrow> nat \<Rightarrow> bool \<Rightarrow> token list \<Rightarrow> bool" where
  "production_derives K g p bp leading ts \<longleftrightarrow> ts \<noteq> [] \<and>
     (if leading then (\<exists>a as. pr_atoms p = a # as \<and> as \<noteq> [] \<and> bp \<le> min_bp_of a \<and> atoms_derive K g as ts)
      else atoms_derive K g (pr_atoms p) ts)"

lemma match_pattern_recognises:
  assumes rules: "\<And>d r bp. d > depth \<Longrightarrow> recognises tokens (rule_derives same_kind g r bp) (rules d r bp)"
    and leading: "leading \<Longrightarrow> pr_starts_with_expr p"
  shows "recognises tokens (production_derives same_kind g p bp leading)
    (match_pattern rules g tokens name p bp leading depth)"
proof (rule recognisesI)
  fix c pf
  assume c: "c \<le> length tokens"
  define as where "as = (if pr_atoms p \<noteq> [] \<and> leading then tl (pr_atoms p) else pr_atoms p)"
  have m: "recognises tokens (atoms_derive same_kind g as)
      (match_atoms (record_match name (match_atom rules g tokens depth)) as)"
    by (intro match_atoms_recognises record_match_recognises match_atom_recognises rules)
  have eq: "match_pattern rules g tokens name p bp leading depth c pf =
      (if depth > PARSER_MAX_DEPTH \<or> (pr_atoms p \<noteq> [] \<and> leading) \<and> min_bp_of (hd (pr_atoms p)) < bp then Some (None, pf)
       else do {
        (c', pf1) \<leftarrow> match_atoms (record_match name (match_atom rules g tokens depth)) as c pf;
        (case c' of
           None \<Rightarrow> Some (None, pf1)
         | Some cursor1 \<Rightarrow>
             if leading \<and> length (pr_atoms p) \<le> 1 then Some (None, pf1)
             else if cursor1 = c then Some (None, pf1)
             else Some (Some cursor1, pf1))})"
    using leading by (auto simp: match_pattern_def as_def Let_def)
  show "\<exists>r pf'. match_pattern rules g tokens name p bp leading depth c pf = Some (r, pf') \<and>
      (\<forall>c'. r = Some c' \<longrightarrow> c \<le> c' \<and> c' \<le> length tokens \<and>
        production_derives same_kind g p bp leading (segment tokens c c'))"
  proof (cases "depth > PARSER_MAX_DEPTH \<or> (pr_atoms p \<noteq> [] \<and> leading) \<and> min_bp_of (hd (pr_atoms p)) < bp")
    case ok: False
    show ?thesis
    proof (cases rule: recognisesE [OF m c, where pf = pf, case_names no yes])
      case (yes c' pf')
      have "production_derives same_kind g p bp leading (segment tokens c c')"
        if "\<not> (leading \<and> length (pr_atoms p) \<le> 1)" "c' \<noteq> c"
        using that yes ok by (cases "pr_atoms p") (auto simp: production_derives_def as_def segment_Nil_iff)
      then show ?thesis using yes ok by (simp add: eq)
    qed (use ok in \<open>simp add: eq\<close>)
  qed (simp add: eq)
qed

lemma first_match_recognises:
  assumes "\<And>p. p \<in> set ps \<Longrightarrow> recognises tokens (D p) (m p)"
  shows "recognises tokens (\<lambda>ts. \<exists>p\<in>set ps. D p ts) (first_match m ps)"
  using assms
proof (induction ps)
  case (Cons p ps)
  show ?case
  proof (rule recognisesI)
    fix c pf
    assume c: "c \<le> length tokens"
    have p: "recognises tokens (D p) (m p)" using Cons.prems by simp
    have ps: "recognises tokens (\<lambda>ts. \<exists>p\<in>set ps. D p ts) (first_match m ps)" using Cons by simp
    show "\<exists>r pf'. first_match m (p # ps) c pf = Some (r, pf') \<and>
        (\<forall>c'. r = Some c' \<longrightarrow> c \<le> c' \<and> c' \<le> length tokens \<and> (\<exists>p\<in>set (p # ps). D p (segment tokens c c')))"
    proof (cases rule: recognisesE [OF p c, where pf = pf, case_names no yes])
      case (no pf1)
      then show ?thesis by (cases rule: recognisesE [OF ps c, where pf = pf1]) auto
    qed auto
  qed
qed (simp add: recognises_def)

lemma extend_match_recognises:
  assumes m: "recognises tokens (\<lambda>ts. ts \<noteq> [] \<and> (\<forall>left. D left \<longrightarrow> D (left @ ts))) m"
  shows "c \<le> length tokens \<Longrightarrow> length tokens - c < n \<Longrightarrow>
    \<exists>c' pf'. extend_match n m c pf = Some (Some c', pf') \<and> c \<le> c' \<and> c' \<le> length tokens \<and>
      (\<forall>left. D left \<longrightarrow> D (left @ segment tokens c c'))"
proof (induction n arbitrary: c pf)
  case (Suc n)
  show ?case
  proof (cases rule: recognisesE [OF m Suc.prems(1), where pf = pf, case_names no yes])
    case (yes c1 pf1)
    have "c < c1" using yes(2-4) segment_Nil_iff [OF yes(3), of c] by auto
    then have "length tokens - c1 < n" using yes(3) Suc.prems by simp
    from Suc.IH [OF yes(3) this, of pf1] obtain c' pf' where
      r: "extend_match n m c1 pf1 = Some (Some c', pf')" "c1 \<le> c'" "c' \<le> length tokens"
        "\<And>left. D left \<Longrightarrow> D (left @ segment tokens c1 c')" by blast
    have "D (left @ segment tokens c c')" if "D left" for left
      using r(4) [of "left @ segment tokens c c1"] yes(2,4) that r(2) by (simp add: segment_append)
    then show ?thesis using yes r by auto
  qed (use Suc.prems in simp)
qed simp

lemma rule_step_recognises:
  assumes rules: "\<And>d r bp. d > depth \<Longrightarrow> recognises tokens (rule_derives same_kind g r bp) (rules d r bp)"
  shows "recognises tokens (rule_derives same_kind g r bp) (rule_step rules g tokens depth r bp)"
proof (rule recognisesI)
  fix c pf
  assume c: "c \<le> length tokens"
  define match where "match = (\<lambda>leading p. match_pattern rules g tokens (gr_name r) p bp leading (depth + 1))"
  define prefix where "prefix = [p \<leftarrow> gr_productions r. \<not> pr_starts_with_expr p]"
  define rest where "rest = [p \<leftarrow> gr_productions r. pr_starts_with_expr p]"
  have pre: "recognises tokens (\<lambda>ts. \<exists>p\<in>set prefix. production_derives same_kind g p bp False ts) (first_match (match False) prefix)"
    unfolding match_def by (intro first_match_recognises match_pattern_recognises rules) auto
  have "recognises tokens (\<lambda>ts. \<exists>p\<in>set rest. production_derives same_kind g p bp True ts) (first_match (match True) rest)"
    unfolding match_def by (intro first_match_recognises match_pattern_recognises rules) (auto simp: rest_def)
  then have ext: "recognises tokens (\<lambda>ts. ts \<noteq> [] \<and> (\<forall>left. rule_derives same_kind g r bp left \<longrightarrow>
      rule_derives same_kind g r bp (left @ ts))) (first_match (match True) rest)"
    unfolding recognises_def rest_def production_derives_def
    by (fastforce intro: extended)
  have eq: "rule_step rules g tokens depth r bp c pf = do {
      (c', pf1) \<leftarrow> first_match (match False) prefix c pf;
      (case c' of
         None \<Rightarrow> Some (None, record_parse_failure c (gr_name r) pf1)
       | Some cursor1 \<Rightarrow> extend_match (length tokens - cursor1 + 1) (first_match (match True) rest) cursor1 pf1)}"
    unfolding rule_step_def Let_def match_def prefix_def rest_def ..
  show "\<exists>q pf'. rule_step rules g tokens depth r bp c pf = Some (q, pf') \<and>
      (\<forall>c'. q = Some c' \<longrightarrow> c \<le> c' \<and> c' \<le> length tokens \<and> rule_derives same_kind g r bp (segment tokens c c'))"
  proof (cases rule: recognisesE [OF pre c, where pf = pf, case_names no yes])
    case (yes c1 pf1)
    then have d: "rule_derives same_kind g r bp (segment tokens c c1)"
      by (auto simp: prefix_def production_derives_def intro: operand)
    from extend_match_recognises [OF ext yes(3), of "length tokens - c1 + 1" pf1] obtain c' pf' where
      r: "extend_match (length tokens - c1 + 1) (first_match (match True) rest) c1 pf1 = Some (Some c', pf')"
        "c1 \<le> c'" "c' \<le> length tokens"
        "rule_derives same_kind g r bp (segment tokens c c1 @ segment tokens c1 c')"
      using d by auto
    then show ?thesis using yes(1,2) by (simp add: eq segment_append)
  qed (simp add: eq)
qed

lemma parse_rule_recognises:
  "recognises tokens (rule_derives same_kind g r bp) (parse_rule_internal g tokens depth r bp)"
proof (induction "Suc PARSER_MAX_DEPTH - depth" arbitrary: depth r bp rule: less_induct)
  case less
  show ?case
  proof (cases "depth > PARSER_MAX_DEPTH")
    case True
    then show ?thesis by (intro recognisesI) (simp add: parse_rule_internal.simps)
  next
    case False
    have "recognises tokens (rule_derives same_kind g r bp)
        (rule_step (parse_rule_internal g tokens) g tokens depth r bp)"
      by (rule rule_step_recognises, rule less) (use False in simp)
    then show ?thesis using False unfolding recognises_def by (subst parse_rule_internal.simps) simp
  qed
qed

section \<open>Properties\<close>

definition start_symbol :: "grammar \<Rightarrow> nat \<Rightarrow> nat" where
  "start_symbol g start = (if start \<noteq> 0 then start else gm_start_rule g)"

text \<open>A parse error, reported once.\<close>

definition reports_parse_error :: "parser_env \<Rightarrow> parser_env \<Rightarrow> bool" where
  "reports_parse_error env env' \<longleftrightarrow>
     (\<exists>sp msg. pe_diagnostics env' = morphl_error_emit None
       (morphl_error_make MORPHL_E_PARSE MORPHL_SEV_ERROR sp msg) (pe_diagnostics env))"

lemma strip_eof_diagnostics: "strip_eof toks env = (ts, env1) \<Longrightarrow> pe_diagnostics env1 = pe_diagnostics env"
  by (auto simp: strip_eof_def intern_env_def split: prod.splits)

lemma reports_simps:
  "reports_parse_error env (report_parse_failed tokens c rule env)"
  "reports_parse_error env (report_parse_stopped tokens c rule env)"
  "reports_parse_error env (report_furthest tokens rule pf env)"
  by (auto simp: reports_parse_error_def report_furthest_def report_parse_failed_def report_parse_stopped_def
      error_env_def)

lemma grammar_parse_cases:
  obtains (no_rule) env' where "grammar_parse g start toks env = Some (False, env')"
      "gm_rules g = [] \<or> find_rule g (start_symbol g start) = None" "pe_diagnostics env' = pe_diagnostics env"
  | (rejected) env' where "grammar_parse g start toks env = Some (False, env')" "reports_parse_error env env'"
  | (accepted) r env' where "grammar_parse g start toks env = Some (True, env')"
      "find_rule g (start_symbol g start) = Some r" "rule_derives same_kind g r 0 (fst (strip_eof toks env))"
      "pe_diagnostics env' = pe_diagnostics env"
proof (cases "gm_rules g = []")
  case False
  obtain ts env1 where s: "strip_eof toks env = (ts, env1)" by fastforce
  note dg = strip_eof_diagnostics [OF s]
  show thesis
  proof (cases "find_rule g (start_symbol g start)")
    case None
    then show thesis using False s dg no_rule by (simp add: grammar_parse_def start_symbol_def)
  next
    case (Some r)
    have m: "recognises ts (rule_derives same_kind g r 0) (parse_rule_internal g ts 0 r 0)"
      by (rule parse_rule_recognises)
    show thesis
    proof (cases rule: recognisesE [OF m le0, where pf = no_failure, case_names no yes])
      case (no pf')
      then show thesis
        using False s Some dg rejected reports_simps(3) [of env1 ts "gr_name r" pf']
        by (simp add: grammar_parse_def start_symbol_def reports_parse_error_def)
    next
      case (yes c' pf')
      show thesis
      proof (cases "c' = length ts")
        case True
        then show thesis using False s Some dg accepted yes by (simp add: grammar_parse_def start_symbol_def)
      next
        case c: False
        show thesis
          using False s Some dg rejected reports_simps(2) [of env1 ts c' "gr_name r"] yes c
          by (simp add: grammar_parse_def start_symbol_def reports_parse_error_def)
      qed
    qed
  qed
qed (use no_rule in \<open>simp add: grammar_parse_def\<close>)

lemma grammar_parse_no_rule:
  assumes "gm_rules g = [] \<or> find_rule g (start_symbol g start) = None"
  shows "\<exists>env'. grammar_parse g start toks env = Some (False, env') \<and> pe_diagnostics env' = pe_diagnostics env"
proof (cases "strip_eof toks env")
  case (Pair ts env1)
  from assms strip_eof_diagnostics [OF this] Pair show ?thesis
    by (auto simp: grammar_parse_def start_symbol_def)
qed

text \<open>C36: the recogniser always returns, and a refusal is reported.  For every grammar, also a
  left-recursive or an empty one and one whose repeated group matches nothing, and every token
  sequence, the loops end within the rounds the model gives them.  Without a start rule the answer is
  no and nothing is reported; with one, the answer is yes and nothing is reported, or no and exactly
  one parse error is reported.\<close>

theorem grammar_parse_returns:
  "\<exists>ok env'. grammar_parse g start toks env = Some (ok, env') \<and>
     (if gm_rules g = [] \<or> find_rule g (start_symbol g start) = None
      then \<not> ok \<and> pe_diagnostics env' = pe_diagnostics env
      else if ok then pe_diagnostics env' = pe_diagnostics env
      else reports_parse_error env env')"
proof (cases "gm_rules g = [] \<or> find_rule g (start_symbol g start) = None")
  case True
  then show ?thesis unfolding if_P [OF True] using grammar_parse_no_rule [OF True, of toks env] by blast
next
  case False
  show ?thesis
  proof (cases rule: grammar_parse_cases [of g start toks env])
    case no_rule
    then show ?thesis using False by simp
  next
    case (rejected env')
    then show ?thesis unfolding if_not_P [OF False] by (intro exI [of _ False] exI [of _ env']) simp
  next
    case (accepted r env')
    then show ?thesis unfolding if_not_P [OF False] by (intro exI [of _ True] exI [of _ env']) simp
  qed
qed

text \<open>C5: the recogniser accepts only what the grammar derives: the tokens, without the end-of-file
  token, are a derivation from the start rule in which every operand of an extension was read at its
  own binding power and every extension binds at least as tightly as its place asks for.\<close>

theorem grammar_parse_derives:
  assumes "grammar_parse g start toks env = Some (True, env')"
  shows "\<exists>r. find_rule g (start_symbol g start) = Some r \<and> rule_derives same_kind g r 0 (fst (strip_eof toks env))"
  using assms by (cases rule: grammar_parse_cases [of g start toks env]) auto

text \<open>A grammar of sums, \<open>%NUMBER\<close> being kind 2 and the rule symbol 1.\<close>

definition sum_grammar :: grammar where
  "sum_grammar =
     \<lparr>gm_rules = [\<lparr>gr_name = 1, gr_productions =
        [\<lparr>pr_atoms = [GRAMMAR_ATOM_TOKEN_KIND 2 0], pr_templates = [''number''], pr_starts_with_expr = False\<rparr>,
         \<lparr>pr_atoms = [GRAMMAR_ATOM_RULE 1 1 3, GRAMMAR_ATOM_LITERAL ''+'' 0, GRAMMAR_ATOM_RULE 1 2 4],
          pr_templates = [''$add lhs rhs''], pr_starts_with_expr = True\<rparr>]\<rparr>], gm_start_rule = 1\<rparr>"

definition sum_tokens :: "token list" where
  "sum_tokens =
     [\<lparr>tk_kind = 2, tk_lexeme = Some ''1'', tk_filename = ''f'', tk_row = 1, tk_col = 1\<rparr>,
      \<lparr>tk_kind = 9, tk_lexeme = Some ''+'', tk_filename = ''f'', tk_row = 1, tk_col = 2\<rparr>,
      \<lparr>tk_kind = 2, tk_lexeme = Some ''2'', tk_filename = ''f'', tk_row = 1, tk_col = 3\<rparr>]"


definition sample_env :: parser_env where
  "sample_env = \<lparr>pe_interns = interns_new, pe_arena = arena_init 1000,
     pe_diagnostics = \<lparr>dg_files = (\<lambda>p. None), dg_global_sink = None, dg_output = []\<rparr>\<rparr>"

lemma strip_eof_sample:
  assumes "tk_kind (last toks) \<noteq> 1"
  obtains env1 where "strip_eof toks sample_env = (toks, env1)"
proof -
  obtain t' where "interns_intern interns_new (Some LEXER_KIND_EOF) = (length ([] :: string list) + 1, t')"
    by (rule intern_new_name [OF interns_new_inv, of "[]" LEXER_KIND_EOF])
      (simp_all add: interns_new_eq bytes_used_def kind_names)
  then show thesis using assms that by (simp add: strip_eof_def intern_env_def sample_env_def)
qed

theorem grammar_parse_derives_witness:
  "\<exists>r. find_rule sum_grammar 1 = Some r \<and> rule_derives same_kind sum_grammar r 0 sum_tokens"
proof -
  obtain env1 where s: "strip_eof sum_tokens sample_env = (sum_tokens, env1)"
    by (rule strip_eof_sample [of sum_tokens]) (simp_all add: sum_tokens_def)
  have "grammar_parse sum_grammar 0 sum_tokens sample_env = Some (True, env1)"
    unfolding grammar_parse_def s
    by (simp add: sum_grammar_def sum_tokens_def find_rule_def parse_rule_internal.simps rule_step_def
        match_pattern_def record_match_def PARSER_MAX_DEPTH_def str_eq_def Let_def eval_nat_numeral)
  from grammar_parse_derives [OF this] s show ?thesis by (simp add: start_symbol_def sum_grammar_def)
qed

end
