(* ===== verification/Grammar_Trees.thy ===== *)
theory Grammar_Trees
  imports Grammar_Derivations
begin

text \<open>
  The tree builder of \<open>src/parser/parser.c\<close>: what it accepts is derived by the grammar, a float
  counting as a number, and the text in the tree is that of tokens of the input.

  The state carries the interns, which grow; \<open>T\<close> stands for any later table, in which the names of
  token kinds are looked up.
\<close>

section \<open>Nodes made of tokens\<close>

text \<open>The literals a grammar captures, inside repeated groups too.\<close>

fun captured_literals :: "grammar_atom \<Rightarrow> string list" where
  "captured_literals (GRAMMAR_ATOM_LITERAL lit capture) = (if capture \<noteq> 0 then [lit] else [])"
| "captured_literals (GRAMMAR_ATOM_REPEAT subatoms mn mx capture) = concat (map captured_literals subatoms)"
| "captured_literals a = []"

definition production_literals :: "production \<Rightarrow> string list" where
  "production_literals p = concat (map captured_literals (pr_atoms p))"

definition grammar_literals :: "grammar \<Rightarrow> string list" where
  "grammar_literals g = concat (map production_literals (concat (map gr_productions (gm_rules g))))"

lemma grammar_literals_production:
  "r \<in> set (gm_rules g) \<Longrightarrow> p \<in> set (gr_productions r) \<Longrightarrow> a \<in> set (pr_atoms p) \<Longrightarrow>
     set (captured_literals a) \<subseteq> set (grammar_literals g)"
  unfolding grammar_literals_def production_literals_def by auto

lemma find_rule_in: "find_rule g name = Some r \<Longrightarrow> r \<in> set (gm_rules g)"
  by (auto simp: find_rule_def find_Some_iff)

text \<open>
  The kind of the leaf of a token, by the names \<open>N\<close>: a token of kind \<open>IDENT\<close> becomes an
  \<open>AST_IDENT\<close>, unless it was matched as a captured literal of the grammar; every other token
  becomes an \<open>AST_LITERAL\<close>.
\<close>

definition leaf_kind :: "intern_table \<Rightarrow> grammar \<Rightarrow> token \<Rightarrow> ast_kind \<Rightarrow> bool" where
  "leaf_kind N g tok kind \<longleftrightarrow>
     kind = AST_IDENT \<and> (\<forall>sy. interns_lookup N sy = Some LEXER_KIND_IDENT \<longrightarrow> tk_kind tok = sy) \<or>
     kind = AST_LITERAL \<and>
       ((\<forall>sy. interns_lookup N sy = Some LEXER_KIND_IDENT \<longrightarrow> tk_kind tok \<noteq> sy) \<or>
        (\<exists>lit\<in>set (grammar_literals g). str_eq (tk_lexeme tok) (Some lit)))"

definition is_token_leaf :: "intern_table \<Rightarrow> grammar \<Rightarrow> token list \<Rightarrow> ast \<Rightarrow> bool" where
  "is_token_leaf N g tokens node \<longleftrightarrow>
     (\<exists>tok\<in>set tokens. \<exists>kind. node = token_leaf kind tok \<and> leaf_kind N g tok kind)"

text \<open>Every node of the tree that carries a text is the leaf of a token.\<close>

fun from_tokens :: "intern_table \<Rightarrow> grammar \<Rightarrow> token list \<Rightarrow> ast \<Rightarrow> bool" where
  "from_tokens N g tokens (AstNode k op v cs cap fn row col) \<longleftrightarrow>
     list_all (from_tokens N g tokens) cs \<and>
     (v = None \<or> is_token_leaf N g tokens (AstNode k op v cs cap fn row col))"

lemma from_tokens_leaf:
  assumes "tok \<in> set tokens" and "leaf_kind N g tok kind"
  shows "from_tokens N g tokens (token_leaf kind tok)"
proof -
  have "is_token_leaf N g tokens (token_leaf kind tok)" using assms unfolding is_token_leaf_def by blast
  moreover have "n_children (token_leaf kind tok) = []"
    by (cases kind) (simp_all add: token_leaf_def ast_make_leaf_def Let_def)
  ultimately show ?thesis by (cases "token_leaf kind tok") simp
qed

lemma from_tokens_children: "from_tokens N g tokens node \<Longrightarrow> list_all (from_tokens N g tokens) (n_children node)"
  by (cases node) simp

lemma from_tokens_new [simp]: "from_tokens N g tokens (ast_new kind)" "n_value (ast_new kind) = None"
  by (simp_all add: ast_new_def)

lemma from_tokens_setters [simp]:
  "n_value node = None \<Longrightarrow> from_tokens N g tokens (set_location from node) = from_tokens N g tokens node"
  "n_value node = None \<Longrightarrow> from_tokens N g tokens (set_op op node) = from_tokens N g tokens node"
  "n_value (set_location from node) = n_value node" "n_value (set_op op node) = n_value node"
  "n_children (set_location from node) = n_children node" "n_children (set_op op node) = n_children node"
  by (cases node; simp)+

lemma from_tokens_append [simp]:
  "n_value node = None \<Longrightarrow>
     from_tokens N g tokens (ast_append_child node c) \<longleftrightarrow> from_tokens N g tokens node \<and> from_tokens N g tokens c"
  by (cases node) auto

lemma append_children_value [simp]: "n_value (append_children node cs) = n_value node"
  by (induction cs arbitrary: node) (simp_all add: append_children_def)

lemma from_tokens_appends:
  "n_value node = None \<Longrightarrow> from_tokens N g tokens node \<Longrightarrow> list_all (from_tokens N g tokens) cs \<Longrightarrow>
     from_tokens N g tokens (append_children node cs)"
  by (induction cs arbitrary: node) (simp_all add: append_children_def)

lemma from_tokens_group: "list_all (from_tokens N g tokens) nodes \<Longrightarrow> from_tokens N g tokens (ast_group_from_list nodes)"
  by (simp add: ast_group_from_list_def from_tokens_appends Let_def)

lemma from_tokens_flattened: "from_tokens N g tokens node \<Longrightarrow> list_all (from_tokens N g tokens) (flattened node)"
  by (induction node rule: flattened.induct) (auto simp: list_all_iff)

lemma flatten_and_append_value [simp]: "n_value (flatten_and_append node c) = n_value node"
  by (simp add: flatten_and_append_def)

lemma from_tokens_spread:
  "n_value node = None \<Longrightarrow> from_tokens N g tokens node \<Longrightarrow> list_all (from_tokens N g tokens) cs \<Longrightarrow>
     from_tokens N g tokens (foldl flatten_and_append node cs) \<and> n_value (foldl flatten_and_append node cs) = None"
  by (induction cs arbitrary: node)
    (simp_all add: flatten_and_append_def from_tokens_appends from_tokens_flattened)

text \<open>Copies: the copy of a node whose text comes from tokens is one whose text does.\<close>

lemma from_tokens_clone: "from_tokens N g tokens node \<Longrightarrow> from_tokens N g tokens (ast_clone_tree node)"
proof (induction node rule: ast_clone_tree.induct)
  case (1 k op v cs cap fn row col)
  show ?case
  proof (cases v)
    case None
    have "list_all (from_tokens N g tokens) (map ast_clone_tree cs)"
      using 1 by (auto simp: list_all_iff)
    then show ?thesis using None by (simp add: from_tokens_appends)
  next
    case (Some w)
    then have "is_token_leaf N g tokens (AstNode k op v cs cap fn row col)" using 1 by simp
    moreover from this have "cs = []" "cap = 0"
      by (auto simp: is_token_leaf_def token_leaf_def ast_make_leaf_def Let_def split: if_splits)
    ultimately show ?thesis by (simp add: append_children_def)
  qed
qed

section \<open>Captures and templates\<close>

definition captures_ok :: "intern_table \<Rightarrow> grammar \<Rightarrow> token list \<Rightarrow> captures \<Rightarrow> bool" where
  "captures_ok N g tokens caps \<longleftrightarrow> list_all (\<lambda>(name, nodes). list_all (from_tokens N g tokens) nodes) caps"

lemma captures_ok_Nil [simp]: "captures_ok N g tokens []"
  by (simp add: captures_ok_def)

lemma captures_ok_append:
  "captures_ok N g tokens caps \<Longrightarrow> from_tokens N g tokens node \<Longrightarrow> captures_ok N g tokens (capture_append name node caps)"
  by (induction caps) (auto simp: captures_ok_def)

lemma captures_ok_clone: "captures_ok N g tokens caps \<Longrightarrow> captures_ok N g tokens (clone_captures caps)"
  unfolding captures_ok_def clone_captures_def list_all_iff by (force intro: from_tokens_clone)

lemma captures_ok_lookup:
  "captures_ok N g tokens caps \<Longrightarrow> map_of caps sy = Some nodes \<Longrightarrow> list_all (from_tokens N g tokens) nodes"
  by (induction caps) (auto simp: captures_ok_def split: if_splits)

text \<open>A table that interning may have extended.\<close>

definition grown :: "intern_table \<Rightarrow> intern_table \<Rightarrow> bool" where
  "grown t u \<longleftrightarrow> (table_inv t \<longrightarrow> table_inv u \<and> table_le t u)"

lemma grown_refl [simp]: "grown t t"
  by (simp add: grown_def)

lemma grown_trans: "grown t u \<Longrightarrow> grown u v \<Longrightarrow> grown t v"
  by (auto simp: grown_def intro: table_le_trans)

lemma grown_intern: "interns_intern t s = (sy, u) \<Longrightarrow> grown t u"
  using st.intern_inv [of t s] table_le_intern [of t s] by (simp add: grown_def)

lemma named_capture_ok:
  assumes "named_capture name caps names = ((sy, nodes), names1)" and "captures_ok N g tokens caps"
  shows "list_all (from_tokens N g tokens) nodes \<and> grown names names1"
  using assms
  by (auto simp: named_capture_def grown_intern split: if_splits prod.splits option.splits
      dest: captures_ok_lookup)

lemma refuse_cases: "refuse root names = Some (r, names1) \<Longrightarrow> r = None \<and> names1 = names"
  by (simp add: refuse_def split: if_splits)

lemma append_capture_ok:
  assumes "n_value root = None" and "from_tokens N g tokens root" and "list_all (from_tokens N g tokens) nodes" and "nodes \<noteq> []"
  shows "from_tokens N g tokens (append_capture root nodes) \<and> n_value (append_capture root nodes) = None"
  using assms by (cases nodes) (auto simp: append_capture_def from_tokens_group)

lemma template_args_ok:
  assumes "template_args text0 caps names root = Some (r, names1)" and "captures_ok N g tokens caps"
    and "n_value root = None" and "from_tokens N g tokens root"
  shows "grown names names1 \<and> (\<forall>node. r = Some node \<longrightarrow> n_value node = None \<and> from_tokens N g tokens node)"
  using assms
proof (induction text0 caps names root rule: template_args.induct)
  case (1 text0 caps names root)
  obtain word rest where w: "next_token text0 = (word, rest)" by fastforce
  obtain name rest1 where n: "next_token rest = (name, rest1)" by fastforce
  obtain sy nodes names2 where c: "named_capture name caps names = ((sy, nodes), names2)"
    by (metis surj_pair)
  obtain sy' nodes' names3 where c': "named_capture word caps names = ((sy', nodes'), names3)"
    by (metis surj_pair)
  note ok = named_capture_ok [OF c \<open>captures_ok N g tokens caps\<close>] named_capture_ok [OF c' \<open>captures_ok N g tokens caps\<close>]
  show ?case
  proof (cases "text0 = [] \<or> isspace (hd text0)")
    case True
    then show ?thesis using "1.prems" by (subst (asm) template_args.simps) auto
  next
    case go: False
    consider (spread) "word = ''$$spread'' \<or> word = ''$spread''" | (maybe) "word = ''$$maybe''"
      | (delim) "word = ''$$delim''"
      | (plain) "word \<noteq> ''$$spread''" "word \<noteq> ''$spread''" "word \<noteq> ''$$maybe''" "word \<noteq> ''$$delim''" by blast
    then show ?thesis
    proof cases
      case spread
      then have e: "(if nodes = [] then refuse root names2
          else template_args rest1 caps names2 (foldl flatten_and_append root nodes)) = Some (r, names1)"
        using "1.prems"(1) go by (subst (asm) template_args.simps) (auto simp: w n c)
      show ?thesis
      proof (cases "nodes = []")
        case False
        have "grown names2 names1 \<and> (\<forall>node. r = Some node \<longrightarrow> n_value node = None \<and> from_tokens N g tokens node)"
          using "1.IH"(1) [OF go w [symmetric] spread n [symmetric] c [symmetric] refl False]
            e False "1.prems" ok(1) from_tokens_spread [of root N g tokens nodes] by simp
        then show ?thesis using ok(1) grown_trans by blast
      qed (use e ok refuse_cases in auto)
    next
      case maybe
      then have e: "(if sy = 0 then refuse root names2
          else template_args rest1 caps names2 (if nodes = [] then root else append_capture root nodes)) = Some (r, names1)"
        using "1.prems"(1) go by (subst (asm) template_args.simps) (auto simp: w n c)
      show ?thesis
      proof (cases "sy = 0")
        case False
        have "\<not> (word = ''$$spread'' \<or> word = ''$spread'')" using maybe by simp
        note ih = "1.IH"(2) [OF go w [symmetric] this maybe n [symmetric] c [symmetric] refl False]
        have "n_value (if nodes = [] then root else append_capture root nodes) = None"
          "from_tokens N g tokens (if nodes = [] then root else append_capture root nodes)"
          using append_capture_ok [OF "1.prems"(3,4)] ok(1) "1.prems"(3,4) by auto
        moreover have "template_args rest1 caps names2 (if nodes = [] then root else append_capture root nodes) = Some (r, names1)"
          using e False by (simp only: if_False)
        ultimately have "grown names2 names1 \<and> (\<forall>node. r = Some node \<longrightarrow> n_value node = None \<and> from_tokens N g tokens node)"
          using ih "1.prems"(2) by blast
        then show ?thesis using ok(1) grown_trans by blast
      qed (use e ok refuse_cases in auto)
    next
      case delim
      then have e: "template_args rest caps names root = Some (r, names1)"
        using "1.prems"(1) go by (subst (asm) template_args.simps) (auto simp: w)
      have "\<not> (word = ''$$spread'' \<or> word = ''$spread'')" "word \<noteq> ''$$maybe''" using delim by simp_all
      from "1.IH"(3) [OF go w [symmetric] this delim] show ?thesis using e "1.prems" by simp
    next
      case plain
      then have e: "(if nodes' = [] then refuse root names3
          else template_args rest caps names3 (append_capture root nodes')) = Some (r, names1)"
        using "1.prems"(1) go by (subst (asm) template_args.simps) (auto simp: w c')
      show ?thesis
      proof (cases "nodes' = []")
        case False
        have "\<not> (word = ''$$spread'' \<or> word = ''$spread'')" using plain by simp
        from "1.IH"(4) [OF go w [symmetric] this plain(3,4) c' [symmetric] refl False]
        have "grown names3 names1 \<and> (\<forall>node. r = Some node \<longrightarrow> n_value node = None \<and> from_tokens N g tokens node)"
          using e False "1.prems" ok(2) append_capture_ok [of root N g tokens nodes'] by simp
        then show ?thesis using ok(2) grown_trans by blast
      qed (use e ok refuse_cases in auto)
    qed
  qed
qed

lemma template_op_grown: "captures_ok N g tokens caps \<Longrightarrow> template_op tmpl caps names = (r, names1) \<Longrightarrow> grown names names1"
  by (auto simp: template_op_def split: prod.splits if_splits
      dest!: grown_intern named_capture_ok intro: grown_trans)

lemma build_template_ok:
  assumes "build_template_ast ops tmpl caps names = Some (r, names1)" and "captures_ok N g tokens caps"
  shows "grown names names1 \<and> (\<forall>node. r = Some node \<longrightarrow> from_tokens N g tokens node)"
proof -
  obtain q names2 where o: "template_op tmpl caps names = (q, names2)" by fastforce
  note g = template_op_grown [OF assms(2) o]
  show ?thesis
  proof (cases q)
    case (Some p)
    obtain op rest where p: "p = (op, rest)" by fastforce
    obtain node where a: "template_args rest caps names2 (set_op op (ast_new (template_kind ops op))) = Some (node, names1)"
      and r: "r = map_option (\<lambda>root. if n_children root = [] then root else set_location (hd (n_children root)) root) node"
      using assms(1) by (auto simp: build_template_ast_def o Some p split: bind_splits)
    from template_args_ok [OF a assms(2)] r g grown_trans show ?thesis by auto
  qed (use assms(1) o g in \<open>simp add: build_template_ast_def\<close>)
qed

lemma build_candidates_ok:
  "build_candidates ops tmpls caps names overload = Some (r, names1) \<Longrightarrow> captures_ok N g tokens caps \<Longrightarrow>
   n_value overload = None \<Longrightarrow> from_tokens N g tokens overload \<Longrightarrow>
     grown names names1 \<and> (\<forall>node. r = Some node \<longrightarrow> from_tokens N g tokens node)"
proof (induction tmpls arbitrary: names overload)
  case (Cons tmpl tmpls)
  obtain cand names2 where b: "build_template_ast ops tmpl (clone_captures caps) names = Some (cand, names2)"
    using Cons.prems(1) by (auto split: bind_splits)
  note ok = build_template_ok [OF b captures_ok_clone [OF Cons.prems(2)]]
  show ?case
  proof (cases cand)
    case (Some node)
    have "grown names2 names1 \<and> (\<forall>node. r = Some node \<longrightarrow> from_tokens N g tokens node)"
      using Cons.IH [of names2 "ast_append_child overload node"] Cons.prems ok b Some by simp
    then show ?thesis using ok grown_trans by blast
  qed (use Cons.prems(1) b ok in simp)
qed auto

lemma build_prod_result_ok:
  assumes "build_prod_result ops p caps names first_node = Some (r, names1)" and "captures_ok N g tokens caps"
    and "\<And>node. first_node = Some node \<Longrightarrow> from_tokens N g tokens node"
  shows "grown names names1 \<and> (\<forall>node. r = Some node \<longrightarrow> from_tokens N g tokens node)"
proof (cases "pr_templates p")
  case (Cons tmpl tmpls)
  show ?thesis
  proof (cases tmpls)
    case Nil
    show ?thesis
    proof (cases "template_is_leaf p \<and> first_node \<noteq> None")
      case True
      then show ?thesis using assms(1,3) Cons Nil by (auto simp: build_prod_result_def)
    next
      case False
      then have "build_template_ast ops tmpl caps names = Some (r, names1)"
        using assms(1) Cons Nil by (auto simp: build_prod_result_def split: if_splits)
      then show ?thesis using assms(2) by (rule build_template_ok)
    qed
  next
    case (Cons t ts)
    then have "build_candidates ops (tmpl # t # ts) caps names (ast_new AST_OVERLOAD) = Some (r, names1)"
      using assms(1) \<open>pr_templates p = tmpl # tmpls\<close> by (simp add: build_prod_result_def)
    then show ?thesis using assms(2) by (rule build_candidates_ok) simp_all
  qed
qed (use assms(1) in \<open>simp add: build_prod_result_def\<close>)

section \<open>The builder\<close>

text \<open>The token kinds an atom accepts: a float also where a number is asked for.\<close>

definition counts_as :: "intern_table \<Rightarrow> nat \<Rightarrow> token \<Rightarrow> bool" where
  "counts_as T kind tok \<longleftrightarrow> tk_kind tok = kind \<or>
     interns_lookup T kind = Some LEXER_KIND_NUMBER \<and> interns_lookup T (tk_kind tok) = Some LEXER_KIND_FLOAT"

definition sound_state :: "intern_table \<Rightarrow> grammar \<Rightarrow> token list \<Rightarrow> ast_state \<Rightarrow> bool" where
  "sound_state N g tokens st \<longleftrightarrow> table_inv (as_names st) \<and> table_le N (as_names st) \<and> captures_ok N g tokens (as_captures st)"

text \<open>
  A step keeps the state sound and, when it matches, moves the cursor over tokens that \<open>D\<close> holds
  of and yields nodes made of tokens; \<open>inp\<close> and \<open>out\<close> view its argument and its result as a cursor
  and nodes.
\<close>

definition builds ::
    "intern_table \<Rightarrow> grammar \<Rightarrow> token list \<Rightarrow> intern_table \<Rightarrow> ('c \<Rightarrow> nat \<times> ast list) \<Rightarrow> ('r \<Rightarrow> nat \<times> ast list) \<Rightarrow> (token list \<Rightarrow> bool) \<Rightarrow>
     ('c \<Rightarrow> ast_state \<Rightarrow> ('r option \<times> ast_state) option) \<Rightarrow> bool" where
  "builds N g tokens T inp out D m \<longleftrightarrow>
     (\<forall>x st r st'. fst (inp x) \<le> length tokens \<longrightarrow> list_all (from_tokens N g tokens) (snd (inp x)) \<longrightarrow>
       sound_state N g tokens st \<longrightarrow> m x st = Some (r, st') \<longrightarrow>
       sound_state N g tokens st' \<and> table_le (as_names st) (as_names st') \<and>
       (\<forall>y. r = Some y \<longrightarrow> fst (inp x) \<le> fst (out y) \<and> fst (out y) \<le> length tokens \<and>
          list_all (from_tokens N g tokens) (snd (out y)) \<and>
          (table_le (as_names st') T \<longrightarrow> D (segment tokens (fst (inp x)) (fst (out y))))))"

definition at_cursor :: "nat \<Rightarrow> nat \<times> ast list" where
  "at_cursor c = (c, [])"

definition at_node :: "nat \<times> ast \<Rightarrow> nat \<times> ast list" where
  "at_node r = (fst r, [snd r])"

definition at_produced :: "nat \<times> ast option \<Rightarrow> nat \<times> ast list" where
  "at_produced r = (fst r, case snd r of None \<Rightarrow> [] | Some node \<Rightarrow> [node])"

definition at_nodes :: "nat \<times> ast list \<Rightarrow> nat \<times> ast list" where
  "at_nodes r = r"

lemmas views = at_cursor_def at_node_def at_produced_def at_nodes_def

lemma buildsI:
  assumes "\<And>x st r st'. fst (inp x) \<le> length tokens \<Longrightarrow> list_all (from_tokens N g tokens) (snd (inp x)) \<Longrightarrow>
      sound_state N g tokens st \<Longrightarrow> m x st = Some (r, st') \<Longrightarrow>
      sound_state N g tokens st' \<and> table_le (as_names st) (as_names st') \<and>
      (\<forall>y. r = Some y \<longrightarrow> fst (inp x) \<le> fst (out y) \<and> fst (out y) \<le> length tokens \<and>
         list_all (from_tokens N g tokens) (snd (out y)) \<and>
         (table_le (as_names st') T \<longrightarrow> D (segment tokens (fst (inp x)) (fst (out y)))))"
  shows "builds N g tokens T inp out D m"
  using assms unfolding builds_def by blast

lemma buildsD:
  assumes "builds N g tokens T inp out D m" and "m x st = Some (r, st')"
    and "fst (inp x) \<le> length tokens" and "list_all (from_tokens N g tokens) (snd (inp x))" and "sound_state N g tokens st"
  shows "sound_state N g tokens st'" and "table_le (as_names st) (as_names st')"
    and "r = Some y \<Longrightarrow> fst (inp x) \<le> fst (out y) \<and> fst (out y) \<le> length tokens \<and>
      list_all (from_tokens N g tokens) (snd (out y))"
    and "r = Some y \<Longrightarrow> table_le (as_names st') T \<Longrightarrow> D (segment tokens (fst (inp x)) (fst (out y)))"
  using assms unfolding builds_def by blast+

lemma sound_capture:
  "sound_state N g tokens st \<Longrightarrow> from_tokens N g tokens node \<Longrightarrow> sound_state N g tokens (capture_node capture node st)"
  by (simp add: sound_state_def capture_node_def captures_ok_append)

lemma as_names_capture [simp]: "as_names (capture_node capture node st) = as_names st"
  by (simp add: capture_node_def)

lemma sound_intern:
  assumes "intern_name s st = (sy, st')" and "sound_state N g tokens st"
  shows "sound_state N g tokens st' \<and> table_le (as_names st) (as_names st') \<and>
    (sy \<noteq> 0 \<longrightarrow> interns_lookup (as_names st') sy = Some s)"
proof -
  obtain t where t: "interns_intern (as_names st) (Some s) = (sy, t)" "st' = st\<lparr>as_names := t\<rparr>"
    using assms(1) by (auto simp: intern_name_def split: prod.splits)
  have inv: "table_inv (as_names st)" using assms(2) by (simp add: sound_state_def)
  from grown_intern [OF t(1)] st.lookup_intern [OF inv, of "Some s"] assms(2) t show ?thesis
    by (auto simp: sound_state_def grown_def intro: table_le_trans)
qed

text \<open>Interning a name that was there from the start yields the symbol it had.\<close>

lemma intern_name_known:
  assumes "intern_name s st = (sy, st')" and "sound_state N g tokens st" and "interns_lookup N sy0 = Some s"
  shows "sy = sy0" and "sy0 \<noteq> 0"
proof -
  have inv: "table_inv (as_names st)" and "interns_lookup (as_names st) sy0 = Some s"
    using assms(2,3) table_le_lookup by (auto simp: sound_state_def)
  with st.intern_again(1) assms(1) show "sy = sy0" by (fastforce simp: intern_name_def split: prod.splits)
  show "sy0 \<noteq> 0" using assms(3) by (auto simp: interns_lookup_def split: if_splits)
qed

lemma match_atoms_builds:
  assumes "\<And>a. a \<in> set as \<Longrightarrow> builds N g tokens T at_cursor at_produced (atom_derives K g a) (m a)"
  shows "builds N g tokens T at_cursor at_nodes (atoms_derive K g as) (match_atoms_ast m as)"
  using assms
proof (induction as)
  case Nil
  show ?case by (rule buildsI) (auto simp: views intro: derives_intros)
next
  case (Cons a as)
  have as: "builds N g tokens T at_cursor at_nodes (atoms_derive K g as) (match_atoms_ast m as)" using Cons by simp
  show ?case
  proof (rule buildsI)
    fix c st r st'
    assume c: "fst (at_cursor c) \<le> length tokens" and st: "sound_state N g tokens st"
      and run: "match_atoms_ast m (a # as) c st = Some (r, st')"
    from run obtain q st1 where 1: "m a c st = Some (q, st1)" by (auto split: bind_splits)
    note ok1 = buildsD [OF Cons.prems [OF list.set_intros(1)] 1 c _ st]
    show "sound_state N g tokens st' \<and> table_le (as_names st) (as_names st') \<and>
      (\<forall>y. r = Some y \<longrightarrow> fst (at_cursor c) \<le> fst (at_nodes y) \<and> fst (at_nodes y) \<le> length tokens \<and>
         list_all (from_tokens N g tokens) (snd (at_nodes y)) \<and>
         (table_le (as_names st') T \<longrightarrow> atoms_derive K g (a # as) (segment tokens (fst (at_cursor c)) (fst (at_nodes y)))))"
    proof (cases q)
      case None
      then show ?thesis using run 1 ok1(1,2) by (auto simp: views)
    next
      case (Some p)
      obtain c1 produced where p: "p = (c1, produced)" by fastforce
      obtain q2 where 2: "match_atoms_ast m as c1 st1 = Some (q2, st')"
        and r: "r = map_option (\<lambda>(c2, nodes). (c2, case produced of None \<Rightarrow> nodes | Some node \<Rightarrow> node # nodes)) q2"
        using run 1 Some p by (auto split: bind_splits)
      have a: "c \<le> c1" "c1 \<le> length tokens" "list_all (from_tokens N g tokens) (case produced of None \<Rightarrow> [] | Some node \<Rightarrow> [node])"
        using ok1(3) [of p] Some p by (simp_all add: views)
      note ok2 = buildsD [OF as 2 _ _ ok1(1)]
      have le: "table_le (as_names st1) (as_names st')" using ok2(2) a by (simp add: views ok1)
      have "sound_state N g tokens st'" using ok2(1) a by (simp add: views)
      moreover have "table_le (as_names st) (as_names st')"
        using ok1(2) le table_le_trans by (auto simp: views)
      moreover have "c \<le> c2 \<and> c2 \<le> length tokens \<and>
          list_all (from_tokens N g tokens) (case produced of None \<Rightarrow> nodes | Some node \<Rightarrow> node # nodes) \<and>
          (table_le (as_names st') T \<longrightarrow> atoms_derive K g (a # as) (segment tokens c c2))"
        if "q2 = Some (c2, nodes)" for c2 nodes
      proof -
        have b: "c1 \<le> c2" "c2 \<le> length tokens" "list_all (from_tokens N g tokens) nodes"
          using ok2(3) [OF _ _ _ that] a by (simp_all add: views)
        have "atoms_derive K g (a # as) (segment tokens c c2)" if t: "table_le (as_names st') T"
        proof -
          have "atom_derives K g a (segment tokens c c1)"
            using ok1(4) [of p] Some p table_le_trans [OF le t] by (simp add: views)
          moreover have "atoms_derive K g as (segment tokens c1 c2)"
            using ok2(4) [OF _ _ _ \<open>q2 = Some (c2, nodes)\<close> t] a by (simp add: views)
          ultimately show ?thesis
            using more_atoms a(1) b(1) segment_append by metis
        qed
        then show ?thesis using a b by (auto split: option.splits)
      qed
      ultimately show ?thesis using r by (auto simp: views)
    qed
  qed
qed

lemma repeat_match_builds:
  assumes m: "builds N g tokens T at_cursor at_nodes (atoms_derive K g as) m"
  shows "repeat_match_ast m mx k c st = Some (k', c', groups, st') \<Longrightarrow> c \<le> length tokens \<Longrightarrow>
    sound_state N g tokens st \<Longrightarrow> k \<le> mx \<Longrightarrow>
    sound_state N g tokens st' \<and> table_le (as_names st) (as_names st') \<and> c \<le> c' \<and> c' \<le> length tokens \<and> k' \<le> mx \<and>
    list_all (from_tokens N g tokens) groups \<and>
    (table_le (as_names st') T \<longrightarrow>
      (\<forall>ts. repeats_derive K g as k ts \<longrightarrow> repeats_derive K g as k' (ts @ segment tokens c c')))"
proof (induction "mx - k" arbitrary: k c st groups)
  case 0
  then show ?case by (subst (asm) repeat_match_ast.simps) simp
next
  case (Suc n)
  then have k: "k < mx" by simp
  obtain q st1 where 1: "m c st = Some (q, st1)"
    using Suc.prems(1) k by (subst (asm) repeat_match_ast.simps) (auto split: bind_splits)
  note ok1 = buildsD [OF m 1 _ _ Suc.prems(3)]
  show ?case
  proof (cases q)
    case None
    then show ?thesis
      using Suc.prems k 1 ok1(1,2) by (subst (asm) repeat_match_ast.simps) (simp add: views)
  next
    case (Some p)
    obtain c1 nodes where p: "p = (c1, nodes)" by fastforce
    obtain gs where 2: "repeat_match_ast m mx (k + 1) c1 st1 = Some (k', c', gs, st')"
      and gr: "groups = ast_group_from_list nodes # gs"
      using Suc.prems(1) k 1 Some p by (subst (asm) repeat_match_ast.simps) (auto split: bind_splits)
    have a: "c \<le> c1" "c1 \<le> length tokens" "list_all (from_tokens N g tokens) nodes" "sound_state N g tokens st1"
      "table_le (as_names st) (as_names st1)"
      using ok1(1-3) Some p Suc.prems(2) by (simp_all add: views)
    have "n = mx - (k + 1)" "k + 1 \<le> mx" using Suc.hyps(2) by simp_all
    from Suc.hyps(1) [OF this(1) 2 a(2,4) this(2)]
    have b: "sound_state N g tokens st'" "table_le (as_names st1) (as_names st')" "c1 \<le> c'" "c' \<le> length tokens" "k' \<le> mx"
      "list_all (from_tokens N g tokens) gs"
      and d: "\<And>ts. table_le (as_names st') T \<Longrightarrow> repeats_derive K g as (k + 1) ts \<Longrightarrow>
        repeats_derive K g as k' (ts @ segment tokens c1 c')" by blast+
    have "repeats_derive K g as k' (ts @ segment tokens c c')"
      if "table_le (as_names st') T" "repeats_derive K g as k ts" for ts
    proof -
      have "atoms_derive K g as (segment tokens c c1)"
        using ok1(4) [of p] Some p Suc.prems(2) table_le_trans [OF b(2) that(1)] by (simp add: views)
      from d [OF that(1), of "ts @ segment tokens c c1"] more_repeats [OF that(2) this] show ?thesis
        using segment_append [OF a(1) b(3)] by simp
    qed
    then show ?thesis
      using a b gr from_tokens_group [OF a(3)] table_le_trans [OF a(5) b(2)] by auto
  qed
qed

lemma match_kind_builds:
  assumes "cursor < length tokens" and "sound_state N g tokens st"
    and "match_kind_ast tokens want kind capture cursor st = Some (r, st')"
  shows "sound_state N g tokens st' \<and> table_le (as_names st) (as_names st') \<and>
    (\<forall>c' produced. r = Some (c', produced) \<longrightarrow> c' = cursor + 1 \<and>
       (\<forall>node. produced = Some node \<longrightarrow> from_tokens N g tokens node) \<and>
       (table_le (as_names st') T \<longrightarrow> counts_as T kind (tokens ! cursor)))"
proof -
  obtain number st1 where 1: "intern_name LEXER_KIND_NUMBER st = (number, st1)" by fastforce
  obtain float st2 where 2: "intern_name LEXER_KIND_FLOAT st1 = (float, st2)" by fastforce
  obtain ident st3 where 3: "intern_name LEXER_KIND_IDENT st2 = (ident, st3)" by fastforce
  note s1 = sound_intern [OF 1 assms(2)]
  note s2 = sound_intern [OF 2 conjunct1 [OF s1]]
  note s3 = sound_intern [OF 3 conjunct1 [OF s2]]
  have le: "table_le (as_names st) (as_names st2)" "table_le (as_names st) (as_names st3)"
    using s1 s2 s3 table_le_trans by blast+
  have match: "counts_as T kind (tokens ! cursor)"
    if "tk_kind (tokens ! cursor) = kind \<or> number \<noteq> 0 \<and> float \<noteq> 0 \<and> kind = number \<and> tk_kind (tokens ! cursor) = float"
      "table_le (as_names st2) T"
    using that s1 s2 table_le_lookup [of "as_names st1" T number] table_le_lookup [of "as_names st2" T float]
      table_le_trans [of "as_names st1" "as_names st2" T]
    by (auto simp: counts_as_def)
  define leaf_of where "leaf_of = token_leaf
    (if ident \<noteq> 0 \<and> tk_kind (tokens ! cursor) = ident then AST_IDENT else AST_LITERAL) (tokens ! cursor)"
  have "leaf_kind N g (tokens ! cursor)
      (if ident \<noteq> 0 \<and> tk_kind (tokens ! cursor) = ident then AST_IDENT else AST_LITERAL)"
    using intern_name_known [OF 3 conjunct1 [OF s2]] by (fastforce simp: leaf_kind_def)
  then have leaf: "from_tokens N g tokens leaf_of"
    unfolding leaf_of_def using from_tokens_leaf nth_mem assms(1) by blast
  have "(if tk_kind (tokens ! cursor) \<noteq> kind \<and>
        \<not> (number \<noteq> 0 \<and> float \<noteq> 0 \<and> kind = number \<and> tk_kind (tokens ! cursor) = float)
      then Some (None, st2)
      else if \<not> want then Some (Some (cursor + 1, None), st2)
      else Some (Some (cursor + 1, Some leaf_of), capture_node capture leaf_of st3)) = Some (r, st')"
    using assms(3) unfolding match_kind_ast_def 1 2 3 Let_def prod.case leaf_of_def .
  then show ?thesis
    using s1 s2 s3 le match leaf table_le_trans [of "as_names st2" "as_names st3" T] sound_capture
    by (auto split: if_splits)
qed

text \<open>The kinds of atoms, one by one.\<close>

lemma kind_atom_builds:
  "builds N g tokens T at_cursor at_produced (atom_derives (counts_as T) g (GRAMMAR_ATOM_TOKEN_KIND kind capture))
    (match_atom_ast rules g tokens depth want (GRAMMAR_ATOM_TOKEN_KIND kind capture))"
proof (rule buildsI)
  fix c st r st'
  assume st: "sound_state N g tokens st"
    and run: "match_atom_ast rules g tokens depth want (GRAMMAR_ATOM_TOKEN_KIND kind capture) c st = Some (r, st')"
  show "sound_state N g tokens st' \<and> table_le (as_names st) (as_names st') \<and>
    (\<forall>y. r = Some y \<longrightarrow> fst (at_cursor c) \<le> fst (at_produced y) \<and> fst (at_produced y) \<le> length tokens \<and>
       list_all (from_tokens N g tokens) (snd (at_produced y)) \<and>
       (table_le (as_names st') T \<longrightarrow> atom_derives (counts_as T) g (GRAMMAR_ATOM_TOKEN_KIND kind capture)
         (segment tokens (fst (at_cursor c)) (fst (at_produced y)))))"
  proof (cases "c < length tokens")
    case True
    then have "match_kind_ast tokens want kind capture c st = Some (r, st')" using run by simp
    from match_kind_builds [OF True st this, of T] True show ?thesis
      by (auto simp: views segment_one split: option.splits intro: token_kind)
  qed (use run st in \<open>auto simp: views\<close>)
qed

lemma rule_atom_builds:
  assumes rules: "\<And>r. r \<in> set (gm_rules g) \<Longrightarrow>
      builds N g tokens T at_cursor at_node (rule_derives (counts_as T) g r bp) (rules (depth + 1) r bp)"
  shows "builds N g tokens T at_cursor at_produced (atom_derives (counts_as T) g (GRAMMAR_ATOM_RULE name bp capture))
    (match_atom_ast rules g tokens depth want (GRAMMAR_ATOM_RULE name bp capture))"
proof (rule buildsI)
  fix c st r st'
  assume c: "fst (at_cursor c) \<le> length tokens" and st: "sound_state N g tokens st"
    and run: "match_atom_ast rules g tokens depth want (GRAMMAR_ATOM_RULE name bp capture) c st = Some (r, st')"
  show "sound_state N g tokens st' \<and> table_le (as_names st) (as_names st') \<and>
    (\<forall>y. r = Some y \<longrightarrow> fst (at_cursor c) \<le> fst (at_produced y) \<and> fst (at_produced y) \<le> length tokens \<and>
       list_all (from_tokens N g tokens) (snd (at_produced y)) \<and>
       (table_le (as_names st') T \<longrightarrow> atom_derives (counts_as T) g (GRAMMAR_ATOM_RULE name bp capture)
         (segment tokens (fst (at_cursor c)) (fst (at_produced y)))))"
  proof (cases "find_rule g name")
    case (Some rule)
    then obtain q st1 where 1: "rules (depth + 1) rule bp c st = Some (q, st1)"
      using run by (auto split: bind_splits)
    note ok = buildsD [OF rules [OF find_rule_in [OF Some]] 1 c _ st]
    show ?thesis
    proof (cases q)
      case None
      then show ?thesis using run Some 1 ok(1,2) by (auto simp: views)
    next
      case q: (Some p)
      obtain c1 sub where p: "p = (c1, sub)" by fastforce
      have "c \<le> c1" "c1 \<le> length tokens" "from_tokens N g tokens sub"
        and d: "table_le (as_names st1) T \<Longrightarrow> rule_derives (counts_as T) g rule bp (segment tokens c c1)"
        using ok(3,4) [of p] q p by (simp_all add: views)
      moreover have "sound_state N g tokens st1" "table_le (as_names st) (as_names st1)"
        using ok(1,2) by (simp_all add: views)
      ultimately show ?thesis
        using run Some 1 q p rule [OF Some d] by (auto simp: views sound_capture split: if_splits)
    qed
  qed (use run st c in \<open>auto simp: views\<close>)
qed

lemma repeat_atom_builds:
  assumes sub: "builds N g tokens T at_cursor at_nodes (atoms_derive (counts_as T) g subatoms)
      (match_atoms_ast (match_atom_ast rules g tokens (depth + 1) True) subatoms)"
  shows "builds N g tokens T at_cursor at_produced (atom_derives (counts_as T) g (GRAMMAR_ATOM_REPEAT subatoms mn mx capture))
    (match_atom_ast rules g tokens depth want (GRAMMAR_ATOM_REPEAT subatoms mn mx capture))"
proof (rule buildsI)
  fix c st r st'
  assume c: "fst (at_cursor c) \<le> length tokens" and st: "sound_state N g tokens st"
    and run: "match_atom_ast rules g tokens depth want (GRAMMAR_ATOM_REPEAT subatoms mn mx capture) c st = Some (r, st')"
  obtain k c1 groups st1 where
    1: "repeat_match_ast (match_atoms_ast (match_atom_ast rules g tokens (depth + 1) True) subatoms) mx 0 c st
      = Some (k, c1, groups, st1)"
    using run by (auto split: bind_splits)
  have "c \<le> length tokens" "(0::nat) \<le> mx" using c by (simp_all add: views)
  from repeat_match_builds [OF sub 1 this(1) st this(2)]
  have ok: "sound_state N g tokens st1" "table_le (as_names st) (as_names st1)" "c \<le> c1" "c1 \<le> length tokens" "k \<le> mx"
    "list_all (from_tokens N g tokens) groups"
    and d: "table_le (as_names st1) T \<Longrightarrow> repeats_derive (counts_as T) g subatoms k (segment tokens c c1)"
    using no_repeats by force+
  show "sound_state N g tokens st' \<and> table_le (as_names st) (as_names st') \<and>
    (\<forall>y. r = Some y \<longrightarrow> fst (at_cursor c) \<le> fst (at_produced y) \<and> fst (at_produced y) \<le> length tokens \<and>
       list_all (from_tokens N g tokens) (snd (at_produced y)) \<and>
       (table_le (as_names st') T \<longrightarrow> atom_derives (counts_as T) g (GRAMMAR_ATOM_REPEAT subatoms mn mx capture)
         (segment tokens (fst (at_cursor c)) (fst (at_produced y)))))"
  proof (cases "k < mn")
    case True
    then show ?thesis using run 1 ok by (auto simp: views)
  next
    case False
    then have "r = Some (c1, if want then Some (ast_group_from_list groups) else None)"
      "st' = capture_node capture (ast_group_from_list groups) st1"
      using run 1 by (simp_all add: Let_def)
    then show ?thesis
      using ok from_tokens_group [OF ok(6)] repeat [OF d _ ok(5), of mn capture] False
      by (auto simp: views sound_capture)
  qed
qed

lemma match_atom_builds:
  assumes rules: "\<And>d r bp. d > depth \<Longrightarrow> r \<in> set (gm_rules g) \<Longrightarrow>
      builds N g tokens T at_cursor at_node (rule_derives (counts_as T) g r bp) (rules d r bp)"
    and "set (captured_literals a) \<subseteq> set (grammar_literals g)"
  shows "builds N g tokens T at_cursor at_produced (atom_derives (counts_as T) g a) (match_atom_ast rules g tokens depth want a)"
  using assms
proof (induction a arbitrary: depth want)
  case (GRAMMAR_ATOM_LITERAL lit capture)
  have leaf: "from_tokens N g tokens (token_leaf AST_LITERAL (tokens ! c))"
    if "c < length tokens" "capture \<noteq> 0" "str_eq (tk_lexeme (tokens ! c)) (Some lit)" for c
    using from_tokens_leaf [OF nth_mem [OF that(1)]] that(2,3) GRAMMAR_ATOM_LITERAL.prems(2)
    by (auto simp: leaf_kind_def)
  show ?case
    by (rule buildsI)
      (auto simp: views segment_one leaf sound_capture Let_def split: if_splits intro: literal)
next
  case (GRAMMAR_ATOM_RULE name bp capture)
  show ?case by (rule rule_atom_builds, rule GRAMMAR_ATOM_RULE) simp
next
  case (GRAMMAR_ATOM_REPEAT subatoms mn mx capture)
  show ?case
    by (rule repeat_atom_builds, rule match_atoms_builds, rule GRAMMAR_ATOM_REPEAT)
      (use GRAMMAR_ATOM_REPEAT.prems in \<open>simp_all add: UN_subset_iff\<close>)
qed (rule kind_atom_builds)

lemma record_match_builds:
  assumes "builds N g tokens T at_cursor at_produced D (m a)"
  shows "builds N g tokens T at_cursor at_produced D (record_match_ast name m a)"
proof (rule buildsI)
  fix c st r st'
  assume c: "fst (at_cursor c) \<le> length tokens" and st: "sound_state N g tokens st"
    and run: "record_match_ast name m a c st = Some (r, st')"
  then obtain st1 where 1: "m a c st = Some (r, st1)"
    "st' = (if r = None then st1\<lparr>as_failure := record_parse_failure c name (as_failure st1)\<rparr> else st1)"
    by (auto simp: record_match_ast_def split: bind_splits)
  have names: "as_names st' = as_names st1" "as_captures st' = as_captures st1" using 1(2) by auto
  note ok = buildsD [OF assms 1(1) c _ st]
  show "sound_state N g tokens st' \<and> table_le (as_names st) (as_names st') \<and>
    (\<forall>y. r = Some y \<longrightarrow> fst (at_cursor c) \<le> fst (at_produced y) \<and> fst (at_produced y) \<le> length tokens \<and>
       list_all (from_tokens N g tokens) (snd (at_produced y)) \<and>
       (table_le (as_names st') T \<longrightarrow> D (segment tokens (fst (at_cursor c)) (fst (at_produced y)))))"
    using ok names by (auto simp: sound_state_def at_cursor_def)
qed

lemma match_pattern_builds:
  assumes rules: "\<And>d r bp. d > depth \<Longrightarrow> r \<in> set (gm_rules g) \<Longrightarrow>
      builds N g tokens T at_cursor at_node (rule_derives (counts_as T) g r bp) (rules d r bp)"
    and leading: "leading \<Longrightarrow> pr_starts_with_expr p"
    and literals: "\<And>a. a \<in> set (pr_atoms p) \<Longrightarrow> set (captured_literals a) \<subseteq> set (grammar_literals g)"
  shows "builds N g tokens T at_cursor at_nodes (production_derives (counts_as T) g p bp leading)
    (match_pattern_ast rules g tokens name p bp leading all depth)"
proof (rule buildsI)
  fix c st r st'
  assume c: "fst (at_cursor c) \<le> length tokens" and st: "sound_state N g tokens st"
    and run: "match_pattern_ast rules g tokens name p bp leading all depth c st = Some (r, st')"
  define as where "as = (if pr_atoms p \<noteq> [] \<and> leading then tl (pr_atoms p) else pr_atoms p)"
  define m where "m = record_match_ast name (\<lambda>a. match_atom_ast rules g tokens depth (all \<or> at_capture a \<noteq> 0) a)"
  have m: "builds N g tokens T at_cursor at_nodes (atoms_derive (counts_as T) g as) (match_atoms_ast m as)"
    unfolding m_def
    by (intro match_atoms_builds record_match_builds match_atom_builds rules literals)
      (auto simp: as_def split: if_splits dest: list.set_sel(2) [rotated])
  have eq: "pr_atoms p \<noteq> [] \<and> pr_starts_with_expr p \<and> leading \<longleftrightarrow> pr_atoms p \<noteq> [] \<and> leading"
    using leading by auto
  show "sound_state N g tokens st' \<and> table_le (as_names st) (as_names st') \<and>
    (\<forall>y. r = Some y \<longrightarrow> fst (at_cursor c) \<le> fst (at_nodes y) \<and> fst (at_nodes y) \<le> length tokens \<and>
       list_all (from_tokens N g tokens) (snd (at_nodes y)) \<and>
       (table_le (as_names st') T \<longrightarrow> production_derives (counts_as T) g p bp leading
         (segment tokens (fst (at_cursor c)) (fst (at_nodes y)))))"
  proof (cases "depth > PARSER_MAX_DEPTH \<or> (pr_atoms p \<noteq> [] \<and> leading) \<and> min_bp_of (hd (pr_atoms p)) < bp")
    case True
    then show ?thesis using run st by (auto simp: match_pattern_ast_def eq Let_def split: if_splits)
  next
    case ok: False
    then obtain q st1 where 1: "match_atoms_ast m as c st = Some (q, st1)"
      using run by (auto simp: match_pattern_ast_def eq Let_def m_def as_def split: bind_splits if_splits)
    have st1: "st' = st1" and r: "r \<noteq> None \<Longrightarrow> r = q \<and> \<not> (leading \<and> length (pr_atoms p) \<le> 1) \<and> fst (the q) \<noteq> c \<and> q \<noteq> None"
      using run ok 1 by (auto simp: match_pattern_ast_def eq Let_def m_def as_def split: if_splits option.splits)
    note b = buildsD [OF m 1 c _ st]
    have "production_derives (counts_as T) g p bp leading (segment tokens c (fst y))"
      if "r = Some y" "table_le (as_names st1) T" for y
    proof -
      have "q = Some y" "fst y \<noteq> c" "\<not> (leading \<and> length (pr_atoms p) \<le> 1)" using r that by auto
      moreover have "atoms_derive (counts_as T) g as (segment tokens c (fst y))" "c \<le> fst y" "fst y \<le> length tokens"
        using b(3,4) [of y] calculation that(2) by (simp_all add: views)
      ultimately show ?thesis
        using ok by (cases "pr_atoms p") (auto simp: production_derives_def as_def segment_Nil_iff)
    qed
    then show ?thesis using b(1-3) r by (auto simp: st1 views)
  qed
qed

lemma first_match_builds:
  assumes "\<And>p. p \<in> set ps \<Longrightarrow> builds N g tokens T inp out (D p) (m p)"
  shows "builds N g tokens T inp out (\<lambda>ts. \<exists>p\<in>set ps. D p ts) (first_match m ps)"
  using assms
proof (induction ps)
  case Nil
  show ?case by (rule buildsI) auto
next
  case (Cons p ps)
  have rest: "builds N g tokens T inp out (\<lambda>ts. \<exists>p\<in>set ps. D p ts) (first_match m ps)" using Cons by simp
  show ?case
  proof (rule buildsI)
    fix x st r st'
    assume x: "fst (inp x) \<le> length tokens" "list_all (from_tokens N g tokens) (snd (inp x))" and st: "sound_state N g tokens st"
      and run: "first_match m (p # ps) x st = Some (r, st')"
    from run obtain q st1 where 1: "m p x st = Some (q, st1)" by (auto split: bind_splits)
    note ok = buildsD [OF Cons.prems [OF list.set_intros(1)] 1 x st]
    show "sound_state N g tokens st' \<and> table_le (as_names st) (as_names st') \<and>
      (\<forall>y. r = Some y \<longrightarrow> fst (inp x) \<le> fst (out y) \<and> fst (out y) \<le> length tokens \<and>
         list_all (from_tokens N g tokens) (snd (out y)) \<and>
         (table_le (as_names st') T \<longrightarrow> (\<exists>p\<in>set (p # ps). D p (segment tokens (fst (inp x)) (fst (out y))))))"
    proof (cases q)
      case None
      then have 2: "first_match m ps x st1 = Some (r, st')" using run 1 by simp
      show ?thesis using buildsD [OF rest 2 x ok(1)] ok(2) table_le_trans by auto
    next
      case (Some y)
      then have "r = Some y" "st' = st1" using run 1 by simp_all
      then show ?thesis using ok Some by auto
    qed
  qed
qed

lemma extend_match_builds:
  assumes m: "builds N g tokens T at_node at_node (\<lambda>ts. \<forall>left. D left \<longrightarrow> D (left @ ts)) m"
  shows "builds N g tokens T at_node at_node (\<lambda>ts. \<forall>left. D left \<longrightarrow> D (left @ ts)) (extend_match n m)"
proof (induction n)
  case 0
  show ?case by (rule buildsI) simp
next
  case (Suc n)
  show ?case
  proof (rule buildsI)
    fix x st r st'
    assume x: "fst (at_node x) \<le> length tokens" "list_all (from_tokens N g tokens) (snd (at_node x))"
      and st: "sound_state N g tokens st" and run: "extend_match (Suc n) m x st = Some (r, st')"
    from run obtain q st1 where 1: "m x st = Some (q, st1)" by (auto split: bind_splits)
    note ok = buildsD [OF m 1 x st]
    show "sound_state N g tokens st' \<and> table_le (as_names st) (as_names st') \<and>
      (\<forall>y. r = Some y \<longrightarrow> fst (at_node x) \<le> fst (at_node y) \<and> fst (at_node y) \<le> length tokens \<and>
         list_all (from_tokens N g tokens) (snd (at_node y)) \<and>
         (table_le (as_names st') T \<longrightarrow> (\<forall>left. D left \<longrightarrow> D (left @ segment tokens (fst (at_node x)) (fst (at_node y))))))"
    proof (cases q)
      case None
      then have "r = Some x" "st' = st1" using run 1 by simp_all
      then show ?thesis using ok(1,2) x by auto
    next
      case (Some z)
      then have 2: "extend_match n m z st1 = Some (r, st')" using run 1 by simp
      have z: "fst (at_node x) \<le> fst (at_node z)" "fst (at_node z) \<le> length tokens" "list_all (from_tokens N g tokens) (snd (at_node z))"
        using ok(3) Some by auto
      note ok2 = buildsD [OF Suc.IH 2 z(2,3) ok(1)]
      have "D (left @ segment tokens (fst (at_node x)) (fst (at_node y)))"
        if "r = Some y" "table_le (as_names st') T" "D left" for left y
      proof -
        have "D (left @ segment tokens (fst (at_node x)) (fst (at_node z)))"
          using ok(4) Some that(3) table_le_trans [OF ok2(2) that(2)] by blast
        then have "D ((left @ segment tokens (fst (at_node x)) (fst (at_node z))) @
            segment tokens (fst (at_node z)) (fst (at_node y)))"
          using ok2(4) that(1,2) by blast
        then show ?thesis using segment_append [OF z(1)] ok2(3) [OF that(1)] by simp
      qed
      then show ?thesis using ok2(1-3) z(1) table_le_trans [OF ok(2) ok2(2)] by fastforce
    qed
  qed
qed

lemma build_match_builds:
  assumes "build_match ops p want_first (r, st) = Some (q, st')" and "sound_state N g tokens st"
    and "\<And>c nodes. r = Some (c, nodes) \<Longrightarrow> list_all (from_tokens N g tokens) nodes"
  shows "sound_state N g tokens st' \<and> table_le (as_names st) (as_names st') \<and>
    (\<forall>c node. q = Some (c, node) \<longrightarrow> from_tokens N g tokens node \<and> (\<exists>nodes. r = Some (c, nodes)))"
proof (cases r)
  case (Some cn)
  obtain c nodes where cn: "cn = (c, nodes)" by fastforce
  obtain node names where b: "build_prod_result ops p (as_captures st) (as_names st)
      (if want_first \<and> nodes \<noteq> [] then Some (hd nodes) else None) = Some (node, names)"
    and r: "q = map_option (Pair c) node" "st' = st\<lparr>as_names := names\<rparr>"
    using assms(1) by (auto simp: build_match_def Some cn split: bind_splits)
  have first: "\<And>n. (if want_first \<and> nodes \<noteq> [] then Some (hd nodes) else None) = Some n \<Longrightarrow> from_tokens N g tokens n"
    using assms(3) Some cn by (cases nodes) (auto split: if_splits)
  have caps: "captures_ok N g tokens (as_captures st)" "table_inv (as_names st)" "table_le N (as_names st)"
    using assms(2) by (simp_all add: sound_state_def)
  from build_prod_result_ok [OF b caps(1) first] caps r Some cn show ?thesis
    by (auto simp: sound_state_def grown_def intro: table_le_trans)
qed (use assms(1,2) in \<open>simp add: build_match_def\<close>)

text \<open>A match followed by building the node of its production.\<close>

lemma match_build_builds:
  assumes m: "builds N g tokens T inp at_nodes D m"
    and start: "\<And>x st. sound_state N g tokens st \<Longrightarrow> list_all (from_tokens N g tokens) (snd (inp x)) \<Longrightarrow>
      sound_state N g tokens (start x st) \<and> as_names (start x st) = as_names st"
  shows "builds N g tokens T inp at_node D (\<lambda>x st. m x (start x st) \<bind> build_match ops p want_first)"
proof (rule buildsI)
  fix x st r st'
  assume x: "fst (inp x) \<le> length tokens" "list_all (from_tokens N g tokens) (snd (inp x))" and st: "sound_state N g tokens st"
    and run: "m x (start x st) \<bind> build_match ops p want_first = Some (r, st')"
  from run obtain q st1 where 1: "m x (start x st) = Some (q, st1)"
    and 2: "build_match ops p want_first (q, st1) = Some (r, st')"
    by (auto split: bind_splits)
  note st0 = start [OF st x(2)]
  note ok = buildsD [OF m 1 x conjunct1 [OF st0]]
  have nodes: "\<And>c' nodes. q = Some (c', nodes) \<Longrightarrow> list_all (from_tokens N g tokens) nodes"
    using ok(3) by (simp add: views)
  have "sound_state N g tokens st' \<and> table_le (as_names st1) (as_names st') \<and>
      (\<forall>c' node. r = Some (c', node) \<longrightarrow> from_tokens N g tokens node \<and> (\<exists>nodes. q = Some (c', nodes)))"
    by (rule build_match_builds [OF 2 ok(1)]) (rule nodes)
  then have b: "sound_state N g tokens st'" "table_le (as_names st1) (as_names st')"
    "\<And>c' node. r = Some (c', node) \<Longrightarrow> from_tokens N g tokens node \<and> (\<exists>nodes. q = Some (c', nodes))" by blast+
  show "sound_state N g tokens st' \<and> table_le (as_names st) (as_names st') \<and>
    (\<forall>y. r = Some y \<longrightarrow> fst (inp x) \<le> fst (at_node y) \<and> fst (at_node y) \<le> length tokens \<and>
       list_all (from_tokens N g tokens) (snd (at_node y)) \<and>
       (table_le (as_names st') T \<longrightarrow> D (segment tokens (fst (inp x)) (fst (at_node y)))))"
  proof (intro conjI allI impI)
    show "table_le (as_names st) (as_names st')" using ok(2) b(2) st0 table_le_trans by simp
  next
    fix y
    assume y: "r = Some y"
    obtain c' node where cn: "y = (c', node)" by fastforce
    then obtain nodes where q: "q = Some (c', nodes)" and node: "from_tokens N g tokens node" using b(3) y by blast
    show "fst (inp x) \<le> fst (at_node y)" "fst (at_node y) \<le> length tokens"
      using ok(3) [OF q] cn by (simp_all add: views)
    show "list_all (from_tokens N g tokens) (snd (at_node y))" using node cn by (simp add: views)
    show "D (segment tokens (fst (inp x)) (fst (at_node y)))" if "table_le (as_names st') T"
      using ok(4) [OF q table_le_trans [OF b(2) that]] cn by (simp add: views)
  qed (rule b(1))
qed

lemma builds_at_node:
  assumes "builds N g tokens T at_cursor out D m"
  shows "builds N g tokens T at_node out D (\<lambda>x. m (fst x))"
  using assms unfolding builds_def by (simp add: views)

lemma builds_mono: "builds N g tokens T inp out D m \<Longrightarrow> (\<And>ts. D ts \<Longrightarrow> E ts) \<Longrightarrow> builds N g tokens T inp out E m"
  unfolding builds_def by blast

lemma try_prefix_builds:
  assumes lits: "\<And>a. a \<in> set (pr_atoms p) \<Longrightarrow> set (captured_literals a) \<subseteq> set (grammar_literals g)"
    and rules: "\<And>d r bp. d > depth \<Longrightarrow> r \<in> set (gm_rules g) \<Longrightarrow>
      builds N g tokens T at_cursor at_node (rule_derives (counts_as T) g r bp) (rules d r bp)"
  shows "builds N g tokens T at_cursor at_node (production_derives (counts_as T) g p bp False)
    (try_prefix ops rules g tokens depth name bp p)"
proof -
  have m: "builds N g tokens T at_cursor at_nodes (production_derives (counts_as T) g p bp False)
      (match_pattern_ast rules g tokens name p bp False (template_is_leaf p) depth)"
    by (rule match_pattern_builds) (use rules lits in simp_all)
  show ?thesis
    unfolding try_prefix_def [abs_def]
    by (rule match_build_builds [OF m]) (auto simp: sound_state_def)
qed

lemma try_infix_builds:
  assumes lits: "\<And>a. a \<in> set (pr_atoms p) \<Longrightarrow> set (captured_literals a) \<subseteq> set (grammar_literals g)"
    and rules: "\<And>d r bp. d > depth \<Longrightarrow> r \<in> set (gm_rules g) \<Longrightarrow>
      builds N g tokens T at_cursor at_node (rule_derives (counts_as T) g r bp) (rules d r bp)"
    and "pr_starts_with_expr p"
  shows "builds N g tokens T at_node at_node (production_derives (counts_as T) g p bp True)
    (try_infix ops rules g tokens depth name bp p)"
proof (cases "pr_atoms p = []")
  case True
  then show ?thesis by (intro buildsI) (auto simp: try_infix_def split: prod.splits)
next
  case False
  have m: "builds N g tokens T at_node at_nodes (production_derives (counts_as T) g p bp True)
      (\<lambda>x. match_pattern_ast rules g tokens name p bp True False depth (fst x))"
    by (rule builds_at_node, rule match_pattern_builds) (use assms in simp_all)
  have eq: "try_infix ops rules g tokens depth name bp p =
      (\<lambda>x st. match_pattern_ast rules g tokens name p bp True False depth (fst x)
        (capture_node (at_capture (hd (pr_atoms p))) (snd x) (st\<lparr>as_captures := []\<rparr>)) \<bind> build_match ops p False)"
    using False by (intro ext) (simp add: try_infix_def split: prod.split)
  show ?thesis
    unfolding eq
    by (rule match_build_builds [OF m])
      (auto simp: views intro!: sound_capture, simp add: sound_state_def)
qed

lemma rule_step_builds:
  assumes r: "r \<in> set (gm_rules g)"
    and rules: "\<And>d r bp. d > depth \<Longrightarrow> r \<in> set (gm_rules g) \<Longrightarrow>
      builds N g tokens T at_cursor at_node (rule_derives (counts_as T) g r bp) (rules d r bp)"
  shows "builds N g tokens T at_cursor at_node (rule_derives (counts_as T) g r bp) (rule_step_ast ops rules g tokens depth r bp)"
proof (rule buildsI)
  fix c st q st'
  assume c: "fst (at_cursor c) \<le> length tokens" "list_all (from_tokens N g tokens) (snd (at_cursor c))"
    and st: "sound_state N g tokens st" and run: "rule_step_ast ops rules g tokens depth r bp c st = Some (q, st')"
  have lits: "\<And>p a. p \<in> set (gr_productions r) \<Longrightarrow> a \<in> set (pr_atoms p) \<Longrightarrow>
      set (captured_literals a) \<subseteq> set (grammar_literals g)"
    using grammar_literals_production [OF r] .
  define prefix where "prefix = first_match (try_prefix ops rules g tokens (depth + 1) (gr_name r) bp)
    [p \<leftarrow> gr_productions r. \<not> pr_starts_with_expr p]"
  define rest where "rest = first_match (try_infix ops rules g tokens (depth + 1) (gr_name r) bp)
    [p \<leftarrow> gr_productions r. pr_starts_with_expr p]"
  have pre: "builds N g tokens T at_cursor at_node (rule_derives (counts_as T) g r bp) prefix"
    unfolding prefix_def
    by (rule builds_mono, rule first_match_builds [OF try_prefix_builds], rule lits [rotated], assumption, simp, rule rules)
      (auto simp: production_derives_def intro: operand)
  have ext: "builds N g tokens T at_node at_node (\<lambda>ts. \<forall>left. rule_derives (counts_as T) g r bp left \<longrightarrow>
      rule_derives (counts_as T) g r bp (left @ ts)) rest"
    unfolding rest_def
    by (rule builds_mono, rule first_match_builds [OF try_infix_builds], rule lits [rotated], assumption, simp, rule rules)
      (auto simp: production_derives_def intro: extended)
  note folded = run [unfolded rule_step_ast_def, folded prefix_def rest_def]
  from folded obtain q1 st1 where 1: "prefix c st = Some (q1, st1)"
    by (auto split: bind_splits)
  note ok = buildsD [OF pre 1 c st]
  have caps: "sound_state N g tokens s \<Longrightarrow> sound_state N g tokens (s\<lparr>as_captures := as_captures st\<rparr>)" for s
    using st by (simp add: sound_state_def)
  show "sound_state N g tokens st' \<and> table_le (as_names st) (as_names st') \<and>
    (\<forall>y. q = Some y \<longrightarrow> fst (at_cursor c) \<le> fst (at_node y) \<and> fst (at_node y) \<le> length tokens \<and>
       list_all (from_tokens N g tokens) (snd (at_node y)) \<and>
       (table_le (as_names st') T \<longrightarrow> rule_derives (counts_as T) g r bp (segment tokens (fst (at_cursor c)) (fst (at_node y)))))"
  proof (cases q1)
    case None
    then have "q = None" "st' = st1\<lparr>as_failure := record_parse_failure c (gr_name r) (as_failure st1), as_captures := as_captures st\<rparr>"
      using folded 1 by simp_all
    then show ?thesis using ok(1,2) st by (simp add: sound_state_def)
  next
    case (Some y)
    obtain c1 lhs where "y = (c1, lhs)" by fastforce
    with Some obtain st2 where 2: "extend_match (length tokens - fst y + 1) rest y st1 = Some (q, st2)"
      and st': "st' = st2\<lparr>as_captures := as_captures st\<rparr>"
      using folded 1 by (auto simp del: extend_match.simps split: bind_splits)
    have y: "fst (at_cursor c) \<le> fst (at_node y)" "fst (at_node y) \<le> length tokens" "list_all (from_tokens N g tokens) (snd (at_node y))"
      using ok(3) Some by auto
    note ok2 = buildsD [OF extend_match_builds [OF ext] 2 y(2,3) ok(1)]
    have "rule_derives (counts_as T) g r bp (segment tokens (fst (at_cursor c)) (fst (at_node z)))"
      if "q = Some z" "table_le (as_names st2) T" for z
    proof -
      have "rule_derives (counts_as T) g r bp (segment tokens (fst (at_cursor c)) (fst (at_node y)))"
        using ok(4) Some table_le_trans [OF ok2(2) that(2)] by blast
      then have "rule_derives (counts_as T) g r bp
          (segment tokens (fst (at_cursor c)) (fst (at_node y)) @ segment tokens (fst (at_node y)) (fst (at_node z)))"
        using ok2(4) that by blast
      then show ?thesis using segment_append [OF y(1)] ok2(3) [OF that(1)] by simp
    qed
    then show ?thesis
      using ok2(1-3) caps y(1) table_le_trans [OF ok(2) ok2(2)] unfolding st' by fastforce
  qed
qed

lemma parse_rule_builds:
  "r \<in> set (gm_rules g) \<Longrightarrow> builds N g tokens T at_cursor at_node (rule_derives (counts_as T) g r bp) (parse_rule_internal_ast ops g tokens depth r bp)"
proof (induction "Suc PARSER_MAX_DEPTH - depth" arbitrary: depth r bp rule: less_induct)
  case less
  show ?case
  proof (cases "depth > PARSER_MAX_DEPTH")
    case True
    then show ?thesis by (intro buildsI) (simp add: parse_rule_internal_ast.simps)
  next
    case False
    have "builds N g tokens T at_cursor at_node (rule_derives (counts_as T) g r bp)
        (rule_step_ast ops (parse_rule_internal_ast ops g tokens) g tokens depth r bp)"
      by (rule rule_step_builds [OF less.prems], rule less) (use False in simp_all)
    moreover have "parse_rule_internal_ast ops g tokens depth r bp =
        rule_step_ast ops (parse_rule_internal_ast ops g tokens) g tokens depth r bp"
      using False by (intro ext) (simp add: parse_rule_internal_ast.simps)
    ultimately show ?thesis by simp
  qed
qed

section \<open>Properties\<close>


text \<open>Running the builder on a fresh table: what interning yields, and the tables it goes through.\<close>

definition interned :: "intern_table \<Rightarrow> string \<Rightarrow> intern_table" where
  "interned t s = snd (interns_intern t (Some s))"

lemma interned_simps:
  "table_inv t \<Longrightarrow> interns_intern t (Some s) = (fst (intern_spec (t_index t) s), interned t s)"
  "table_inv t \<Longrightarrow> table_inv (interned t s)"
  "table_inv t \<Longrightarrow> t_index (interned t s) = snd (intern_spec (t_index t) s)"
  using interns_intern_refines [of t s] by (simp_all add: interned_def prod_eq_iff)

lemma interned_reachable: "reachable_table t \<Longrightarrow> reachable_table (interned t s)"
  unfolding interned_def by (rule rt_intern)

definition stale_table :: intern_table where
  "stale_table = interned (interned (interned (interned interns_new ''expr'') ''IDENT'') ''n'') ''m''"

lemma stale_table_facts: "reachable_table stale_table" "table_inv stale_table"
  "t_index stale_table = [''expr'', ''IDENT'', ''n'', ''m'']"
proof -
  have new: "t_index interns_new = []" by (simp add: interns_new_eq)
  show "reachable_table stale_table" unfolding stale_table_def by (intro interned_reachable rt_new)
  then show "table_inv stale_table" by (rule reachable_table_inv)
  show "t_index stale_table = [''expr'', ''IDENT'', ''n'', ''m'']"
    by (simp add: stale_table_def interned_simps interns_new_inv new intern_spec_def bytes_used_def)
qed

text \<open>The rule \<open>$( %IDENT n "," )? %IDENT m => $group n m\<close>.\<close>

definition stale_grammar :: grammar where
  "stale_grammar =
     \<lparr>gm_rules = [\<lparr>gr_name = 1, gr_productions =
        [\<lparr>pr_atoms = [GRAMMAR_ATOM_REPEAT [GRAMMAR_ATOM_TOKEN_KIND 2 3, GRAMMAR_ATOM_LITERAL '','' 0] 0 1 0,
            GRAMMAR_ATOM_TOKEN_KIND 2 4],
          pr_templates = [''$group n m''], pr_starts_with_expr = False\<rparr>]\<rparr>], gm_start_rule = 1\<rparr>"

definition stale_tokens :: "token list" where
  "stale_tokens = [\<lparr>tk_kind = 2, tk_lexeme = Some ''a'', tk_filename = ''f'', tk_row = 1, tk_col = 1\<rparr>]"

definition stale_env :: parser_env where
  "stale_env = sample_env\<lparr>pe_interns := stale_table\<rparr>"

lemma stale_run:
  "\<exists>root env'. grammar_parse_ast [] stale_grammar 0 stale_tokens stale_env = Some (Some root, env') \<and>
     n_children root = [token_leaf AST_IDENT (hd stale_tokens), token_leaf AST_IDENT (hd stale_tokens)]"
  unfolding grammar_parse_ast_def
  by (simp add: stale_grammar_def stale_tokens_def stale_env_def strip_eof_def intern_env_def find_rule_def
      interned_simps stale_table_facts intern_spec_def bytes_used_def kind_names
      parse_rule_internal_ast.simps rule_step_ast_def try_prefix_def match_pattern_ast_def record_match_ast_def
      PARSER_MAX_DEPTH_def repeat_match_ast.simps match_kind_ast_def intern_name_def Let_def token_leaf_def
      ast_make_leaf_def str_eq_def capture_node_def build_match_def build_prod_result_def template_is_leaf_def
      next_token_def isspace_def build_template_ast_def template_op_def template_args.simps named_capture_def
      append_capture_def template_kind_def operator_info_lookup_def ast_new_def numeral_2_eq_2 numeral_3_eq_3)

lemma stale_env_interns: "reachable_table (pe_interns stale_env)"
  by (simp add: stale_env_def stale_table_facts)


section \<open>Captures\<close>

text \<open>Matching only adds to what a name has captured.\<close>

definition captures_le :: "captures \<Rightarrow> captures \<Rightarrow> bool" where
  "captures_le caps caps' \<longleftrightarrow>
     (\<forall>name nodes. map_of caps name = Some nodes \<longrightarrow> (\<exists>more. map_of caps' name = Some (nodes @ more)))"

lemma captures_le_refl [simp]: "captures_le caps caps"
  unfolding captures_le_def by (metis append_Nil2)

lemma captures_le_trans: "captures_le a b \<Longrightarrow> captures_le b c \<Longrightarrow> captures_le a c"
  unfolding captures_le_def by (metis append_assoc)

lemma map_of_capture_append:
  "map_of (capture_append name node caps) =
     (map_of caps)(name \<mapsto> (case map_of caps name of None \<Rightarrow> [] | Some nodes \<Rightarrow> nodes) @ [node])"
  by (induction caps) auto

lemma captures_le_node: "captures_le (as_captures st) (as_captures (capture_node name node st))"
  by (auto simp: capture_node_def captures_le_def map_of_capture_append)

definition keeps_captures :: "('a \<Rightarrow> ast_state \<Rightarrow> ('r option \<times> ast_state) option) \<Rightarrow> bool" where
  "keeps_captures m \<longleftrightarrow>
     (\<forall>x st r st'. m x st = Some (r, st') \<longrightarrow> captures_le (as_captures st) (as_captures st'))"

lemma keeps_capturesD:
  "keeps_captures m \<Longrightarrow> m x st = Some (r, st') \<Longrightarrow> captures_le (as_captures st) (as_captures st')"
  unfolding keeps_captures_def by blast

lemma match_atoms_keeps:
  "(\<And>a. a \<in> set as \<Longrightarrow> keeps_captures (m a)) \<Longrightarrow> keeps_captures (match_atoms_ast m as)"
proof (induction as)
  case (Cons a as)
  then have "keeps_captures (m a)" "keeps_captures (match_atoms_ast m as)" by simp_all
  note keeps = this [THEN keeps_capturesD]
  show ?case
    unfolding keeps_captures_def
    by (auto split: bind_splits option.splits dest!: keeps intro: captures_le_trans)
qed (simp add: keeps_captures_def)

lemma repeat_match_keeps:
  assumes "keeps_captures m"
  shows "repeat_match_ast m mx k c st = Some (k', c', groups, st') \<Longrightarrow>
    captures_le (as_captures st) (as_captures st')"
proof (induction "mx - k" arbitrary: k c st groups)
  case 0
  then show ?case by (subst (asm) repeat_match_ast.simps) simp
next
  case (Suc n)
  then have k: "k < mx" "n = mx - (k + 1)" by simp_all
  from Suc.prems k(1) obtain r st1 where 1: "m c st = Some (r, st1)"
    by (subst (asm) repeat_match_ast.simps) (auto split: bind_splits)
  note le = keeps_capturesD [OF assms 1]
  show ?case
  proof (cases r)
    case None
    then show ?thesis using Suc.prems k(1) 1 le by (subst (asm) repeat_match_ast.simps) simp
  next
    case (Some p)
    then obtain c1 st1' gs where "repeat_match_ast m mx (k + 1) c1 st1 = Some (k', c', gs, st')"
      using Suc.prems k(1) 1 by (subst (asm) repeat_match_ast.simps) (auto split: bind_splits prod.splits)
    from captures_le_trans [OF le Suc.hyps(1) [OF k(2) this]] show ?thesis .
  qed
qed

lemma intern_name_captures: "intern_name s st = (sy, st') \<Longrightarrow> as_captures st' = as_captures st"
  by (auto simp: intern_name_def split: prod.splits)

lemma match_kind_keeps: "keeps_captures (match_kind_ast tokens want kind capture)"
  unfolding keeps_captures_def
proof (intro allI impI)
  fix c st r st'
  assume run: "match_kind_ast tokens want kind capture c st = Some (r, st')"
  obtain a st1 where 1: "intern_name LEXER_KIND_NUMBER st = (a, st1)" by fastforce
  obtain b st2 where 2: "intern_name LEXER_KIND_FLOAT st1 = (b, st2)" by fastforce
  obtain i st3 where 3: "intern_name LEXER_KIND_IDENT st2 = (i, st3)" by fastforce
  note same = 1 [THEN intern_name_captures] 2 [THEN intern_name_captures] 3 [THEN intern_name_captures]
  have "st' = st2 \<or> (\<exists>leaf. st' = capture_node capture leaf st3)"
    using run by (auto simp: match_kind_ast_def 1 2 3 Let_def split: if_splits)
  then show "captures_le (as_captures st) (as_captures st')"
    using captures_le_node [of st3] same by auto
qed

lemma parse_rule_captures:
  "parse_rule_internal_ast ops g tokens depth r bp c st = Some (q, st') \<Longrightarrow> as_captures st' = as_captures st"
  by (subst (asm) parse_rule_internal_ast.simps) (auto simp: rule_step_ast_def split: bind_splits if_splits)

lemma match_atom_keeps:
  "keeps_captures (match_atom_ast (parse_rule_internal_ast ops g tokens) g tokens depth want a)"
proof (induction a arbitrary: depth want)
  case (GRAMMAR_ATOM_LITERAL lit capture)
  show ?case by (auto simp: keeps_captures_def Let_def captures_le_node split: if_splits)
next
  case (GRAMMAR_ATOM_TOKEN_KIND kind capture)
  show ?case using keeps_capturesD [OF match_kind_keeps] by (auto simp: keeps_captures_def split: if_splits)
next
  case (GRAMMAR_ATOM_RULE name bp capture)
  show ?case
    unfolding keeps_captures_def
    by (auto split: bind_splits option.splits if_splits dest!: parse_rule_captures)
      (metis captures_le_node)
next
  case (GRAMMAR_ATOM_REPEAT subatoms mn mx capture)
  have "keeps_captures (match_atoms_ast
      (match_atom_ast (parse_rule_internal_ast ops g tokens) g tokens (depth + 1) True) subatoms)"
    by (rule match_atoms_keeps) (rule GRAMMAR_ATOM_REPEAT)
  from repeat_match_keeps [OF this] show ?case
    unfolding keeps_captures_def
    by (auto simp: Let_def split: bind_splits if_splits intro: captures_le_trans [OF _ captures_le_node])
qed

lemma match_atoms_append:
  "match_atoms_ast m before c st = Some (Some (c1, nodes), st1) \<Longrightarrow> m a c1 st1 = Some (None, st2) \<Longrightarrow>
   match_atoms_ast m (before @ a # after) c st = Some (None, st2)"
  by (induction before arbitrary: c st nodes) (auto split: bind_splits option.splits)

text \<open>C37: a repetition that is given up leaves its captures behind.  Take any optional group
  \<open>$( before a after )\<close> of any grammar.  When the atoms \<open>before\<close> match and \<open>a\<close> then does not, the
  group matches nothing: the cursor stays where it was and the node produced is an empty group.  But
  every node that \<open>before\<close> captured stays captured under its name, ready for the templates of the
  production.\<close>

theorem abandoned_repetition_keeps_captures:
  assumes "match_atoms_ast (match_atom_ast (parse_rule_internal_ast ops g tokens) g tokens (depth + 1) True)
      before cursor st = Some (Some (c1, nodes), st1)"
    and "match_atom_ast (parse_rule_internal_ast ops g tokens) g tokens (depth + 1) True a c1 st1 = Some (None, st2)"
    and "0 < mx"
  shows "\<exists>st'. match_atom_ast (parse_rule_internal_ast ops g tokens) g tokens depth want
      (GRAMMAR_ATOM_REPEAT (before @ a # after) 0 mx capture) cursor st =
        Some (Some (cursor, if want then Some (ast_group_from_list []) else None), st') \<and>
    captures_le (as_captures st1) (as_captures st')"
proof -
  let ?m = "match_atom_ast (parse_rule_internal_ast ops g tokens) g tokens (depth + 1) True"
  let ?st = "capture_node capture (ast_group_from_list []) st2"
  have "repeat_match_ast (match_atoms_ast ?m (before @ a # after)) mx 0 cursor st = Some (0, cursor, [], st2)"
    using match_atoms_append [OF assms(1,2)] assms(3) by (simp add: repeat_match_ast.simps)
  then have "match_atom_ast (parse_rule_internal_ast ops g tokens) g tokens depth want
      (GRAMMAR_ATOM_REPEAT (before @ a # after) 0 mx capture) cursor st =
      Some (Some (cursor, if want then Some (ast_group_from_list []) else None), ?st)"
    by (simp add: Let_def)
  moreover have "captures_le (as_captures st1) (as_captures ?st)"
    using captures_le_trans [OF keeps_capturesD [OF match_atom_keeps assms(2)] captures_le_node] .
  ultimately show ?thesis by blast
qed

text \<open>So \<open>$( %IDENT n "," )? %IDENT m => $group n m\<close> reads the one token \<open>a\<close> as a group of two.\<close>

theorem abandoned_repetition_keeps_captures_witness:
  "(\<exists>root env'. grammar_parse_ast [] stale_grammar 0 stale_tokens stale_env = Some (Some root, env') \<and>
      n_children root = [token_leaf AST_IDENT (hd stale_tokens), token_leaf AST_IDENT (hd stale_tokens)]) \<and>
   (\<exists>st' more. match_atom_ast (parse_rule_internal_ast [] stale_grammar stale_tokens) stale_grammar stale_tokens 0 True
      (GRAMMAR_ATOM_REPEAT [GRAMMAR_ATOM_TOKEN_KIND 2 3, GRAMMAR_ATOM_LITERAL '','' 0] 0 1 0) 0
      \<lparr>as_failure = no_failure, as_names = stale_table, as_captures = []\<rparr> =
        Some (Some (0, Some (ast_group_from_list [])), st') \<and>
      map_of (as_captures st') 3 = Some (token_leaf AST_IDENT (hd stale_tokens) # more))"
proof -
  let ?rules = "parse_rule_internal_ast [] stale_grammar stale_tokens"
  let ?st = "\<lparr>as_failure = no_failure, as_names = stale_table, as_captures = []\<rparr>"
  let ?leaf = "token_leaf AST_IDENT (hd stale_tokens)"
  obtain nodes st1 where
    1: "match_atoms_ast (match_atom_ast ?rules stale_grammar stale_tokens (0 + 1) True)
      [GRAMMAR_ATOM_TOKEN_KIND 2 3] 0 ?st = Some (Some (1, nodes), st1)"
    and leaf: "as_captures st1 = [(3, [?leaf])]"
    by (simp add: stale_tokens_def match_kind_ast_def intern_name_def interned_simps stale_table_facts
        intern_spec_def bytes_used_def kind_names Let_def capture_node_def)
  have 2: "match_atom_ast ?rules stale_grammar stale_tokens (0 + 1) True (GRAMMAR_ATOM_LITERAL '','' 0) 1 st1 =
      Some (None, st1)"
    by (simp add: stale_tokens_def)
  from abandoned_repetition_keeps_captures [OF 1 2 zero_less_one, of True "[]" 0] obtain st' where
    "match_atom_ast ?rules stale_grammar stale_tokens 0 True
      (GRAMMAR_ATOM_REPEAT [GRAMMAR_ATOM_TOKEN_KIND 2 3, GRAMMAR_ATOM_LITERAL '','' 0] 0 1 0) 0 ?st =
        Some (Some (0, Some (ast_group_from_list [])), st')"
    and le: "captures_le (as_captures st1) (as_captures st')"
    by auto
  moreover obtain more where "map_of (as_captures st') 3 = Some (?leaf # more)"
    using le leaf unfolding captures_le_def by (metis append_Cons append_Nil map_of_Cons_code(2))
  ultimately show ?thesis using stale_run by blast
qed

end
