(* ===== verification/Pp_Actions.thy ===== *)
theory Pp_Actions
  imports Inference
begin

text \<open>
  The actions of \<open>src/parser/operators.c\<close> that work on the type context: the functions
  \<open>pp_action_*\<close> the rows of \<open>kBuiltinOps\<close> point to, apart from \<open>$syntax\<close> and
  \<open>$import\<close>, which need the parser (theory \<open>Scoped_Parser\<close>).

  An action gets the arguments of its node and returns the type, the arguments as inference left
  them, and the context; no result at all is as in \<open>Inference\<close>.  \<open>infer\<close> stands for
  \<open>morphl_infer_type_of_ast\<close>.
\<close>

type_synonym acted = "(tref \<times> ast list \<times> type_context) option"

type_synonym inferrer = "ast \<Rightarrow> type_context \<Rightarrow> inferred"

definition give_args :: "ast list \<Rightarrow> (tref \<times> type_context) option \<Rightarrow> acted" where
  "give_args args r = map_option (\<lambda>(t, ctx). (t, args, ctx)) r"

definition silent :: "ast list \<Rightarrow> type_context \<Rightarrow> acted" where
  "silent args ctx = Some (None, args, ctx)"

text \<open>Infer argument \<open>i\<close>; without a type the action reports \<open>msg\<close> and ends.\<close>

definition infer_nth ::
    "inferrer \<Rightarrow> nat \<Rightarrow> string \<Rightarrow> ast list \<Rightarrow> type_context \<Rightarrow>
     (nat \<Rightarrow> ast list \<Rightarrow> type_context \<Rightarrow> acted) \<Rightarrow> acted" where
  "infer_nth infer i msg args ctx continue =
     Option.bind (infer (args ! i) ctx) (\<lambda>(t, arg, ctx1).
       let args1 = args[i := arg] in
       case t of
         None \<Rightarrow> give_args args1 (fail_at arg msg ctx1)
       | Some p \<Rightarrow> continue p args1 ctx1)"

section \<open>Calls and functions\<close>

text \<open>\<open>$call\<close> once the type of its function is known.\<close>

definition call_function :: "nat \<Rightarrow> inferrer \<Rightarrow> nat \<Rightarrow> ast list \<Rightarrow> type_context \<Rightarrow> acted" where
  "call_function n infer f args ctx =
     (case cell (tc_types ctx) f of
        MORPHL_TYPE_FUNC ps r \<Rightarrow>
          if length ps \<noteq> 1
          then give_args args (fail_at (args ! 0)
                 (''$call: expected 1 parameter, function has '' @ nat_str (length ps)) ctx)
          else infer_nth infer 1 ''$call: cannot infer type of parameter'' args ctx
                 (\<lambda>provided args1 ctx1.
                   case cell (tc_types ctx1) f of
                     MORPHL_TYPE_FUNC (expected # _) r1 \<Rightarrow>
                       Option.bind (morphl_type_equals n (tc_types ctx1) (Some provided) expected) (\<lambda>eq.
                         if eq then Some (r1, args1, ctx1)
                         else give_args args1 (fail_at (args1 ! 1) ''$call: parameter type mismatch'' ctx1))
                   | _ \<Rightarrow> None)
      | _ \<Rightarrow> give_args args (fail_at (args ! 0) ''$call: target is not a function'' ctx))"

definition pp_action_call :: "nat \<Rightarrow> inferrer \<Rightarrow> ast list \<Rightarrow> type_context \<Rightarrow> acted" where
  "pp_action_call n infer args ctx =
     (if length args \<noteq> 2 then silent args ctx
      else if n_kind (args ! 0) = AST_IDENT then
        if n_op (args ! 0) = 0 then silent args ctx
        else (case type_context_lookup_func ctx (n_op (args ! 0)) of
                None \<Rightarrow> give_args args (fail_at (args ! 0) ''$call: function not defined'' ctx)
              | Some f \<Rightarrow> call_function n infer f args ctx)
      else infer_nth infer 0 ''$call: cannot infer function type'' args ctx (call_function n infer))"

definition pp_func_failed :: "ast \<Rightarrow> string \<Rightarrow> type_context \<Rightarrow> (tref \<times> type_context) option" where
  "pp_func_failed node msg ctx =
     fail_at node msg (type_context_set_return_type None (snd (type_context_pop_scope ctx)))"

definition pp_action_func :: "inferrer \<Rightarrow> ast list \<Rightarrow> type_context \<Rightarrow> acted" where
  "pp_action_func infer args ctx =
     (if length args \<noteq> 2 then silent args ctx
      else Option.bind (infer (args ! 0) (snd (type_context_push_scope ctx))) (\<lambda>(param, param_expr, ctx1).
        let args1 = args[0 := param_expr] in
        if param = None
        then give_args args1 (fail_at param_expr ''$func: cannot infer parameter type''
               (snd (type_context_pop_scope ctx1)))
        else (case with_types morphl_type_unknown ctx1 of
          (u, ctx2) \<Rightarrow>
            Option.bind (infer (args1 ! 1) (type_context_set_return_type u ctx2)) (\<lambda>(body, func_body, ctx3).
              let args2 = args1[1 := func_body];
                  ret = type_context_get_return_type ctx3;
                  return_type = (if is_kind ctx3 ret MORPHL_TYPE_UNKNOWN then body else ret)
              in if body = None
                 then give_args args2 (pp_func_failed func_body ''$func: cannot infer body type'' ctx3)
                 else if return_type = None
                 then give_args args2 (pp_func_failed func_body ''$func: cannot determine return type'' ctx3)
                 else give_args args2 (make_type (morphl_type_func param return_type)
                        (type_context_set_return_type None (snd (type_context_pop_scope ctx3))))))))"

definition pp_action_ret :: "nat \<Rightarrow> inferrer \<Rightarrow> ast list \<Rightarrow> type_context \<Rightarrow> acted" where
  "pp_action_ret n infer args ctx =
     (if length args \<noteq> 1 then silent args ctx
      else (let expected = type_context_get_return_type ctx in
        if expected = None then give_args args (fail_at (args ! 0) ''$ret: not inside a function'' ctx)
        else infer_nth infer 0 ''$ret: cannot infer return value type'' args ctx
          (\<lambda>ret args1 ctx1.
            if is_kind ctx1 (Some ret) MORPHL_TYPE_UNKNOWN then Some (Some ret, args1, ctx1)
            else if is_kind ctx1 expected MORPHL_TYPE_UNKNOWN
            then Some (Some ret, args1,
                   set_func_return (type_context_get_current_func ctx1) (Some ret)
                     (type_context_set_return_type (Some ret) ctx1))
            else Option.bind (morphl_type_equals n (tc_types ctx1) (Some ret) expected) (\<lambda>eq.
              if eq then Some (Some ret, args1, ctx1)
              else give_args args1 (fail_at (args1 ! 0) ''$ret: return type mismatch'' ctx1)))))"

section \<open>Control flow\<close>

definition pp_action_if :: "inferrer \<Rightarrow> ast list \<Rightarrow> type_context \<Rightarrow> acted" where
  "pp_action_if infer args ctx =
     (if length args \<noteq> 2 then silent args ctx
      else infer_nth infer 0 ''$if: cannot infer condition type'' args ctx
        (\<lambda>cond args1 ctx1.
          if is_kind ctx1 (Some cond) MORPHL_TYPE_BOOL then silent args1 ctx1
          else give_args args1 (fail_at (args1 ! 0) ''$if: condition must be bool'' ctx1)))"

definition pp_action_while :: "inferrer \<Rightarrow> ast list \<Rightarrow> type_context \<Rightarrow> acted" where
  "pp_action_while infer args ctx =
     (if length args \<noteq> 2 then silent args ctx
      else infer_nth infer 0 ''$while: cannot infer condition type'' args ctx
        (\<lambda>cond args1 ctx1.
          if \<not> is_kind ctx1 (Some cond) MORPHL_TYPE_BOOL
          then give_args args1 (fail_at (args1 ! 0) ''$while: condition must be bool'' ctx1)
          else Option.bind (infer (args1 ! 1) ctx1) (\<lambda>(t, body, ctx2).
            give_args (args1[1 := body]) (make_type morphl_type_void ctx2))))"

section \<open>Declarations and assignments\<close>

definition declare_function :: "nat \<Rightarrow> type_context \<Rightarrow> type_context" where
  "declare_function var ctx =
     (let (u, ctx1) = with_types morphl_type_unknown ctx;
          (v, ctx2) = with_types morphl_type_unknown ctx1;
          (p, ctx3) = with_types (morphl_type_func u v) ctx2
      in snd (type_context_define_var var p (snd (type_context_define_func var p ctx3))))"

definition set_op_field :: "nat \<Rightarrow> ast \<Rightarrow> ast" where
  "set_op_field sy node =
     AstNode (n_kind node) sy (n_value node) (n_children node) (n_child_capacity node) (n_filename node)
       (n_row node) (n_col node)"

definition pp_action_decl :: "inferrer \<Rightarrow> ast list \<Rightarrow> type_context \<Rightarrow> acted" where
  "pp_action_decl infer args ctx =
     (if length args < 2 \<or> n_kind (args ! 0) \<noteq> AST_IDENT then silent args ctx
      else (case name_sym (args ! 0) ctx of
        (var, ctx1) \<Rightarrow>
          (let name_node = set_op_field var (args ! 0); args1 = args[0 := name_node] in
           if var = 0 then silent args1 ctx1
           else if type_context_check_duplicate_var ctx1 var
           then give_args args1 (fail_at name_node ''$decl: variable already declared'' ctx1)
           else infer_nth infer 1 ''$decl: cannot infer variable type'' args1
                  (if needs_placeholder (args1 ! 1) ctx1 then declare_function var ctx1 else ctx1)
                  (\<lambda>t args2 ctx2.
                    let ctx3 = snd (type_context_define_var var (Some t) ctx2) in
                    Some (Some t, args2,
                      if is_func ctx3 (Some t) then snd (type_context_define_func var (Some t) ctx3) else ctx3)))))"

text \<open>\<open>$set\<close> once the type of its target is known.\<close>

definition set_target :: "nat \<Rightarrow> inferrer \<Rightarrow> nat \<Rightarrow> ast list \<Rightarrow> type_context \<Rightarrow> acted" where
  "set_target n infer target args ctx =
     infer_nth infer 1 ''$set: cannot infer value type'' args ctx
       (\<lambda>value args1 ctx1.
         let compare = (\<lambda>t. Option.bind (morphl_type_equals n (tc_types ctx1) t (Some value)) (\<lambda>eq.
               if eq then Some (Some value, args1, ctx1)
               else give_args args1 (fail_at (args1 ! 1) ''$set: type mismatch in assignment'' ctx1)))
         in case cell (tc_types ctx1) target of
              MORPHL_TYPE_REF inner is_mutable is_inline \<Rightarrow>
                if \<not> is_mutable then give_args args1 (fail_at (args1 ! 0) ''$set: target is not mutable'' ctx1)
                else compare inner
            | _ \<Rightarrow> compare (Some target))"

definition pp_action_set :: "nat \<Rightarrow> inferrer \<Rightarrow> ast list \<Rightarrow> type_context \<Rightarrow> acted" where
  "pp_action_set n infer args ctx =
     (if length args \<noteq> 2 then silent args ctx
      else if n_kind (args ! 0) = AST_IDENT \<and> n_op (args ! 0) \<noteq> 0 then
        (case type_context_lookup_var ctx (n_op (args ! 0)) of
           None \<Rightarrow> give_args args (fail_at (args ! 0) ''$set: variable not declared'' ctx)
         | Some t \<Rightarrow> set_target n infer t args ctx)
      else infer_nth infer 0 ''$set: cannot infer target type'' args ctx (set_target n infer))"

text \<open>\<open>$prop\<close> does nothing.\<close>

definition pp_action_prop :: "ast list \<Rightarrow> type_context \<Rightarrow> acted" where
  "pp_action_prop args ctx = silent args ctx"

section \<open>Members and references\<close>

definition pp_action_member :: "inferrer \<Rightarrow> ast list \<Rightarrow> type_context \<Rightarrow> acted" where
  "pp_action_member infer args ctx =
     (if length args \<noteq> 2 \<or> n_kind (args ! 1) \<noteq> AST_IDENT \<or> n_op (args ! 1) = 0 then silent args ctx
      else infer_nth infer 0 ''$member: cannot infer target type'' args ctx
        (\<lambda>target args1 ctx1.
          case cell (tc_types ctx1) target of
            MORPHL_TYPE_BLOCK members \<Rightarrow>
              (case map_of members (n_op (args1 ! 1)) of
                 Some t \<Rightarrow> Some (t, args1, ctx1)
               | None \<Rightarrow> give_args args1 (fail_at (args1 ! 1) ''$member: field not found in block'' ctx1))
          | _ \<Rightarrow> give_args args1 (fail_at (args1 ! 0) ''$member: target must be a block type'' ctx1)))"

definition make_reference :: "bool \<Rightarrow> string \<Rightarrow> inferrer \<Rightarrow> ast list \<Rightarrow> type_context \<Rightarrow> acted" where
  "make_reference is_mutable msg infer args ctx =
     (if length args \<noteq> 1 then silent args ctx
      else infer_nth infer 0 msg args ctx
        (\<lambda>target args1 ctx1. give_args args1 (make_type (morphl_type_ref (Some target) is_mutable False) ctx1)))"

definition pp_action_mut :: "inferrer \<Rightarrow> ast list \<Rightarrow> type_context \<Rightarrow> acted" where
  "pp_action_mut = make_reference True ''$mut: cannot infer target type''"

definition pp_action_const :: "inferrer \<Rightarrow> ast list \<Rightarrow> type_context \<Rightarrow> acted" where
  "pp_action_const = make_reference False ''$const: cannot infer target type''"

end
