(* ===== verification/Scoped_Parser.thy ===== *)
theory Scoped_Parser
  imports Builtin_Parser Grammar_Parser Pp_Actions
begin

text \<open>
  The parser with scoped grammars, \<open>src/parser/scoped_parser.c\<close>, with the actions of
  \<open>$syntax\<close> and \<open>$import\<close> of \<open>src/parser/operators.c\<close>.

  The grammar stack has its top first; \<open>None\<close> is the \<open>NULL\<close> grammar, which means the builtin
  operators.  The intern table, the arena and the diagnostics, which the C structures share through
  pointers, are those of the type context.  The pair \<open>tokens, cursor\<close> is the list of tokens from
  the cursor on.

  \<open>scoped_parse_ast\<close> may nest \<open>k\<close> imports.  No result means that this was not enough, that
  inference had none, or that the C code opens a \<open>NULL\<close> path or reads a token past the end.
  Releasing memory is not modelled, nor that the source text of a module is released while the
  nodes still point into it: a node keeps its text.
\<close>

section \<open>The context and its grammar stack\<close>

record scoped_parser =
  sp_grammars :: "grammar option list"
  sp_grammar_cap :: nat
  sp_use_builtins :: bool
  sp_filename :: "string option"
  sp_types :: type_context

text \<open>Without room for a type context there is only the rest of the arena.\<close>

definition scoped_parser_init ::
    "string option \<Rightarrow> type_arena \<Rightarrow> intern_table \<Rightarrow> diagnostics \<Rightarrow> scoped_parser option \<times> type_arena" where
  "scoped_parser_init filename h interns dg =
     (case type_context_new h interns dg of
        None \<Rightarrow> (None, snd (alloc_all context_sizes h))
      | Some ctx \<Rightarrow>
          (Some \<lparr>sp_grammars = [], sp_grammar_cap = 0, sp_use_builtins = True, sp_filename = filename,
                 sp_types = ctx\<rparr>, tc_types ctx))"

definition scoped_parser_push_grammar :: "grammar option \<Rightarrow> scoped_parser \<Rightarrow> scoped_parser" where
  "scoped_parser_push_grammar g sp =
     sp\<lparr>sp_grammars := g # sp_grammars sp,
        sp_grammar_cap :=
          (if length (sp_grammars sp) \<ge> sp_grammar_cap sp
           then if sp_grammar_cap sp \<noteq> 0 then sp_grammar_cap sp * 2 else 4
           else sp_grammar_cap sp),
        sp_use_builtins := (g = None)\<rparr>"

definition scoped_parser_pop_grammar :: "scoped_parser \<Rightarrow> bool \<times> scoped_parser" where
  "scoped_parser_pop_grammar sp =
     (case sp_grammars sp of
        [] \<Rightarrow> (False, sp)
      | _ # rest \<Rightarrow>
          (True, sp\<lparr>sp_grammars := rest,
                    sp_use_builtins := (case rest of [] \<Rightarrow> True | g # _ \<Rightarrow> g = None)\<rparr>))"

definition scoped_parser_current_grammar :: "scoped_parser \<Rightarrow> grammar option" where
  "scoped_parser_current_grammar sp = (case sp_grammars sp of [] \<Rightarrow> None | g # _ \<Rightarrow> g)"

section \<open>Shared state\<close>

definition parser_env_of :: "scoped_parser \<Rightarrow> parser_env" where
  "parser_env_of sp =
     \<lparr>pe_interns = tc_interns (sp_types sp), pe_arena = ta_arena (tc_types (sp_types sp)),
      pe_diagnostics = tc_diagnostics (sp_types sp)\<rparr>"

definition put_env :: "parser_env \<Rightarrow> scoped_parser \<Rightarrow> scoped_parser" where
  "put_env env sp =
     sp\<lparr>sp_types := (sp_types sp)
        \<lparr>tc_interns := pe_interns env, tc_diagnostics := pe_diagnostics env,
         tc_types := (tc_types (sp_types sp))\<lparr>ta_arena := pe_arena env\<rparr>\<rparr>\<rparr>"

definition put_shared :: "type_arena \<Rightarrow> intern_table \<Rightarrow> diagnostics \<Rightarrow> scoped_parser \<Rightarrow> scoped_parser" where
  "put_shared h interns dg sp =
     sp\<lparr>sp_types := (sp_types sp)\<lparr>tc_types := h, tc_interns := interns, tc_diagnostics := dg\<rparr>\<rparr>"

definition put_interns :: "intern_table \<Rightarrow> scoped_parser \<Rightarrow> scoped_parser" where
  "put_interns t sp = sp\<lparr>sp_types := (sp_types sp)\<lparr>tc_interns := t\<rparr>\<rparr>"

definition report_parse :: "morphl_severity \<Rightarrow> morphl_span \<Rightarrow> string \<Rightarrow> scoped_parser \<Rightarrow> scoped_parser" where
  "report_parse sev span msg sp =
     sp\<lparr>sp_types := emit (morphl_error_make MORPHL_E_PARSE sev span msg) (sp_types sp)\<rparr>"

section \<open>Directives\<close>

text \<open>The path to open: \<open>None\<close> where the code would open a \<open>NULL\<close> path.\<close>

definition resolve_path :: "string \<Rightarrow> string option \<Rightarrow> string option" where
  "resolve_path path filename =
     (if fs_is_relative_path (Some path) \<and> filename \<noteq> None
      then Option.bind (fs_get_absolute_path_from_source (Some path) filename) id
      else Some path)"

definition scoped_parser_replace_grammar :: "string \<Rightarrow> scoped_parser \<Rightarrow> (bool \<times> scoped_parser) option" where
  "scoped_parser_replace_grammar grammar_path sp = do {
     path \<leftarrow> resolve_path grammar_path (sp_filename sp);
     (ok, g, env) \<leftarrow> grammar_load_file path (parser_env_of sp);
     let sp1 = put_env env sp;
     if \<not> ok
     then Some (False, report_parse MORPHL_SEV_WARN morphl_span_unknown
            (''failed to load grammar from '' @ [CHR 0x27] @ path @ [CHR 0x27] @ '', keeping current grammar'') sp1)
     else Some (True, report_parse MORPHL_SEV_NOTE morphl_span_unknown
            (''loaded grammar from '' @ [CHR 0x27] @ path)
            (if sp_grammars sp1 \<noteq> []
             then sp1\<lparr>sp_grammars := Some g # tl (sp_grammars sp1), sp_use_builtins := False\<rparr>
             else scoped_parser_push_grammar (Some g) sp1))
   }"

text \<open>The text of a quoted literal as a C string, if it fits the buffer.\<close>

definition unquote_literal :: "ast \<Rightarrow> nat \<Rightarrow> string option" where
  "unquote_literal node buf_size =
     (if n_kind node \<noteq> AST_LITERAL then None
      else (case n_value node of
              None \<Rightarrow> None
            | Some s \<Rightarrow>
                if length s < 2 \<or> hd s \<noteq> CHR 0x22 \<or> last s \<noteq> CHR 0x22 then None
                else if length s - 2 + 1 > buf_size then None
                else Some (c_str (butlast (tl s)))))"

definition pp_action_syntax :: "ast list \<Rightarrow> scoped_parser \<Rightarrow> (ast list \<times> scoped_parser) option" where
  "pp_action_syntax args sp =
     (if length args \<noteq> 1 then Some (args, sp)
      else (case unquote_literal (args ! 0) 512 of
              None \<Rightarrow> Some (args, sp)
            | Some filename \<Rightarrow> map_option (\<lambda>(ok, sp1). (args, sp1)) (scoped_parser_replace_grammar filename sp)))"

fun kind_number :: "ast_kind \<Rightarrow> nat" where
  "kind_number AST_LITERAL = 0"
| "kind_number AST_IDENT = 1"
| "kind_number AST_CALL = 2"
| "kind_number AST_FUNC = 3"
| "kind_number AST_IF = 4"
| "kind_number AST_BLOCK = 5"
| "kind_number AST_GROUP = 6"
| "kind_number AST_DECL = 7"
| "kind_number AST_PROP = 8"
| "kind_number AST_SET = 9"
| "kind_number AST_BUILTIN = 10"
| "kind_number AST_OVERLOAD = 11"
| "kind_number AST_FILE = 12"
| "kind_number AST_UNKNOWN = 13"

type_synonym module_parser = "token list \<Rightarrow> scoped_parser \<Rightarrow> (ast option \<times> scoped_parser) option"

text \<open>The root of a module replaces the path, if the module is a file node.\<close>

definition use_module ::
    "inferrer \<Rightarrow> ast list \<Rightarrow> ast option \<Rightarrow> scoped_parser \<Rightarrow> (ast list \<times> scoped_parser) option" where
  "use_module infer args root sp =
     (case root of
        None \<Rightarrow> Some (args, sp)
      | Some module \<Rightarrow>
          if n_kind module \<noteq> AST_FILE
          then Some (args, report_parse MORPHL_SEV_ERROR (span_from_node (args ! 0))
                 (''$import: expected file AST, got '' @ nat_str (kind_number (n_kind module))) sp)
          else map_option (\<lambda>(t, module1, ctx). ([module1], sp\<lparr>sp_types := ctx\<rparr>)) (infer module (sp_types sp)))"

definition import_module ::
    "module_parser \<Rightarrow> inferrer \<Rightarrow> ast list \<Rightarrow> string \<Rightarrow> string \<Rightarrow> scoped_parser \<Rightarrow> (ast list \<times> scoped_parser) option" where
  "import_module parse infer args path source sp =
     (case lexer_tokenize path source (tc_interns (sp_types sp)) of
        (None, t) \<Rightarrow> Some (args, report_parse MORPHL_SEV_ERROR (span_from_node (args ! 0))
           (''$import: tokenization failed for '' @ [CHR 0x27] @ path @ [CHR 0x27]) (put_interns t sp))
      | (Some tokens, t) \<Rightarrow>
          (case scoped_parser_init (Some path) (tc_types (sp_types sp)) t (tc_diagnostics (sp_types sp)) of
             (None, h) \<Rightarrow> Some (args, put_shared h t (tc_diagnostics (sp_types sp)) sp)
           | (Some module_ctx, h) \<Rightarrow> do {
               (root, m) \<leftarrow> parse tokens module_ctx;
               use_module infer args root
                 (put_shared (tc_types (sp_types m)) (tc_interns (sp_types m)) (tc_diagnostics (sp_types m)) sp)
             }))"

definition pp_action_import ::
    "module_parser \<Rightarrow> inferrer \<Rightarrow> ast list \<Rightarrow> scoped_parser \<Rightarrow> (ast list \<times> scoped_parser) option" where
  "pp_action_import parse infer args sp =
     (if length args \<noteq> 1 then Some (args, sp)
      else (case unquote_literal (args ! 0) 512 of
              None \<Rightarrow> Some (args, sp)
            | Some filename \<Rightarrow> do {
                path \<leftarrow> resolve_path filename (sp_filename sp);
                (case morphl_file_read_all (dg_files (tc_diagnostics (sp_types sp))) path of
                   None \<Rightarrow> Some (args, report_parse MORPHL_SEV_ERROR (span_from_node (args ! 0))
                     (''$import: failed to read '' @ [CHR 0x27] @ path @ [CHR 0x27]) sp)
                 | Some (source, source_len) \<Rightarrow> import_module parse infer args path source sp)
              }))"

section \<open>Preprocessing\<close>

type_synonym pp_runner = "pp_action \<Rightarrow> ast list \<Rightarrow> scoped_parser \<Rightarrow> (ast list \<times> scoped_parser) option"

definition act_on_types :: "acted \<Rightarrow> scoped_parser \<Rightarrow> (ast list \<times> scoped_parser) option" where
  "act_on_types r sp = map_option (\<lambda>(t, args, ctx). (args, sp\<lparr>sp_types := ctx\<rparr>)) r"

text \<open>The call of \<open>info->func\<close>: the type it returns is dropped.\<close>

definition run_pp_action :: "nat \<Rightarrow> inferrer \<Rightarrow> module_parser \<Rightarrow> pp_runner" where
  "run_pp_action n infer parse f args sp =
     (let on = (\<lambda>action. act_on_types (action args (sp_types sp)) sp) in
      case f of
        PP_ACTION_SYNTAX \<Rightarrow> pp_action_syntax args sp
      | PP_ACTION_IMPORT \<Rightarrow> pp_action_import parse infer args sp
      | PP_ACTION_PROP \<Rightarrow> on pp_action_prop
      | PP_ACTION_CALL \<Rightarrow> on (pp_action_call n infer)
      | PP_ACTION_FUNC \<Rightarrow> on (pp_action_func infer)
      | PP_ACTION_IF \<Rightarrow> on (pp_action_if infer)
      | PP_ACTION_WHILE \<Rightarrow> on (pp_action_while infer)
      | PP_ACTION_SET \<Rightarrow> on (pp_action_set n infer)
      | PP_ACTION_DECL \<Rightarrow> on (pp_action_decl infer)
      | PP_ACTION_RET \<Rightarrow> on (pp_action_ret n infer)
      | PP_ACTION_MEMBER \<Rightarrow> on (pp_action_member infer)
      | PP_ACTION_MUT \<Rightarrow> on (pp_action_mut infer)
      | PP_ACTION_CONST \<Rightarrow> on (pp_action_const infer))"

text \<open>The hook of a node: its action and whether the node is kept.\<close>

definition preprocessor_hook :: "operator_row list \<Rightarrow> ast_kind \<Rightarrow> nat \<Rightarrow> (pp_action \<times> bool) option" where
  "preprocessor_hook ops kind op =
     (if kind \<noteq> AST_BUILTIN \<or> op = 0 then None
      else (case operator_info_lookup ops op of
              None \<Rightarrow> None
            | Some info \<Rightarrow>
                if \<not> i_is_preprocessor info then None
                else map_option (\<lambda>f. (f, i_pp_policy info \<noteq> OP_PP_DROP_NODE)) (i_func info)))"

fun apply_preprocessor_if_any ::
    "pp_runner \<Rightarrow> operator_row list \<Rightarrow> ast \<Rightarrow> scoped_parser \<Rightarrow> (bool \<times> ast \<times> scoped_parser) option"
  and apply_to_children ::
    "pp_runner \<Rightarrow> operator_row list \<Rightarrow> ast list \<Rightarrow> scoped_parser \<Rightarrow> (ast list \<times> scoped_parser) option" where
  "apply_preprocessor_if_any run ops (AstNode kind op v cs cap fn row col) sp = do {
     (cs1, sp1) \<leftarrow> apply_to_children run ops cs sp;
     (case preprocessor_hook ops kind op of
        None \<Rightarrow> Some (True, AstNode kind op v cs1 cap fn row col, sp1)
      | Some (f, keep) \<Rightarrow> do {
          (cs2, sp2) \<leftarrow> run f cs1 sp1;
          Some (keep, AstNode kind op v cs2 cap fn row col, sp2)
        })
   }"
| "apply_to_children run ops [] sp = Some ([], sp)"
| "apply_to_children run ops (c # cs) sp = do {
     (keep, c1, sp1) \<leftarrow> apply_preprocessor_if_any run ops c sp;
     (cs1, sp2) \<leftarrow> apply_to_children run ops cs sp1;
     Some (if keep then c1 # cs1 else cs1, sp2)
   }"

section \<open>Statements\<close>

text \<open>\<open>depth\<close> is 1 wherever the code calls this.\<close>

definition scoped_parse_expr ::
    "operator_row list \<Rightarrow> nat \<Rightarrow> token list \<Rightarrow> scoped_parser \<Rightarrow> (ast option \<times> token list \<times> scoped_parser) option" where
  "scoped_parse_expr ops depth toks sp =
     (if depth > 128
      then (case toks of
              [] \<Rightarrow> None
            | tok # _ \<Rightarrow> Some (None, toks, report_parse MORPHL_SEV_ERROR (span_from_token tok)
                ''parsing depth exceeded (recursion limit: 128)'' sp))
      else (case builtin_parse_expr ops toks (tc_interns (sp_types sp)) of
              (node, r, t) \<Rightarrow> Some (node, r, put_interns t sp)))"

definition is_byte :: "char \<Rightarrow> token \<Rightarrow> bool" where
  "is_byte c tok \<longleftrightarrow> str_len (tk_lexeme tok) = 1 \<and> hd (str_bytes (tk_lexeme tok)) = c"

definition starts_with_dollar :: "token \<Rightarrow> bool" where
  "starts_with_dollar tok \<longleftrightarrow> str_len (tk_lexeme tok) > 0 \<and> hd (str_bytes (tk_lexeme tok)) = CHR ''$''"

text \<open>An optional semicolon; its kind is looked at only without a grammar.\<close>

definition skip_separator :: "bool \<Rightarrow> nat \<Rightarrow> token list \<Rightarrow> token list" where
  "skip_separator any_kind symbol_kind toks =
     (case toks of
        [] \<Rightarrow> []
      | tok # rest \<Rightarrow> if (any_kind \<or> tk_kind tok = symbol_kind) \<and> is_byte (CHR '';'') tok then rest else toks)"

text \<open>A statement read with the builtin operators: the node, if it is kept.\<close>

definition scoped_statement ::
    "pp_runner \<Rightarrow> operator_row list \<Rightarrow> nat \<Rightarrow> nat \<Rightarrow> token list \<Rightarrow> scoped_parser \<Rightarrow>
     (ast list option \<times> token list \<times> scoped_parser) option" where
  "scoped_statement run ops symbol_kind depth toks sp = do {
     (stmt, r, sp1) \<leftarrow> scoped_parse_expr ops (depth + 1) toks sp;
     (case stmt of
        None \<Rightarrow> Some (None, r, sp1)
      | Some node \<Rightarrow> do {
          (keep, node1, sp2) \<leftarrow> apply_preprocessor_if_any run ops node sp1;
          Some (Some (if keep then [node1] else []), skip_separator (\<not> sp_use_builtins sp) symbol_kind r, sp2)
        })
   }"

text \<open>The rest of the scope, read with the current grammar.\<close>

definition is_spread :: "ast \<Rightarrow> intern_table \<Rightarrow> bool" where
  "is_spread root t \<longleftrightarrow>
     n_kind root = AST_BUILTIN \<and> n_op root \<noteq> 0 \<and>
     interns_lookup t (n_op root) \<in> {Some ''$spread'', Some ''$$spread''}"

definition grammar_statements ::
    "operator_row list \<Rightarrow> token list \<Rightarrow> scoped_parser \<Rightarrow>
     (ast list option \<times> token list \<times> scoped_parser) option" where
  "grammar_statements ops toks sp =
     (case scoped_parser_current_grammar sp of
        None \<Rightarrow> Some (None, toks, sp)
      | Some g \<Rightarrow> do {
          (root, env) \<leftarrow> grammar_parse_ast ops g 0 toks (parser_env_of sp);
          let sp1 = put_env env sp;
          (case root of
             None \<Rightarrow> Some (None, toks, sp1)
           | Some node \<Rightarrow>
               Some (Some (if is_spread node (pe_interns env) then n_children node else [node]), [], sp1))
        })"

lemma skip_separator_le: "length (skip_separator b k toks) \<le> length toks"
  by (cases toks) (auto simp: skip_separator_def)

lemma scoped_statement_shorter:
  assumes "scoped_statement run ops symbol_kind depth toks sp = Some (Some kept, r, sp1)"
  shows "length r < length toks"
proof -
  obtain node rest t where "builtin_parse_expr ops toks (tc_interns (sp_types sp)) = (Some node, rest, t)"
    and r: "r = skip_separator (\<not> sp_use_builtins sp) symbol_kind rest"
    using assms
    by (auto simp: scoped_statement_def scoped_parse_expr_def split: bind_splits if_splits option.splits
        prod.splits list.splits)
  then have "length rest < length toks"
    by (auto simp: builtin_parse_expr_def dest: parse_builtin_shorter(1) split: prod.splits option.splits)
  with r show ?thesis using skip_separator_le le_less_trans by blast
qed

text \<open>The loop of \<open>scoped_parse_block_contents\<close>: the statements, and where it stopped.\<close>

function scoped_statements ::
    "pp_runner \<Rightarrow> operator_row list \<Rightarrow> nat \<Rightarrow> nat \<Rightarrow> nat \<Rightarrow> token list \<Rightarrow> scoped_parser \<Rightarrow>
     (ast list option \<times> token list \<times> scoped_parser) option" where
  "scoped_statements run ops symbol_kind eof_kind depth toks sp =
     (case toks of
        [] \<Rightarrow> Some (Some [], [], sp)
      | tok # _ \<Rightarrow>
          if tk_kind tok = eof_kind \<or> tk_kind tok = symbol_kind \<and> is_byte (CHR ''}'') tok
          then Some (Some [], toks, sp)
          else if sp_use_builtins sp \<or> starts_with_dollar tok
          then (case scoped_statement run ops symbol_kind depth toks sp of
                  None \<Rightarrow> None
                | Some (None, r, sp1) \<Rightarrow> Some (None, r, sp1)
                | Some (Some kept, r, sp1) \<Rightarrow>
                    map_option (\<lambda>(stmts, r1, sp2). (map_option ((@) kept) stmts, r1, sp2))
                      (scoped_statements run ops symbol_kind eof_kind depth r sp1))
          else grammar_statements ops toks sp)"
  by pat_completeness auto
termination
  by (relation "measure (\<lambda>(run, ops, symbol_kind, eof_kind, depth, toks, sp). length toks)")
    (auto dest!: sym [of "(Some _, _)"] scoped_statement_shorter)

declare scoped_statements.simps [simp del]

definition scoped_parse_block_contents ::
    "pp_runner \<Rightarrow> operator_row list \<Rightarrow> nat \<Rightarrow> token list \<Rightarrow> scoped_parser \<Rightarrow>
     (ast list option \<times> token list \<times> scoped_parser) option" where
  "scoped_parse_block_contents run ops depth toks sp =
     (case interns_intern (tc_interns (sp_types sp)) (str_from LEXER_KIND_SYMBOL) of
        (symbol_kind, t) \<Rightarrow>
          (case interns_intern t (str_from LEXER_KIND_EOF) of
             (eof_kind, t1) \<Rightarrow> scoped_statements run ops symbol_kind eof_kind depth toks (put_interns t1 sp)))"

section \<open>A program\<close>

definition program_root :: "ast list \<Rightarrow> ast" where
  "program_root cs =
     (case cs of
        [c] \<Rightarrow>
          if n_kind c = AST_GROUP then AstNode AST_FILE 0 None (n_children c) 0 (n_filename c) 0 0 else c
      | _ \<Rightarrow> AstNode AST_FILE 0 None cs 0 None 0 0)"

text \<open>What the typing pass finds does not matter for success.\<close>

definition typing_pass ::
    "inferrer \<Rightarrow> ast \<Rightarrow> scoped_parser \<Rightarrow> (ast option \<times> scoped_parser) option" where
  "typing_pass infer root sp =
     map_option (\<lambda>(t, root1, ctx).
       (Some root1, sp\<lparr>sp_types := snd (type_context_check_unresolved_forwards ctx)\<rparr>)) (infer root (sp_types sp))"

definition scoped_parse_program :: "pp_runner \<Rightarrow> inferrer \<Rightarrow> operator_row list \<Rightarrow> module_parser" where
  "scoped_parse_program run infer ops toks sp = do {
     (stmts, r, sp1) \<leftarrow> scoped_parse_block_contents run ops 0 toks (scoped_parser_push_grammar None sp);
     let sp2 = snd (scoped_parser_pop_grammar sp1);
     (case stmts of
        None \<Rightarrow>
          (case r of
             [] \<Rightarrow> None
           | tok # _ \<Rightarrow> Some (None, report_parse MORPHL_SEV_ERROR (span_from_token tok)
               ''failed to parse program content'' sp2))
      | Some cs \<Rightarrow> typing_pass infer (program_root cs) sp2)
   }"

fun scoped_parse_ast :: "operator_row list \<Rightarrow> nat \<Rightarrow> nat \<Rightarrow> module_parser" where
  "scoped_parse_ast ops n 0 toks sp = None"
| "scoped_parse_ast ops n (Suc k) toks sp =
     scoped_parse_program (run_pp_action n (morphl_infer_type_of_ast ops n) (scoped_parse_ast ops n k))
       (morphl_infer_type_of_ast ops n) ops toks sp"

end
