(* ===== verification/Scoped_Laws.thy ===== *)
theory Scoped_Laws
  imports Scoped_Parser Inference_Scopes
begin

text \<open>
  What holds of the parser with scoped grammars.  The grammars below the one a program starts with
  are neither read nor changed, so a \<open>$syntax\<close> stays inside its module, and an initial grammar has
  no effect.  Every import takes its type context from the one arena, so imports nest at most as
  deep as the arena has room: with more levels than that, \<open>scoped_parse_ast\<close> does not change.  The
  locale \<open>parsing_frame\<close> states what a relation between parsers needs to be kept by a program; the use of
  the arena is its first instance.
\<close>

section \<open>The actions keep what inference keeps\<close>

context inference_frame
begin

lemma give_args_kept: "give_args args (fail_at node msg c) = Some (t, args', c') \<Longrightarrow> R c c'"
  by (auto simp: give_args_def fail_at_def error_kept)

lemma infer_nth_kept:
  assumes "infer_nth f i msg args c continue = Some (t, args', c')" and "keeps_on R f UNIV"
    and "\<And>p as c1. continue p as c1 = Some (t, args', c') \<Longrightarrow> R c1 c'"
  shows "R c c'"
proof -
  obtain u arg c1 where u: "f (args ! i) c = Some (u, arg, c1)"
    using assms(1) by (auto simp: infer_nth_def bind_eq_Some_conv)
  then have "R c c1" using keeps_onD [OF assms(2)] by simp
  moreover have "R c1 c'"
    using assms(1,3) u by (cases u) (auto simp: infer_nth_def intro: give_args_kept)
  ultimately show ?thesis by (rule trans)
qed

lemma call_function_kept:
  assumes "call_function n f g args c = Some (t, args', c')" and "keeps_on R f UNIV"
  shows "R c c'"
  using assms(1) unfolding call_function_def
  by (auto split: type_data.splits if_splits list.splits bind_splits
      intro: give_args_kept elim!: infer_nth_kept [OF _ assms(2)])

lemma set_target_kept:
  assumes "set_target n f g args c = Some (t, args', c')" and "keeps_on R f UNIV"
  shows "R c c'"
  using assms(1) unfolding set_target_def Let_def
  by (rule infer_nth_kept [OF _ assms(2)])
    (auto split: type_data.splits if_splits bind_splits intro: give_args_kept)

lemma made_kept: "give_args args (make_type mk c) = Some (t, args', c') \<Longrightarrow> grows mk \<Longrightarrow> R c c'"
  by (auto simp: give_args_def dest: make_type_kept)

lemma func_action_kept:
  assumes "pp_action_func f args c = Some (t, args', c')" and "keeps_on R f UNIV"
  shows "R c c'"
proof (cases "length args = 2")
  case True
  let ?c = "snd (type_context_push_scope c)"
  obtain param x c1 where x: "f (args ! 0) ?c = Some (param, x, c1)"
    using assms(1) True by (auto simp: pp_action_func_def bind_eq_Some_conv)
  then have 1: "R ?c c1" using keeps_onD [OF assms(2)] by simp
  show ?thesis
  proof (cases "param = None")
    case False
    obtain u c2 where u: "with_types morphl_type_unknown c1 = (u, c2)" by (rule prod.exhaust)
    have 2: "R ?c c2" using trans [OF 1 with_types_kept [OF u]] by auto
    obtain body y c3 where y: "f (args ! 1) (type_context_set_return_type u c2) = Some (body, y, c3)"
      using assms(1) True x False u by (auto simp: pp_action_func_def Let_def bind_eq_Some_conv)
    have "R c2 c3" using trans [OF set_return keeps_onD [OF assms(2) y]] by simp
    then have out: "R c (type_context_set_return_type None (snd (type_context_pop_scope c3)))"
      using trans [OF in_scope [OF trans [OF 2]] set_return] by blast
    show ?thesis
      using assms(1) True x False u y trans [OF out]
      by (auto simp: pp_action_func_def pp_func_failed_def Let_def
          split: if_splits dest!: made_kept give_args_kept)
  next
    case True
    then show ?thesis using assms(1) \<open>length args = 2\<close> x trans [OF in_scope [OF 1]]
      by (auto simp: pp_action_func_def dest!: give_args_kept)
  qed
qed (use assms(1) in \<open>simp add: pp_action_func_def silent_def\<close>)

lemma simple_actions_kept:
  assumes "keeps_on R f UNIV"
  shows "pp_action_call n f args c = Some (t, args', c') \<Longrightarrow> R c c'"
    and "pp_action_if f args c = Some (t, args', c') \<Longrightarrow> R c c'"
    and "pp_action_set n f args c = Some (t, args', c') \<Longrightarrow> R c c'"
    and "pp_action_ret n f args c = Some (t, args', c') \<Longrightarrow> R c c'"
    and "pp_action_member f args c = Some (t, args', c') \<Longrightarrow> R c c'"
    and "make_reference m msg f args c = Some (t, args', c') \<Longrightarrow> R c c'"
  by (auto simp: pp_action_call_def pp_action_if_def pp_action_set_def pp_action_ret_def pp_action_member_def
      make_reference_def silent_def Let_def
      split: if_splits option.splits type_data.splits bind_splits
      intro: give_args_kept call_function_kept [OF _ assms] set_target_kept [OF _ assms]
        made_kept trans [OF set_return set_func_return_kept]
      elim!: infer_nth_kept [OF _ assms])

lemma while_action_kept:
  assumes "pp_action_while f args c = Some (t, args', c')" and "keeps_on R f UNIV"
  shows "R c c'"
proof (cases "length args = 2")
  case True
  have "R c1 c'"
    if "(if \<not> is_kind c1 (Some cond) MORPHL_TYPE_BOOL
         then give_args as (fail_at (as ! 0) ''$while: condition must be bool'' c1)
         else Option.bind (f (as ! 1) c1) (\<lambda>(t, body, c2).
           give_args (as[1 := body]) (make_type morphl_type_void c2))) = Some (t, args', c')" for cond as c1
    using that keeps_onD [OF assms(2)]
    by (auto split: if_splits bind_splits dest!: made_kept give_args_kept) (metis UNIV_I trans)
  then show ?thesis
    using assms(1) True unfolding pp_action_while_def by (auto elim!: infer_nth_kept [OF _ assms(2)])
qed (use assms(1) in \<open>simp add: pp_action_while_def silent_def\<close>)

lemma declare_function_kept: "R c (declare_function v c)"
proof -
  obtain u c1 w c2 p c3 where 1: "with_types morphl_type_unknown c = (u, c1)"
    "with_types morphl_type_unknown c1 = (w, c2)" "with_types (morphl_type_func u w) c2 = (p, c3)"
    by (metis prod.exhaust)
  have "R c c3"
    using trans [OF trans [OF with_types_kept [OF 1(1)] with_types_kept [OF 1(2)]] with_types_kept [OF 1(3)]] by auto
  then show ?thesis
    unfolding declare_function_def Let_def 1 split_conv by (rule trans [OF _ trans [OF define_func define_var]])
qed

lemma decl_action_kept:
  assumes "pp_action_decl f args c = Some (t, args', c')" and "keeps_on R f UNIV"
  shows "R c c'"
proof (cases "length args < 2 \<or> n_kind (args ! 0) \<noteq> AST_IDENT")
  case False
  obtain v c1 where v: "name_sym (args ! 0) c = (v, c1)" by (rule prod.exhaust)
  let ?args = "args[0 := set_op_field v (args ! 0)]"
  let ?c = "if needs_placeholder (?args ! 1) c1 then declare_function v c1 else c1"
  have 2: "R c1 ?c" by (simp add: declare_function_kept)
  have "R c1 c'"
  proof (cases "v = 0 \<or> type_context_check_duplicate_var c1 v")
    case True
    then show ?thesis using assms(1) False v
      by (auto simp: pp_action_decl_def Let_def silent_def split: if_splits intro: give_args_kept)
  next
    case fresh: False
    have "R ?c c'"
      by (rule infer_nth_kept [OF _ assms(2)])
        (use assms(1) False v fresh in \<open>simp add: pp_action_decl_def Let_def\<close>,
         auto intro: define_var trans [OF define_var define_func])
    with 2 show ?thesis by (rule trans)
  qed
  then show ?thesis by (rule trans [OF name_sym_kept [OF v]])
qed (use assms(1) in \<open>auto simp: pp_action_decl_def silent_def\<close>)

end

section \<open>The loader keeps what its steps keep\<close>

locale parser_frame =
  fixes E :: "parser_env \<Rightarrow> parser_env \<Rightarrow> bool"
  assumes refl [simp, intro]: "E env env"
    and trans: "E a b \<Longrightarrow> E b c \<Longrightarrow> E a c"
    and interned: "E env (snd (intern_env s env))"
    and stored: "E env (snd (store_env s env))"
    and reported: "E env (env\<lparr>pe_diagnostics := morphl_error_emit None err (pe_diagnostics env)\<rparr>)"
begin

lemma intern_env_kept: "intern_env s env = (sy, env') \<Longrightarrow> E env env'"
  using interned [of env s] by simp

lemma store_env_kept: "store_env s env = (ok, env') \<Longrightarrow> E env env'"
  using stored [of env s] by simp

lemma word_atom_kept: "word_atom raw capture env = (r, env') \<Longrightarrow> E env env'"
  by (auto simp: word_atom_def split: if_splits option.splits prod.splits
      dest: intern_env_kept store_env_kept)

lemma parse_atoms_kept: "parse_atoms line pending atoms env = (r, env') \<Longrightarrow> E env env'"
proof (induction line pending atoms env arbitrary: r env' rule: parse_atoms.induct)
  case (1 line0 pending atoms env)
  let ?line = "trim_whitespace line0"
  have group: "E env env'"
    if g: "?line \<noteq> []" "take 2 ?line = [CHR ''$'', CHR 0x28]"
  proof (cases "split_group 1 (drop 2 ?line)")
    case (Some p)
    then obtain inner after where sp: "split_group 1 (drop 2 ?line) = Some (inner, after)" by (cases p) auto
    obtain q env1 where a: "parse_atoms inner 0 [] env = (q, env1)" by (rule prod.exhaust)
    have 1: "E env env1" by (rule "1.IH"(1) [OF HOL.refl g sp HOL.refl a])
    show ?thesis
    proof (cases q)
      case (Some subatoms)
      obtain mn mx rest where k: "quantifier (trim_whitespace after) = (mn, mx, rest)" by (rule prod_cases3)
      have "E env1 env'"
        by (rule "1.IH"(2) [OF HOL.refl g sp HOL.refl a [symmetric] Some k [symmetric] HOL.refl])
          (use "1.prems" g sp a Some k in \<open>simp add: parse_atoms.simps [of line0] Let_def\<close>)
      with 1 show ?thesis by (rule trans)
    qed (use "1.prems" g sp a 1 in \<open>simp add: parse_atoms.simps [of line0] Let_def\<close>)
  qed (use "1.prems" g in \<open>simp add: parse_atoms.simps [of line0] Let_def\<close>)
  have word: "E env env'"
    if g: "?line \<noteq> []" "take 2 ?line \<noteq> [CHR ''$'', CHR 0x28]"
  proof (cases "parse_literal ?line")
    case (Some p)
    then obtain raw quoted rest where l: "parse_literal ?line = Some (raw, quoted, rest)" by (cases p) auto
    show ?thesis
    proof (cases "ident_like raw \<and> \<not> quoted")
      case True
      obtain cap env1 where c: "intern_env raw env = (cap, env1)" by (rule prod.exhaust)
      obtain atoms1 pending1 where at: "attach_capture cap atoms pending = (atoms1, pending1)" by (rule prod.exhaust)
      show ?thesis
      proof (cases "cap = 0")
        case False
        have "E env1 env'"
          by (rule "1.IH"(3) [OF HOL.refl g l HOL.refl HOL.refl True c [symmetric] False at [symmetric]])
            (use "1.prems" g l True c False at in \<open>simp add: parse_atoms.simps [of line0] Let_def\<close>)
        then show ?thesis by (rule trans [OF intern_env_kept [OF c]])
      qed (use "1.prems" g l True c intern_env_kept [OF c] in \<open>simp add: parse_atoms.simps [of line0] Let_def\<close>)
    next
      case False
      obtain a env1 where w: "word_atom raw pending env = (a, env1)" by (rule prod.exhaust)
      show ?thesis
      proof (cases a)
        case (Some atom)
        have "E env1 env'"
          by (rule "1.IH"(4) [OF HOL.refl g l HOL.refl HOL.refl False w [symmetric] Some])
            (use "1.prems" g l False w Some in \<open>simp add: parse_atoms.simps [of line0] Let_def\<close>)
        then show ?thesis by (rule trans [OF word_atom_kept [OF w]])
      qed (use "1.prems" g l False w word_atom_kept [OF w] in \<open>simp add: parse_atoms.simps [of line0] Let_def\<close>)
    qed
  qed (use "1.prems" g in \<open>simp add: parse_atoms.simps [of line0] Let_def\<close>)
  show ?case
    using group word "1.prems" by (cases "?line = []") (auto simp: parse_atoms.simps [of line0])
qed

lemma parse_pattern_kept: "parse_pattern line name ts env = (r, env') \<Longrightarrow> E env env'"
  by (auto simp: parse_pattern_def split: prod.splits option.splits dest: parse_atoms_kept)

lemma store_all_kept: "store_all ss env = (ok, env') \<Longrightarrow> E env env'"
  by (induction ss env rule: store_all.induct)
    (auto split: prod.splits if_splits dest!: store_env_kept intro: trans)

lemma split_templates_kept: "split_templates s env = (r, env') \<Longrightarrow> E env env'"
  by (auto simp: split_templates_def Let_def split: if_splits prod.splits dest: store_all_kept)

lemma load_production_kept: "load_production line here name env = Some (r, env') \<Longrightarrow> E env env'"
  by (auto simp: load_production_def split: option.splits prod.splits if_splits
      dest!: split_templates_kept parse_pattern_kept intro: trans)

lemma warn_builtin_kept: "E env (warn_builtin_name name env)"
  by (simp add: warn_builtin_name_def warn_env_def reported)

lemma load_lines_kept: "load_lines buf current g env = Some (ok, g', env') \<Longrightarrow> E env env'"
proof (induction "length buf" arbitrary: buf current g env rule: less_induct)
  case less
  let ?raw = "takeWhile (\<lambda>c. c \<noteq> newline) buf"
  let ?line = "trim_whitespace ?raw" and ?rest = "drop (Suc (length ?raw)) buf"
  show ?case
  proof (cases "buf = []")
    case False
    then have shorter: "length ?rest < length buf" by (cases buf) simp_all
    have IH: "load_lines ?rest current' h env1 = Some (ok, g', env') \<Longrightarrow> E env1 env'" for current' h env1
      by (rule less.hyps [OF shorter])
    have header: "E env env'"
      if "(case rule_header ?line of
             None \<Rightarrow> Some (False, grammar_free, env)
           | Some name \<Rightarrow>
               (case intern_env name (warn_builtin_name name env) of
                  (sy, env1) \<Rightarrow>
                    if sy = 0 then Some (False, grammar_free, env1)
                    else (case find_or_add_rule sy g of
                            (i, g1) \<Rightarrow> load_lines ?rest (Some i) (reset_rule i sy g1) env1))) = Some (ok, g', env')"
      using that
      by (auto split: option.splits prod.splits if_splits dest!: intern_env_kept IH
          intro: trans [OF trans [OF warn_builtin_kept]] trans [OF warn_builtin_kept])
    have production: "E env env'"
      if "(case load_production ?line (drop (length (takeWhile isspace ?raw)) buf) (gr_name (gm_rules g ! i)) env of
             None \<Rightarrow> None
           | Some (None, env1) \<Rightarrow> Some (False, grammar_free, env1)
           | Some (Some p, env1) \<Rightarrow> load_lines ?rest current (add_production i p g) env1) = Some (ok, g', env')" for i
      using that by (auto split: option.splits prod.splits dest!: load_production_kept IH intro: trans)
    show ?thesis
      using less.prems False header production IH
      by (simp add: load_lines.simps [of buf] Let_def split: if_splits option.splits)
  qed (use less.prems in \<open>simp add: load_lines.simps\<close>)
qed

lemma load_file_kept: "grammar_load_file path env = Some (ok, g, env') \<Longrightarrow> E env env'"
  by (auto simp: grammar_load_file_def split: option.splits dest: load_lines_kept)

end

text \<open>Arenas of one capacity, the second with at least as much in use.\<close>

definition arena_le :: "arena \<Rightarrow> arena \<Rightarrow> bool" where
  "arena_le a b \<longleftrightarrow> a_cap b = a_cap a \<and> a_off a \<le> a_off b"

interpretation loader: parser_frame "\<lambda>env env'. arena_le (pe_arena env) (pe_arena env')"
  by unfold_locales
    (auto simp: arena_le_def intern_env_def store_env_def arena_push_Some split: prod.split option.split)

section \<open>The arena of the parser\<close>

abbreviation sp_arena :: "scoped_parser \<Rightarrow> arena" where
  "sp_arena sp \<equiv> ta_arena (tc_types (sp_types sp))"

lemma arena_le_refl [simp, intro]: "arena_le a a"
  by (simp add: arena_le_def)

lemma arena_le_trans: "arena_le a b \<Longrightarrow> arena_le b c \<Longrightarrow> arena_le a c"
  by (simp add: arena_le_def)

lemma arena_grows_le: "arena_grows h h' \<Longrightarrow> arena_le (ta_arena h) (ta_arena h')"
  by (simp add: arena_grows_def arena_le_def)

lemma scoped_arena_le: "scoped c c' \<Longrightarrow> arena_le (ta_arena (tc_types c)) (ta_arena (tc_types c'))"
  by (auto simp: scoped_def context_grows_def intro: arena_grows_le)

lemma emit_types [simp]: "tc_types (emit e c) = tc_types c"
  by (simp add: emit_def)

lemma parser_state_simps [simp]:
  "sp_arena (put_env env sp) = pe_arena env" "pe_arena (parser_env_of sp) = sp_arena sp"
  "sp_arena (report_parse sev span msg sp) = sp_arena sp" "sp_arena (put_interns t sp) = sp_arena sp"
  "sp_arena (put_shared h t dg sp) = ta_arena h"
  "sp_arena (scoped_parser_push_grammar g sp) = sp_arena sp"
  "sp_arena (snd (scoped_parser_pop_grammar sp)) = sp_arena sp"
  by (simp_all add: put_env_def parser_env_of_def report_parse_def put_interns_def put_shared_def
      scoped_parser_push_grammar_def scoped_parser_pop_grammar_def split: list.split)

text \<open>A result keeps a relation between the parser before and after; a runner keeps it with every action.\<close>

definition after :: "(scoped_parser \<Rightarrow> scoped_parser \<Rightarrow> bool) \<Rightarrow> scoped_parser \<Rightarrow> ('r \<times> scoped_parser) option \<Rightarrow> bool" where
  "after Q sp x \<longleftrightarrow> (\<forall>r sp'. x = Some (r, sp') \<longrightarrow> Q sp sp')"

definition runs_keep :: "(scoped_parser \<Rightarrow> scoped_parser \<Rightarrow> bool) \<Rightarrow> pp_runner \<Rightarrow> bool" where
  "runs_keep Q run \<longleftrightarrow> (\<forall>f args sp. after Q sp (run f args sp))"

abbreviation arena_kept :: "scoped_parser \<Rightarrow> scoped_parser \<Rightarrow> bool" where
  "arena_kept sp sp' \<equiv> arena_le (sp_arena sp) (sp_arena sp')"

abbreviation le_after :: "scoped_parser \<Rightarrow> ('r \<times> scoped_parser) option \<Rightarrow> bool" where
  "le_after \<equiv> after arena_kept"

abbreviation keeps_arena :: "pp_runner \<Rightarrow> bool" where
  "keeps_arena \<equiv> runs_keep arena_kept"

lemma replace_grammar_le: "le_after sp (scoped_parser_replace_grammar path sp)"
  unfolding after_def scoped_parser_replace_grammar_def Let_def
  by (auto split: bind_splits if_splits dest!: loader.load_file_kept)

lemma pp_action_syntax_le: "le_after sp (pp_action_syntax args sp)"
  using replace_grammar_le
  by (auto simp: after_def pp_action_syntax_def split: option.split)

lemma act_on_types_le:
  assumes "\<And>t args' c'. r = Some (t, args', c') \<Longrightarrow> scoped (sp_types sp) c'"
  shows "le_after sp (act_on_types r sp)"
  using assms by (auto simp: after_def act_on_types_def dest!: scoped_arena_le)

lemma infer_keeps: "keeps_on scoped (morphl_infer_type_of_ast ops n) UNIV"
  by (auto simp: keeps_on_def dest: scoping.infer_kept)

lemma use_module_le: "le_after sp (use_module (morphl_infer_type_of_ast ops n) args root sp)"
  by (auto simp: after_def use_module_def split: option.split dest!: scoping.infer_kept scoped_arena_le)

lemma typing_pass_le: "le_after sp (typing_pass (morphl_infer_type_of_ast ops n) root sp)"
proof -
  have "tc_types (snd (type_context_check_unresolved_forwards c)) = tc_types c" for c
    by (simp add: type_context_check_unresolved_forwards_def split: prod.split)
  then show ?thesis
    by (auto simp: after_def typing_pass_def dest!: scoping.infer_kept scoped_arena_le)
qed

text \<open>What a context for a module costs.\<close>

definition CONTEXT_BYTES :: nat where
  "CONTEXT_BYTES = sum_list context_sizes"

lemma context_sizes_pos: "0 \<notin> set context_sizes" "CONTEXT_BYTES = 1664"
  by (simp_all add: CONTEXT_BYTES_def context_sizes_def sizes initial_capacities)

lemma init_takes:
  assumes "scoped_parser_init fn h t dg = (Some m, h')"
  shows "a_cap (sp_arena m) = a_cap (ta_arena h)" "a_off (sp_arena m) = a_off (ta_arena h) + CONTEXT_BYTES"
    "a_off (sp_arena m) \<le> a_cap (sp_arena m)" "ta_arena h' = sp_arena m"
proof -
  obtain b h1 where a: "alloc_all context_sizes h = (b, h1)" by (rule prod.exhaust)
  have m: "b" "sp_arena m = ta_arena h1" "h' = h1"
    using assms a by (auto simp: scoped_parser_init_def type_context_new_def split: bool.splits option.splits)
  note r = alloc_all_result [OF a context_sizes_pos(1), folded CONTEXT_BYTES_def]
  show "a_cap (sp_arena m) = a_cap (ta_arena h)" "a_off (sp_arena m) = a_off (ta_arena h) + CONTEXT_BYTES"
    "a_off (sp_arena m) \<le> a_cap (sp_arena m)" "ta_arena h' = sp_arena m"
    using r m context_sizes_pos(2) by simp_all
qed

lemma init_le: "arena_le (ta_arena h) (ta_arena (snd (scoped_parser_init fn h t dg)))"
proof (cases "scoped_parser_init fn h t dg")
  case (Pair m h')
  show ?thesis
  proof (cases m)
    case None
    then have "h' = snd (alloc_all context_sizes h)"
      using Pair by (simp add: scoped_parser_init_def split: option.splits)
    then show ?thesis using arena_grows_le [OF alloc_all_grows] Pair by simp
  next
    case (Some x)
    then show ?thesis using init_takes [of fn h t dg x h'] Pair by (simp add: arena_le_def)
  qed
qed

lemma import_module_le:
  assumes "\<And>toks sp. le_after sp (parse toks sp)"
  shows "le_after sp (import_module parse (morphl_infer_type_of_ast ops n) args path source sp)"
proof -
  let ?h = "tc_types (sp_types sp)" and ?dg = "tc_diagnostics (sp_types sp)"
  have "arena_le (sp_arena sp) (sp_arena sp')"
    if "scoped_parser_init (Some path) ?h t ?dg = (Some m, h)" "parse toks m = Some (root, m1)"
      and "use_module (morphl_infer_type_of_ast ops n) args root
        (put_shared (tc_types (sp_types m1)) (tc_interns (sp_types m1)) (tc_diagnostics (sp_types m1)) sp)
        = Some (args', sp')" for t m h toks root m1 args' sp'
  proof -
    have "arena_le (sp_arena sp) (sp_arena m)" using init_takes [OF that(1)] by (simp add: arena_le_def)
    moreover have "arena_le (sp_arena m) (sp_arena m1)" using assms that(2) by (auto simp: after_def)
    moreover have "arena_le (sp_arena m1) (sp_arena sp')"
      using use_module_le that(3) unfolding after_def by fastforce
    ultimately show ?thesis by (blast intro: arena_le_trans)
  qed
  moreover have "scoped_parser_init (Some path) ?h t ?dg = (None, h) \<Longrightarrow> arena_le (sp_arena sp) (ta_arena h)" for t h
    using init_le [of ?h "Some path" t ?dg] by simp
  ultimately show ?thesis
    unfolding after_def import_module_def by (fastforce split: option.splits prod.splits bind_splits)
qed

lemma run_pp_action_le:
  assumes "\<And>toks sp. le_after sp (parse toks sp)"
  shows "keeps_arena (run_pp_action n (morphl_infer_type_of_ast ops n) parse)"
  unfolding runs_keep_def
proof (intro allI)
  fix f args sp
  note actions = scoping.simple_actions_kept [OF infer_keeps] scoping.while_action_kept [OF _ infer_keeps]
    scoping.decl_action_kept [OF _ infer_keeps] scoping.func_action_kept [OF _ infer_keeps]
  have "le_after sp (pp_action_import parse (morphl_infer_type_of_ast ops n) args sp)"
    using import_module_le [OF assms]
    by (auto simp: after_def pp_action_import_def split: option.split bind_splits prod.splits)
  then show "le_after sp (run_pp_action n (morphl_infer_type_of_ast ops n) parse f args sp)"
    unfolding run_pp_action_def Let_def
    by (cases f) (auto intro!: act_on_types_le pp_action_syntax_le intro: actions
        simp: pp_action_prop_def silent_def pp_action_mut_def pp_action_const_def)
qed

section \<open>What a program keeps\<close>

lemma parse_expr_le: "scoped_parse_expr ops depth toks sp = Some (node, r, sp') \<Longrightarrow> sp_arena sp' = sp_arena sp"
  by (auto simp: scoped_parse_expr_def split: if_splits list.splits prod.splits)

lemma env_reports [simp]:
  "pe_arena (error_env span msg env) = pe_arena env"
  "pe_arena (report_parse_failed toks c rule env) = pe_arena env"
  "pe_arena (report_parse_stopped toks c rule env) = pe_arena env"
  "pe_arena (report_furthest toks rule pf env) = pe_arena env"
  "pe_arena (snd (strip_eof toks env)) = pe_arena env"
  by (simp_all add: error_env_def report_parse_failed_def report_parse_stopped_def report_furthest_def
      strip_eof_def intern_env_def split: prod.split)

lemma grammar_parse_ast_arena:
  assumes "grammar_parse_ast ops g start toks env = Some (root, env')"
  shows "pe_arena env' = pe_arena env"
proof -
  obtain ts env1 where s: "strip_eof toks env = (ts, env1)" by (rule prod.exhaust)
  then have "pe_arena env1 = pe_arena env" using env_reports(5) [of toks env] by simp
  then show ?thesis
    using assms s by (auto simp: grammar_parse_ast_def Let_def split: if_splits option.splits bind_splits prod.splits)
qed

lemma grammar_statements_le: "grammar_statements ops toks sp = Some (x, r, sp') \<Longrightarrow> sp_arena sp' = sp_arena sp"
  by (auto simp: grammar_statements_def Let_def split: option.splits bind_splits dest!: grammar_parse_ast_arena)

text \<open>
  The interface between the loops of the parser and a relation they keep: every step of the loops
  keeps it, and the actions keep it when the parser of modules does.
\<close>

locale parsing_frame =
  fixes Q :: "scoped_parser \<Rightarrow> scoped_parser \<Rightarrow> bool" and ops :: "operator_row list" and n :: nat
  assumes refl [simp, intro]: "Q sp sp"
    and trans: "Q a b \<Longrightarrow> Q b c \<Longrightarrow> Q a c"
    and interned: "Q sp (put_interns (snd (interns_intern (tc_interns (sp_types sp)) s)) sp)"
    and pushed: "Q sp (scoped_parser_push_grammar None sp)"
    and popped: "Q sp (snd (scoped_parser_pop_grammar sp))"
    and reported: "Q sp (report_parse sev span msg sp)"
    and expr: "scoped_parse_expr ops depth toks sp = Some (node, r, sp') \<Longrightarrow> Q sp sp'"
    and grammar: "grammar_statements ops toks sp = Some (x, r, sp') \<Longrightarrow> Q sp sp'"
    and typed: "after Q sp (typing_pass (morphl_infer_type_of_ast ops n) root sp)"
    and runner: "(\<And>toks sp. after Q sp (parse toks sp)) \<Longrightarrow>
      runs_keep Q (run_pp_action n (morphl_infer_type_of_ast ops n) parse)"
begin

lemma apply_kept:
  "runs_keep Q run \<Longrightarrow> apply_preprocessor_if_any run ops' node sp = Some (keep, node', sp') \<Longrightarrow> Q sp sp'"
  "runs_keep Q run \<Longrightarrow> apply_to_children run ops' cs sp = Some (cs', sp') \<Longrightarrow> Q sp sp'"
proof (induction run ops' node sp and run ops' cs sp arbitrary: keep node' sp' and cs' sp'
    rule: apply_preprocessor_if_any_apply_to_children.induct)
  case (1 run ops' kind op v cs cap fn row col sp)
  obtain cs1 sp1 where c: "apply_to_children run ops' cs sp = Some (cs1, sp1)"
    using 1(3) by (auto split: bind_splits)
  have "Q sp1 sp'"
    using 1(2,3) c
    by (cases "preprocessor_hook ops' kind op")
      (auto simp: runs_keep_def after_def split: bind_splits prod.splits)
  then show ?case by (rule trans [OF 1(1) [OF 1(2) c]])
next
  case (3 run ops' c cs sp)
  obtain k c1 sp1 where c: "apply_preprocessor_if_any run ops' c sp = Some (k, c1, sp1)"
    using 3(4) by (auto split: bind_splits)
  obtain cs1 where "apply_to_children run ops' cs sp1 = Some (cs1, sp')"
    using 3(4) c by (auto split: bind_splits)
  then have "Q sp1 sp'" using 3(2) 3(3) c by blast
  then show ?case by (rule trans [OF 3(1) [OF 3(3) c]])
qed simp

lemma statement_kept:
  assumes "runs_keep Q run" and "scoped_statement run ops symbol_kind depth toks sp = Some (x, r, sp')"
  shows "Q sp sp'"
  using assms(2) unfolding scoped_statement_def
  by (auto split: bind_splits option.splits dest!: expr apply_kept(1) [OF assms(1)] intro: trans)

lemma statements_kept:
  "scoped_statements run ops symbol_kind eof_kind depth toks sp = Some (x, r, sp') \<Longrightarrow> runs_keep Q run \<Longrightarrow> Q sp sp'"
proof (induction "length toks" arbitrary: toks sp x rule: less_induct)
  case less
  show ?case
  proof (cases "scoped_statement run ops symbol_kind depth toks sp")
    case (Some y)
    obtain kept r1 sp1 where y: "y = (kept, r1, sp1)" by (rule prod_cases3)
    have 1: "Q sp sp1" using statement_kept less.prems(2) Some y by blast
    have "Q sp sp2"
      if "kept = Some ks" "scoped_statements run ops symbol_kind eof_kind depth r1 sp1 = Some (z, r2, sp2)" "sp2 = sp'" "r2 = r"
      for ks z r2 sp2
      using less.hyps [of r1 sp1 z] scoped_statement_shorter that Some y 1 less.prems(2)
      by (blast intro: trans)
    then show ?thesis
      using less.prems(1) Some y 1 scoped_statements.simps [of run ops symbol_kind eof_kind depth toks sp]
      by (auto split: list.splits if_splits option.splits dest!: grammar)
  qed (use less.prems(1) in \<open>auto simp: scoped_statements.simps [of run ops symbol_kind eof_kind depth toks sp]
      split: list.splits if_splits dest!: grammar\<close>)
qed

lemma contents_kept:
  assumes "runs_keep Q run" and "scoped_parse_block_contents run ops depth toks sp = Some (x, r, sp')"
  shows "Q sp sp'"
proof -
  obtain symbol_kind t where s: "interns_intern (tc_interns (sp_types sp)) (str_from LEXER_KIND_SYMBOL) = (symbol_kind, t)"
    by (rule prod.exhaust)
  obtain eof_kind t1 where e: "interns_intern t (str_from LEXER_KIND_EOF) = (eof_kind, t1)"
    by (rule prod.exhaust)
  have "Q sp (put_interns t sp)" using interned [of sp] s by (metis snd_conv)
  moreover have "Q (put_interns t sp) (put_interns t1 sp)"
    using interned [of "put_interns t sp" "str_from LEXER_KIND_EOF"] e by (simp add: put_interns_def)
  moreover have "Q (put_interns t1 sp) sp'"
    using statements_kept [OF _ assms(1)] assms(2) s e by (simp add: scoped_parse_block_contents_def)
  ultimately show ?thesis by (blast intro: trans)
qed

lemma program_kept:
  assumes "runs_keep Q run"
  shows "after Q sp (scoped_parse_program run (morphl_infer_type_of_ast ops n) ops toks sp)"
proof -
  have "Q sp sp'"
    if c: "scoped_parse_block_contents run ops 0 toks (scoped_parser_push_grammar None sp) = Some (x, r, sp1)"
      and f: "(case x of
          None \<Rightarrow> (case r of [] \<Rightarrow> None
            | tok # _ \<Rightarrow> Some (None, report_parse MORPHL_SEV_ERROR (span_from_token tok)
               ''failed to parse program content'' (snd (scoped_parser_pop_grammar sp1))))
        | Some cs \<Rightarrow> typing_pass (morphl_infer_type_of_ast ops n) (program_root cs)
            (snd (scoped_parser_pop_grammar sp1))) = Some (root, sp')" for x r sp1 root sp'
  proof -
    have "Q (snd (scoped_parser_pop_grammar sp1)) sp'"
      using f typed reported by (fastforce simp: after_def split: option.splits list.splits)
    then show ?thesis
      by (rule trans [OF trans [OF trans [OF pushed contents_kept [OF assms c]] popped]])
  qed
  then show ?thesis
    unfolding after_def scoped_parse_program_def Let_def by (fastforce split: bind_splits)
qed

lemma parse_ast_kept: "after Q sp (scoped_parse_ast ops n k toks sp)"
proof (induction k arbitrary: toks sp)
  case (Suc k)
  then show ?case unfolding scoped_parse_ast.simps by (intro program_kept runner)
qed (simp add: after_def)

end

interpretation arenas: parsing_frame arena_kept ops n for ops n
  using typing_pass_le run_pp_action_le
  by unfold_locales (auto intro: arena_le_trans dest: parse_expr_le grammar_statements_le)

section \<open>How deep imports nest\<close>

text \<open>Bytes left in the arena.\<close>

definition bytes_left :: "scoped_parser \<Rightarrow> nat" where
  "bytes_left sp = a_cap (sp_arena sp) - a_off (sp_arena sp)"

lemma bytes_left_le: "arena_le (sp_arena sp) (sp_arena sp') \<Longrightarrow> bytes_left sp' \<le> bytes_left sp"
  by (auto simp: bytes_left_def arena_le_def intro: diff_le_mono2)

text \<open>Two parsers, or two runners, that agree while less than \<open>m\<close> bytes are left.\<close>

definition same_below :: "nat \<Rightarrow> ('a \<Rightarrow> scoped_parser \<Rightarrow> 'r) \<Rightarrow> ('a \<Rightarrow> scoped_parser \<Rightarrow> 'r) \<Rightarrow> bool" where
  "same_below m p q \<longleftrightarrow> (\<forall>x sp. bytes_left sp < m \<longrightarrow> p x sp = q x sp)"

definition same_runs :: "nat \<Rightarrow> pp_runner \<Rightarrow> pp_runner \<Rightarrow> bool" where
  "same_runs m run run' \<longleftrightarrow> (\<forall>f. same_below m (run f) (run' f))"

lemma run_same:
  assumes "same_below m p q"
  shows "same_runs (m + CONTEXT_BYTES) (run_pp_action n infer p) (run_pp_action n infer q)"
proof -
  have "import_module p infer args path source sp = import_module q infer args path source sp"
    if "bytes_left sp < m + CONTEXT_BYTES" for args path source sp
  proof -
    have "p toks x = q toks x"
      if "scoped_parser_init (Some path) (tc_types (sp_types sp)) t dg = (Some x, h)" for toks x t dg h
    proof -
      have "bytes_left x < m"
        using init_takes [OF that] \<open>bytes_left sp < _\<close> by (simp add: bytes_left_def)
      then show ?thesis using assms by (simp add: same_below_def)
    qed
    then show ?thesis
      unfolding import_module_def by (auto split: option.split prod.split intro!: Option.bind_cong)
  qed
  then show ?thesis
    unfolding same_runs_def same_below_def run_pp_action_def pp_action_import_def Let_def
    by (auto split: pp_action.split option.split intro!: Option.bind_cong)
qed

lemma apply_same:
  "keeps_arena run \<Longrightarrow> same_runs m run run' \<Longrightarrow> bytes_left sp < m \<Longrightarrow>
     apply_preprocessor_if_any run ops node sp = apply_preprocessor_if_any run' ops node sp"
  "keeps_arena run \<Longrightarrow> same_runs m run run' \<Longrightarrow> bytes_left sp < m \<Longrightarrow>
     apply_to_children run ops cs sp = apply_to_children run' ops cs sp"
proof (induction run ops node sp and run ops cs sp rule: apply_preprocessor_if_any_apply_to_children.induct)
  case (1 run ops kind op v cs cap fn row col sp)
  have "run f cs1 sp1 = run' f cs1 sp1" if "apply_to_children run ops cs sp = Some (cs1, sp1)" for f cs1 sp1
    using 1(3,4) bytes_left_le [OF arenas.apply_kept(2) [OF 1(2) that]] by (simp add: same_runs_def same_below_def)
  then show ?case
    using 1(1) [OF 1(2-4)] by (auto split: option.split intro!: Option.bind_cong)
next
  case (3 run ops c cs sp)
  have "apply_to_children run ops cs sp1 = apply_to_children run' ops cs sp1"
    if "apply_preprocessor_if_any run ops c sp = Some (k, c1, sp1)" for k c1 sp1
    using bytes_left_le [OF arenas.apply_kept(1) [OF 3(3) that]] 3(5) 3(2) [OF that HOL.refl HOL.refl 3(3,4)] by simp
  then show ?case using 3(1) [OF 3(3-5)] by (auto intro!: Option.bind_cong)
qed simp

lemma statement_same:
  assumes "keeps_arena run" and "same_runs m run run'" and "bytes_left sp < m"
  shows "scoped_statement run ops symbol_kind depth toks sp = scoped_statement run' ops symbol_kind depth toks sp"
proof -
  have "apply_preprocessor_if_any run ops node sp1 = apply_preprocessor_if_any run' ops node sp1"
    if "scoped_parse_expr ops (depth + 1) toks sp = Some (x, r, sp1)" for x r sp1 node
    using apply_same(1) [OF assms(1,2)] parse_expr_le [OF that] assms(3) by (simp add: bytes_left_def)
  then show ?thesis
    unfolding scoped_statement_def by (auto split: option.split intro!: Option.bind_cong)
qed

lemma statements_same:
  "keeps_arena run \<Longrightarrow> same_runs m run run' \<Longrightarrow> bytes_left sp < m \<Longrightarrow>
     scoped_statements run ops symbol_kind eof_kind depth toks sp =
     scoped_statements run' ops symbol_kind eof_kind depth toks sp"
proof (induction "length toks" arbitrary: toks sp rule: less_induct)
  case less
  note st = statement_same [OF less.prems]
  have rest: "scoped_statements run ops symbol_kind eof_kind depth r sp1 =
      scoped_statements run' ops symbol_kind eof_kind depth r sp1"
    if "scoped_statement run' ops symbol_kind depth toks sp = Some (Some ks, r, sp1)" for ks r sp1
    using less.hyps [of r sp1] scoped_statement_shorter that less.prems(1,2)
      bytes_left_le [OF arenas.statement_kept [OF less.prems(1) that [folded st]]] less.prems(3) by fastforce
  show ?case
    unfolding scoped_statements.simps [of _ _ _ _ _ toks]
    by (cases toks)
      (auto simp: st [symmetric, of ops symbol_kind depth] simp del: scoped_statements.simps
        split: option.split prod.split intro: arg_cong rest [folded st])
qed

lemma program_same:
  assumes "keeps_arena run" and "same_runs m run run'"
  shows "same_below m (scoped_parse_program run infer ops) (scoped_parse_program run' infer ops)"
proof -
  have "scoped_parse_block_contents run ops 0 toks (scoped_parser_push_grammar None sp) =
      scoped_parse_block_contents run' ops 0 toks (scoped_parser_push_grammar None sp)"
    if "bytes_left sp < m" for toks sp
    unfolding scoped_parse_block_contents_def
    by (auto split: prod.split intro!: statements_same [OF assms]) (use that in \<open>simp add: bytes_left_def\<close>)
  then show ?thesis by (simp add: same_below_def scoped_parse_program_def)
qed

lemma more_levels: "same_below (k * CONTEXT_BYTES) (scoped_parse_ast ops n k) (scoped_parse_ast ops n (k + j))"
proof (induction k)
  case (Suc k)
  have "same_below (k * CONTEXT_BYTES + CONTEXT_BYTES)
      (scoped_parse_program (run_pp_action n (morphl_infer_type_of_ast ops n) (scoped_parse_ast ops n k))
        (morphl_infer_type_of_ast ops n) ops)
      (scoped_parse_program (run_pp_action n (morphl_infer_type_of_ast ops n) (scoped_parse_ast ops n (k + j)))
        (morphl_infer_type_of_ast ops n) ops)"
    by (rule program_same [OF run_pp_action_le [OF arenas.parse_ast_kept] run_same [OF Suc]])
  then show ?case by (simp add: same_below_def add.commute)
qed (simp add: same_below_def)

section \<open>The grammars below\<close>

text \<open>The same parser with one grammar, and with that grammar on top of \<open>gs\<close>.\<close>

definition based :: "grammar option list \<Rightarrow> nat \<Rightarrow> scoped_parser \<Rightarrow> scoped_parser" where
  "based gs cap a = a\<lparr>sp_grammars := sp_grammars a @ gs, sp_grammar_cap := cap\<rparr>"

definition over :: "grammar option list \<Rightarrow> scoped_parser \<Rightarrow> scoped_parser \<Rightarrow> bool" where
  "over gs a b \<longleftrightarrow> length (sp_grammars a) = 1 \<and> (\<exists>cap. b = based gs cap a)"

abbreviation same_over ::
    "grammar option list \<Rightarrow> ('r \<times> scoped_parser) option \<Rightarrow> ('r \<times> scoped_parser) option \<Rightarrow> bool" where
  "same_over gs \<equiv> rel_option (rel_prod (=) (over gs))"

lemma same_over_bind:
  assumes "same_over gs x y" and "\<And>r a b. over gs a b \<Longrightarrow> rel_option R (f (r, a)) (g (r, b))"
  shows "rel_option R (Option.bind x f) (Option.bind y g)"
  using assms by (cases rule: option.rel_cases) auto

lemma based_simps [simp]:
  "sp_types (based gs cap a) = sp_types a" "sp_filename (based gs cap a) = sp_filename a"
  "sp_use_builtins (based gs cap a) = sp_use_builtins a" "parser_env_of (based gs cap a) = parser_env_of a"
  "put_env env (based gs cap a) = based gs cap (put_env env a)"
  "put_interns t (based gs cap a) = based gs cap (put_interns t a)"
  "put_shared h t dg (based gs cap a) = based gs cap (put_shared h t dg a)"
  "report_parse sev span msg (based gs cap a) = based gs cap (report_parse sev span msg a)"
  "(based gs cap a)\<lparr>sp_types := c\<rparr> = based gs cap (a\<lparr>sp_types := c\<rparr>)"
  by (simp_all add: based_def parser_env_of_def put_env_def put_interns_def put_shared_def report_parse_def)

lemma grammars_kept [simp]:
  "sp_grammars (put_env env a) = sp_grammars a" "sp_grammars (put_interns t a) = sp_grammars a"
  "sp_grammars (put_shared h t dg a) = sp_grammars a" "sp_grammars (report_parse sev span msg a) = sp_grammars a"
  by (simp_all add: put_env_def put_interns_def put_shared_def report_parse_def)

lemma over_based [simp]: "over gs a (based gs cap a) \<longleftrightarrow> length (sp_grammars a) = 1"
  by (auto simp: over_def)

lemma current_based [simp]:
  "length (sp_grammars a) = 1 \<Longrightarrow> scoped_parser_current_grammar (based gs cap a) = scoped_parser_current_grammar a"
  by (cases "sp_grammars a") (simp_all add: scoped_parser_current_grammar_def based_def)

lemma replace_top_based:
  "length (sp_grammars a) = 1 \<Longrightarrow>
     (based gs cap a)\<lparr>sp_grammars := g # tl (sp_grammars (based gs cap a)), sp_use_builtins := u\<rparr> =
     based gs cap (a\<lparr>sp_grammars := g # tl (sp_grammars a), sp_use_builtins := u\<rparr>) \<and>
     sp_grammars (based gs cap a) \<noteq> []"
  by (cases "sp_grammars a") (simp_all add: based_def)

definition runs_over :: "pp_runner \<Rightarrow> bool" where
  "runs_over run \<longleftrightarrow> (\<forall>f args gs a b. over gs a b \<longrightarrow> same_over gs (run f args a) (run f args b))"

lemma replace_grammar_over:
  assumes "length (sp_grammars a) = 1"
  shows "same_over gs (scoped_parser_replace_grammar path a) (scoped_parser_replace_grammar path (based gs cap a))"
proof -
  have "sp_grammars a \<noteq> []" "length (tl (sp_grammars a)) = 0" using assms by auto
  with assms show ?thesis
    unfolding scoped_parser_replace_grammar_def
    by (auto simp: Let_def replace_top_based split: bind_splits)
qed

lemma use_module_over:
  "length (sp_grammars a) = 1 \<Longrightarrow> same_over gs (use_module infer args root a) (use_module infer args root (based gs cap a))"
  by (cases root) (auto simp: use_module_def option.rel_map split: prod.split intro!: option.rel_refl_strong)

lemma import_over:
  assumes "length (sp_grammars a) = 1"
  shows "same_over gs (import_module parse infer args path source a)
    (import_module parse infer args path source (based gs cap a))"
  using assms unfolding import_module_def
  by (auto split: option.split prod.split bind_splits simp: use_module_over)

lemma run_over: "runs_over (run_pp_action n infer parse)"
  unfolding runs_over_def
proof (intro allI impI)
  fix f args gs a b
  assume "over gs a b"
  then obtain cap where one: "length (sp_grammars a) = 1" and b: "b = based gs cap a" by (auto simp: over_def)
  have types: "same_over gs (act_on_types r a) (act_on_types r b)" for r
    using one b by (cases r) (auto simp: act_on_types_def)
  have "same_over gs (pp_action_syntax args a) (pp_action_syntax args b)"
    using one option.rel_mono_strong [OF replace_grammar_over [OF one]]
    by (auto simp: pp_action_syntax_def b option.rel_map split: option.split)
  moreover have "same_over gs (pp_action_import parse infer args a) (pp_action_import parse infer args b)"
    using one import_over [OF one]
    by (auto simp: pp_action_import_def b split: option.split bind_splits)
  ultimately show "same_over gs (run_pp_action n infer parse f args a) (run_pp_action n infer parse f args b)"
    using types b by (cases f) (simp_all add: run_pp_action_def)
qed

text \<open>Results with one more component before the parser.\<close>

abbreviation same_over2 ::
    "grammar option list \<Rightarrow> ('q \<times> 'r \<times> scoped_parser) option \<Rightarrow> ('q \<times> 'r \<times> scoped_parser) option \<Rightarrow> bool" where
  "same_over2 gs \<equiv> rel_option (rel_prod (=) (rel_prod (=) (over gs)))"

lemma same_over2_bind:
  assumes "same_over2 gs x y" and "\<And>q r a b. over gs a b \<Longrightarrow> rel_option R (f (q, r, a)) (g (q, r, b))"
  shows "rel_option R (Option.bind x f) (Option.bind y g)"
  using assms by (cases rule: option.rel_cases) auto

lemma apply_over:
  "runs_over run \<Longrightarrow> over gs a b \<Longrightarrow>
     same_over2 gs (apply_preprocessor_if_any run ops node a) (apply_preprocessor_if_any run ops node b)"
  "runs_over run \<Longrightarrow> over gs a b \<Longrightarrow> same_over gs (apply_to_children run ops cs a) (apply_to_children run ops cs b)"
proof (induction run ops node a and run ops cs a arbitrary: b and b
    rule: apply_preprocessor_if_any_apply_to_children.induct)
  case (1 run ops kind op v cs cap fn row col a)
  show ?case
    unfolding apply_preprocessor_if_any.simps
  proof (rule same_over_bind [OF 1(1) [OF 1(2,3)]])
    fix cs1 a1 b1
    assume o: "over gs a1 b1"
    have "same_over gs (run f cs1 a1) (run f cs1 b1)" for f using 1(2) o by (auto simp: runs_over_def)
    then show "same_over2 gs
        (case (cs1, a1) of (cs1, sp1) \<Rightarrow> case preprocessor_hook ops kind op of
           None \<Rightarrow> Some (True, AstNode kind op v cs1 cap fn row col, sp1)
         | Some (f, keep) \<Rightarrow> Option.bind (run f cs1 sp1) (\<lambda>(cs2, sp2). Some (keep, AstNode kind op v cs2 cap fn row col, sp2)))
        (case (cs1, b1) of (cs1, sp1) \<Rightarrow> case preprocessor_hook ops kind op of
           None \<Rightarrow> Some (True, AstNode kind op v cs1 cap fn row col, sp1)
         | Some (f, keep) \<Rightarrow> Option.bind (run f cs1 sp1) (\<lambda>(cs2, sp2). Some (keep, AstNode kind op v cs2 cap fn row col, sp2)))"
      using o by (auto split: option.split prod.split intro!: same_over_bind)
  qed
next
  case (3 run ops c cs a)
  have rest: "same_over gs (apply_to_children run ops cs a1) (apply_to_children run ops cs b1)"
    if "apply_preprocessor_if_any run ops c a = Some (k, c1, a1)" "over gs a1 b1" for k c1 a1 b1
    by (rule 3(2) [OF that(1) HOL.refl HOL.refl 3(3) that(2)])
  from 3(1) [OF 3(3,4)] show ?case
  proof (cases rule: option.rel_cases)
    case (Some x y)
    obtain k c1 a1 where x: "x = (k, c1, a1)" by (rule prod_cases3)
    then obtain b1 where y: "y = (k, c1, b1)" "over gs a1 b1" using Some by (cases y) auto
    show ?thesis using Some x y by (auto intro!: same_over_bind [OF rest])
  qed simp
qed simp

lemma parse_expr_over:
  "over gs a b \<Longrightarrow> same_over2 gs (scoped_parse_expr ops depth toks a) (scoped_parse_expr ops depth toks b)"
  by (auto simp: over_def scoped_parse_expr_def split: list.split prod.split)

lemma statement_over:
  assumes "runs_over run" and "over gs a b"
  shows "same_over2 gs (scoped_statement run ops symbol_kind depth toks a) (scoped_statement run ops symbol_kind depth toks b)"
proof -
  have u: "sp_use_builtins b = sp_use_builtins a" using assms(2) by (auto simp: over_def)
  show ?thesis
    unfolding scoped_statement_def u
    by (rule same_over2_bind [OF parse_expr_over [OF assms(2)]])
      (auto split: option.split intro!: same_over2_bind [OF apply_over(1) [OF assms(1)]])
qed

lemma grammar_statements_over:
  "over gs a b \<Longrightarrow> same_over2 gs (grammar_statements ops toks a) (grammar_statements ops toks b)"
  by (auto simp: over_def grammar_statements_def Let_def split: option.split bind_splits)

lemma statements_over:
  "runs_over run \<Longrightarrow> over gs a b \<Longrightarrow>
     same_over2 gs (scoped_statements run ops symbol_kind eof_kind depth toks a)
       (scoped_statements run ops symbol_kind eof_kind depth toks b)"
proof (induction "length toks" arbitrary: toks a b rule: less_induct)
  case less
  have u: "sp_use_builtins b = sp_use_builtins a" using less.prems(2) by (auto simp: over_def)
  have loop: "same_over2 gs
      (case scoped_statement run ops symbol_kind depth toks a of
         None \<Rightarrow> None
       | Some (None, r, sp1) \<Rightarrow> Some (None, r, sp1)
       | Some (Some kept, r, sp1) \<Rightarrow>
           map_option (\<lambda>(stmts, r1, sp2). (map_option ((@) kept) stmts, r1, sp2))
             (scoped_statements run ops symbol_kind eof_kind depth r sp1))
      (case scoped_statement run ops symbol_kind depth toks b of
         None \<Rightarrow> None
       | Some (None, r, sp1) \<Rightarrow> Some (None, r, sp1)
       | Some (Some kept, r, sp1) \<Rightarrow>
           map_option (\<lambda>(stmts, r1, sp2). (map_option ((@) kept) stmts, r1, sp2))
             (scoped_statements run ops symbol_kind eof_kind depth r sp1))"
    using statement_over [OF less.prems, of ops symbol_kind depth toks]
  proof (cases rule: option.rel_cases)
    case (Some x y)
    obtain kept r a1 where x: "x = (kept, r, a1)" by (rule prod_cases3)
    then obtain b1 where y: "y = (kept, r, b1)" "over gs a1 b1" using Some by (cases y) auto
    show ?thesis
    proof (cases kept)
      case (Some ks)
      have "length r < length toks" using scoped_statement_shorter \<open>scoped_statement _ _ _ _ _ a = Some x\<close> x Some by blast
      from less.hyps [OF this less.prems(1) y(2)] show ?thesis
        using \<open>scoped_statement _ _ _ _ _ a = Some x\<close> \<open>scoped_statement _ _ _ _ _ b = Some y\<close> x y(1) Some
        by (auto simp: option.rel_map elim!: option.rel_mono_strong)
    qed (use Some x y in simp)
  qed simp
  show ?case
    unfolding scoped_statements.simps [of run ops symbol_kind eof_kind depth toks] u
    using loop less.prems(2) grammar_statements_over [OF less.prems(2)]
    by (auto split: list.split)
qed

lemma block_contents_over:
  assumes "runs_over run" and "over gs a b"
  shows "same_over2 gs (scoped_parse_block_contents run ops depth toks a) (scoped_parse_block_contents run ops depth toks b)"
proof -
  have "sp_types b = sp_types a" using assms(2) by (auto simp: over_def)
  moreover have "over gs (put_interns t a) (put_interns t b)" for t using assms(2) by (auto simp: over_def)
  ultimately show ?thesis
    unfolding scoped_parse_block_contents_def by (auto split: prod.split intro!: statements_over [OF assms(1)])
qed

text \<open>A parser without grammars of its own, and one that has the grammars \<open>gs\<close> again.\<close>

definition alone :: "scoped_parser \<Rightarrow> scoped_parser" where
  "alone sp = sp\<lparr>sp_grammars := [], sp_grammar_cap := 0, sp_use_builtins := True\<rparr>"

definition restored :: "grammar option list \<Rightarrow> scoped_parser \<Rightarrow> scoped_parser \<Rightarrow> bool" where
  "restored gs a b \<longleftrightarrow>
     sp_types b = sp_types a \<and> sp_filename b = sp_filename a \<and> sp_grammars b = gs \<and>
     (sp_use_builtins b \<longleftrightarrow> (case gs of [] \<Rightarrow> True | g # _ \<Rightarrow> g = None))"

lemma pop_over: "over gs a b \<Longrightarrow> restored gs (snd (scoped_parser_pop_grammar a)) (snd (scoped_parser_pop_grammar b))"
  by (cases "sp_grammars a") (auto simp: over_def restored_def based_def scoped_parser_pop_grammar_def)

lemma program_restores:
  assumes "runs_over run"
  shows "rel_option (rel_prod (=) (restored (sp_grammars sp)))
    (scoped_parse_program run infer ops toks (alone sp)) (scoped_parse_program run infer ops toks sp)"
proof -
  have "over (sp_grammars sp) (scoped_parser_push_grammar None (alone sp)) (scoped_parser_push_grammar None sp)"
    by (cases sp) (simp add: over_def based_def alone_def scoped_parser_push_grammar_def)
  note contents = block_contents_over [OF assms this]
  have after: "rel_option (rel_prod (=) (restored gs))
      (case stmts of
         None \<Rightarrow> (case r of [] \<Rightarrow> None | tok # _ \<Rightarrow> Some (None, report_parse sev (span_from_token tok) msg a))
       | Some cs \<Rightarrow> typing_pass infer (program_root cs) a)
      (case stmts of
         None \<Rightarrow> (case r of [] \<Rightarrow> None | tok # _ \<Rightarrow> Some (None, report_parse sev (span_from_token tok) msg b))
       | Some cs \<Rightarrow> typing_pass infer (program_root cs) b)"
    if "restored gs a b" for gs a b stmts r sev msg
    using that
    by (auto simp: restored_def typing_pass_def report_parse_def option.rel_map
        split: option.split list.split intro!: option.rel_refl_strong)
  show ?thesis
    unfolding scoped_parse_program_def Let_def
    by (rule same_over2_bind [OF contents]) (use after pop_over in simp)
qed

section \<open>Properties\<close>

lemma parse_ast_restores:
  "rel_option (rel_prod (=) (restored (sp_grammars sp)))
     (scoped_parse_ast ops n k toks (alone sp)) (scoped_parse_ast ops n k toks sp)"
proof (cases k)
  case (Suc j)
  then show ?thesis by (simp add: program_restores [OF run_over])
qed simp

text \<open>C8: a program has its own grammars.  Whatever \<open>$syntax\<close> directives and imports it has and whether
  it parses or not, the grammar stack is afterwards the one before, the choice between the grammar and
  the builtin operators fits it, and the result, the types, the symbols and the diagnostics are those
  of a parser that starts with no grammar at all: the grammars below are never used, the initial
  grammar of the command line included.\<close>

theorem program_has_own_grammars:
  assumes "scoped_parse_ast ops n k toks sp = Some (root, sp')"
  shows "sp_grammars sp' = sp_grammars sp \<and>
    (sp_use_builtins sp' \<longleftrightarrow> scoped_parser_current_grammar sp = None) \<and>
    (\<exists>sp1. scoped_parse_ast ops n k toks (alone sp) = Some (root, sp1) \<and> sp_types sp1 = sp_types sp')"
proof -
  obtain sp1 where 1: "scoped_parse_ast ops n k toks (alone sp) = Some (root, sp1)" "restored (sp_grammars sp) sp1 sp'"
    using parse_ast_restores [of sp ops n k toks] assms by (auto simp: option_rel_Some2)
  then show ?thesis
    by (auto simp: restored_def scoped_parser_current_grammar_def split: list.splits)
qed

text \<open>Imports nest boundedly.  A module takes 1664 bytes of the one arena for its type context, so when
  less than \<open>k\<close> times that is left, no program nests more than \<open>k\<close> levels, not even a file that
  imports itself: with every greater number of levels the result is the same.\<close>

theorem imports_nest_boundedly:
  assumes "bytes_left sp < k * CONTEXT_BYTES" and "k \<le> j"
  shows "scoped_parse_ast ops n j toks sp = scoped_parse_ast ops n k toks sp"
  using more_levels [of k ops n "j - k"] assms by (auto simp: same_below_def)

text \<open>A parser for a file \<open>m\<close> that has the grammar stack of the command line \<open>morphl g m\<close>.\<close>

definition sample_parser :: scoped_parser where
  "sample_parser =
     \<lparr>sp_grammars = [Some \<lparr>gm_rules = [\<lparr>gr_name = 1, gr_productions = []\<rparr>], gm_start_rule = 1\<rparr>],
      sp_grammar_cap = 4, sp_use_builtins = False, sp_filename = Some ''m'', sp_types = sample_context\<rparr>"

lemma sample_bytes_left: "bytes_left sample_parser < 39 * CONTEXT_BYTES"
  by (simp add: bytes_left_def sample_parser_def sample_context_fields context_sizes_pos(2))

lemma sample_parsed: "\<exists>root sp'. scoped_parse_ast [] 0 1 [] sample_parser = Some (root, sp')"
  by (simp add: scoped_parse_program_def scoped_parse_block_contents_def scoped_statements.simps
      scoped_parser_push_grammar_def scoped_parser_pop_grammar_def put_interns_def sample_parser_def
      program_root_def typing_pass_def morphl_infer_type_of_ast.simps inference_defs sample_defs
      sample_context_def type_context_new_def context_sizes_def Let_def split: prod.split)

theorem program_has_own_grammars_witness:
  "\<exists>root sp' sp1. scoped_parse_ast [] 0 1 [] sample_parser = Some (root, sp') \<and>
     sp_grammars sp' = sp_grammars sample_parser \<and> \<not> sp_use_builtins sp' \<and>
     scoped_parse_ast [] 0 1 [] (alone sample_parser) = Some (root, sp1) \<and> sp_types sp1 = sp_types sp'"
proof -
  obtain root sp' where r: "scoped_parse_ast [] 0 1 [] sample_parser = Some (root, sp')" using sample_parsed by blast
  have "scoped_parser_current_grammar sample_parser \<noteq> None"
    by (simp add: scoped_parser_current_grammar_def sample_parser_def)
  with r program_has_own_grammars [OF r] show ?thesis by blast
qed

theorem imports_nest_boundedly_witness:
  "\<forall>ops n toks. scoped_parse_ast ops n 100 toks sample_parser = scoped_parse_ast ops n 39 toks sample_parser"
  by (intro allI imports_nest_boundedly [OF sample_bytes_left]) simp

end
