(* ===== verification/Scoped_Plain.thy ===== *)
theory Scoped_Plain
  imports Scoped_Laws
begin

text \<open>
  Sources without directives.  The repository has two statement loops: that of \<open>builtin_parse_ast\<close>
  (\<open>src/parser/builtin_parser.c\<close>) and that of \<open>scoped_parse_block_contents\<close>
  (\<open>src/parser/scoped_parser.c\<close>).  On tokens without closing braces, and when no node has a preprocessor
  action, the second reads what the first reads.  The two intern the token kinds at different times; tables
  that hold the same names in the same order are alike for both.
\<close>

section \<open>Tables with the same names\<close>

definition twins :: "intern_table \<Rightarrow> intern_table \<Rightarrow> bool" where
  "twins t u \<longleftrightarrow> table_inv t \<and> same_names t u"

lemma twins_iff: "twins t u \<longleftrightarrow> table_inv t \<and> table_inv u \<and> t_index t = t_index u"
  by (auto simp: twins_def same_names_def)

lemma twins_refl: "table_inv t \<Longrightarrow> twins t t"
  by (simp add: twins_iff)

lemma intern_twins:
  assumes "twins t u" and "interns_intern t s = (sy, t1)"
  obtains u1 where "interns_intern u s = (sy, u1)" "twins t1 u1"
proof (cases s)
  case (Some b)
  note same = assms(1) [unfolded twins_iff]
  have "(sy, t_index t1) = intern_spec (t_index t) b"
    using interns_intern_refines(2) [of t b] same assms(2) Some by simp
  moreover have "(fst (interns_intern u s), t_index (snd (interns_intern u s))) = intern_spec (t_index t) b"
    using interns_intern_refines(2) [of u b] same Some by simp
  moreover have "table_inv t1" "table_inv (snd (interns_intern u s))"
    using interns_intern_refines(1) [of t b] interns_intern_refines(1) [of u b] same assms(2) Some by simp_all
  ultimately show ?thesis
    by (intro that [of "snd (interns_intern u s)"]) (auto simp: twins_iff prod_eq_iff)
qed (use assms that in simp)

text \<open>Results of parsing with two such tables.\<close>

definition alike :: "'a parse_result \<Rightarrow> 'a parse_result \<Rightarrow> bool" where
  "alike x y \<longleftrightarrow> fst x = fst y \<and> fst (snd x) = fst (snd y) \<and> twins (snd (snd x)) (snd (snd y))"

lemma alike_simps [simp]: "alike (a, r, t) (b, s, u) \<longleftrightarrow> a = b \<and> r = s \<and> twins t u"
  by (simp add: alike_def)

lemma alike_left: "alike (a, r, t) y \<longleftrightarrow> (\<exists>u. y = (a, r, u) \<and> twins t u)"
  by (cases y) auto

lemma parse_alike:
  "twins t u \<Longrightarrow> alike (parse_builtin_expr ks ops depth toks t) (parse_builtin_expr ks ops depth toks u)"
  "twins t u \<Longrightarrow> alike (parse_builtin_args ks ops depth toks t) (parse_builtin_args ks ops depth toks u)"
proof (induction ks ops depth toks t and ks ops depth toks t arbitrary: u and u
    rule: parse_builtin_expr_parse_builtin_args.induct)
  case (2 ks ops depth tok rest t)
  obtain sy t1 where t1: "interns_intern t (tk_lexeme tok) = (sy, t1)" by (rule prod.exhaust)
  then obtain u1 where u1: "interns_intern u (tk_lexeme tok) = (sy, u1)" "twins t1 u1"
    using intern_twins [OF 2(2)] by blast
  show ?case
  proof (cases "\<not> depth > BUILTIN_MAX_DEPTH \<and> tk_kind tok \<noteq> k_eof ks \<and> is_builtin_op ks tok \<and> sy \<noteq> 0")
    case True
    obtain cs r t2 where t2: "parse_builtin_args ks ops depth rest t1 = (cs, r, t2)" by (rule prod_cases3)
    with 2(1) [OF _ _ _ t1 [symmetric] _ u1(2)] True obtain u2 where
      "parse_builtin_args ks ops depth rest u1 = (cs, r, u2)" "twins t2 u2" by (auto simp: alike_left)
    with True t1 t2 u1 show ?thesis by (simp split: option.split)
  qed (use 2(2) t1 u1 in \<open>auto split: option.split\<close>)
next
  case (4 ks ops depth tok rest t)
  show ?case
  proof (cases "stops_args ks tok")
    case False
    obtain c r t1 where t1: "parse_builtin_expr ks ops (depth + 1) (tok # rest) t = (c, r, t1)" by (rule prod_cases3)
    with 4(1) [OF False 4(3)] obtain u1 where
      u1: "parse_builtin_expr ks ops (depth + 1) (tok # rest) u = (c, r, u1)" "twins t1 u1"
      by (auto simp: alike_left)
    have "alike (parse_builtin_args ks ops depth r t1) (parse_builtin_args ks ops depth r u1)" if "c = Some n" for n
      by (rule 4(2) [OF False t1 [symmetric]]) (use that u1(2) in auto)
    then show ?thesis
      using False t1 u1 by (auto simp: alike_left split: option.split prod.splits)
  qed (use 4 in simp)
qed (use twins_iff in auto)

lemma parse_keeps_names:
  "table_inv t \<Longrightarrow> parse_builtin_expr ks ops depth toks t = (x, r, t') \<Longrightarrow> table_inv t' \<and> table_le t t'"
  "table_inv t \<Longrightarrow> parse_builtin_args ks ops depth toks t = (y, r', t'') \<Longrightarrow> table_inv t'' \<and> table_le t t''"
proof (induction ks ops depth toks t and ks ops depth toks t arbitrary: x r t' and y r' t''
    rule: parse_builtin_expr_parse_builtin_args.induct)
  case (2 ks ops depth tok rest t)
  obtain sy t1 where t1: "interns_intern t (tk_lexeme tok) = (sy, t1)" by (rule prod.exhaust)
  have le: "table_inv t1" "table_le t t1"
    using st.intern_inv [OF 2(2), of "tk_lexeme tok"] table_le_intern [OF 2(2), of "tk_lexeme tok"] t1 by simp_all
  show ?case
  proof (cases "\<not> depth > BUILTIN_MAX_DEPTH \<and> tk_kind tok \<noteq> k_eof ks \<and> is_builtin_op ks tok \<and> sy \<noteq> 0")
    case True
    obtain cs s t2 where t2: "parse_builtin_args ks ops depth rest t1 = (cs, s, t2)" by (rule prod_cases3)
    with 2(1) [OF _ _ _ t1 [symmetric] _ le(1)] True have "table_inv t2" "table_le t1 t2" by auto
    with le(2) 2(3) True t1 t2 show ?thesis by (auto split: option.splits intro: table_le_trans)
  qed (use 2(2,3) t1 le in \<open>auto split: if_splits option.splits\<close>)
next
  case (4 ks ops depth tok rest t)
  show ?case
  proof (cases "stops_args ks tok")
    case False
    obtain c s t1 where t1: "parse_builtin_expr ks ops (depth + 1) (tok # rest) t = (c, s, t1)" by (rule prod_cases3)
    note le = 4(1) [OF False 4(3) t1]
    have "table_inv t2 \<and> table_le t1 t2"
      if "c = Some n" "parse_builtin_args ks ops depth s t1 = (cs, s', t2)" for n cs s' t2
      by (rule 4(2) [OF False t1 [symmetric]]) (use that le in auto)
    then show ?thesis
      using 4(4) False t1 le by (auto split: option.splits prod.splits intro: table_le_trans)
  qed (use 4 in auto)
qed auto

lemma parse_builtin_rest:
  "parse_builtin_expr ks ops depth toks t = (Some n, r, t') \<Longrightarrow> set r \<subseteq> set toks"
  "parse_builtin_args ks ops depth toks t = (Some cs, r, t') \<Longrightarrow> set r \<subseteq> set toks"
proof (induction ks ops depth toks t and ks ops depth toks t arbitrary: n r t' and cs r t'
    rule: parse_builtin_expr_parse_builtin_args.induct)
  case (2 ks ops depth tok rest t)
  then show ?case by (fastforce split: if_splits option.splits prod.splits)
next
  case (4 ks ops depth tok rest t)
  then show ?case by (fastforce split: if_splits option.splits prod.splits)
qed auto

section \<open>Statements without actions\<close>

text \<open>No node of the tree has a preprocessor action.\<close>

fun plain :: "operator_row list \<Rightarrow> ast \<Rightarrow> bool" where
  "plain ops (AstNode kind op v cs cap fn row col) \<longleftrightarrow>
     preprocessor_hook ops kind op = None \<and> (\<forall>c\<in>set cs. plain ops c)"

lemma apply_plain:
  "plain ops node \<Longrightarrow> apply_preprocessor_if_any run ops node sp = Some (True, node, sp)"
  "\<forall>c\<in>set cs. plain ops c \<Longrightarrow> apply_to_children run ops cs sp = Some (cs, sp)"
  by (induction run ops node sp and run ops cs sp rule: apply_preprocessor_if_any_apply_to_children.induct) auto

lemma put_interns_simps [simp]:
  "tc_interns (sp_types (put_interns t sp)) = t" "put_interns t (put_interns u sp) = put_interns t sp"
  "sp_use_builtins (put_interns t sp) = sp_use_builtins sp"
  by (simp_all add: put_interns_def)

lemma skip_separator_builtin: "skip_separator False (k_symbol ks) toks = skip_semicolon ks toks"
  by (cases toks) (auto simp: skip_separator_def skip_semicolon_def is_semicolon_def is_byte_def)

lemma statement_plain:
  assumes "twins t (tc_interns (sp_types sp))" and "kinds_named t ks" and "sp_use_builtins sp"
    and "parse_builtin_expr ks ops 0 toks t = (Some c, r, t1)" and "plain ops c" and "depth < 128"
  obtains u where "scoped_statement run ops (k_symbol ks) depth toks sp =
      Some (Some [c], skip_semicolon ks r, put_interns u sp)" "twins t1 u"
proof -
  note same = assms(1) [unfolded twins_iff]
  obtain v where v: "intern_kinds (tc_interns (sp_types sp)) = (Some ks, v)" "twins t v"
    using intern_kinds_again [of "tc_interns (sp_types sp)" ks] kinds_named_same [OF assms(2)] same
    by (metis twins_iff)
  obtain u where u: "parse_builtin_expr ks ops 0 toks v = (Some c, r, u)" "twins t1 u"
    using parse_alike(1) [OF v(2), of ks ops 0 toks] assms(4) by (auto simp: alike_left)
  show ?thesis
    using assms(3,5,6) v(1) u
    by (intro that [of u]) (simp_all add: scoped_statement_def scoped_parse_expr_def builtin_parse_expr_def
        apply_plain(1) skip_separator_builtin)
qed

definition closes :: "kinds \<Rightarrow> token \<Rightarrow> bool" where
  "closes ks tok \<longleftrightarrow> tk_kind tok = k_symbol ks \<and> is_byte (CHR ''}'') tok"

lemma statements_plain:
  assumes "builtin_statements ks ops toks t = (Some cs, r, t1)" and "\<forall>c\<in>set cs. plain ops c"
    and "\<forall>tok\<in>set toks. \<not> closes ks tok" and "twins t (tc_interns (sp_types sp))" and "kinds_named t ks"
    and "sp_use_builtins sp" and "depth < 128"
  shows "\<exists>u. scoped_statements run ops (k_symbol ks) (k_eof ks) depth toks sp = Some (Some cs, r, put_interns u sp) \<and>
    twins t1 u"
  using assms
proof (induction "length toks" arbitrary: toks t cs sp rule: less_induct)
  case less
  show ?case
  proof (cases toks)
    case Nil
    then show ?thesis using less.prems(1,4)
      by (intro exI [of _ "tc_interns (sp_types sp)"]) (auto simp: scoped_statements.simps put_interns_def)
  next
    case (Cons tok rest)
    show ?thesis
    proof (cases "tk_kind tok = k_eof ks")
      case True
      then show ?thesis using less.prems(1,4) Cons
        by (intro exI [of _ "tc_interns (sp_types sp)"]) (auto simp: scoped_statements.simps put_interns_def)
    next
      case False
      obtain c s t2 ds where p: "parse_builtin_expr ks ops 0 toks t = (Some c, s, t2)"
        and d: "builtin_statements ks ops (skip_semicolon ks s) t2 = (Some ds, r, t1)" "cs = c # ds"
        using less.prems(1) False Cons by (auto simp del: parse_builtin_expr.simps split: option.splits prod.splits)
      obtain u where u: "scoped_statement run ops (k_symbol ks) depth toks sp = Some (Some [c], skip_semicolon ks s, put_interns u sp)"
        "twins t2 u"
        by (rule statement_plain [OF less.prems(4,5,6) p _ less.prems(7)]) (use less.prems(2) d(2) in auto)
      have short: "length (skip_semicolon ks s) < length toks"
        using parse_builtin_shorter(1) [OF p] skip_semicolon_le le_less_trans by blast
      have "kinds_named t2 ks"
        using parse_keeps_names(1) [OF _ p] less.prems(4,5) kinds_named_le by (auto simp: twins_iff)
      moreover have "set (skip_semicolon ks s) \<subseteq> set toks"
        using parse_builtin_rest(1) [OF p] by (cases s) (auto simp: skip_semicolon_def split: if_splits)
      ultimately obtain w where
        "scoped_statements run ops (k_symbol ks) (k_eof ks) depth (skip_semicolon ks s) (put_interns u sp) =
          Some (Some ds, r, put_interns w sp)" "twins t1 w"
        using less.hyps [OF short d(1), of "put_interns u sp"] less.prems(2,3,6,7) d(2) u(2) by auto
      then show ?thesis
        using Cons False u(1) less.prems(3,6) d(2) scoped_statements.simps [of run ops "k_symbol ks" "k_eof ks" depth toks sp]
        by (intro exI [of _ w]) (auto simp: closes_def)
    qed
  qed
qed

lemma block_contents_plain:
  assumes "builtin_statements ks ops toks t = (Some cs, r, t1)" and "\<forall>c\<in>set cs. plain ops c"
    and "\<forall>tok\<in>set toks. \<not> closes ks tok" and "twins t (tc_interns (sp_types sp))" and "kinds_named t ks"
    and "sp_use_builtins sp" and "depth < 128"
  shows "\<exists>u. scoped_parse_block_contents run ops depth toks sp = Some (Some cs, r, put_interns u sp) \<and> twins t1 u"
proof -
  let ?t = "tc_interns (sp_types sp)"
  have named: "kinds_named ?t ks" and inv: "table_inv ?t"
    using assms(4) kinds_named_same [OF assms(5)] by (simp_all add: twins_iff)
  obtain v where v: "interns_intern ?t (Some LEXER_KIND_SYMBOL) = (k_symbol ks, v)" "table_inv v" "t_index v = t_index ?t"
    using intern_same [OF inv] named unfolding kinds_named_def by metis
  obtain w where w: "interns_intern v (Some LEXER_KIND_EOF) = (k_eof ks, w)" "table_inv w" "t_index w = t_index v"
    using intern_same [OF v(2)] kinds_named_same [OF named v(3)] unfolding kinds_named_def by metis
  have "twins t (tc_interns (sp_types (put_interns w sp)))"
    using assms(4) v w by (simp add: twins_iff)
  from statements_plain [OF assms(1,2,3) this assms(5) _ assms(7)] assms(6) show ?thesis
    by (simp add: scoped_parse_block_contents_def str_from_def v(1) w(1))
qed

section \<open>Properties\<close>

text \<open>C9: a source without directives is read as with the builtin operators.  When \<open>builtin_parse_ast\<close> reads the
  tokens of a source as a tree none of whose nodes has a preprocessor action, and the source has no
  closing brace, \<open>scoped_parse_ast\<close> reads the same statements and interns the same names.  It differs
  in the root alone, and runs the typing pass on it.  With one statement the builtin parser's root is
  that statement; here too, except that a group becomes a file node with the elements of the group.
  With none or several the builtin parser makes a block node of them; here they become a file node.\<close>

theorem plain_source_read_as_builtin:
  assumes "lexer_tokenize fn src t = (Some toks, tc_interns (sp_types sp))" and "reachable_table t"
    and "builtin_parse_ast ops toks (tc_interns (sp_types sp)) = (Some root, t')"
    and "plain ops root" and "Some ''}'' \<notin> tk_lexeme ` set toks"
  shows "\<exists>cs u. root = (if length cs = 1 then hd cs else AstNode AST_BLOCK 0 None cs 0 None 0 0) \<and>
    program_root cs =
      (if length cs \<noteq> 1 then AstNode AST_FILE 0 None cs 0 None 0 0
       else if n_kind root = AST_GROUP then AstNode AST_FILE 0 None (n_children root) 0 (n_filename root) 0 0
       else root) \<and>
    t_index u = t_index t' \<and>
    scoped_parse_ast ops n (Suc k) toks sp =
      typing_pass (morphl_infer_type_of_ast ops n) (program_root cs)
        (snd (scoped_parser_pop_grammar (put_interns u (scoped_parser_push_grammar None sp))))"
proof -
  let ?t = "tc_interns (sp_types sp)"
  obtain ks where ks: "kinds_named ?t ks" and inv: "table_inv ?t"
    using lexer_tokenize_cases [OF assms(1) reachable_table_inv [OF assms(2)]] by blast
  obtain v where v: "intern_kinds ?t = (Some ks, v)" "table_inv v" "t_index v = t_index ?t"
    using intern_kinds_again [OF inv ks] .
  obtain cs r where b: "builtin_statements ks ops toks v = (Some cs, r, t')"
    and root: "root = (if length cs = 1 then hd cs else AstNode AST_BLOCK 0 None cs 0 None 0 0)"
    using assms(3) v(1) by (auto simp: builtin_parse_ast_def split: option.splits prod.splits)
  have "\<forall>c\<in>set cs. plain ops c"
    using assms(4) root by (cases "length cs = 1") (auto simp: length_Suc_conv)
  moreover have "\<forall>tok\<in>set toks. \<not> closes ks tok"
  proof
    fix tok
    assume "tok \<in> set toks"
    then have "tk_lexeme tok \<noteq> Some ''}''" using assms(5) by (metis imageI)
    then show "\<not> closes ks tok"
      by (cases "tk_lexeme tok") (auto simp: closes_def is_byte_def length_Suc_conv)
  qed
  moreover have "twins v (tc_interns (sp_types (scoped_parser_push_grammar None sp)))"
    using v inv by (simp add: twins_iff scoped_parser_push_grammar_def)
  moreover have "kinds_named v ks" using kinds_named_same [OF ks v(3)] .
  moreover have "sp_use_builtins (scoped_parser_push_grammar None sp)" by (simp add: scoped_parser_push_grammar_def)
  ultimately obtain u where u: "t_index u = t_index t'"
    "scoped_parse_block_contents (run_pp_action n (morphl_infer_type_of_ast ops n) (scoped_parse_ast ops n k)) ops 0 toks
      (scoped_parser_push_grammar None sp) = Some (Some cs, r, put_interns u (scoped_parser_push_grammar None sp))"
    using block_contents_plain [OF b, of "scoped_parser_push_grammar None sp" 0
        "run_pp_action n (morphl_infer_type_of_ast ops n) (scoped_parse_ast ops n k)"] by (auto simp: twins_iff)
  moreover have "program_root cs =
      (if length cs \<noteq> 1 then AstNode AST_FILE 0 None cs 0 None 0 0
       else if n_kind root = AST_GROUP then AstNode AST_FILE 0 None (n_children root) 0 (n_filename root) 0 0
       else root)"
    unfolding root by (cases cs rule: remdups_adj.cases) (simp_all add: program_root_def)
  ultimately show ?thesis
    using root by (intro exI [of _ cs] exI [of _ u]) (simp add: scoped_parse_program_def Let_def)
qed

lemma plain_Nil: "plain [] node"
  by (induction node) (simp add: preprocessor_hook_def operator_info_lookup_def)

theorem plain_source_read_as_builtin_witness:
  "\<exists>sp root t' cs u. builtin_parse_ast [] sample_tokens (tc_interns (sp_types sp)) = (Some root, t') \<and>
     root = (if length cs = 1 then hd cs else AstNode AST_BLOCK 0 None cs 0 None 0 0) \<and>
     scoped_parse_ast [] 0 1 sample_tokens sp =
       typing_pass (morphl_infer_type_of_ast [] 0) (program_root cs)
         (snd (scoped_parser_pop_grammar (put_interns u (scoped_parser_push_grammar None sp))))"
proof (rule parse_sample)
  fix t1 u' root
  assume 1: "lexer_tokenize ''m.mpl'' ''a b'' interns_new = (Some sample_tokens, t1)"
    "table_inv t1" "builtin_parse_ast [] sample_tokens t1 = (Some root, u')"
  have s: "tc_interns (sp_types (put_interns t1 sample_parser)) = t1" by simp
  have "Some ''}'' \<notin> tk_lexeme ` set sample_tokens" by (simp add: sample_tokens_def eof_token_def)
  from plain_source_read_as_builtin [of _ _ _ _ "put_interns t1 sample_parser", unfolded s, OF 1(1) rt_new 1(3) plain_Nil this,
      of 0 0] 1(3) s
  show ?thesis unfolding One_nat_def by metis
qed

end
