(* ===== verification/Scoped_Context.thy ===== *)
theory Scoped_Context
  imports Scoped_Plain Grammar_Trees
begin

text \<open>
  What reading a program does to the type context of its parser.  Grammars and modules are loaded, nodes
  are preprocessed and the tree is typed in between, all on one intern table and one arena; the context
  stays well formed, every scope, block, function, file and global that was entered is left again,
  and symbols keep their names.  The relation is an instance of \<open>inference_frame\<close> (for the
  actions and the typing pass), of \<open>parser_frame\<close> (for the loader of grammars) and of
  \<open>parsing_frame\<close> (for the loops of the parser).
\<close>

section \<open>Scopes after the check of forward declarations\<close>

text \<open>
  \<open>type_context_check_unresolved_forwards\<close> marks scopes it has reported, the enclosing ones too; apart
  from these marks the enclosing scopes are as before.
\<close>

definition scope_content :: "scope \<Rightarrow> (nat \<times> tref) list \<times> forward_entry list" where
  "scope_content sc = (sc_vars sc, sc_forwards sc)"

definition same_enclosing :: "type_context \<Rightarrow> type_context \<Rightarrow> bool" where
  "same_enclosing c c' \<longleftrightarrow>
     tc_scopes c' \<noteq> [] \<and> map scope_content (tl (tc_scopes c')) = map scope_content (tl (tc_scopes c)) \<and>
     (\<exists>more. var_names (hd (tc_scopes c')) = var_names (hd (tc_scopes c)) @ more) \<and>
     rs_items (tc_func_stack c') = rs_items (tc_func_stack c) \<and>
     rs_items (tc_this_stack c') = rs_items (tc_this_stack c) \<and>
     rs_items (tc_file_stack c') = rs_items (tc_file_stack c) \<and>
     rs_items (tc_global_stack c') = rs_items (tc_global_stack c) \<and>
     (tc_file_type c \<noteq> None \<longrightarrow> tc_file_type c' = tc_file_type c) \<and>
     (tc_global_type c \<noteq> None \<longrightarrow> tc_global_type c' = tc_global_type c)"

definition settled :: "type_context \<Rightarrow> type_context \<Rightarrow> bool" where
  "settled c c' \<longleftrightarrow> context_grows c c' \<and>
     (scope_room c' \<longrightarrow> 0 < tc_scope_capacity c \<longrightarrow> tc_scopes c \<noteq> [] \<longrightarrow> same_enclosing c c')"

lemma scoped_settled: "scoped c c' \<Longrightarrow> settled c c'"
  by (auto simp: scoped_def settled_def balanced_def same_enclosing_def)

lemma same_enclosing_trans: "same_enclosing a b \<Longrightarrow> same_enclosing b c \<Longrightarrow> same_enclosing a c"
  unfolding same_enclosing_def by (metis append_assoc)

lemma same_enclosing_length:
  assumes "same_enclosing c c'" and "tc_scopes c \<noteq> []"
  shows "length (tc_scopes c') = length (tc_scopes c)"
proof -
  have "length (tl (tc_scopes c')) = length (tl (tc_scopes c))" "tc_scopes c' \<noteq> []"
    using assms(1) by (auto simp: same_enclosing_def dest: map_eq_imp_length_eq)
  with assms(2) show ?thesis by (cases "tc_scopes c"; cases "tc_scopes c'") auto
qed

lemma same_enclosing_gets:
  assumes "same_enclosing c c'"
  shows "type_context_get_this c' = type_context_get_this c"
    and "type_context_get_current_func c' = type_context_get_current_func c"
    and "type_context_get_file c \<noteq> None \<longrightarrow> type_context_get_file c' = type_context_get_file c"
    and "type_context_get_global c \<noteq> None \<longrightarrow> type_context_get_global c' = type_context_get_global c"
    and "tc_scopes c \<noteq> [] \<Longrightarrow> type_context_check_duplicate_var c x \<Longrightarrow> type_context_check_duplicate_var c' x"
proof -
  obtain more where m: "var_names (hd (tc_scopes c')) = var_names (hd (tc_scopes c)) @ more"
    using assms by (auto simp: same_enclosing_def)
  have "x \<in> set (var_names (hd (tc_scopes c')))" if "x \<in> set (var_names (hd (tc_scopes c)))"
    using that unfolding m by simp
  then show "tc_scopes c \<noteq> [] \<Longrightarrow> type_context_check_duplicate_var c x \<Longrightarrow> type_context_check_duplicate_var c' x"
    using assms by (simp add: same_enclosing_def type_context_check_duplicate_var_def var_names_def image_iff)
qed (use assms in \<open>simp_all add: same_enclosing_def type_context_get_this_def type_context_get_current_func_def
    top_ref_def type_context_get_file_def type_context_get_global_def\<close>)

lemma settled_trans:
  assumes ab: "settled a b" and bc: "settled b c"
  shows "settled a c"
  unfolding settled_def
proof (intro conjI impI)
  show "context_grows a c" using ab bc by (auto simp: settled_def intro: context_grows_trans)
  assume r: "scope_room c" "0 < tc_scope_capacity a" "tc_scopes a \<noteq> []"
  have b: "scope_room b" "0 < tc_scope_capacity b"
    using ab bc r(1,2) by (auto simp: settled_def context_grows_def intro: scope_room_before)
  then have 1: "same_enclosing a b" using ab r by (simp add: settled_def)
  then have "same_enclosing b c" using bc r(1) b(2) by (simp add: settled_def same_enclosing_def)
  with 1 show "same_enclosing a c" by (rule same_enclosing_trans)
qed

lemma check_scopes_content:
  "check_scopes interns scs acc = (scs', acc') \<Longrightarrow> map scope_content scs' = map scope_content scs"
  by (induction scs arbitrary: scs' acc')
    (fastforce simp: check_scope_def scope_content_def split: prod.splits if_splits list.splits)+

lemma check_unresolved_settled: "settled c (snd (type_context_check_unresolved_forwards c))"
proof -
  obtain scs ok dg where s: "check_scopes (tc_interns c) (tc_scopes c) (True, tc_diagnostics c) = (scs, ok, dg)"
    by (rule prod_cases3)
  note content = check_scopes_content [OF s]
  have "same_enclosing c (c\<lparr>tc_scopes := scs, tc_diagnostics := dg\<rparr>)" if "tc_scopes c \<noteq> []"
    using that content
    by (cases scs; cases "tc_scopes c") (auto simp: same_enclosing_def scope_content_def var_names_def)
  then show ?thesis
    by (simp add: type_context_check_unresolved_forwards_def s settled_def context_grows_def)
qed

section \<open>The relation\<close>

text \<open>What inference and the actions keep.\<close>

definition context_held :: "type_context \<Rightarrow> type_context \<Rightarrow> bool" where
  "context_held c c' \<longleftrightarrow> scoped c c' \<and> stays_ok c c' \<and> symbols_kept c c'"

lemmas frame_laws = inference_frame.refl inference_frame.types inference_frame.emits inference_frame.interns
  inference_frame.define_var inference_frame.update_var inference_frame.define_func inference_frame.update_func
  inference_frame.define_forward inference_frame.forward_body inference_frame.set_return inference_frame.set_pending
  inference_frame.opened inference_frame.push_failed inference_frame.in_scope inference_frame.in_block
  inference_frame.in_func inference_frame.in_file inference_frame.in_global inference_frame.silenced

lemma frames_meet:
  assumes "inference_frame P" and "inference_frame Q"
  shows "inference_frame (\<lambda>c c'. P c c' \<and> Q c c')"
proof
  show "P a b \<and> Q a b \<Longrightarrow> P b c \<and> Q b c \<Longrightarrow> P a c \<and> Q a c" for a b c
    using inference_frame.trans [OF assms(1), of a b c] inference_frame.trans [OF assms(2), of a b c] by blast
qed (blast intro: frame_laws [OF assms(1)] frame_laws [OF assms(2)])+

interpretation held: inference_frame context_held
  unfolding context_held_def
  by (intro frames_meet scoping.inference_frame_axioms well_formed.inference_frame_axioms
      symbols.inference_frame_axioms)

text \<open>What the parser keeps.\<close>

definition context_kept :: "type_context \<Rightarrow> type_context \<Rightarrow> bool" where
  "context_kept c c' \<longleftrightarrow> settled c c' \<and> stays_ok c c' \<and> symbols_kept c c'"

definition types_kept :: "scoped_parser \<Rightarrow> scoped_parser \<Rightarrow> bool" where
  "types_kept sp sp' \<longleftrightarrow> context_kept (sp_types sp) (sp_types sp')"

lemma held_kept: "context_held c c' \<Longrightarrow> context_kept c c'"
  by (simp add: context_held_def context_kept_def scoped_settled)

lemma kept_refl [simp, intro]: "context_kept c c"
  by (rule held_kept) (rule held.refl)

lemma kept_trans: "context_kept a b \<Longrightarrow> context_kept b c \<Longrightarrow> context_kept a c"
  using settled_trans well_formed.trans symbols.trans by (auto simp: context_kept_def)

lemma kept_grows: "context_kept c c' \<Longrightarrow> arena_grows (tc_types c) (tc_types c') \<and> grown (tc_interns c) (tc_interns c')"
  by (simp add: context_kept_def settled_def context_grows_def symbols_kept_def grown_def)

text \<open>The parts the C structures share may be replaced by later ones.\<close>

lemma shared_kept:
  assumes "arena_grows (tc_types c) h" and "grown (tc_interns c) t"
  shows "context_kept c (c\<lparr>tc_types := h, tc_interns := t, tc_diagnostics := dg\<rparr>)"
proof -
  have "context_ok c \<Longrightarrow> context_ok (c\<lparr>tc_types := h, tc_interns := t, tc_diagnostics := dg\<rparr>)"
    using assms(1) by (auto simp: arena_grows_def context_ok_def)
  with assms show ?thesis
    by (simp add: context_kept_def settled_def context_grows_def same_enclosing_def stays_ok_def symbols_kept_def
        grown_def)
qed

lemma interns_kept: "grown (tc_interns c) t \<Longrightarrow> context_kept c (c\<lparr>tc_interns := t\<rparr>)"
  using shared_kept [of c "tc_types c" t "tc_diagnostics c"] by simp

lemma check_unresolved_kept: "context_kept c (snd (type_context_check_unresolved_forwards c))"
proof -
  have "tc_interns (snd (type_context_check_unresolved_forwards c)) = tc_interns c"
    by (simp add: type_context_check_unresolved_forwards_def split: prod.split)
  then show ?thesis
    by (simp add: context_kept_def check_unresolved_settled stays_ok_def check_unresolved_ok symbols_kept_def)
qed

section \<open>Grammars\<close>

text \<open>What loading a grammar or parsing with it does to the arena and the table.\<close>

definition env_kept :: "parser_env \<Rightarrow> parser_env \<Rightarrow> bool" where
  "env_kept env env' \<longleftrightarrow>
     arena_le (pe_arena env) (pe_arena env') \<and>
     (a_off (pe_arena env) \<le> a_cap (pe_arena env) \<longrightarrow> a_off (pe_arena env') \<le> a_cap (pe_arena env')) \<and>
     grown (pe_interns env) (pe_interns env')"

interpretation grammar_loader: parser_frame env_kept
  by unfold_locales
    (auto simp: env_kept_def arena_le_def intern_env_def store_env_def arena_push_Some
      intro: grown_trans grown_intern split: prod.split option.split)

lemma put_env_kept:
  assumes "env_kept (parser_env_of sp) env"
  shows "types_kept sp (put_env env sp)"
proof -
  let ?h = "(tc_types (sp_types sp))\<lparr>ta_arena := pe_arena env\<rparr>"
  have "sp_types (put_env env sp) =
      (sp_types sp)\<lparr>tc_types := ?h, tc_interns := pe_interns env, tc_diagnostics := pe_diagnostics env\<rparr>"
    by (rule type_context.equality) (simp_all add: put_env_def)
  moreover have "arena_grows (tc_types (sp_types sp)) ?h"
    using assms by (auto simp: env_kept_def parser_env_of_def arena_le_def arena_grows_def arena_ok_def)
  moreover have "grown (tc_interns (sp_types sp)) (pe_interns env)"
    using assms by (simp add: env_kept_def parser_env_of_def)
  ultimately show ?thesis by (simp add: types_kept_def shared_kept)
qed

lemma types_kept_refl [simp, intro]: "types_kept sp sp"
  by (simp add: types_kept_def)

lemma types_kept_trans: "types_kept a b \<Longrightarrow> types_kept b c \<Longrightarrow> types_kept a c"
  by (auto simp: types_kept_def intro: kept_trans)

lemma report_kept: "types_kept sp (report_parse sev span msg sp)"
  by (simp add: types_kept_def report_parse_def held_kept held.emits)

lemma grammars_types_kept [simp]:
  "types_kept sp (sp\<lparr>sp_grammars := gs, sp_use_builtins := b\<rparr>)"
  "types_kept sp (scoped_parser_push_grammar g sp)" "types_kept sp (snd (scoped_parser_pop_grammar sp))"
  by (simp_all add: types_kept_def scoped_parser_push_grammar_def scoped_parser_pop_grammar_def split: list.split)

lemma replace_grammar_kept: "after types_kept sp (scoped_parser_replace_grammar path sp)"
proof -
  have "types_kept sp sp'" if "types_kept sp (put_env env sp)" "types_kept (put_env env sp) sp1" "types_kept sp1 sp'"
    for env sp1 sp' using that types_kept_trans by blast
  then show ?thesis
    unfolding after_def scoped_parser_replace_grammar_def Let_def
    by (auto split: bind_splits if_splits dest!: grammar_loader.load_file_kept put_env_kept
        intro: types_kept_trans [OF _ report_kept] types_kept_trans [OF types_kept_trans report_kept])
qed

lemma strip_eof_grown: "strip_eof toks env = (ts, env1) \<Longrightarrow> grown (pe_interns env) (pe_interns env1)"
  by (auto simp: strip_eof_def intern_env_def split: prod.splits intro: grown_intern)

lemma reports_interns [simp]:
  "pe_interns (error_env span msg env) = pe_interns env"
  "pe_interns (report_parse_stopped toks c rule env) = pe_interns env"
  "pe_interns (report_furthest toks rule pf env) = pe_interns env"
  by (simp_all add: error_env_def report_parse_failed_def report_parse_stopped_def report_furthest_def)

lemma grammar_parse_ast_grown:
  assumes "grammar_parse_ast ops g start toks env = Some (root, env')"
  shows "grown (pe_interns env) (pe_interns env')"
proof -
  obtain ts env1 where s: "strip_eof toks env = (ts, env1)" by (rule prod.exhaust)
  note grown = strip_eof_grown [OF s]
  have "grown (pe_interns env1) (as_names st)"
    if "find_rule g sy = Some r"
      and "parse_rule_internal_ast ops g ts 0 r 0 0
        \<lparr>as_failure = no_failure, as_names = pe_interns env1, as_captures = []\<rparr> = Some (q, st)" for sy r q st
  proof -
    let ?st = "\<lparr>as_failure = no_failure, as_names = pe_interns env1, as_captures = []\<rparr>"
    have "sound_state (pe_interns env1) g ts st \<and> table_le (pe_interns env1) (as_names st)"
      if "table_inv (pe_interns env1)"
      using buildsD(1,2) [OF parse_rule_builds [OF find_rule_in [OF \<open>find_rule g sy = Some r\<close>]]
          \<open>parse_rule_internal_ast _ _ _ _ _ _ _ _ = _\<close>, of "pe_interns env1"] that
      by (simp add: views sound_state_def)
    then show ?thesis by (simp add: grown_def sound_state_def)
  qed
  then show ?thesis
    using assms s grown
    by (auto simp: grammar_parse_ast_def Let_def intro: grown_trans
        split: if_splits option.splits bind_splits prod.splits)
qed

lemma grammar_statements_kept:
  assumes "grammar_statements ops toks sp = Some (x, r, sp')"
  shows "types_kept sp sp'"
proof -
  have "types_kept sp (put_env env sp)"
    if "grammar_parse_ast ops g 0 toks (parser_env_of sp) = Some (root, env)" for g root env
    using grammar_parse_ast_grown [OF that] grammar_parse_ast_arena [OF that]
    by (intro put_env_kept) (simp add: env_kept_def)
  with assms show ?thesis
    by (auto simp: grammar_statements_def Let_def split: option.splits bind_splits)
qed

section \<open>Modules and actions\<close>

lemma put_interns_kept: "grown (tc_interns (sp_types sp)) t \<Longrightarrow> types_kept sp (put_interns t sp)"
  by (simp add: types_kept_def put_interns_def interns_kept)

lemma put_shared_kept:
  "arena_grows (tc_types (sp_types sp)) h \<Longrightarrow> grown (tc_interns (sp_types sp)) t \<Longrightarrow> types_kept sp (put_shared h t dg sp)"
  by (simp add: types_kept_def put_shared_def shared_kept)

lemma tokenize_grown: "lexer_tokenize fn src t = (r, t') \<Longrightarrow> grown t t'"
  using lexer_tokenize_cases by (auto simp: grown_def)

text \<open>A module's context is made from the arena and the table of the parser.\<close>

lemma init_grows:
  "scoped_parser_init fn h t dg = (None, h') \<Longrightarrow> arena_grows h h'"
  "scoped_parser_init fn h t dg = (Some m, h') \<Longrightarrow> arena_grows h (tc_types (sp_types m)) \<and> tc_interns (sp_types m) = t"
  using alloc_all_grows [of h context_sizes]
  by (auto simp: scoped_parser_init_def type_context_new_def simp del: alloc_all.simps
      split: option.splits prod.splits bool.splits)

lemma infer_held: "keeps_on context_held (morphl_infer_type_of_ast ops n) UNIV"
  by (auto simp: keeps_on_def dest: held.infer_kept)

lemma infer_context_kept: "morphl_infer_type_of_ast ops n node c = Some (t, node', c') \<Longrightarrow> context_kept c c'"
  by (rule held_kept) (rule held.infer_kept)

lemma use_module_kept: "after types_kept sp (use_module (morphl_infer_type_of_ast ops n) args root sp)"
  by (auto simp: after_def use_module_def types_kept_def [of sp "_\<lparr>sp_types := _\<rparr>"]
      intro: report_kept dest!: infer_context_kept split: option.split)

lemma typing_pass_kept: "after types_kept sp (typing_pass (morphl_infer_type_of_ast ops n) root sp)"
  by (auto simp: after_def typing_pass_def types_kept_def intro: kept_trans [OF _ check_unresolved_kept]
      dest!: infer_context_kept)

lemma import_module_kept:
  assumes "\<And>toks sp. after types_kept sp (parse toks sp)"
  shows "after types_kept sp (import_module parse (morphl_infer_type_of_ast ops n) args path source sp)"
proof -
  let ?h = "tc_types (sp_types sp)" and ?t = "tc_interns (sp_types sp)" and ?dg = "tc_diagnostics (sp_types sp)"
  obtain tokens t where l: "lexer_tokenize path source ?t = (tokens, t)" by (rule prod.exhaust)
  note t = tokenize_grown [OF l]
  obtain m h where i: "scoped_parser_init (Some path) ?h t ?dg = (m, h)" by (rule prod.exhaust)
  show ?thesis
  proof (cases "tokens = None \<or> m = None")
    case True
    then show ?thesis
      using l i t put_shared_kept [of sp h t ?dg] init_grows(1) [of "Some path" ?h t ?dg h]
        types_kept_trans [OF put_interns_kept [OF t] report_kept]
      by (auto simp: after_def import_module_def split: option.split)
  next
    case False
    then obtain toks x where x: "tokens = Some toks" "m = Some x" by auto
    have "types_kept sp sp'"
      if p: "parse toks x = Some (root, m1)"
        and u: "use_module (morphl_infer_type_of_ast ops n) args root
          (put_shared (tc_types (sp_types m1)) (tc_interns (sp_types m1)) (tc_diagnostics (sp_types m1)) sp)
          = Some (args', sp')" for root m1 args' sp'
    proof -
      have "types_kept x m1" using assms p by (auto simp: after_def)
      then have "arena_grows (tc_types (sp_types x)) (tc_types (sp_types m1))"
        "grown (tc_interns (sp_types x)) (tc_interns (sp_types m1))"
        by (simp_all add: types_kept_def kept_grows)
      then have "arena_grows ?h (tc_types (sp_types m1))" "grown ?t (tc_interns (sp_types m1))"
        using init_grows(2) i x t arena_grows_trans grown_trans by blast+
      from types_kept_trans [OF put_shared_kept [OF this]] u use_module_kept show ?thesis
        unfolding after_def by blast
    qed
    then show ?thesis
      using l i x by (fastforce simp: after_def import_module_def split: bind_splits)
  qed
qed

lemma run_pp_action_kept:
  assumes "\<And>toks sp. after types_kept sp (parse toks sp)"
  shows "runs_keep types_kept (run_pp_action n (morphl_infer_type_of_ast ops n) parse)"
  unfolding runs_keep_def
proof (intro allI)
  fix f args sp
  have acts: "after types_kept sp (act_on_types r sp)"
    if "\<And>t args' c'. r = Some (t, args', c') \<Longrightarrow> context_held (sp_types sp) c'" for r
    using that by (auto simp: after_def act_on_types_def types_kept_def dest!: held_kept)
  note actions = held.simple_actions_kept [OF infer_held] held.while_action_kept [OF _ infer_held]
    held.decl_action_kept [OF _ infer_held] held.func_action_kept [OF _ infer_held]
  have "after types_kept sp (pp_action_import parse (morphl_infer_type_of_ast ops n) args sp)"
    using import_module_kept [OF assms] report_kept
    by (auto simp: after_def pp_action_import_def split: option.split bind_splits prod.splits)
  moreover have "after types_kept sp (pp_action_syntax args sp)"
    using replace_grammar_kept by (auto simp: after_def pp_action_syntax_def split: option.split)
  ultimately show "after types_kept sp (run_pp_action n (morphl_infer_type_of_ast ops n) parse f args sp)"
    unfolding run_pp_action_def Let_def
    by (cases f) (auto intro!: acts intro: actions
        simp: pp_action_prop_def silent_def pp_action_mut_def pp_action_const_def)
qed

lemma parse_expr_kept:
  assumes "scoped_parse_expr ops depth toks sp = Some (node, r, sp')"
  shows "types_kept sp sp'"
proof -
  have "grown t t'" if p: "builtin_parse_expr ops toks t = (x, r, t')" for t x t' and r :: "token list"
  proof -
    obtain ks t1 where k: "intern_kinds t = (ks, t1)" by (rule prod.exhaust)
    have "grown t t1" using intern_kinds_sound [OF k] by (auto simp: grown_def)
    moreover have "grown t1 t'"
      using p k parse_keeps_names(1) by (auto simp: builtin_parse_expr_def grown_def split: option.splits)
    ultimately show ?thesis by (rule grown_trans)
  qed
  with assms show ?thesis
    by (auto simp: scoped_parse_expr_def intro: report_kept put_interns_kept split: if_splits list.splits prod.splits)
qed

interpretation contexts: parsing_frame types_kept ops n for ops n
proof
  show "types_kept sp (put_interns (snd (interns_intern (tc_interns (sp_types sp)) s)) sp)" for sp s
    by (intro put_interns_kept grown_intern) (rule prod.collapse [symmetric])
qed (use run_pp_action_kept in \<open>auto intro: types_kept_trans report_kept parse_expr_kept grammar_statements_kept
    typing_pass_kept\<close>)

section \<open>Properties\<close>

text \<open>C39: reading a program keeps the type context.  Whatever the program, with its directives, custom
  grammars and modules, and whether it is read or not: there is a current scope afterwards, every array
  has the room for its elements and the arena is within its capacity; the intern table keeps its
  invariant and every symbol its name.  As long as the arena has room for one more scope at the end,
  every scope, block, function, file and global that reading, preprocessing and typing entered is left
  again: the enclosing scopes hold the same variables and forward declarations, \<open>$this\<close> and the
  current function are those before, \<open>$file\<close> and \<open>$global\<close> too once they are set, and what the
  current scope declared it still declares.\<close>

theorem parsing_keeps_context:
  assumes "scoped_parse_ast ops n k tokens sp = Some (root, sp')"
    and "ctx = sp_types sp" and "ctx' = sp_types sp'"
    and "context_ok ctx" and "table_inv (tc_interns ctx)"
  shows "context_ok ctx' \<and> table_inv (tc_interns ctx') \<and>
    (\<forall>sy name. interns_lookup (tc_interns ctx) sy = Some name \<longrightarrow> interns_lookup (tc_interns ctx') sy = Some name) \<and>
    (scope_room ctx' \<longrightarrow>
      length (tc_scopes ctx') = length (tc_scopes ctx) \<and>
      map scope_content (tl (tc_scopes ctx')) = map scope_content (tl (tc_scopes ctx)) \<and>
      type_context_get_this ctx' = type_context_get_this ctx \<and>
      type_context_get_current_func ctx' = type_context_get_current_func ctx \<and>
      (type_context_get_file ctx \<noteq> None \<longrightarrow> type_context_get_file ctx' = type_context_get_file ctx) \<and>
      (type_context_get_global ctx \<noteq> None \<longrightarrow> type_context_get_global ctx' = type_context_get_global ctx) \<and>
      (\<forall>x. type_context_check_duplicate_var ctx x \<longrightarrow> type_context_check_duplicate_var ctx' x))"
proof -
  have k: "context_kept ctx ctx'"
    using contexts.parse_ast_kept [of sp ops n k tokens] assms(1-3) by (auto simp: after_def types_kept_def)
  have start: "0 < tc_scope_capacity ctx" "tc_scopes ctx \<noteq> []"
    using assms(4) by (cases "tc_scopes ctx"; auto simp: context_ok_def)+
  have "scope_room ctx' \<Longrightarrow> same_enclosing ctx ctx'"
    using k start by (simp add: context_kept_def settled_def)
  moreover have "table_inv (tc_interns ctx')" "table_le (tc_interns ctx) (tc_interns ctx')" "context_ok ctx'"
    using k assms(4,5) by (simp_all add: context_kept_def symbols_kept_def stays_ok_def)
  ultimately show ?thesis
    using same_enclosing_length [of ctx ctx'] same_enclosing_gets [of ctx ctx'] start(2)
    by (auto simp: same_enclosing_def intro: table_le_lookup)
qed

lemma sample_parsed_room:
  "\<exists>root sp'. scoped_parse_ast [] 0 1 [] sample_parser = Some (root, sp') \<and> scope_room (sp_types sp')"
  by (simp add: scoped_parse_program_def scoped_parse_block_contents_def scoped_statements.simps
      scoped_parser_push_grammar_def scoped_parser_pop_grammar_def put_interns_def sample_parser_def
      program_root_def typing_pass_def morphl_infer_type_of_ast.simps inference_defs sample_defs
      type_context_check_unresolved_forwards_def scope_room_def sizes initial_capacities
      sample_context_def type_context_new_def context_sizes_def Let_def split: prod.split)

theorem parsing_keeps_context_witness:
  "\<exists>root sp'. scoped_parse_ast [] 0 1 [] sample_parser = Some (root, sp') \<and>
     context_ok (sp_types sp') \<and> length (tc_scopes (sp_types sp')) = 1"
proof -
  obtain root sp' where r: "scoped_parse_ast [] 0 1 [] sample_parser = Some (root, sp')" "scope_room (sp_types sp')"
    using sample_parsed_room by blast
  have "sp_types sample_parser = sample_context" by (simp add: sample_parser_def)
  then show ?thesis
    using parsing_keeps_context [OF r(1) refl refl] sample_context_ok r by (auto simp: sample_context_fields)
qed

end
