(* ===== verification/C_Backend.thy ===== *)
theory C_Backend
  imports Type_Context Operators "HOL-Library.Monad_Syntax"
begin

text \<open>
  The back end that writes C, \<open>src/backend/c.c\<close>.

  A pointer to a type is a cell of the type arena; the table of compound types, whose entries are
  copies of types in C, holds the cells they are copied from.  Calls of the type equality and of the
  type printer may use \<open>n\<close> levels, and so may the walk over a compound type.  No result means that
  this was not enough or that the C code reads or writes out of bounds: an entry of the table that
  was counted and not stored, a name that overflows its buffer, a \<open>NULL\<close> member type.

  Opening, writing and closing the output file are taken to succeed.
\<close>

section \<open>The output buffer\<close>

record emit_buffer =
  eb_data :: string
  eb_capacity :: nat

text \<open>\<open>emit_append\<close> and \<open>emit_append_n\<close>: the text is cut to what fits, short of one byte.\<close>

definition emit_append_n :: "emit_buffer \<Rightarrow> str \<Rightarrow> emit_buffer" where
  "emit_append_n out text0 =
     (case text0 of
        None \<Rightarrow> out
      | Some s \<Rightarrow>
          if length (eb_data out) \<ge> eb_capacity out then out
          else out\<lparr>eb_data := eb_data out @ take (eb_capacity out - length (eb_data out) - 1) s\<rparr>)"

definition emit_append :: "emit_buffer \<Rightarrow> string \<Rightarrow> emit_buffer" where
  "emit_append out text0 = emit_append_n out (Some (c_str text0))"

fun emit_indent :: "emit_buffer \<Rightarrow> nat \<Rightarrow> emit_buffer" where
  "emit_indent out 0 = out"
| "emit_indent out (Suc k) = emit_indent (emit_append out ''  '') k"

section \<open>The table of compound types\<close>

definition SIZEOF_TYPE_ENTRY :: nat where "SIZEOF_TYPE_ENTRY = 64"

record type_array =
  tr_arena :: arena
  tr_entries :: "(nat \<times> nat) list"
  tr_count :: nat
  tr_printed :: "string list"

definition type_array_init :: "nat \<Rightarrow> type_array" where
  "type_array_init initial_capacity =
     \<lparr>tr_arena = arena_init (initial_capacity * SIZEOF_TYPE_ENTRY), tr_entries = [], tr_count = 0,
      tr_printed = []\<rparr>"

definition type_array_get :: "type_array \<Rightarrow> nat \<Rightarrow> (nat \<times> nat) option" where
  "type_array_get arr i = (if i < length (tr_entries arr) then Some (tr_entries arr ! i) else None)"

text \<open>An entry is stored if it fits and counted in any case.\<close>

definition type_array_push :: "nat \<Rightarrow> nat \<Rightarrow> type_array \<Rightarrow> type_array" where
  "type_array_push name p arr =
     (case arena_push (tr_arena arr) SIZEOF_TYPE_ENTRY of
        None \<Rightarrow> arr\<lparr>tr_count := tr_count arr + 1\<rparr>
      | Some (_, a) \<Rightarrow>
          arr\<lparr>tr_arena := a, tr_entries := tr_entries arr @ [(name, p)], tr_count := tr_count arr + 1\<rparr>)"

definition type_array_print :: "string \<Rightarrow> type_array \<Rightarrow> type_array" where
  "type_array_print line arr = arr\<lparr>tr_printed := tr_printed arr @ [line]\<rparr>"

text \<open>What the code does for a member of a compound type; \<open>place\<close> is where it was found, if that is printed.\<close>

definition check_member ::
    "nat \<Rightarrow> type_context \<Rightarrow> (tref \<Rightarrow> type_array \<Rightarrow> type_array option) \<Rightarrow> string option \<Rightarrow> nat \<Rightarrow> tref \<Rightarrow>
     type_array \<Rightarrow> type_array option" where
  "check_member n ctx check place name t arr =
     (if morphl_type_is_primitive (tc_types ctx) t then Some arr
      else do {
        arr1 \<leftarrow> (case place of
                   None \<Rightarrow> Some arr
                 | Some where_found \<Rightarrow>
                     map_option (\<lambda>s. type_array_print
                         (''Detected non-primitive type in '' @ where_found @ ''; type: '' @ c_str s) arr)
                       (morphl_type_to_string n (tc_types ctx) (tc_interns ctx) t));
        p \<leftarrow> t;
        arr2 \<leftarrow> check t arr1;
        Some (type_array_push name p arr2)
      })"

fun check_all ::
    "(nat \<Rightarrow> tref \<Rightarrow> type_array \<Rightarrow> type_array option) \<Rightarrow> (nat \<times> tref) list \<Rightarrow> type_array \<Rightarrow> type_array option" where
  "check_all member [] arr = Some arr"
| "check_all member ((name, t) # ms) arr = Option.bind (member name t arr) (check_all member ms)"

fun compound_type_check :: "nat \<Rightarrow> type_context \<Rightarrow> tref \<Rightarrow> type_array \<Rightarrow> type_array option" where
  "compound_type_check 0 ctx t arr = None"
| "compound_type_check (Suc n) ctx t arr =
     (let member = (\<lambda>place. check_member n ctx (compound_type_check n ctx) (Some place)) in
      if morphl_type_is_primitive (tc_types ctx) t then Some arr
      else do {
        p \<leftarrow> t;
        (case cell (tc_types ctx) p of
           MORPHL_TYPE_BLOCK members \<Rightarrow> check_all (member ''block'') members arr
         | MORPHL_TYPE_GROUP elems \<Rightarrow> check_all (member ''group'') (map (\<lambda>e. (0, e)) elems) arr
         | MORPHL_TYPE_FUNC params ret \<Rightarrow>
             (case params of
                [] \<Rightarrow> None
              | param # _ \<Rightarrow> Option.bind (member ''func param'' 0 param arr) (member ''func return'' 0 ret))
         | _ \<Rightarrow> Some arr)
      })"

definition ctx_type_check :: "nat \<Rightarrow> type_context \<Rightarrow> type_array \<Rightarrow> type_array option" where
  "ctx_type_check n ctx arr =
     (case tc_file_type ctx of
        None \<Rightarrow> Some arr
      | Some p \<Rightarrow>
          (case cell (tc_types ctx) p of
             MORPHL_TYPE_BLOCK members \<Rightarrow> check_all (check_member n ctx (compound_type_check n ctx) None) members arr
           | _ \<Rightarrow> None))"

section \<open>Names of C types\<close>

text \<open>\<open>snprintf\<close> with \<open>%.*s\<close> of a name, into a buffer of \<open>size_\<close> bytes.\<close>

definition entry_name :: "intern_table \<Rightarrow> nat \<Rightarrow> nat \<Rightarrow> string" where
  "entry_name interns name i =
     (if name \<noteq> 0 then c_str (str_bytes (interns_lookup interns name)) else ''anon'' @ nat_str i)"

fun kind_suffix :: "type_data \<Rightarrow> string" where
  "kind_suffix (MORPHL_TYPE_BLOCK fs) = ''_block_t''"
| "kind_suffix (MORPHL_TYPE_GROUP es) = ''_group_t''"
| "kind_suffix (MORPHL_TYPE_FUNC ps r) = ''_func_t''"
| "kind_suffix _ = ''''"

fun primitive_ctype :: "type_data \<Rightarrow> string" where
  "primitive_ctype MORPHL_TYPE_INT = ''long long''"
| "primitive_ctype MORPHL_TYPE_FLOAT = ''double''"
| "primitive_ctype MORPHL_TYPE_BOOL = ''bool''"
| "primitive_ctype MORPHL_TYPE_STRING = ''const char *''"
| "primitive_ctype _ = ''void''"

text \<open>The first entry from \<open>i\<close> on with an equal type: its position and name.\<close>

function find_entry ::
    "(tref \<Rightarrow> bool option) \<Rightarrow> type_array \<Rightarrow> nat \<Rightarrow> (nat \<times> nat) option option" where
  "find_entry equal_to arr i =
     (if i \<ge> tr_count arr then Some None
      else do {
        (name, p) \<leftarrow> type_array_get arr i;
        eq \<leftarrow> equal_to (Some p);
        if eq then Some (Some (i, name)) else find_entry equal_to arr (i + 1)
      })"
  by pat_completeness auto
termination
  by (relation "measure (\<lambda>(equal_to, arr, i). tr_count arr - i)") auto

declare find_entry.simps [simp del]

definition get_ctype_name :: "nat \<Rightarrow> type_context \<Rightarrow> type_array \<Rightarrow> tref \<Rightarrow> string option" where
  "get_ctype_name n ctx arr t =
     (if morphl_type_is_primitive (tc_types ctx) t
      then Option.bind t (\<lambda>p. Some (primitive_ctype (cell (tc_types ctx) p)))
      else do {
        found \<leftarrow> find_entry (\<lambda>e. morphl_type_equals n (tc_types ctx) e t) arr 0;
        (case found of
           None \<Rightarrow> Some ''void''
         | Some (i, name) \<Rightarrow> do {
             p \<leftarrow> t;
             let buffer = take 63 (entry_name (tc_interns ctx) name i) @ kind_suffix (cell (tc_types ctx) p);
             if length buffer > 63 then None else Some buffer
           })
      })"

section \<open>Type signatures\<close>

definition emit_field :: "nat \<Rightarrow> type_context \<Rightarrow> type_array \<Rightarrow> tref \<Rightarrow> string \<Rightarrow> emit_buffer \<Rightarrow> emit_buffer option" where
  "emit_field n ctx arr t name out = do {
     ctype \<leftarrow> get_ctype_name n ctx arr t;
     Some (emit_append (emit_append_n (emit_append (emit_append_n (emit_indent out 1) (Some ctype)) '' '') (Some name))
       ([CHR '';''] @ [CHR 0x0A]))
   }"

fun emit_fields :: "nat \<Rightarrow> type_context \<Rightarrow> type_array \<Rightarrow> (tref \<times> string) list \<Rightarrow> emit_buffer \<Rightarrow> emit_buffer option" where
  "emit_fields n ctx arr [] out = Some out"
| "emit_fields n ctx arr ((t, name) # fs) out =
     Option.bind (emit_field n ctx arr t name out) (emit_fields n ctx arr fs)"

definition emit_struct ::
    "nat \<Rightarrow> type_context \<Rightarrow> type_array \<Rightarrow> (tref \<times> string) list \<Rightarrow> string \<Rightarrow> emit_buffer \<Rightarrow> emit_buffer option" where
  "emit_struct n ctx arr members type_name out =
     map_option (\<lambda>out1. emit_append (emit_append (emit_append out1 ''} '') type_name)
         ([CHR '';''] @ [CHR 0x0A, CHR 0x0A]))
       (emit_fields n ctx arr members (emit_append out (''typedef struct {'' @ [CHR 0x0A])))"

fun emit_params :: "nat \<Rightarrow> type_context \<Rightarrow> type_array \<Rightarrow> bool \<Rightarrow> tref list \<Rightarrow> emit_buffer \<Rightarrow> emit_buffer option" where
  "emit_params n ctx arr first [] out = Some out"
| "emit_params n ctx arr first (t # ts) out = do {
     ctype \<leftarrow> get_ctype_name n ctx arr t;
     emit_params n ctx arr False ts (emit_append_n (if first then out else emit_append out '', '') (Some ctype))
   }"

text \<open>The names of elements are \<open>_0\<close>, \<open>_1\<close> and so on, after two blanks.\<close>

definition element_names :: "tref list \<Rightarrow> (tref \<times> string) list" where
  "element_names ts = zip ts (map (\<lambda>j. '' _'' @ nat_str j) [0..<length ts])"

definition emit_signature ::
    "nat \<Rightarrow> type_context \<Rightarrow> type_array \<Rightarrow> nat \<Rightarrow> nat \<times> nat \<Rightarrow> emit_buffer \<Rightarrow> emit_buffer option" where
  "emit_signature n ctx arr i entry out =
     (case entry of
        (name, p) \<Rightarrow>
          (let label = entry_name (tc_interns ctx) name i in
           case cell (tc_types ctx) p of
             MORPHL_TYPE_BLOCK members \<Rightarrow>
               emit_struct n ctx arr
                 (map (\<lambda>(sy, t). (t, str_bytes (interns_lookup (tc_interns ctx) sy))) members)
                 (take 63 (label @ ''_block_t'')) out
           | MORPHL_TYPE_GROUP elems \<Rightarrow>
               emit_struct n ctx arr (element_names elems) (take 95 (label @ ''_group_t'')) out
           | MORPHL_TYPE_FUNC params ret \<Rightarrow> do {
               ctype \<leftarrow> get_ctype_name n ctx arr ret;
               out1 \<leftarrow> emit_params n ctx arr True params
                 (emit_append (emit_append (emit_append (emit_append_n (emit_append out ''typedef '') (Some ctype)) '' (*'')
                   (take 95 (label @ ''_func_t''))) '')('');
               Some (emit_append out1 ('');'' @ [CHR 0x0A, CHR 0x0A]))
             }
           | _ \<Rightarrow> Some out))"

function emit_type_signature ::
    "nat \<Rightarrow> type_context \<Rightarrow> type_array \<Rightarrow> nat \<Rightarrow> emit_buffer \<Rightarrow> emit_buffer option" where
  "emit_type_signature n ctx arr i out =
     (if i \<ge> tr_count arr then Some out
      else do {
        entry \<leftarrow> type_array_get arr i;
        out1 \<leftarrow> emit_signature n ctx arr i entry out;
        emit_type_signature n ctx arr (i + 1) out1
      })"
  by pat_completeness auto
termination
  by (relation "measure (\<lambda>(n, ctx, arr, i, out). tr_count arr - i)") auto

declare emit_type_signature.simps [simp del]
section \<open>Expressions\<close>

text \<open>What the emitter of expressions reads: the registry, the context and the table of types.\<close>

record c_env =
  ce_ops :: "operator_row list"
  ce_levels :: nat
  ce_types :: type_context
  ce_type_arr :: type_array

text \<open>\<open>strncmp\<close> of two names of one length.\<close>

definition same_name :: "str \<Rightarrow> str \<Rightarrow> bool" where
  "same_name a b \<longleftrightarrow> str_len a = str_len b \<and> c_str (str_bytes a) = c_str (str_bytes b)"

function find_named :: "intern_table \<Rightarrow> type_array \<Rightarrow> str \<Rightarrow> nat \<Rightarrow> nat option option" where
  "find_named interns arr ident i =
     (if i \<ge> tr_count arr then Some None
      else do {
        (name, p) \<leftarrow> type_array_get arr i;
        if same_name (interns_lookup interns name) ident then Some (Some p)
        else find_named interns arr ident (i + 1)
      })"
  by pat_completeness auto
termination
  by (relation "measure (\<lambda>(interns, arr, ident, i). tr_count arr - i)") auto

declare find_named.simps [simp del]

definition literal_ctype :: "str \<Rightarrow> string" where
  "literal_ctype v =
     (if str_len v > 0 \<and> hd (str_bytes v) = CHR 0x22 then ''const char *''
      else if list_ex (\<lambda>c. c = CHR ''.'' \<or> c = CHR ''e'' \<or> c = CHR ''E'') (str_bytes v) then ''double''
      else ''long long'')"

text \<open>\<open>Some None\<close> is the \<open>NULL\<close> pointer.\<close>

definition find_decl_type :: "c_env \<Rightarrow> ast \<Rightarrow> string option option" where
  "find_decl_type env node =
     (if n_kind node = AST_LITERAL then Some (Some (literal_ctype (n_value node)))
      else if n_kind node = AST_IDENT then do {
        found \<leftarrow> find_named (tc_interns (ce_types env)) (ce_type_arr env) (n_value node) 0;
        (case found of
           None \<Rightarrow> Some None
         | Some p \<Rightarrow> map_option (\<lambda>s. Some (take 63 (c_str s)))
             (get_ctype_name (ce_levels env) (ce_types env) (ce_type_arr env) (Some p)))
      }
      else Some None)"

definition infer_decl_type :: "c_env \<Rightarrow> ast \<Rightarrow> string option" where
  "infer_decl_type env node =
     (if n_kind node = AST_LITERAL then Some (literal_ctype (n_value node))
      else map_option (\<lambda>t. case t of None \<Rightarrow> ''void'' | Some name \<Rightarrow> name) (find_decl_type env node))"

text \<open>The type before the name of a declaration: none when neither the value nor the name has one.\<close>

definition decl_ctype :: "c_env \<Rightarrow> ast \<Rightarrow> ast \<Rightarrow> str option" where
  "decl_ctype env name_node init_node = do {
     t \<leftarrow> infer_decl_type env init_node;
     if t = ''void'' then find_decl_type env name_node else Some (Some t)
   }"

definition operator_mappings :: "(operator \<times> string) list" where
  "operator_mappings =
     [(OP_SYNTAX, []), (OP_IMPORT, []), (OP_PROP, []), (OP_CALL, []), (OP_FUNC, []), (OP_IF, []),
      (OP_WHILE, []), (OP_SET, []), (OP_DECL, []), (OP_RET, ''return $$''), (OP_MEMBER, ''($$.$$)''),
      (OP_MUT, []), (OP_CONST, []), (OP_INLINE, []), (OP_THIS, []), (OP_FILE, []), (OP_GLOBAL, []),
      (OP_IDTSTR, []), (OP_STRTID, []), (OP_FORWARD, []), (OP_BREAK, ''break''),
      (OP_CONTINUE, ''continue''), (OP_GROUP, []), (OP_BLOCK, []),
      (OP_ADD, ''($$ + $$)''), (OP_SUB, ''($$ - $$)''), (OP_MUL, ''($$ * $$)''), (OP_DIV, ''($$ / $$)''),
      (OP_MOD, ''($$ % $$)''), (OP_REM, ''($$ % $$)''), (OP_FADD, ''($$ + $$)''), (OP_FSUB, ''($$ - $$)''),
      (OP_FMUL, ''($$ * $$)''), (OP_FDIV, ''($$ / $$)''), (OP_EQ, ''($$ == $$)''), (OP_NEQ, ''($$ != $$)''),
      (OP_LT, ''($$ < $$)''), (OP_GT, ''($$ > $$)''), (OP_LTE, ''($$ <= $$)''), (OP_GTE, ''($$ >= $$)''),
      (OP_AND, ''($$ && $$)''), (OP_OR, ''($$ || $$)''), (OP_NOT, ''(!$$)''), (OP_BAND, ''($$ & $$)''),
      (OP_BOR, ''($$ | $$)''), (OP_BXOR, ''($$ ^ $$)''), (OP_BNOT, ''(~$$)''), (OP_LSHIFT, ''($$ << $$)''),
      (OP_RSHIFT, ''($$ >> $$)'')]"

definition c_repr_fmt :: "operator_row list \<Rightarrow> nat \<Rightarrow> string option" where
  "c_repr_fmt ops op =
     map_option snd (find (\<lambda>m. operator_sym_from_enum ops (fst m) = op) operator_mappings)"

text \<open>
  The four loops over a node: itself, a group (with commas from the second element on), the lines of a
  block, and the format of an operator with the children it still has.
\<close>

lemma size_children: "size_list size (n_children node) < size node"
  by (cases node) simp

function emit_node_expr :: "c_env \<Rightarrow> nat \<Rightarrow> ast \<Rightarrow> emit_buffer \<Rightarrow> emit_buffer option"
  and emit_group_expr :: "c_env \<Rightarrow> nat \<Rightarrow> bool \<Rightarrow> ast list \<Rightarrow> emit_buffer \<Rightarrow> emit_buffer option"
  and emit_lines :: "c_env \<Rightarrow> nat \<Rightarrow> ast list \<Rightarrow> emit_buffer \<Rightarrow> emit_buffer option"
  and emit_fmt :: "c_env \<Rightarrow> nat \<Rightarrow> string \<Rightarrow> ast list \<Rightarrow> emit_buffer \<Rightarrow> emit_buffer option" where
  "emit_node_expr env level (AstNode kind op v cs cap fn row col) out =
     (case kind of
        AST_LITERAL \<Rightarrow> Some (emit_append_n out v)
      | AST_IDENT \<Rightarrow> Some (emit_append_n out v)
      | AST_BUILTIN \<Rightarrow>
          (case c_repr_fmt (ce_ops env) op of
             None \<Rightarrow> Some (emit_append out ''/* Unknown builtin operator */'')
           | Some fmt \<Rightarrow> emit_fmt env level fmt cs out)
      | AST_CALL \<Rightarrow>
          (case cs of
             [] \<Rightarrow> Some (emit_append (emit_append (emit_append out ''/* missing call target */'') ''('') '')'')
           | [f] \<Rightarrow> map_option (\<lambda>out1. emit_append (emit_append out1 ''('') '')'') (emit_node_expr env level f out)
           | f # arg # _ \<Rightarrow> do {
               out1 \<leftarrow> emit_node_expr env level f out;
               out2 \<leftarrow> (if n_kind arg = AST_GROUP then emit_group_expr env level True (n_children arg) (emit_append out1 ''('')
                        else emit_node_expr env level arg (emit_append out1 ''(''));
               Some (emit_append out2 '')'')
             })
      | AST_GROUP \<Rightarrow>
          map_option (\<lambda>out1. emit_append out1 '')'') (emit_group_expr env level True cs (emit_append out ''(''))
      | AST_SET \<Rightarrow>
          (case cs of
             target # rhs # _ \<Rightarrow> do {
               out1 \<leftarrow> emit_node_expr env level target (emit_append out ''('');
               out2 \<leftarrow> emit_node_expr env level rhs (emit_append out1 '' = '');
               Some (emit_append out2 '')'')
             }
           | _ \<Rightarrow> Some (emit_append out ''0''))
      | AST_DECL \<Rightarrow>
          (case cs of
             name # rhs # _ \<Rightarrow>
               if n_kind rhs = AST_BUILTIN \<and> n_op rhs = operator_sym_from_enum (ce_ops env) OP_FORWARD
               then Some out
               else do {
                 ctype \<leftarrow> decl_ctype env name rhs;
                 emit_node_expr env level name
                   (emit_append (case ctype of None \<Rightarrow> out | Some t \<Rightarrow> emit_append out t) '' '')
               }
           | _ \<Rightarrow> Some (emit_append out ''/* malformed decl */''))
      | AST_FUNC \<Rightarrow> Some (emit_append out ''/* func */0'')
      | AST_IF \<Rightarrow> Some (emit_append out ''/* if */0'')
      | AST_FILE \<Rightarrow>
          map_option (\<lambda>out1. emit_append (emit_indent out1 level) ''}'')
            (emit_lines env (level + 1) cs (emit_append out (''{'' @ [CHR 0x0A])))
      | AST_BLOCK \<Rightarrow>
          map_option (\<lambda>out1. emit_append (emit_indent out1 level) ''}'')
            (emit_lines env (level + 1) cs (emit_append out (''{'' @ [CHR 0x0A])))
      | _ \<Rightarrow> Some (emit_append out ''0''))"
| "emit_group_expr env level first [] out = Some out"
| "emit_group_expr env level first (c # cs) out =
     Option.bind (emit_node_expr env level c (if first then out else emit_append out '', ''))
       (emit_group_expr env level False cs)"
| "emit_lines env level [] out = Some out"
| "emit_lines env level (c # cs) out = do {
     out1 \<leftarrow> emit_node_expr env level c (emit_indent out level);
     emit_lines env level cs (emit_append (emit_append out1 '';'') [CHR 0x0A])
   }"
| "emit_fmt env level [] cs out = Some out"
| "emit_fmt env level (f # fmt) cs out =
     (if f = CHR ''$'' \<and> fmt \<noteq> [] \<and> hd fmt = CHR ''$''
      then (case cs of
              [] \<Rightarrow> emit_fmt env level (tl fmt) [] (emit_append out ''/* Missing child */'')
            | c # rest \<Rightarrow> Option.bind (emit_node_expr env level c out) (emit_fmt env level (tl fmt) rest))
      else emit_fmt env level fmt cs (emit_append_n out (Some [f])))"
  by pat_completeness auto
termination
proof (relation "measures
    [\<lambda>x. case x of
        Inl (Inl (env, level, node, out)) \<Rightarrow> size node
      | Inl (Inr (env, level, first, cs, out)) \<Rightarrow> size_list size cs
      | Inr (Inl (env, level, cs, out)) \<Rightarrow> size_list size cs
      | Inr (Inr (env, level, fmt, cs, out)) \<Rightarrow> size_list size cs,
     \<lambda>x. case x of Inr (Inr (env, level, fmt, cs, out)) \<Rightarrow> length fmt | _ \<Rightarrow> 0]", goal_cases)
qed (auto intro: less_le_trans [OF size_children])

declare emit_node_expr.simps [simp del] emit_group_expr.simps [simp del] emit_lines.simps [simp del]
  emit_fmt.simps [simp del]
section \<open>The program\<close>

definition EMIT_CAPACITY :: nat where "EMIT_CAPACITY = 65536"

definition INITIAL_TYPE_ENTRIES :: nat where "INITIAL_TYPE_ENTRIES = 4"

text \<open>\<open>emit_line\<close> of an expression.\<close>

definition emit_line :: "c_env \<Rightarrow> nat \<Rightarrow> ast \<Rightarrow> string \<Rightarrow> emit_buffer \<Rightarrow> emit_buffer option" where
  "emit_line env level node extra out =
     map_option (\<lambda>out1. emit_append (emit_append out1 extra) [CHR 0x0A])
       (emit_node_expr env level node (emit_indent out level))"

definition emit_main :: "c_env \<Rightarrow> ast option \<Rightarrow> emit_buffer \<Rightarrow> emit_buffer option" where
  "emit_main env tree out =
     map_option (\<lambda>out1. emit_append out1 (''  return 0;'' @ [CHR 0x0A] @ ''}'' @ [CHR 0x0A]))
       (let out0 = emit_append out (''int main(void) {'' @ [CHR 0x0A]) in
        case tree of
          None \<Rightarrow> Some out0
        | Some node \<Rightarrow> emit_line env 1 node (if n_kind node = AST_BLOCK then [] else '';'') out0)"

text \<open>The file the back end writes and the lines it prints, with a buffer of \<open>capacity\<close> bytes.\<close>

definition c_program ::
    "operator_row list \<Rightarrow> nat \<Rightarrow> nat \<Rightarrow> ast option \<Rightarrow> type_context \<Rightarrow> (string \<times> string list) option" where
  "c_program ops n capacity tree ctx = do {
     let out = emit_append \<lparr>eb_data = [], eb_capacity = capacity\<rparr> (''#include <stdio.h>'' @ [CHR 0x0A, CHR 0x0A]);
     arr \<leftarrow> (if tree = None then Some (type_array_init INITIAL_TYPE_ENTRIES)
            else ctx_type_check n ctx (type_array_init INITIAL_TYPE_ENTRIES));
     out1 \<leftarrow> (if tree = None then Some out else emit_type_signature n ctx arr 0 out);
     out2 \<leftarrow> emit_main \<lparr>ce_ops = ops, ce_levels = n, ce_types = ctx, ce_type_arr = arr\<rparr> tree out1;
     Some (eb_data out2, tr_printed arr)
   }"

definition morphl_backend_func_c ::
    "operator_row list \<Rightarrow> nat \<Rightarrow> ast option \<Rightarrow> type_context \<Rightarrow> (string \<times> string list) option" where
  "morphl_backend_func_c ops n tree ctx = c_program ops n EMIT_CAPACITY tree ctx"

section \<open>Truncation\<close>

text \<open>A buffer of \<open>capacity\<close> bytes that was given \<open>s\<close>.\<close>

definition cut :: "nat \<Rightarrow> string \<Rightarrow> emit_buffer" where
  "cut capacity s = \<lparr>eb_data = take (capacity - 1) s, eb_capacity = capacity\<rparr>"

lemma emit_append_n_cut:
  assumes "0 < capacity"
  shows "emit_append_n (cut capacity s) v = cut capacity (s @ str_bytes v)"
proof (cases v)
  case (Some t)
  have "min (length s) (capacity - 1) < capacity" using assms by simp
  moreover have "capacity - min (length s) (capacity - 1) - 1 = capacity - 1 - length s" by simp
  ultimately show ?thesis using Some by (simp add: emit_append_n_def cut_def min_def)
qed (simp add: emit_append_n_def)

text \<open>
  What an emitter does to a buffer: \<open>writes f\<close> if \<open>f\<close> appends a text that does not depend on the
  buffer, or has no value whatever the buffer.
\<close>

definition writes :: "(emit_buffer \<Rightarrow> emit_buffer option) \<Rightarrow> bool" where
  "writes f \<longleftrightarrow>
     (\<forall>capacity s. 0 < capacity \<longrightarrow> f (cut capacity s) = None) \<or>
     (\<exists>t. \<forall>capacity s. 0 < capacity \<longrightarrow> f (cut capacity s) = Some (cut capacity (s @ t)))"

lemma writes_cases:
  assumes "writes f"
  obtains (none) "\<And>capacity s. 0 < capacity \<Longrightarrow> f (cut capacity s) = None"
    | (text_) t where "\<And>capacity s. 0 < capacity \<Longrightarrow> f (cut capacity s) = Some (cut capacity (s @ t))"
  using assms unfolding writes_def by blast

lemma writes_none [simp]: "writes (\<lambda>out. None)"
  by (simp add: writes_def)

lemma writes_some: "writes (\<lambda>out. Some out)"
  unfolding writes_def by (metis append_Nil2)

lemma writes_bind:
  assumes "writes f" and "writes g"
  shows "writes (\<lambda>out. Option.bind (f out) g)"
  using assms(1)
proof (cases rule: writes_cases)
  case f: (text_ t)
  from assms(2) show ?thesis
  proof (cases rule: writes_cases)
    case (text_ u)
    with f show ?thesis unfolding writes_def by (intro disjI2 exI [of _ "t @ u"]) simp
  qed (use f in \<open>simp add: writes_def\<close>)
qed (simp add: writes_def)

text \<open>Emitters that always have a value.\<close>

definition appends :: "(emit_buffer \<Rightarrow> emit_buffer) \<Rightarrow> bool" where
  "appends f \<longleftrightarrow> writes (\<lambda>out. Some (f out))"

lemma appends_basic:
  "appends (\<lambda>out. out)" "appends (\<lambda>out. emit_append_n out v)" "appends (\<lambda>out. emit_append out t)"
proof -
  show n: "appends (\<lambda>out. emit_append_n out v)" for v
    unfolding appends_def writes_def by (intro disjI2 exI [of _ "str_bytes v"]) (simp add: emit_append_n_cut)
  show "appends (\<lambda>out. emit_append out t)" unfolding emit_append_def by (rule n)
qed (simp add: appends_def writes_some)

lemma writes_map: "writes f \<Longrightarrow> appends g \<Longrightarrow> writes (\<lambda>out. map_option g (f out))"
  using writes_bind [of f "\<lambda>out. Some (g out)"] by (simp add: appends_def map_conv_bind_option comp_def)

lemma writes_comp: "writes f \<Longrightarrow> appends g \<Longrightarrow> writes (\<lambda>out. f (g out))"
  using writes_bind [of "\<lambda>out. Some (g out)" f] by (simp add: appends_def)

lemma appends_comp: "appends f \<Longrightarrow> appends g \<Longrightarrow> appends (\<lambda>out. f (g out))"
  unfolding appends_def by (rule writes_comp [of "\<lambda>out. Some (f out)"]) (simp_all add: appends_def)

lemma appends_indent: "appends (\<lambda>out. emit_indent out k)"
proof (induction k)
  case (Suc k)
  then show ?case using appends_comp [OF Suc appends_basic(3)] by simp
qed (simp add: appends_basic)
lemmas appends_intros = appends_basic appends_indent appends_comp

text \<open>The equations of the emitters, under \<open>writes\<close>.\<close>

lemma writes_eq: "(\<And>out. f out = g out) \<Longrightarrow> writes f = writes g"
  by (simp add: writes_def)

lemmas write_node = writes_eq [OF emit_node_expr.simps]
lemmas write_group = writes_eq [OF emit_group_expr.simps(1)] writes_eq [OF emit_group_expr.simps(2)]
lemmas write_lines = writes_eq [OF emit_lines.simps(1)] writes_eq [OF emit_lines.simps(2)]
lemmas write_fmt = writes_eq [OF emit_fmt.simps(1)] writes_eq [OF emit_fmt.simps(2)]

text \<open>The loops over children that write.\<close>

definition children_write :: "c_env \<Rightarrow> ast list \<Rightarrow> bool" where
  "children_write env cs \<longleftrightarrow> (\<forall>c\<in>set cs. \<forall>level. writes (emit_node_expr env level c))"

lemma children_write_Cons:
  "children_write env (c # cs) \<longleftrightarrow> (\<forall>level. writes (emit_node_expr env level c)) \<and> children_write env cs"
  by (simp add: children_write_def)

lemma group_writes: "children_write env cs \<Longrightarrow> writes (emit_group_expr env level first cs)"
proof (induction cs arbitrary: first)
  case (Cons c cs)
  have c: "writes (emit_node_expr env level c)" and cs: "writes (emit_group_expr env level False cs)"
    using Cons by (simp_all add: children_write_Cons)
  have "appends (\<lambda>out. if first then out else emit_append out '', '')"
    by (cases first) (simp_all add: appends_basic)
  from writes_bind [OF writes_comp [OF c this] cs] show ?case unfolding write_group .
qed (simp add: write_group writes_some)

lemma lines_write: "children_write env cs \<Longrightarrow> writes (emit_lines env level cs)"
proof (induction cs)
  case (Cons c cs)
  have c: "writes (emit_node_expr env level c)" and cs: "writes (emit_lines env level cs)"
    using Cons by (simp_all add: children_write_Cons)
  have "appends (\<lambda>out. emit_append (emit_append out '';'') [CHR 0x0A])"
    by (rule appends_comp [OF appends_basic(3) appends_basic(3)])
  from writes_bind [OF writes_comp [OF c appends_indent] writes_comp [OF cs this]] show ?case
    unfolding write_lines .
qed (simp add: write_lines writes_some)

lemma fmt_writes: "children_write env cs \<Longrightarrow> writes (emit_fmt env level fmt cs)"
proof (induction "length fmt" arbitrary: fmt cs rule: less_induct)
  case less
  show ?case
  proof (cases fmt)
    case (Cons f rest)
    show ?thesis
    proof (cases "f = CHR ''$'' \<and> rest \<noteq> [] \<and> hd rest = CHR ''$''")
      case True
      then have short: "length (tl rest) < length fmt" using Cons by (cases rest) simp_all
      show ?thesis
      proof (cases cs)
        case Nil
        then show ?thesis
          unfolding Cons write_fmt if_P [OF True]
          using writes_comp [OF less.hyps [OF short less.prems] appends_basic(3)] by simp
      next
        case cs: (Cons c ds)
        then have "writes (emit_node_expr env level c)" "writes (emit_fmt env level (tl rest) ds)"
          using less.prems less.hyps [OF short] by (simp_all add: children_write_Cons)
        then show ?thesis unfolding Cons write_fmt if_P [OF True] using cs by (simp add: writes_bind)
      qed
    next
      case False
      have "writes (emit_fmt env level rest cs)" using less.hyps [OF _ less.prems, of rest] Cons by simp
      then show ?thesis
        unfolding Cons write_fmt if_not_P [OF False] by (rule writes_comp) (rule appends_basic(2))
    qed
  qed (simp add: write_fmt writes_some)
qed

text \<open>A call, an assignment and a declaration, given that their parts write.\<close>

lemma call_writes:
  assumes "writes (emit_node_expr env level f)"
    and "writes (emit_node_expr env level arg)" and "children_write env (n_children arg)"
  shows "writes (\<lambda>out. Option.bind (emit_node_expr env level f out) (\<lambda>out1.
     Option.bind (if n_kind arg = AST_GROUP then emit_group_expr env level True (n_children arg) (emit_append out1 ''('')
                  else emit_node_expr env level arg (emit_append out1 ''(''))
       (\<lambda>out2. Some (emit_append out2 '')''))))"
proof -
  have "writes (\<lambda>out1. if n_kind arg = AST_GROUP then emit_group_expr env level True (n_children arg) (emit_append out1 ''('')
                  else emit_node_expr env level arg (emit_append out1 ''(''))"
    using assms(2,3)
    by (cases "n_kind arg = AST_GROUP") (auto intro!: writes_comp [OF _ appends_basic(3)] group_writes)
  from writes_bind [OF assms(1) writes_bind [OF this]] show ?thesis
    using appends_basic(3) by (simp add: appends_def)
qed

lemma set_writes:
  assumes "writes (emit_node_expr env level target)" and "writes (emit_node_expr env level rhs)"
  shows "writes (\<lambda>out. Option.bind (emit_node_expr env level target (emit_append out ''('')) (\<lambda>out1.
     Option.bind (emit_node_expr env level rhs (emit_append out1 '' = '')) (\<lambda>out2. Some (emit_append out2 '')''))))"
  by (rule writes_bind [OF writes_comp [OF assms(1) appends_basic(3)]
        writes_bind [OF writes_comp [OF assms(2) appends_basic(3)]]])
    (rule appends_basic(3) [unfolded appends_def])

lemma decl_writes:
  assumes "writes (emit_node_expr env level name)"
  shows "writes (\<lambda>out. if skip then Some out else Option.bind ctype (\<lambda>t. emit_node_expr env level name
     (emit_append (case t of None \<Rightarrow> out | Some u \<Rightarrow> emit_append out u) '' '')))"
proof (cases ctype)
  case (Some t)
  have "appends (\<lambda>out. emit_append (case t of None \<Rightarrow> out | Some u \<Rightarrow> emit_append out u) '' '')"
    by (cases t) (simp_all add: appends_basic appends_comp [OF appends_basic(3) appends_basic(3)])
  from writes_comp [OF assms this] show ?thesis using Some writes_some by (cases skip) simp_all
qed (cases skip; simp add: writes_some)

lemma text_writes [simp]: "writes (\<lambda>out. Some (emit_append out t))"
  "writes (\<lambda>out. Some (emit_append (emit_append (emit_append out t) u) v))"
  using appends_basic(3) appends_comp [OF appends_basic(3) appends_comp [OF appends_basic(3) appends_basic(3)]]
  by (simp_all add: appends_def)

lemma enclosed_writes:
  assumes "writes f"
  shows "writes (\<lambda>out. map_option (\<lambda>out1. emit_append out1 u) (f (emit_append out t)))"
    and "writes (\<lambda>out. map_option (\<lambda>out1. emit_append (emit_indent out1 k) u) (f (emit_append out t)))"
    and "writes (\<lambda>out. map_option (\<lambda>out1. emit_append (emit_append out1 u) v) (f out))"
  by (rule writes_map [OF writes_comp [OF assms appends_basic(3)] appends_basic(3)]
      writes_map [OF writes_comp [OF assms appends_basic(3)] appends_comp [OF appends_basic(3) appends_indent]]
      writes_map [OF assms appends_comp [OF appends_basic(3) appends_basic(3)]])+

text \<open>Every node writes.\<close>

lemma node_writes_level:
  assumes "children_write env cs" and "\<And>c. c \<in> set cs \<Longrightarrow> children_write env (n_children c)"
  shows "writes (emit_node_expr env level (AstNode kind op v cs cap fn row col))"
proof (cases kind)
  case AST_CALL
  show ?thesis
  proof (cases cs)
    case Nil
    then show ?thesis unfolding write_node using AST_CALL by simp
  next
    case (Cons f args)
    then show ?thesis
      unfolding write_node using AST_CALL assms
      by (cases args) (auto simp: children_write_Cons enclosed_writes(3) call_writes)
  qed
next
  case AST_SET
  consider "cs = []" | c where "cs = [c]" | target rhs rest where "cs = target # rhs # rest"
    by (cases cs; cases "tl cs") auto
  then show ?thesis
    unfolding write_node using AST_SET assms(1)
    by cases (auto simp: children_write_Cons set_writes)
next
  case AST_DECL
  consider "cs = []" | c where "cs = [c]" | name rhs rest where "cs = name # rhs # rest"
    by (cases cs; cases "tl cs") auto
  then show ?thesis
    unfolding write_node using AST_DECL assms(1)
    by cases (auto simp: children_write_Cons decl_writes writes_some)
next
  case AST_BUILTIN
  then show ?thesis
    unfolding write_node using fmt_writes [OF assms(1)] by (cases "c_repr_fmt (ce_ops env) op") simp_all
qed (unfold write_node, use assms(1) appends_basic(2) in \<open>simp_all add: appends_def enclosed_writes group_writes lines_write\<close>)

lemma node_writes: "(\<forall>level. writes (emit_node_expr env level node)) \<and> children_write env (n_children node)"
proof (induction node)
  case (AstNode kind op v cs cap fn row col)
  then have "children_write env cs" "\<And>c. c \<in> set cs \<Longrightarrow> children_write env (n_children c)"
    by (auto simp: children_write_def)
  then show ?case by (simp add: node_writes_level)
qed

text \<open>The type signatures write.\<close>

lemma fields_write: "writes (emit_fields n ctx arr ms)"
proof (induction ms)
  case (Cons m ms)
  obtain t name where m: "m = (t, name)" by (rule prod.exhaust)
  have line: "appends (\<lambda>out. emit_append (emit_append_n (emit_append (emit_append_n (emit_indent out 1) v) '' '') w) u)"
    for u v w
    by (rule appends_comp [OF appends_basic(3) appends_comp [OF appends_basic(2) appends_comp [OF appends_basic(3)
      appends_comp [OF appends_basic(2) appends_indent]]]])
  have "writes (\<lambda>out. emit_field n ctx arr t name out)"
    using line by (cases "get_ctype_name n ctx arr t") (simp_all add: emit_field_def appends_def)
  from writes_bind [OF this Cons] show ?case
    unfolding m by (rule iffD2 [OF writes_eq [OF emit_fields.simps(2)]])
qed (simp add: writes_some cong: writes_eq)

lemma struct_writes: "writes (emit_struct n ctx arr ms type_name)"
proof -
  have "appends (\<lambda>out. emit_append (emit_append (emit_append out a) b) c)" for a b c
    by (rule appends_comp [OF appends_basic(3) appends_comp [OF appends_basic(3) appends_basic(3)]])
  from writes_map [OF writes_comp [OF fields_write appends_basic(3)] this] show ?thesis
    by (rule iffD2 [OF writes_eq [OF emit_struct_def]])
qed

lemma params_write: "writes (emit_params n ctx arr first ts)"
proof (induction ts arbitrary: first)
  case (Cons t ts)
  have "appends (\<lambda>out. emit_append_n (if first then out else emit_append out '', '') v)" for v
    by (cases first) (simp_all add: appends_basic appends_comp [OF appends_basic(2) appends_basic(3)])
  note w = writes_comp [OF Cons this]
  show ?case
    by (rule iffD2 [OF writes_eq [OF emit_params.simps(2)]]) (cases "get_ctype_name n ctx arr t"; simp add: w)
qed (simp add: writes_some cong: writes_eq)

lemma signature_writes: "writes (emit_signature n ctx arr i entry)"
proof -
  obtain name p where e: "entry = (name, p)" by (rule prod.exhaust)
  have head: "appends (\<lambda>out. emit_append (emit_append (emit_append (emit_append_n (emit_append out a) v) b) c) d)" for a v b c d
    by (rule appends_comp [OF appends_basic(3) appends_comp [OF appends_basic(3) appends_comp [OF appends_basic(3)
      appends_comp [OF appends_basic(2) appends_basic(3)]]]])
  have "writes (\<lambda>out. Option.bind (emit_params n ctx arr True ps
      (emit_append (emit_append (emit_append (emit_append_n (emit_append out a) v) b) c) d)) (\<lambda>out1. Some (emit_append out1 u)))"
    for ps a v b c d u
    by (rule writes_bind [OF writes_comp [OF params_write head] text_writes(1)])
  then have "writes (\<lambda>out. Option.bind ctype (\<lambda>ct. Option.bind (emit_params n ctx arr True ps
      (emit_append (emit_append (emit_append (emit_append_n (emit_append out a) (Some ct)) b) c) d))
      (\<lambda>out1. Some (emit_append out1 u))))" for ctype ps a b c d u
    by (cases ctype) simp_all
  then show ?thesis
    unfolding e
    by (intro iffD2 [OF writes_eq [OF emit_signature_def]])
      (cases "cell (tc_types ctx) p"; simp add: struct_writes writes_some Let_def)
qed

lemma type_signature_writes: "writes (emit_type_signature n ctx arr i)"
proof (induction "tr_count arr - i" arbitrary: i rule: less_induct)
  case less
  show ?case
  proof (cases "i \<ge> tr_count arr")
    case False
    have "writes (emit_type_signature n ctx arr (i + 1))" using less [of "i + 1"] False by simp
    note w = writes_bind [OF signature_writes this]
    show ?thesis
      by (rule iffD2 [OF writes_eq [OF emit_type_signature.simps]])
        (cases "type_array_get arr i"; simp add: False w [simplified])
  qed (simp add: writes_some writes_eq [OF emit_type_signature.simps])
qed

lemma main_writes: "writes (emit_main env tree)"
proof (rule iffD2 [OF writes_eq [OF emit_main_def]], rule writes_map [OF _ appends_basic(3)])
  show "writes (\<lambda>out. let out0 = emit_append out (''int main(void) {'' @ [CHR 0x0A]) in
        case tree of
          None \<Rightarrow> Some out0
        | Some node \<Rightarrow> emit_line env 1 node (if n_kind node = AST_BLOCK then [] else '';'') out0)"
  proof (cases tree)
    case (Some node)
    have "writes (\<lambda>out. emit_line env 1 node extra out)" for extra
      unfolding emit_line_def
      using node_writes by (intro enclosed_writes(3) writes_comp [OF _ appends_indent]) blast
    from writes_comp [OF this appends_basic(3)] show ?thesis using Some by simp
  qed simp
qed

section \<open>Properties\<close>

subsection \<open>What the buffer loses\<close>

definition initial_text :: string where "initial_text = ''#include <stdio.h>'' @ [CHR 0x0A, CHR 0x0A]"

lemma emit_append_cut: "0 < capacity \<Longrightarrow> emit_append (cut capacity s) t = cut capacity (s @ c_str t)"
  by (simp add: emit_append_def emit_append_n_cut)

lemma empty_cut: "\<lparr>eb_data = [], eb_capacity = capacity\<rparr> = cut capacity []"
  by (simp add: cut_def)

lemma c_program_text:
  obtains (none) "\<And>capacity. 0 < capacity \<Longrightarrow> c_program ops n capacity tree ctx = None"
    | (text_) s ls where "\<And>capacity. 0 < capacity \<Longrightarrow> c_program ops n capacity tree ctx = Some (take (capacity - 1) s, ls)"
proof (cases "if tree = None then Some (type_array_init INITIAL_TYPE_ENTRIES)
    else ctx_type_check n ctx (type_array_init INITIAL_TYPE_ENTRIES)")
  case None
  then show ?thesis by (intro that(1)) (simp add: c_program_def Let_def)
next
  case (Some arr)
  define f where "f = (\<lambda>out. Option.bind (if tree = None then Some out else emit_type_signature n ctx arr 0 out)
    (emit_main \<lparr>ce_ops = ops, ce_levels = n, ce_types = ctx, ce_type_arr = arr\<rparr> tree))"
  have "writes (\<lambda>out. if tree = None then Some out else emit_type_signature n ctx arr 0 out)"
    using type_signature_writes writes_some by (cases tree) simp_all
  then have "writes f" unfolding f_def by (rule writes_bind) (rule main_writes)
  moreover have program: "c_program ops n capacity tree ctx =
      map_option (\<lambda>out. (eb_data out, tr_printed arr)) (f (cut capacity (c_str initial_text)))" if "0 < capacity" for capacity
    using emit_append_cut [OF that, of "[]" initial_text] Some
    by (simp add: c_program_def Let_def f_def empty_cut initial_text_def map_conv_bind_option comp_def)
  ultimately show ?thesis
  proof (cases rule: writes_cases)
    case none
    then show ?thesis using program by (intro that(1)) simp
  next
    case (text_ t)
    then show ?thesis using program by (intro that(2)) (simp add: cut_def del: take_append)
  qed
qed

text \<open>C38: the output is cut silently.  The file the C back end writes, and whether it has a result, is that
  of the same emitter with any buffer of at least its size, cut to the first 65535 bytes: what does not fit is
  dropped and nothing else changes, and the back end reports success all the same.\<close>

theorem c_output_cut:
  assumes "EMIT_CAPACITY \<le> capacity"
  shows "morphl_backend_func_c ops n tree ctx =
    map_option (\<lambda>(s, ls). (take 65535 s, ls)) (c_program ops n capacity tree ctx)"
proof (cases ops n tree ctx rule: c_program_text)
  case (text_ s ls)
  have "min 65535 (capacity - 1) = (65535 :: nat)" using assms by (simp add: EMIT_CAPACITY_def)
  then show ?thesis
    using text_ [of capacity] text_ [of EMIT_CAPACITY] assms
    by (simp add: morphl_backend_func_c_def EMIT_CAPACITY_def)
qed (use assms in \<open>simp add: morphl_backend_func_c_def EMIT_CAPACITY_def\<close>)

text \<open>A file that is one literal of 70000 digits: its end is missing.\<close>

definition long_literal :: ast where
  "long_literal = AstNode AST_LITERAL 0 (Some (replicate 70000 (CHR ''1''))) [] 0 None 1 1"

lemma long_program:
  assumes "tc_file_type ctx = None" and "0 < capacity"
  shows "c_program [] 0 capacity (Some long_literal) ctx =
    Some (take (capacity - 1) (initial_text @ ''int main(void) {'' @ [CHR 0x0A] @ ''  '' @ replicate 70000 (CHR ''1'') @ '';'' @
      [CHR 0x0A] @ ''  return 0;'' @ [CHR 0x0A] @ ''}'' @ [CHR 0x0A]), [])"
proof -
  have "emit_node_expr env level long_literal (cut capacity s) = Some (cut capacity (s @ replicate 70000 (CHR ''1'')))" for env level s
    using emit_append_n_cut [OF assms(2)] by (simp add: long_literal_def emit_node_expr.simps)
  moreover have "n_kind long_literal = AST_LITERAL" by (simp add: long_literal_def)
  ultimately show ?thesis
    using assms(1) unfolding c_program_def
    by (simp add: empty_cut emit_append_cut [OF assms(2)] ctx_type_check_def type_array_init_def
        emit_type_signature.simps emit_main_def emit_line_def Let_def del: take_append) (simp add: cut_def initial_text_def c_str_def del: take_append)
qed

theorem c_output_cut_witness:
  "\<exists>s. morphl_backend_func_c [] 0 (Some long_literal) sample_context = Some (s, []) \<and>
     length s = 65535 \<and> last s = CHR ''1''"
proof -
  have "tc_file_type sample_context = None"
    by (simp add: sample_context_def type_context_new_def context_sizes_def arena_alloc_def arena_push_def arena_init_def
      initial_capacities sizes)
  from c_output_cut [of 100000 "[]" 0 "Some long_literal" sample_context] long_program [OF this, of 100000]
  show ?thesis by (simp add: EMIT_CAPACITY_def initial_text_def last_append)
qed

subsection \<open>Operator expressions\<close>

text \<open>An operand and the application of a binary operator, as trees and as C text.\<close>

datatype 'o c_expr = C_atom string | C_binary 'o "'o c_expr" "'o c_expr"

definition c_operator :: "operator \<Rightarrow> string option" where
  "c_operator = map_of
     [(OP_ADD, ''+''), (OP_SUB, ''-''), (OP_MUL, ''*''), (OP_DIV, ''/''), (OP_MOD, ''%''), (OP_REM, ''%''),
      (OP_FADD, ''+''), (OP_FSUB, ''-''), (OP_FMUL, ''*''), (OP_FDIV, ''/''), (OP_EQ, ''==''), (OP_NEQ, ''!=''),
      (OP_LT, ''<''), (OP_GT, ''>''), (OP_LTE, ''<=''), (OP_GTE, ''>=''), (OP_AND, ''&&''), (OP_OR, ''||''),
      (OP_BAND, ''&''), (OP_BOR, ''|''), (OP_BXOR, ''^''), (OP_LSHIFT, ''<<''), (OP_RSHIFT, ''>>'')]"

text \<open>
  The trees that stand for such an expression: leaves are identifiers and literals, and the fields the
  back end does not read, such as the token kind a parser leaves in a literal, are arbitrary.
\<close>

inductive expr_tree :: "operator_row list \<Rightarrow> ast \<Rightarrow> operator c_expr \<Rightarrow> bool" for ops where
  leaf: "kind = AST_IDENT \<or> kind = AST_LITERAL \<Longrightarrow>
    expr_tree ops (AstNode kind op (Some w) cs cap fn row col) (C_atom w)"
| binary: "expr_tree ops x a \<Longrightarrow> expr_tree ops y b \<Longrightarrow>
    expr_tree ops (AstNode AST_BUILTIN (operator_sym_from_enum ops e) v [x, y] cap fn row col) (C_binary e a b)"

fun expr_text :: "string c_expr \<Rightarrow> string" where
  "expr_text (C_atom w) = w"
| "expr_text (C_binary y a b) = ''('' @ expr_text a @ '' '' @ y @ '' '' @ expr_text b @ '')''"

text \<open>
  The texts of the lexer's identifiers, numbers and strings: a quoted string without a quote inside,
  blanks and parentheses included, or a word without any of these.
\<close>

definition is_operand :: "string \<Rightarrow> bool" where
  "is_operand w \<longleftrightarrow> w \<noteq> [] \<and>
     (if hd w = CHR 0x22
      then 2 \<le> length w \<and> last w = CHR 0x22 \<and> CHR 0x22 \<notin> set (butlast (tl w))
      else list_all (\<lambda>c. c \<noteq> CHR '' '' \<and> c \<noteq> CHR ''('' \<and> c \<noteq> CHR '')'' \<and> c \<noteq> CHR 0x22) w)"

text \<open>Expressions whose leaves are operands and whose operators satisfy \<open>P\<close>.\<close>

fun c_expr_ok :: "('o \<Rightarrow> bool) \<Rightarrow> 'o c_expr \<Rightarrow> bool" where
  "c_expr_ok P (C_atom w) \<longleftrightarrow> is_operand w"
| "c_expr_ok P (C_binary y a b) \<longleftrightarrow> P y \<and> c_expr_ok P a \<and> c_expr_ok P b"

abbreviation c_binary :: "operator \<Rightarrow> bool" where "c_binary e \<equiv> c_operator e \<noteq> None"

text \<open>What the C operators say of a tree.\<close>

definition in_c :: "operator c_expr \<Rightarrow> string c_expr" where
  "in_c = map_c_expr (\<lambda>e. the (c_operator e))"

lemma c_repr_fmt_registered:
  assumes "registry_inv ops t"
  shows "c_repr_fmt ops (operator_sym_from_enum ops e) = map_of operator_mappings e"
proof -
  have "operator_sym_from_enum ops e' = operator_sym_from_enum ops e \<longleftrightarrow> e' = e" for e'
    using sym_from_enum [OF assms, of e] sym_from_enum [OF assms, of e'] by (metis option.inject)
  then have "c_repr_fmt ops (operator_sym_from_enum ops e) = map_option snd (find (\<lambda>m. fst m = e) operator_mappings)"
    by (simp add: c_repr_fmt_def)
  also have "map_option snd (find (\<lambda>m. fst m = e) ms) = map_of ms e" for ms :: "(operator \<times> string) list"
    by (induction ms) auto
  finally show ?thesis .
qed

lemma c_operator_fmt:
  assumes "c_operator e = Some y"
  shows "map_of operator_mappings e = Some (''($$ '' @ y @ '' $$)'')" and "CHR ''$'' \<notin> set y" and "CHR '' '' \<notin> set y"
proof -
  note tables = c_operator_def operator_mappings_def
  show "map_of operator_mappings e = Some (''($$ '' @ y @ '' $$)'')" using assms by (cases e) (auto simp: tables)
  show "CHR ''$'' \<notin> set y" "CHR '' '' \<notin> set y" using assms by (cases e; auto simp: c_operator_def)+
qed

lemma emit_fmt_plain:
  "0 < capacity \<Longrightarrow> CHR ''$'' \<notin> set y \<Longrightarrow>
     emit_fmt env level (y @ fmt) cs (cut capacity s) = emit_fmt env level fmt cs (cut capacity (s @ y))"
  by (induction y arbitrary: s) (auto simp: emit_fmt.simps emit_append_n_cut)

lemma emit_fmt_child:
  "emit_fmt env level (''$$'' @ fmt) (c # cs) out = Option.bind (emit_node_expr env level c out) (emit_fmt env level fmt cs)"
  by (simp add: emit_fmt.simps)

lemma emit_expr:
  assumes "registry_inv (ce_ops env) t" and "0 < capacity" and "expr_tree (ce_ops env) node e"
  shows "set_c_expr e \<subseteq> dom c_operator \<Longrightarrow>
    emit_node_expr env level node (cut capacity s) = Some (cut capacity (s @ expr_text (in_c e)))"
  using assms(3)
proof (induction arbitrary: s rule: expr_tree.induct)
  case (leaf kind op w cs cap fn row col)
  then show ?case by (auto simp: emit_node_expr.simps emit_append_n_cut assms(2) in_c_def)
next
  case (binary n1 a n2 b e v cap fn row col)
  then obtain y where y: "c_operator e = Some y" by auto
  note fmt = c_operator_fmt [OF y]
  have f: "''($$ '' @ y @ '' $$)'' = ''('' @ ''$$'' @ ('' '' @ y @ '' '') @ ''$$'' @ '')'' @ []" by simp
  have plain: "CHR ''$'' \<notin> set (''('')" "CHR ''$'' \<notin> set ('' '' @ y @ '' '')" "CHR ''$'' \<notin> set ('')'')"
    using fmt(2) by simp_all
  have sub: "emit_node_expr env level n1 (cut capacity s) = Some (cut capacity (s @ expr_text (in_c a)))"
    "emit_node_expr env level n2 (cut capacity s) = Some (cut capacity (s @ expr_text (in_c b)))" for s
    using binary by simp_all
  have "emit_node_expr env level
      (AstNode AST_BUILTIN (operator_sym_from_enum (ce_ops env) e) v [n1, n2] cap fn row col) (cut capacity s) =
      emit_fmt env level (''('' @ ''$$'' @ ('' '' @ y @ '' '') @ ''$$'' @ '')'' @ []) [n1, n2] (cut capacity s)"
    using f by (simp add: emit_node_expr.simps c_repr_fmt_registered [OF assms(1)] fmt(1))
  also have "\<dots> = Some (cut capacity (s @ expr_text (in_c (C_binary e a b))))"
    unfolding emit_fmt_plain [OF assms(2) plain(1)] emit_fmt_child
    by (simp only: sub bind.bind_lunit emit_fmt_plain [OF assms(2) plain(2)] emit_fmt_child
        emit_fmt_plain [OF assms(2) plain(3)] emit_fmt.simps)
      (simp add: in_c_def y)
  finally show ?case .
qed

text \<open>An operand and an operator end at the first character that cannot belong to them.\<close>

definition ends_operand :: "string \<Rightarrow> bool" where
  "ends_operand r \<longleftrightarrow> (\<exists>r'. r = '' '' @ r' \<or> r = '')'' @ r')"

lemma take_word:
  assumes "list_all P w" and "list_all P w'" and "r \<noteq> []" "\<not> P (hd r)" and "r' \<noteq> []" "\<not> P (hd r')"
    and "w @ r = w' @ r'"
  shows "w = w' \<and> r = r'"
proof -
  have "takeWhile P (v @ q) = v" if "list_all P v" "q \<noteq> []" "\<not> P (hd q)" for v q
    using that by (cases q) (auto simp: takeWhile_append list_all_iff)
  with assms show ?thesis by (metis append_same_eq same_append_eq)
qed

lemma operand_first: "is_operand w \<Longrightarrow> w @ r \<noteq> CHR ''('' # s"
  by (cases w) (auto simp: is_operand_def)

lemma quoted_operand:
  assumes "is_operand w" and "hd w = CHR 0x22"
  obtains body where "w = CHR 0x22 # body @ [CHR 0x22]" and "CHR 0x22 \<notin> set body"
proof
  from assms show "CHR 0x22 \<notin> set (butlast (tl w))" by (simp add: is_operand_def)
  from assms obtain v where v: "w = CHR 0x22 # v" "v \<noteq> []" "last v = CHR 0x22"
    by (cases w) (auto simp: is_operand_def split: if_splits)
  then show "w = CHR 0x22 # butlast (tl w) @ [CHR 0x22]" by (metis append_butlast_last_id list.sel(3))
qed

lemma operand_unique:
  assumes "is_operand w" and "is_operand w'" and "ends_operand r" and "ends_operand r'" and "w @ r = w' @ r'"
  shows "w = w' \<and> r = r'"
proof (cases "hd w = CHR 0x22")
  case True
  have "w \<noteq> []" "w' \<noteq> []" using assms(1,2) by (simp_all add: is_operand_def)
  then have "hd w' = CHR 0x22" using True assms(5) by (metis hd_append2)
  from quoted_operand [OF assms(2) this] obtain b' where b': "w' = CHR 0x22 # b' @ [CHR 0x22]" "CHR 0x22 \<notin> set b'" .
  from quoted_operand [OF assms(1) True] obtain b where b: "w = CHR 0x22 # b @ [CHR 0x22]" "CHR 0x22 \<notin> set b" .
  have "b = b' \<and> CHR 0x22 # r = CHR 0x22 # r'"
    by (rule take_word [of "\<lambda>c. c \<noteq> CHR 0x22"]) (use b b' assms(5) in \<open>auto simp: list_all_iff\<close>)
  with b b' show ?thesis by simp
next
  case False
  have "w \<noteq> []" "w' \<noteq> []" using assms(1,2) by (simp_all add: is_operand_def)
  then have "hd w' \<noteq> CHR 0x22" using False assms(5) by (metis hd_append2)
  with False assms take_word [of "\<lambda>c. c \<noteq> CHR '' '' \<and> c \<noteq> CHR ''('' \<and> c \<noteq> CHR '')'' \<and> c \<noteq> CHR 0x22" w w' r r']
  show ?thesis by (auto simp: is_operand_def ends_operand_def)
qed

lemma expr_text_unique:
  "c_expr_ok ((\<notin>) (CHR '' '') \<circ> set) e \<Longrightarrow> c_expr_ok ((\<notin>) (CHR '' '') \<circ> set) e' \<Longrightarrow>
     ends_operand r \<Longrightarrow> ends_operand r' \<Longrightarrow> expr_text e @ r = expr_text e' @ r' \<Longrightarrow> e = e' \<and> r = r'"
proof (induction e arbitrary: e' r r')
  case (C_atom w)
  show ?case
  proof (cases e')
    case w': (C_atom w')
    with C_atom operand_unique [of w w' r r'] show ?thesis by simp
  qed (use C_atom operand_first in auto)
next
  case (C_binary y a b)
  note ok = C_binary.prems
  show ?case
  proof (cases e')
    case (C_atom w')
    then have "is_operand w'" "w' @ r' = CHR ''('' # expr_text a @ '' '' @ y @ '' '' @ expr_text b @ '')'' @ r" using ok by simp_all
    then show ?thesis using operand_first by blast
  next
    case e': (C_binary y' a' b')
    have "expr_text a @ '' '' @ y @ '' '' @ expr_text b @ '')'' @ r = expr_text a' @ '' '' @ y' @ '' '' @ expr_text b' @ '')'' @ r'"
      using ok(5) e' by simp
    with C_binary.IH(1) [of a' "'' '' @ y @ '' '' @ expr_text b @ '')'' @ r" "'' '' @ y' @ '' '' @ expr_text b' @ '')'' @ r'"] ok(1,2) e'
    have a: "a = a'" and y: "y @ '' '' @ expr_text b @ '')'' @ r = y' @ '' '' @ expr_text b' @ '')'' @ r'"
      by (auto simp: ends_operand_def)
    have "list_all (\<lambda>c. c \<noteq> CHR '' '') y" "list_all (\<lambda>c. c \<noteq> CHR '' '') y'"
      using ok(1,2) e' by (auto simp: list_all_iff)
    from take_word [OF this _ _ _ _ y] have "y = y'" and "expr_text b @ '')'' @ r = expr_text b' @ '')'' @ r'" by simp_all
    with C_binary.IH(2) [of b' "'')'' @ r" "'')'' @ r'"] ok(1,2) e' a show ?thesis by (auto simp: ends_operand_def)
  qed
qed

lemma expr_text_inj:
  assumes "c_expr_ok c_binary e" and "c_expr_ok c_binary e'"
  shows "expr_text (in_c e) = expr_text (in_c e') \<longleftrightarrow> in_c e = in_c e'"
proof -
  have "c_expr_ok ((\<notin>) (CHR '' '') \<circ> set) (in_c e)" if "c_expr_ok c_binary e" for e
    using that by (induction e) (auto simp: in_c_def dest: c_operator_fmt(3))
  from expr_text_unique [OF this [OF assms(1)] this [OF assms(2)], of "'' ''" "'' ''"] show ?thesis
    by (auto simp: ends_operand_def)
qed

lemma c_expr_okD: "c_expr_ok c_binary e \<Longrightarrow> set_c_expr e \<subseteq> dom c_operator"
  by (induction e) auto

text \<open>C15: the C back end keeps the shape of operator expressions.  Take, after a successful initialisation of
  the registry, a tree of binary operators whose leaves are identifiers and literals of any text, as any of
  the parsers makes it.  It is emitted as its fully parenthesised infix text, cut to the buffer, at any
  indentation and however the back end found the types.  Where the leaves have texts of the lexer's identifiers,
  numbers or strings and the texts of two trees fit the buffer, they are the same only for trees that
  differ in nothing but operators C writes alike: the float and the integer ones, and \<open>$mod\<close> and
  \<open>$rem\<close>.\<close>

theorem c_expressions_keep_shape:
  assumes "operator_registry_init kBuiltinOps t = (True, ce_ops env, t')" and "reachable_table t"
    and "expr_tree (ce_ops env) node e" and "set_c_expr e \<subseteq> dom c_operator" and "0 < capacity"
  shows "emit_node_expr env level node (cut capacity s) = Some (cut capacity (s @ expr_text (in_c e))) \<and>
    (\<forall>node' e'. expr_tree (ce_ops env) node' e' \<and> c_expr_ok c_binary e \<and> c_expr_ok c_binary e' \<and>
       length s + length (expr_text (in_c e)) < capacity \<and> length s + length (expr_text (in_c e')) < capacity \<longrightarrow>
       (emit_node_expr env level node (cut capacity s) = emit_node_expr env level node' (cut capacity s) \<longleftrightarrow>
        in_c e = in_c e'))"
proof -
  have reg: "registry_inv (ce_ops env) t'" using registry_init_inv [OF assms(1) reachable_table_inv [OF assms(2)]] by simp
  have fits: "cut capacity (s @ u) = cut capacity (s @ v) \<longleftrightarrow> u = v"
    if "length s + length u < capacity" "length s + length v < capacity" for u v
    using that by (simp add: cut_def)
  show ?thesis
    using emit_expr [OF reg assms(5,3,4), of level s] emit_expr [OF reg assms(5) _ c_expr_okD, of _ _ level s]
      expr_text_inj fits by (auto simp del: append_assoc)
qed

text \<open>\<open>$mul $add 1 x 3\<close>, with kinds of tokens in its literals.\<close>

definition sample_expr :: "operator_row list \<Rightarrow> ast" where
  "sample_expr ops = AstNode AST_BUILTIN (operator_sym_from_enum ops OP_MUL) None
     [AstNode AST_BUILTIN (operator_sym_from_enum ops OP_ADD) None
        [AstNode AST_LITERAL 2 (Some ''1'') [] 0 None 0 0, AstNode AST_IDENT 0 (Some ''x'') [] 0 None 0 0] 2 None 0 0,
      AstNode AST_LITERAL 2 (Some ''3'') [] 0 None 0 0] 2 None 0 0"

theorem c_expressions_keep_shape_witness:
  "\<exists>ops t'. operator_registry_init kBuiltinOps interns_new = (True, ops, t') \<and>
     (\<forall>env. ce_ops env = ops \<longrightarrow>
       emit_node_expr env 0 (sample_expr ops) (cut 100 []) = Some (cut 100 ''((1 + x) * 3)''))"
proof -
  obtain ops t' where r: "operator_registry_init kBuiltinOps interns_new = (True, ops, t')" by (rule registry_init_new)
  let ?e = "C_binary OP_MUL (C_binary OP_ADD (C_atom ''1'') (C_atom ''x'')) (C_atom ''3'')"
  show ?thesis
  proof (intro exI conjI allI impI)
    fix env :: c_env
    assume "ce_ops env = ops"
    with r have i: "operator_registry_init kBuiltinOps interns_new = (True, ce_ops env, t')" by simp
    have "expr_tree (ce_ops env) (sample_expr ops) ?e"
      unfolding sample_expr_def \<open>ce_ops env = ops\<close> by (intro expr_tree.intros) simp_all
    moreover have "set_c_expr ?e \<subseteq> dom c_operator" by (simp add: c_operator_def)
    ultimately show "emit_node_expr env 0 (sample_expr ops) (cut 100 []) = Some (cut 100 ''((1 + x) * 3)'')"
      using c_expressions_keep_shape [OF i rt_new, of "sample_expr ops" ?e 100 0 "[]"]
      by (simp add: c_operator_def in_c_def)
  qed (rule r)
qed

end
