(* ===== verification/Driver.thy ===== *)
theory Driver
  imports Scoped_Laws C_Backend Vm_Correct
begin

text \<open>
  The command line tool: \<open>src/main.c\<close>, the choice of the back end in \<open>src/backend/backend.c\<close> and
  \<open>type_context_print_debug\<close> of \<open>src/typing/type_context.c\<close>, which prints what the tool found.

  The file system is the map of the diagnostics; the text of an address, which \<open>%p\<close> prints, is the
  parameter \<open>address\<close>.  Type equality and type printing may use \<open>n\<close> levels, imports may nest \<open>k\<close>
  levels.  Opening and writing the output file succeeds.  The
  branches for an intern table that cannot be allocated do not occur, as allocation succeeds.
\<close>

section \<open>Printing a type context\<close>

definition typed_entry :: "(tref \<Rightarrow> string) \<Rightarrow> intern_table \<Rightarrow> string \<Rightarrow> nat \<Rightarrow> tref \<Rightarrow> string" where
  "typed_entry address interns label name t =
     label @ view_text (interns_lookup interns name) @ '' : Type at '' @ address t"

definition function_lines :: "(tref \<Rightarrow> string) \<Rightarrow> nat \<Rightarrow> type_context \<Rightarrow> nat \<times> tref \<Rightarrow> string list option" where
  "function_lines address n ctx f =
     (case f of
        (name, t) \<Rightarrow>
          map_option (\<lambda>s. [typed_entry address (tc_interns ctx) ''  '' name t @ '' '', '' with type: '' @ c_str s])
            (morphl_type_to_string n (tc_types ctx) (tc_interns ctx) t))"

definition scope_lines :: "(tref \<Rightarrow> string) \<Rightarrow> intern_table \<Rightarrow> nat \<Rightarrow> scope \<Rightarrow> string list" where
  "scope_lines address interns i sc =
     [''  Scope '' @ nat_str i @ '': '' @ nat_str (length (sc_vars sc)) @ '' vars, '' @
        nat_str (length (sc_forwards sc)) @ '' forwards''] @
     map (\<lambda>(name, t). typed_entry address interns ''    Var: '' name t) (sc_vars sc) @
     map (\<lambda>f. typed_entry address interns ''    Forward: '' (fw_name f) (fw_type f) @
        '', Resolved: '' @ (if fw_resolved f then ''yes'' else ''no'')) (sc_forwards sc)"

fun all_scope_lines :: "(tref \<Rightarrow> string) \<Rightarrow> intern_table \<Rightarrow> nat \<Rightarrow> scope list \<Rightarrow> string list" where
  "all_scope_lines address interns i [] = []"
| "all_scope_lines address interns i (sc # scs) =
     scope_lines address interns i sc @ all_scope_lines address interns (i + 1) scs"

definition type_context_print_debug :: "(tref \<Rightarrow> string) \<Rightarrow> nat \<Rightarrow> type_context \<Rightarrow> string list option" where
  "type_context_print_debug address n ctx = do {
     functions \<leftarrow> those (map (function_lines address n ctx) (tc_functions ctx));
     let shown = morphl_type_to_string n (tc_types ctx) (tc_interns ctx);
     this_type \<leftarrow> shown (type_context_get_this ctx);
     file_type \<leftarrow> shown (tc_file_type ctx);
     global_type \<leftarrow> shown (tc_global_type ctx);
     Some (
       [''TypeContext Debug Info:'',
        ''Function Registry ('' @ nat_str (length (tc_functions ctx)) @ '' functions):''] @
       concat functions @
       [''Scope Stack ('' @ nat_str (length (tc_scopes ctx)) @ '' scopes):''] @
       all_scope_lines address (tc_interns ctx) 0 (rev (tc_scopes ctx)) @
       [''Special Bindings:'', ''  This Type: '' @ c_str this_type, ''  File Type: '' @ c_str file_type,
        ''  Global Type: '' @ c_str global_type])
   }"

section \<open>Back ends\<close>

datatype backend_type = MORPHL_BACKEND_TYPE_C | MORPHL_BACKEND_TYPE_VM

datatype out_text = C_source string | Bytecode "byte list"

record backend_context =
  bc_tree :: "ast option"
  bc_out_file :: string
  bc_types :: type_context

text \<open>The new registered back end; there is no other type, so it always succeeds.\<close>

fun morphl_register_backend :: "backend_type \<Rightarrow> backend_type option \<Rightarrow> bool \<times> backend_type option" where
  "morphl_register_backend MORPHL_BACKEND_TYPE_C registered = (True, Some MORPHL_BACKEND_TYPE_C)"
| "morphl_register_backend MORPHL_BACKEND_TYPE_VM registered = (True, Some MORPHL_BACKEND_TYPE_VM)"

text \<open>The file, if the back end succeeds, and the lines it prints.\<close>

definition morphl_compile ::
    "operator_row list \<Rightarrow> nat \<Rightarrow> backend_type option \<Rightarrow> backend_context \<Rightarrow> (out_text option \<times> string list) option" where
  "morphl_compile ops n registered context0 =
     (case registered of
        Some MORPHL_BACKEND_TYPE_VM \<Rightarrow>
          Some (map_option Bytecode (morphl_backend_func_vm (bc_tree context0) (Some (tc_interns (bc_types context0)))), [])
      | _ \<Rightarrow>
          map_option (\<lambda>(s, printed). (Some (C_source s), printed))
            (morphl_backend_func_c ops n (bc_tree context0) (bc_types context0)))"

section \<open>The command line\<close>

definition usage :: "string \<Rightarrow> string" where
  "usage argv0 = ''usage: '' @ argv0 @ '' [--backend c|vm] [--run] [grammar-file] <source-file>''"

definition in_quotes :: "string \<Rightarrow> string" where "in_quotes s = [CHR 0x27] @ s @ [CHR 0x27]"

text \<open>The option loop: an error, or the back end, whether to run, and the other arguments.\<close>

fun parse_options :: "backend_type \<Rightarrow> bool \<Rightarrow> string list \<Rightarrow> string + backend_type \<times> bool \<times> string list" where
  "parse_options b run [] = Inr (b, run, [])"
| "parse_options b run (a # rest) =
     (if take 2 a \<noteq> ''--'' then Inr (b, run, a # rest)
      else if a = ''--backend''
      then (case rest of
              [] \<Rightarrow> Inl ''missing backend value after --backend''
            | name # rest' \<Rightarrow>
                if name = ''c'' then parse_options MORPHL_BACKEND_TYPE_C run rest'
                else if name = ''vm'' then parse_options MORPHL_BACKEND_TYPE_VM run rest'
                else Inl (''unknown backend '' @ in_quotes name @ '' (expected '' @ in_quotes ''c'' @ '' or '' @ in_quotes ''vm'' @ '')''))
      else if a = ''--run'' then parse_options b True rest
      else Inl (''unknown option '' @ in_quotes a))"

record options =
  op_backend :: backend_type
  op_run :: bool
  op_grammar :: "string option"
  op_source :: string

definition parse_arguments :: "string \<Rightarrow> string list \<Rightarrow> string list + options" where
  "parse_arguments argv0 args =
     (if args = []
      then Inl [usage argv0, ''  If grammar-file is omitted, uses builtin operators only.'',
             ''  Use $syntax '' @ [CHR 0x22] @ ''file'' @ [CHR 0x22] @ '' directive within source to load custom grammars.'']
      else (case parse_options MORPHL_BACKEND_TYPE_C False args of
              Inl message \<Rightarrow> Inl [message]
            | Inr (b, run, rest) \<Rightarrow>
                if length rest < 1 \<or> length rest > 2 then Inl [usage argv0]
                else if run \<and> b \<noteq> MORPHL_BACKEND_TYPE_VM then Inl [''--run is only supported with --backend vm'']
                else if length rest = 1
                then Inr \<lparr>op_backend = b, op_run = run, op_grammar = None, op_source = rest ! 0\<rparr>
                else Inr \<lparr>op_backend = b, op_run = run, op_grammar = Some (rest ! 0), op_source = rest ! 1\<rparr>))"

section \<open>Compiling a source file\<close>

text \<open>
  How the tool ends: exit status, standard output, messages on standard error other than the
  diagnostics, the file written, and the state of the diagnostics where the parser got that far.
\<close>

record tool_result =
  tr_status :: nat
  tr_stdout :: string
  tr_stderr :: "string list"
  tr_file :: "(string \<times> out_text) option"
  tr_diagnostics :: diagnostics

definition lines :: "string list \<Rightarrow> string" where
  "lines ls = concat (map (\<lambda>l. l @ [CHR 0x0A]) ls)"

definition tool_error :: "string list \<Rightarrow> diagnostics \<Rightarrow> tool_result" where
  "tool_error messages dg =
     \<lparr>tr_status = 1, tr_stdout = [], tr_stderr = messages, tr_file = None, tr_diagnostics = dg\<rparr>"

text \<open>Running the bytecode: the lines and messages, and whether it ended with 0.\<close>

definition run_output :: "string \<Rightarrow> out_text \<Rightarrow> (bool \<times> string list \<times> string list) option" where
  "run_output name file =
     (case morphl_vm_run_file (case file of Bytecode bytes \<Rightarrow> Some bytes | C_source s \<Rightarrow> None) of
        Undefined_conversion \<Rightarrow> None
      | Exit code messages \<Rightarrow>
          Some (if code \<noteq> 0
                then (False, [''executing VM bytecode from '' @ name @ ''...'',
                      ''VM execution failed: code '' @ (if code < 0 then ''-'' else []) @ nat_str (nat \<bar>code\<bar>)], messages)
                else (True, [''executing VM bytecode from '' @ name @ ''...'', ''VM execution succeeded''], messages)))"

definition out_name :: "backend_type \<Rightarrow> string" where
  "out_name b = (if b = MORPHL_BACKEND_TYPE_VM then ''out.mbc'' else ''out.c'')"

text \<open>From the tree on.\<close>

definition generate ::
    "(tref \<Rightarrow> string) \<Rightarrow> operator_row list \<Rightarrow> nat \<Rightarrow> options \<Rightarrow> ast \<Rightarrow> type_context \<Rightarrow> tool_result option" where
  "generate address ops n opts root ctx = do {
     info \<leftarrow> type_context_print_debug address n ctx;
     let name = out_name (op_backend opts);
     let shown = lines [''parsing with scoped grammar support...'', ''parse succeeded'', ''AST:''] @
       ast_print (tc_interns ctx) root @ lines (''Type info:'' # info);
     (file, printed) \<leftarrow> morphl_compile ops n (snd (morphl_register_backend (op_backend opts) None))
       \<lparr>bc_tree = Some root, bc_out_file = name, bc_types = ctx\<rparr>;
     (case file of
        None \<Rightarrow>
          Some \<lparr>tr_status = 1, tr_stdout = shown @ lines (printed @ [''backend code generation failed'']),
                tr_stderr = [], tr_file = None, tr_diagnostics = tc_diagnostics ctx\<rparr>
      | Some contents \<Rightarrow> do {
          (ok, report, messages) \<leftarrow> (if op_run opts then run_output name contents else Some (True, [], []));
          Some \<lparr>tr_status = (if ok then 0 else 1),
                tr_stdout = shown @ lines (printed @
                  [''backend code generation succeeded, output written to '' @ name] @ report),
                tr_stderr = messages, tr_file = Some (name, contents), tr_diagnostics = tc_diagnostics ctx\<rparr>
        })
   }"

definition ARENA_BYTES :: nat where "ARENA_BYTES = 65536"

text \<open>The initial grammar of the command line, if there is one.\<close>

definition initial_grammar :: "string option \<Rightarrow> scoped_parser \<Rightarrow> (bool \<times> scoped_parser) option" where
  "initial_grammar grammar_path sp =
     (case grammar_path of None \<Rightarrow> Some (True, sp) | Some path \<Rightarrow> scoped_parser_replace_grammar path sp)"

definition parse_source ::
    "(tref \<Rightarrow> string) \<Rightarrow> operator_row list \<Rightarrow> nat \<Rightarrow> nat \<Rightarrow> options \<Rightarrow> scoped_parser \<Rightarrow> tool_result option" where
  "parse_source address ops n k opts sp =
     (case morphl_file_read_all (dg_files (tc_diagnostics (sp_types sp))) (op_source opts) of
        None \<Rightarrow> Some (tool_error [''failed to read source from '' @ op_source opts] (tc_diagnostics (sp_types sp)))
      | Some (source, source_len) \<Rightarrow>
          (case lexer_tokenize (op_source opts) source (tc_interns (sp_types sp)) of
             (None, t) \<Rightarrow> Some (tool_error [''tokenization failed''] (tc_diagnostics (sp_types sp)))
           | (Some tokens, t) \<Rightarrow> do {
               (root, sp1) \<leftarrow> scoped_parse_ast ops n k tokens (put_interns t sp);
               (case root of
                  None \<Rightarrow>
                    Some \<lparr>tr_status = 1, tr_stdout = lines [''parsing with scoped grammar support...'', ''parse failed''],
                          tr_stderr = [], tr_file = None, tr_diagnostics = tc_diagnostics (sp_types sp1)\<rparr>
                | Some node \<Rightarrow> generate address ops n opts node (sp_types sp1))
             }))"

definition run_tool ::
    "(tref \<Rightarrow> string) \<Rightarrow> nat \<Rightarrow> nat \<Rightarrow> options \<Rightarrow> diagnostics \<Rightarrow> tool_result option" where
  "run_tool address n k opts dg =
     (case operator_registry_init kBuiltinOps interns_new of
        (False, _) \<Rightarrow> Some (tool_error [''failed to initialize operator registry''] dg)
      | (True, ops, t) \<Rightarrow>
          (case scoped_parser_init (Some (op_source opts)) \<lparr>ta_arena = arena_init ARENA_BYTES, ta_cells = []\<rparr> t dg of
             (None, _) \<Rightarrow> Some (tool_error [''failed to initialize parser context''] dg)
           | (Some sp, _) \<Rightarrow> do {
               (ok, sp1) \<leftarrow> initial_grammar (op_grammar opts) sp;
               if \<not> ok
               then Some (tool_error [''failed to load initial grammar from '' @ the (op_grammar opts)]
                            (tc_diagnostics (sp_types sp1)))
               else parse_source address ops n k opts sp1
             }))"

definition morphl_main ::
    "(tref \<Rightarrow> string) \<Rightarrow> nat \<Rightarrow> nat \<Rightarrow> string \<Rightarrow> string list \<Rightarrow> diagnostics \<Rightarrow> tool_result option" where
  "morphl_main address n k argv0 args dg =
     (case parse_arguments argv0 args of
        Inl messages \<Rightarrow> Some (tool_error messages dg)
      | Inr opts \<Rightarrow> run_tool address n k opts dg)"

section \<open>Properties\<close>

subsection \<open>The front end\<close>

text \<open>The tool up to the tree: the registry, the tree and the type context, where the parser accepts.\<close>

definition parse_tokens ::
    "operator_row list \<Rightarrow> nat \<Rightarrow> nat \<Rightarrow> options \<Rightarrow> scoped_parser \<Rightarrow> (ast option \<times> scoped_parser) option" where
  "parse_tokens ops n k opts sp = do {
     (source, source_len) \<leftarrow> morphl_file_read_all (dg_files (tc_diagnostics (sp_types sp))) (op_source opts);
     (case lexer_tokenize (op_source opts) source (tc_interns (sp_types sp)) of
        (None, t) \<Rightarrow> None
      | (Some tokens, t) \<Rightarrow> scoped_parse_ast ops n k tokens (put_interns t sp))
   }"

definition front_end :: "nat \<Rightarrow> nat \<Rightarrow> options \<Rightarrow> diagnostics \<Rightarrow> (operator_row list \<times> ast \<times> type_context) option" where
  "front_end n k opts dg =
     (case operator_registry_init kBuiltinOps interns_new of
        (False, _) \<Rightarrow> None
      | (True, ops, t) \<Rightarrow> do {
          sp \<leftarrow> fst (scoped_parser_init (Some (op_source opts)) \<lparr>ta_arena = arena_init ARENA_BYTES, ta_cells = []\<rparr> t dg);
          (ok, sp1) \<leftarrow> initial_grammar (op_grammar opts) sp;
          (root, sp2) \<leftarrow> (if ok then parse_tokens ops n k opts sp1 else None);
          node \<leftarrow> root;
          Some (ops, node, sp_types sp2)
        })"

text \<open>A result of the tool before there is a tree.\<close>

definition refused :: "tool_result \<Rightarrow> bool" where
  "refused r \<longleftrightarrow> tr_status r = 1 \<and> tr_file r = None \<and>
     (tr_stderr r \<noteq> [] \<and> tr_stdout r = [] \<or>
      tr_stderr r = [] \<and> tr_stdout r = lines [''parsing with scoped grammar support...'', ''parse failed''])"

lemma refused_error [simp]: "messages \<noteq> [] \<Longrightarrow> refused (tool_error messages dg)"
  by (simp add: refused_def tool_error_def)

lemma parse_source_cases:
  assumes "parse_source address ops n k opts sp = Some r"
  obtains "refused r"
    | node sp1 where "parse_tokens ops n k opts sp = Some (Some node, sp1)" "generate address ops n opts node (sp_types sp1) = Some r"
  using assms unfolding parse_source_def parse_tokens_def
  by (auto simp: refused_def tool_error_def split: option.splits prod.splits bind_splits)

lemma run_tool_cases:
  assumes "run_tool address n k opts dg = Some r"
  obtains "refused r"
    | ops node ctx where "front_end n k opts dg = Some (ops, node, ctx)" "generate address ops n opts node ctx = Some r"
proof -
  obtain b ops t where i: "operator_registry_init kBuiltinOps interns_new = (b, ops, t)" by (rule prod_cases3)
  show thesis
  proof (cases "b \<and> fst (scoped_parser_init (Some (op_source opts)) \<lparr>ta_arena = arena_init ARENA_BYTES, ta_cells = []\<rparr> t dg) \<noteq> None")
    case True
    then obtain sp h where init: "scoped_parser_init (Some (op_source opts)) \<lparr>ta_arena = arena_init ARENA_BYTES, ta_cells = []\<rparr> t dg = (Some sp, h)"
      by (cases "scoped_parser_init (Some (op_source opts)) \<lparr>ta_arena = arena_init ARENA_BYTES, ta_cells = []\<rparr> t dg") auto
    with assms i True obtain ok sp1 where g: "initial_grammar (op_grammar opts) sp = Some (ok, sp1)"
      by (auto simp: run_tool_def split: bind_splits)
    show thesis
    proof (cases ok)
      case True
      then have "parse_source address ops n k opts sp1 = Some r"
        using assms i init g \<open>b \<and> _\<close> by (simp add: run_tool_def)
      then show thesis
      proof (cases rule: parse_source_cases)
        case (2 node sp2)
        then show thesis using that(2) i init g True \<open>b \<and> _\<close> by (simp add: front_end_def)
      qed (rule that(1))
    next
      case False
      then show thesis using that(1) assms i init g \<open>b \<and> _\<close> by (auto simp: run_tool_def)
    qed
  next
    case False
    then show thesis using assms i that(1)
      by (auto simp: run_tool_def split: bool.splits prod.splits option.splits)
  qed
qed

lemma front_end_generate:
  assumes "front_end n k opts dg = Some (ops, node, ctx)"
  shows "run_tool address n k opts dg = generate address ops n opts node ctx"
proof -
  have "parse_source address ops n k opts sp = generate address ops n opts node (sp_types sp1)"
    if "parse_tokens ops n k opts sp = Some (Some node, sp1)" for ops sp node sp1
    using that unfolding parse_source_def parse_tokens_def
    by (auto split: option.splits prod.splits bind_splits)
  with assms show ?thesis
    unfolding front_end_def run_tool_def
    by (auto split: prod.splits bool.splits bind_splits option.splits if_splits)
qed

lemma parse_arguments_error: "parse_arguments argv0 args = Inl messages \<Longrightarrow> messages \<noteq> []"
  by (auto simp: parse_arguments_def split: if_splits sum.splits)

lemma main_cases:
  assumes "morphl_main address n k argv0 args dg = Some r"
  obtains "refused r"
    | opts ops node ctx where "parse_arguments argv0 args = Inr opts" "front_end n k opts dg = Some (ops, node, ctx)"
        "generate address ops n opts node ctx = Some r"
proof (cases "parse_arguments argv0 args")
  case (Inl messages)
  then show thesis using assms parse_arguments_error that(1) by (auto simp: morphl_main_def)
next
  case (Inr opts)
  then have "run_tool address n k opts dg = Some r" using assms by (simp add: morphl_main_def)
  then show thesis by (cases rule: run_tool_cases) (auto intro: that Inr)
qed

subsection \<open>How the tool ends\<close>

text \<open>What makes a run of the output file a success.\<close>

definition runs_well :: "out_text \<Rightarrow> bool" where
  "runs_well contents \<longleftrightarrow>
     (\<exists>messages. morphl_vm_run_file (case contents of Bytecode bytes \<Rightarrow> Some bytes | C_source s \<Rightarrow> None) = Exit 0 messages)"

lemma run_output_exit:
  "run_output name contents = Some (ok, report, messages) \<Longrightarrow>
     \<exists>code. morphl_vm_run_file (case contents of Bytecode bytes \<Rightarrow> Some bytes | C_source s \<Rightarrow> None) = Exit code messages \<and>
       ok = (code = 0)"
  by (auto simp: run_output_def split: vm_outcome.splits if_splits)

lemma run_output_status: "run_output name contents = Some (ok, report, messages) \<Longrightarrow> runs_well contents = ok"
  by (auto dest!: run_output_exit simp: runs_well_def)

text \<open>The parts of a result of \<open>generate\<close>.\<close>

lemma generate_parts:
  assumes "generate address ops n opts root ctx = Some r"
  obtains (failed) printed where "tr_status r = 1" "tr_file r = None"
      "morphl_compile ops n (Some (op_backend opts)) \<lparr>bc_tree = Some root, bc_out_file = out_name (op_backend opts), bc_types = ctx\<rparr> = Some (None, printed)"
    | (written) contents printed ok report where "tr_status r = (if ok then 0 else 1)"
      "tr_file r = Some (out_name (op_backend opts), contents)"
      "morphl_compile ops n (Some (op_backend opts)) \<lparr>bc_tree = Some root, bc_out_file = out_name (op_backend opts), bc_types = ctx\<rparr> = Some (Some contents, printed)"
      "(if op_run opts then run_output (out_name (op_backend opts)) contents else Some (True, [], [])) = Some (ok, report, tr_stderr r)"
proof -
  have registered: "snd (morphl_register_backend b None) = Some b" for b by (cases b) simp_all
  show ?thesis
    using assms that unfolding generate_def registered
    by (auto simp: Let_def split: bind_splits option.splits simp del: append.simps)
qed

lemma generate_status:
  assumes "generate address ops n opts root ctx = Some r"
  shows "tr_status r = (if \<exists>contents. tr_file r = Some (out_name (op_backend opts), contents) \<and>
    (op_run opts \<longrightarrow> runs_well contents) then 0 else 1)"
  using assms by (cases rule: generate_parts) (auto split: if_splits dest: run_output_status)

text \<open>C19: the exit status tells what happened.  The tool ends with 0 exactly if the arguments were accepted
  and it wrote the output file of the chosen back end, and, asked to run it, the virtual machine ended with 0; else
  it ends with 1.  When the arguments are refused nothing is printed on standard output, nothing is
  diagnosed and no file is written, and there is a message; an accepted \<open>--run\<close> means the
  virtual machine.\<close>

theorem tool_exit_status:
  assumes "morphl_main address n k argv0 args dg = Some r"
  shows "case parse_arguments argv0 args of
      Inl messages \<Rightarrow> messages \<noteq> [] \<and> r = tool_error messages dg
    | Inr opts \<Rightarrow>
        (op_run opts \<longrightarrow> op_backend opts = MORPHL_BACKEND_TYPE_VM) \<and>
        tr_status r = (if \<exists>contents. tr_file r = Some (out_name (op_backend opts), contents) \<and>
          (op_run opts \<longrightarrow> runs_well contents) then 0 else 1)"
proof (cases "parse_arguments argv0 args")
  case (Inl messages)
  then show ?thesis using assms parse_arguments_error [OF Inl] by (simp add: morphl_main_def)
next
  case (Inr opts)
  then have "op_run opts \<longrightarrow> op_backend opts = MORPHL_BACKEND_TYPE_VM"
    by (auto simp: parse_arguments_def split: if_splits sum.splits)
  moreover from assms have "tr_status r = (if \<exists>contents. tr_file r = Some (out_name (op_backend opts), contents) \<and>
      (op_run opts \<longrightarrow> runs_well contents) then 0 else 1)"
    by (cases rule: main_cases) (use Inr in \<open>auto simp: refused_def dest: generate_status\<close>)
  ultimately show ?thesis using Inr by simp
qed

theorem tool_exit_status_witness:
  "morphl_main (\<lambda>p. ''p'') 0 0 ''morphl'' [''--run'', ''a.mpl''] quiet =
     Some (tool_error [''--run is only supported with --backend vm''] quiet)"
proof -
  have a: "parse_arguments ''morphl'' [''--run'', ''a.mpl''] = Inl [''--run is only supported with --backend vm'']"
    by (simp add: parse_arguments_def)
  obtain r where "morphl_main (\<lambda>p. ''p'') 0 0 ''morphl'' [''--run'', ''a.mpl''] quiet = Some r"
    using a by (simp add: morphl_main_def)
  with tool_exit_status [OF this] a show ?thesis by simp
qed

subsection \<open>From the source to the exit status\<close>

text \<open>C4: running a program through the tool is running it by the reference semantics.  With
  \<open>--backend vm --run\<close>, when the parser accepts the source as a tree within the limits of the back end, and the
  tool has a result, the file it writes is \<open>out.mbc\<close>, the messages are those of the reference semantics of the
  tree, and the tool ends with 0 if and only if the reference semantics ends with 0: every other exit
  value of the program is turned into 1.\<close>

theorem tool_runs_reference:
  assumes "parse_arguments argv0 args = Inr opts" and "op_backend opts = MORPHL_BACKEND_TYPE_VM" and "op_run opts"
    and "front_end n k opts dg = Some (ops, root, ctx)"
    and "program_ok (Some (tc_interns ctx)) (Some root)"
    and "morphl_main address n k argv0 args dg = Some r"
  shows "\<exists>code messages bytes.
    ref_program (Some (tc_interns ctx)) (Some root) = Exit code messages \<and>
    tr_file r = Some (''out.mbc'', Bytecode bytes) \<and> tr_stderr r = messages \<and>
    tr_status r = (if code = 0 then 0 else 1)"
proof -
  obtain bytes where b: "morphl_backend_func_vm (Some root) (Some (tc_interns ctx)) = Some bytes"
    "morphl_vm_run_file (Some bytes) = ref_program (Some (tc_interns ctx)) (Some root)"
    using back_end_correct [OF assms(5)] by blast
  have "generate address ops n opts root ctx = Some r"
    using assms(1,6) front_end_generate [OF assms(4)] by (simp add: morphl_main_def)
  then show ?thesis
  proof (cases rule: generate_parts)
    case (written contents printed ok report)
    then have c: "contents = Bytecode bytes" and o: "run_output ''out.mbc'' contents = Some (ok, report, tr_stderr r)"
      using b(1) assms(2,3) by (simp_all add: morphl_compile_def out_name_def)
    from run_output_exit [OF o] c obtain code where "morphl_vm_run_file (Some bytes) = Exit code (tr_stderr r)" "ok = (code = 0)"
      by auto
    with b(2) c written(1,2) assms(2) show ?thesis
      by (intro exI [of _ code] exI [of _ "tr_stderr r"] exI [of _ bytes]) (simp add: out_name_def)
  qed (use b assms(2) in \<open>simp add: morphl_compile_def\<close>)
qed

subsection \<open>Imports\<close>

lemma initial_grammar_le:
  assumes "initial_grammar path sp = Some (ok, sp1)"
  shows "bytes_left sp1 \<le> bytes_left sp"
proof (cases path)
  case (Some g)
  then show ?thesis
    using assms replace_grammar_le [of sp g] bytes_left_le by (auto simp: initial_grammar_def after_def)
qed (use assms in \<open>simp add: initial_grammar_def\<close>)

text \<open>C40: the tool nests at most 39 levels of imports.  Its one arena of 65536 bytes has no room for the type
  contexts of more, so every program, whatever it imports and also when modules import each other in a
  cycle, has with any larger number of levels the result it has with 39.\<close>

theorem tool_import_levels:
  assumes "39 \<le> k"
  shows "morphl_main address n k argv0 args dg = morphl_main address n 39 argv0 args dg"
proof -
  have parse: "parse_source address ops n k opts sp = parse_source address ops n 39 opts sp"
    if "bytes_left sp < 39 * CONTEXT_BYTES" for ops opts sp
  proof -
    have "bytes_left (put_interns t sp) < 39 * CONTEXT_BYTES" for t
      using that by (simp add: bytes_left_def put_interns_def)
    then have "scoped_parse_ast ops n k toks (put_interns t sp) = scoped_parse_ast ops n 39 toks (put_interns t sp)" for toks t
      using more_levels [of 39 ops n "k - 39"] assms by (auto simp: same_below_def)
    then show ?thesis by (simp add: parse_source_def split: option.split prod.split)
  qed
  have "parse_source address ops n k opts sp1 = parse_source address ops n 39 opts sp1"
    if "scoped_parser_init fn \<lparr>ta_arena = arena_init ARENA_BYTES, ta_cells = []\<rparr> t dg = (Some sp, h)"
      and "initial_grammar path sp = Some (ok, sp1)" for fn t sp h path ok sp1 ops opts
    using init_takes [OF that(1)] initial_grammar_le [OF that(2)]
    by (intro parse) (simp add: bytes_left_def ARENA_BYTES_def arena_init_def context_sizes_pos(2))
  then have "run_tool address n k opts dg = run_tool address n 39 opts dg" for opts
    unfolding run_tool_def
    by (auto split: prod.split bool.split option.split intro!: Option.bind_cong)
  then show ?thesis by (simp add: morphl_main_def split: sum.split)
qed

theorem tool_import_levels_witness:
  "\<forall>address n argv0 args dg. morphl_main address n 1000 argv0 args dg = morphl_main address n 39 argv0 args dg"
  by (intro allI tool_import_levels) simp

subsection \<open>A sample run\<close>

text \<open>Interning with room to spare.\<close>

lemma intern_room:
  assumes "table_inv t" and "bytes_used (t_index t) + length b + 1 \<le> 65536" and "interns_intern t (Some b) = (sy, t')"
  shows "sy \<noteq> 0" and "table_inv t'" and "bytes_used (t_index t') \<le> bytes_used (t_index t) + length b + 1"
proof -
  show "table_inv t'" using st.intern_inv [OF assms(1), of "Some b"] assms(3) by simp
  have "sy \<noteq> 0 \<and> bytes_used (t_index t') \<le> bytes_used (t_index t) + length b + 1"
    using intern_spec_cases(2) [OF assms(1,3)] scan_index_bounds [of b "t_index t" 0]
      interns_intern_refines(2) [OF assms(1), of b] assms(2,3)
    by (auto simp: bytes_used_def intern_spec_def split: if_splits)
  then show "sy \<noteq> 0" and "bytes_used (t_index t') \<le> bytes_used (t_index t) + length b + 1" by simp_all
qed

lemma init_rows_room:
  "table_inv t \<Longrightarrow> bytes_used (t_index t) + bytes_used (map r_name rs) \<le> 65536 \<Longrightarrow> init_rows rs t = (True, rs', t') \<Longrightarrow>
     bytes_used (t_index t') \<le> bytes_used (t_index t) + bytes_used (map r_name rs)"
proof (induction rs arbitrary: t rs')
  case (Cons r rs)
  obtain sy t1 where 1: "interns_intern t (Some (r_name r)) = (sy, t1)" by fastforce
  note room = intern_room [OF Cons.prems(1) _ 1]
  obtain ok rs1 t2 where 2: "init_rows rs t1 = (ok, rs1, t2)" using prod_cases3 by blast
  have "init_rows rs t1 = (True, rs1, t')" using Cons.prems(3) 1 2 by (auto simp: str_from_def split: if_splits)
  with Cons.IH [of t1 rs1] room Cons.prems(2) show ?case by (simp add: bytes_used_def)
qed simp

lemma kinds_room:
  assumes "table_inv t" and "bytes_used (t_index t) \<le> 65000"
  obtains ks t' where "intern_kinds t = (Some ks, t')" "table_inv t'" "kinds_named t' ks"
proof -
  obtain s1 t1 where 1: "interns_intern t (Some LEXER_KIND_IDENT) = (s1, t1)" by fastforce
  obtain s2 t2 where 2: "interns_intern t1 (Some LEXER_KIND_NUMBER) = (s2, t2)" by fastforce
  obtain s3 t3 where 3: "interns_intern t2 (Some LEXER_KIND_FLOAT) = (s3, t3)" by fastforce
  obtain s4 t4 where 4: "interns_intern t3 (Some LEXER_KIND_STRING) = (s4, t4)" by fastforce
  obtain s5 t5 where 5: "interns_intern t4 (Some LEXER_KIND_SYMBOL) = (s5, t5)" by fastforce
  obtain s6 t6 where 6: "interns_intern t5 (Some LEXER_KIND_EOF) = (s6, t6)" by fastforce
  have r1: "s1 \<noteq> 0" "table_inv t1" "bytes_used (t_index t1) \<le> 65050"
    using intern_room [OF assms(1) _ 1] assms(2) by (simp_all add: kind_names)
  have r2: "s2 \<noteq> 0" "table_inv t2" "bytes_used (t_index t2) \<le> 65100"
    using intern_room [OF r1(2) _ 2] r1(3) by (simp_all add: kind_names)
  have r3: "s3 \<noteq> 0" "table_inv t3" "bytes_used (t_index t3) \<le> 65150"
    using intern_room [OF r2(2) _ 3] r2(3) by (simp_all add: kind_names)
  have r4: "s4 \<noteq> 0" "table_inv t4" "bytes_used (t_index t4) \<le> 65200"
    using intern_room [OF r3(2) _ 4] r3(3) by (simp_all add: kind_names)
  have r5: "s5 \<noteq> 0" "table_inv t5" "bytes_used (t_index t5) \<le> 65250"
    using intern_room [OF r4(2) _ 5] r4(3) by (simp_all add: kind_names)
  have r6: "s6 \<noteq> 0"
    using intern_room [OF r5(2) _ 6] r5(3) by (simp_all add: kind_names)
  have "\<exists>ks. intern_kinds t = (Some ks, t6)"
    using r1(1) r2(1) r3(1) r4(1) r5(1) r6 by (simp add: intern_kinds_def str_from_def 1 2 3 4 5 6)
  with intern_kinds_sound [OF _ assms(1)] that show ?thesis by blast
qed

lemma registry_room:
  obtains ops t ks u where "operator_registry_init kBuiltinOps interns_new = (True, ops, t)"
    "intern_kinds t = (Some ks, u)" "table_inv u" "kinds_named u ks"
proof -
  obtain ops t where r: "operator_registry_init kBuiltinOps interns_new = (True, ops, t)" "table_inv t"
    by (rule registry_init_new)
  have zero: "bytes_used (t_index interns_new) = 0" by (simp add: interns_new_eq bytes_used_def)
  have "bytes_used (t_index t) \<le> bytes_used (t_index interns_new) + bytes_used (map r_name kBuiltinOps)"
    by (rule init_rows_room [OF interns_new_inv _ r(1) [unfolded operator_registry_init_def]])
      (use zero bytes_builtin in linarith)
  with zero bytes_builtin have "bytes_used (t_index t) \<le> 65000" by linarith
  from kinds_room [OF r(2) this] obtain ks u where "intern_kinds t = (Some ks, u)" "table_inv u" "kinds_named u ks" .
  then show ?thesis by (rule that [OF r(1)])
qed

text \<open>The empty source, compiled for the virtual machine and run.\<close>

definition sample_options :: options where
  "sample_options = \<lparr>op_backend = MORPHL_BACKEND_TYPE_VM, op_run = True, op_grammar = None, op_source = ''e''\<rparr>"

definition sample_files :: diagnostics where
  "sample_files = quiet\<lparr>dg_files := (\<lambda>p. if p = ''e'' then Some [] else None)\<rparr>"

lemma contents_of_nothing:
  assumes "table_inv (tc_interns (sp_types sp))" and "kinds_named (tc_interns (sp_types sp)) ks"
  obtains u where "scoped_parse_block_contents run ops depth [eof_token ks fn p] sp =
    Some (Some [], [eof_token ks fn p], put_interns u sp)"
proof -
  let ?t = "tc_interns (sp_types sp)"
  obtain t1 where 1: "interns_intern ?t (Some LEXER_KIND_SYMBOL) = (k_symbol ks, t1)" "table_inv t1" "t_index t1 = t_index ?t"
    using intern_same [OF assms(1)] assms(2) unfolding kinds_named_def by metis
  obtain t2 where 2: "interns_intern t1 (Some LEXER_KIND_EOF) = (k_eof ks, t2)"
    using intern_same [OF 1(2)] kinds_named_same [OF assms(2) 1(3)] unfolding kinds_named_def by metis
  show ?thesis
    by (rule that [of t2])
      (simp add: scoped_parse_block_contents_def str_from_def 1(1) 2 scoped_statements.simps eof_token_def)
qed

definition empty_file :: ast where
  "empty_file = AstNode AST_FILE 0 None [] 0 None 0 0"

definition fresh_parser :: "intern_table \<Rightarrow> scoped_parser" where
  "fresh_parser t = \<lparr>sp_grammars = [], sp_grammar_cap = 0, sp_use_builtins = True, sp_filename = Some ''e'',
     sp_types = (sample_context\<lparr>tc_interns := t, tc_diagnostics := sample_files\<rparr>)\<rparr>"

lemma fresh_parser_init:
  "scoped_parser_init (Some ''e'') \<lparr>ta_arena = arena_init ARENA_BYTES, ta_cells = []\<rparr> t sample_files =
     (Some (fresh_parser t), tc_types sample_context)"
  by (simp add: scoped_parser_init_def fresh_parser_def sample_context_def type_context_new_def context_sizes_def
      arena_alloc_def arena_push_def arena_init_def ARENA_BYTES_def initial_capacities sizes)

lemma empty_file_typed:
  obtains ctx where "typing_pass (morphl_infer_type_of_ast ops 5) empty_file (fresh_parser t) =
      Some (Some empty_file, fresh_parser t\<lparr>sp_types := ctx\<rparr>)"
    "tc_interns ctx = t" "type_context_print_debug address 5 ctx \<noteq> None"
proof -
  have "\<exists>ctx. typing_pass (morphl_infer_type_of_ast ops 5) empty_file (fresh_parser t) =
      Some (Some empty_file, fresh_parser t\<lparr>sp_types := ctx\<rparr>) \<and>
    tc_interns ctx = t \<and> type_context_print_debug address 5 ctx \<noteq> None"
    by (simp add: typing_pass_def empty_file_def morphl_infer_type_of_ast.simps inference_defs sample_defs
      fresh_parser_def sample_context_def type_context_new_def context_sizes_def Let_def
      type_context_check_unresolved_forwards_def check_scope_def unresolved_def type_context_print_debug_def type_context_get_this_def
      top_ref_def in_brackets_def put_def morphl_type_to_string.simps(2) [of 4, simplified])
  with that show ?thesis by blast
qed

lemma sample_front_end:
  obtains ops ctx where "front_end 5 1 sample_options sample_files = Some (ops, empty_file, ctx)"
    "type_context_print_debug address 5 ctx \<noteq> None"
proof -
  obtain ops t ks u where r: "operator_registry_init kBuiltinOps interns_new = (True, ops, t)"
    and k: "intern_kinds t = (Some ks, u)" "table_inv u" "kinds_named u ks" by (rule registry_room)
  have sp: "sp_types (scoped_parser_push_grammar None (put_interns u (fresh_parser t))) = sample_context\<lparr>tc_interns := u, tc_diagnostics := sample_files\<rparr>"
    "sp_types (fresh_parser t) = sample_context\<lparr>tc_interns := t, tc_diagnostics := sample_files\<rparr>"
    by (simp_all add: scoped_parser_push_grammar_def put_interns_def fresh_parser_def)
  define eof where "eof = eof_token ks ''e'' (1, 1)"
  let ?run = "run_pp_action 5 (morphl_infer_type_of_ast ops 5) (scoped_parse_ast ops 5 0)"
  obtain v where v: "scoped_parse_block_contents ?run ops 0 [eof]
      (scoped_parser_push_grammar None (put_interns u (fresh_parser t))) =
    Some (Some [], [eof], put_interns v (scoped_parser_push_grammar None (put_interns u (fresh_parser t))))"
    unfolding eof_def
    by (rule contents_of_nothing [of "scoped_parser_push_grammar None (put_interns u (fresh_parser t))" ks]) (use k(2,3) sp(1) in simp_all)
  have pop: "snd (scoped_parser_pop_grammar (put_interns v (scoped_parser_push_grammar None (put_interns u (fresh_parser t))))) =
      (fresh_parser v)\<lparr>sp_grammar_cap := 4\<rparr>"
    by (simp add: scoped_parser_pop_grammar_def scoped_parser_push_grammar_def put_interns_def fresh_parser_def)
  obtain ctx where ctx: "typing_pass (morphl_infer_type_of_ast ops 5) empty_file (fresh_parser v) =
      Some (Some empty_file, fresh_parser v\<lparr>sp_types := ctx\<rparr>)" "type_context_print_debug address 5 ctx \<noteq> None"
    by (rule empty_file_typed)
  have cap: "typing_pass (morphl_infer_type_of_ast ops 5) empty_file (sp\<lparr>sp_grammar_cap := c\<rparr>) =
      map_option (map_prod id (sp_grammar_cap_update (\<lambda>_. c))) (typing_pass (morphl_infer_type_of_ast ops 5) empty_file sp)" for sp c
    by (cases "morphl_infer_type_of_ast ops 5 empty_file (sp_types sp)") (auto simp: typing_pass_def)
  have "scoped_parse_ast ops 5 1 [eof] (put_interns u (fresh_parser t)) =
      Some (Some empty_file, (fresh_parser v)\<lparr>sp_grammar_cap := 4, sp_types := ctx\<rparr>)"
    by (simp add: scoped_parse_program_def v pop program_root_def flip: empty_file_def) (simp add: cap ctx(1))
  moreover have "lexer_tokenize ''e'' [] t = (Some [eof], u)"
    by (simp add: lexer_tokenize_def k(1) eof_def eof_token_def mk_token_def)
  ultimately have "parse_tokens ops 5 1 sample_options (fresh_parser t) =
      Some (Some empty_file, (fresh_parser v)\<lparr>sp_grammar_cap := 4, sp_types := ctx\<rparr>)"
    by (simp add: parse_tokens_def sp(2) sample_options_def morphl_file_read_all_def sample_files_def)
  then have "front_end 5 1 sample_options sample_files = Some (ops, empty_file, ctx)"
    using fresh_parser_init [of t] by (simp add: front_end_def r initial_grammar_def sample_options_def)
  with ctx(2) that show ?thesis by blast
qed

theorem tool_runs_reference_witness:
  "\<exists>r. morphl_main (\<lambda>p. ''p'') 5 1 ''morphl'' [''--backend'', ''vm'', ''--run'', ''e''] sample_files = Some r \<and>
     tr_status r = 0 \<and> tr_stderr r = [] \<and> (\<exists>bytes. tr_file r = Some (''out.mbc'', Bytecode bytes))"
proof -
  obtain ops ctx where f: "front_end 5 1 sample_options sample_files = Some (ops, empty_file, ctx)"
    and p: "type_context_print_debug (\<lambda>p. ''p'') 5 ctx \<noteq> None" by (rule sample_front_end)
  have a: "parse_arguments ''morphl'' [''--backend'', ''vm'', ''--run'', ''e''] = Inr sample_options"
    by (simp add: parse_arguments_def sample_options_def)
  have o: "op_backend sample_options = MORPHL_BACKEND_TYPE_VM" "op_run sample_options"
    by (simp_all add: sample_options_def)
  have ok: "program_ok (Some (tc_interns ctx)) (Some empty_file)"
    by (simp add: program_ok_def tree_size_def empty_file_def tree_ok_def node_ok_def node_op_name_def op_name_from_node_def)
  have ref: "ref_program (Some (tc_interns ctx)) (Some empty_file) = Exit 0 []"
    by (simp add: ref_program_def empty_file_def)
  obtain bytes where "morphl_backend_func_vm (Some empty_file) (Some (tc_interns ctx)) = Some bytes"
    "morphl_vm_run_file (Some bytes) = Exit 0 []" using back_end_correct [OF ok] ref by auto
  then have "generate (\<lambda>p. ''p'') ops 5 sample_options empty_file ctx \<noteq> None"
    using p o by (auto simp: generate_def morphl_compile_def run_output_def Let_def)
  then obtain r where r: "morphl_main (\<lambda>p. ''p'') 5 1 ''morphl'' [''--backend'', ''vm'', ''--run'', ''e''] sample_files = Some r"
    using front_end_generate [OF f] by (auto simp: morphl_main_def a)
  from tool_runs_reference [OF a o f ok r] ref r show ?thesis by auto
qed

end
