(* ===== verification/Spec2Isabelle.thy ===== *)
theory Spec2Isabelle
  imports Intern_Table Lexer Ast Operators Builtin_Parser
    C_Double Vm_Bytecode Vm_Runtime Vm_Image Vm_Correct Vm_Properties Diagnostics Types Type_Context
    Inference Inference_Laws Inference_Scopes Typing_Rules
    Grammar Grammar_Parser Grammar_Derivations Grammar_Trees
    Pp_Actions Scoped_Parser Scoped_Laws Scoped_Plain Scoped_Context C_Backend Driver
begin

text \<open>
  MorphL in HOL.  The repository (\<open>src/\<close>, C) is a compiler for the language MorphL, whose concrete syntax a
  program can change while it is read, and a virtual machine for the bytecode it emits.  The theories of
  this directory model its code function by function, with the names of the code, and prove what makes
  each part correct.

  \<^bold>\<open>The program and its theories.\<close>  \<open>main\<close> reads the options, makes one intern table, one arena of 65536
  bytes, the operator registry and a parser, reads the source, tokenizes it, parses it with directives and
  custom grammars, infers types, prints what it found, and lets a back end write the output file, which it
  may run.

  \<^item> \<open>Morphl_Prelude\<close>: string views, C strings, growth of arrays, generic lemmas.
  \<^item> \<open>Intern_Table\<close>: the arena, \<open>str_concat\<close> and the intern table of \<open>src/util/util.c\<close>.  A locale states what the
    clients rely on (symbols are stable, distinct names have distinct symbols); its interpretation \<open>st\<close> on
    \<open>interns_intern\<close> is used by every theory that interns.
  \<^item> \<open>Lexer\<close>: \<open>src/lexer/lexer.c\<close>.  The scanning loop against an inductive definition of lexeme sequences.
  \<^item> \<open>Ast\<close>: nodes and the printer of \<open>src/ast/ast.c\<close>.
  \<^item> \<open>Operators\<close>: the operator table of \<open>src/parser/operators.c\<close>, its initialisation and its lookups.
  \<^item> \<open>Builtin_Parser\<close>: \<open>src/parser/builtin_parser.c\<close>, the prefix syntax of the builtin operators.
  \<^item> \<open>Diagnostics\<close>: \<open>src/util/error.c\<close>, \<open>src/util/file.c\<close> and \<open>src/util/fs.c\<close>: errors, sinks, source lines, paths.
  \<^item> \<open>Types\<close>, \<open>Type_Context\<close>: \<open>src/typing/typing.c\<close> and \<open>src/typing/type_context.c\<close>.  A type is a cell of the arena and
    a \<open>MorphlType*\<close> an optional index, so that types can be shared, changed in place and cyclic, as in C.
  \<^item> \<open>Inference\<close>: \<open>src/typing/inference.c\<close>, both entry points with all operators and node kinds.
    \<open>Inference_Laws\<close> and \<open>Inference_Scopes\<close> hold the frame argument: a locale for relations that every
    elementary step keeps, whose instances give the invariants.  \<open>Typing_Rules\<close> states the typing rules as an
    inductive relation and relates inference to it.
  \<^item> \<open>Grammar\<close>, \<open>Grammar_Parser\<close>: \<open>src/parser/parser.c\<close>, the loader of grammar files, the recogniser and the tree builder.
    \<open>Grammar_Derivations\<close> (what a grammar derives, and that parsing returns) and \<open>Grammar_Trees\<close> (what trees are
    built) hold the laws.
  \<^item> \<open>Pp_Actions\<close>: the preprocessor actions of \<open>src/parser/operators.c\<close> that work on the type context.
  \<^item> \<open>Scoped_Parser\<close>: \<open>src/parser/scoped_parser.c\<close> with \<open>$syntax\<close> and \<open>$import\<close>: the grammar stack, the statement loop,
    preprocessing, modules, the root node, the typing pass.  \<open>Scoped_Laws\<close>: what parsing leaves alone;
    \<open>Scoped_Plain\<close>: sources without directives are read as by \<open>builtin_parse_ast\<close>.  \<open>Scoped_Context\<close>: the type
    context stays well formed and is left as it was entered.  The locale \<open>parsing_frame\<close> is the interface of the
    parser's loops for such relations.
  \<^item> \<open>C_Backend\<close>: \<open>src/backend/c.c\<close>, the back end that writes C, and what it writes.
  \<^item> \<open>Vm_Bytecode\<close>: \<open>src/backend/vm.c\<close>, the back end that writes bytecode.  \<open>Vm_Runtime\<close>: \<open>src/runtime/vm_runtime.c\<close>, with the
    part of the C library it uses for numbers in \<open>C_Double\<close>.  \<open>Vm_Image\<close>, \<open>Vm_Correct\<close> and \<open>Vm_Properties\<close>: a file
    that is written is read back as it was, and running it agrees with a reference semantics of the tree.
  \<^item> \<open>Driver\<close>: \<open>src/main.c\<close>, \<open>src/backend/backend.c\<close> and \<open>type_context_print_debug\<close>, which put the parts together.

  \<^bold>\<open>How the state is modelled.\<close>  A \<open>struct\<close> is a record or datatype; what the C structures share through pointers
  (intern table, arena, type cells, diagnostics) is threaded through: the type context carries it, and the
  scoped parser carries the type context.  An out parameter and a Boolean result are an option or a pair.
  A token cursor is the list of tokens from it on.  Symbols and sizes are natural numbers, and words of
  32 or 64 bits where the code lets them wrap around (hashes, \<open>size_t\<close> differences, bytecode fields).  The
  file system is a map; diagnostics and printed text are lists of strings.  \<open>malloc\<close>, \<open>realloc\<close> and opening and
  writing the output file are taken to succeed; requests that do not fit the arena fail as in the code.
  A function has the value \<open>None\<close> (or none of its results) where the C code reads or writes out of bounds.

  \<^bold>\<open>Bounds.\<close>  Functions that can recurse without end take a number of levels.  Type equality, type printing and the
  walk of the C back end: \<open>n\<close>, where a number above the depth of the types is enough, and no number is for types that
  contain themselves (\<open>type_equality_diverges\<close>).  Grammar parsing: the depth limit of the code, with which it always
  returns.  Imports: \<open>k\<close>; a module takes 1664 bytes of the arena, so 39 levels are enough for every program
  (\<open>tool_import_levels\<close>).  The virtual machine and all loops over lists, lines and arrays end and need no bound.

  \<^bold>\<open>What the lemmas show.\<close>  For the parts: the intern table implements a list of names; the lexer implements its
  specification, loses nothing and places tokens; the builtin parser reads back what is printed; the
  scopes implement a stack of maps and forward declarations are resolved once; inference computes the types of the
  rules, keeps the context well formed and leaves enclosing scopes alone; what the grammar parser accepts the grammar
  derives, and its trees come from the grammar's templates and the tokens; a program has its own grammars,
  and reading it, with its modules and directives, keeps the type context well formed and its scopes balanced;
  the C back end keeps the shape of operator expressions and cuts its output silently; bytecode loads as it was
  written and runs like the reference semantics.  For the whole: with \<open>--backend vm --run\<close> the tool ends as the reference
  semantics of the parsed tree says.  The error properties state what the code does where it goes wrong: calls
  never return, a nested function ends \<open>$ret\<close>, a full arena closes the enclosing scope, abandoned repetitions keep
  captures.

  \<^bold>\<open>Not modelled.\<close>  The release of memory (and with it the use of released text after \<open>$import\<close>); the array
  capacities of the grammar; failures of \<open>malloc\<close> and of output files; \<open>fs_path_exists\<close>
  and \<open>fs_is_directory\<close>, which nothing calls; the Windows branches; the addresses \<open>%p\<close> prints, which are a
  parameter; the headers \<open>interface/abi.h\<close> and \<open>data/stream.h\<close>, which only name types; tests and examples.
\<close>

end
